(* ===== verification/DBSC_Prelude.thy ===== *)
theory DBSC_Prelude
  imports Main "HOL-Library.Word" "HOL-Library.State_Monad"
begin

text \<open>
  Shared vocabulary of the development.

  \<^item> The \<^emph>\<open>world\<close>: what the C library and the operating system decide for a run. Every
    \<^verbatim>\<open>malloc\<close>, \<^verbatim>\<open>realloc\<close> and \<^verbatim>\<open>strdup\<close> draws one answer of \<open>mem_ok\<close>, every \<^verbatim>\<open>time(NULL)\<close>
    one reading of \<open>wall_clock\<close>, every \<^verbatim>\<open>clock_gettime\<close> one of \<open>realtime\<close> and every
    \<^verbatim>\<open>getentropy\<close> one of \<open>entropy\<close>; a counter per source says how many draws were made.
    Nothing is assumed about the answers, so a theorem holds for every pattern of allocation
    failures and for every clock.
  \<^item> Undefined behaviour of C (an access outside a buffer, a read of uninitialised memory, a
    NULL pointer passed to \<^verbatim>\<open>strcmp\<close> or dereferenced) sets the sticky flag \<open>undef\<close>.
  \<^item> Programs are state monads over an extension of the world, written with \<open>do\<close>.
  \<^item> Three judgements carry the proofs: \<open>wp\<close> (weakest precondition), \<open>framed\<close> (changes
    nothing but draw counters, has no undefined behaviour, result satisfies a predicate) and
    \<open>returns\<close> (the result when no allocation fails).
\<close>

section \<open>The world\<close>

type_synonym byte = "8 word"

record world =
  mem_ok :: "nat \<Rightarrow> bool"
  mallocs :: nat
  wall_clock :: "nat \<Rightarrow> int"
  clock_reads :: nat
  realtime :: "nat \<Rightarrow> (int \<times> int) option"
  realtime_reads :: nat
  entropy :: "nat \<Rightarrow> (nat \<Rightarrow> byte) option"
  entropy_reads :: nat
  undef :: bool

abbreviation ret :: "'b \<Rightarrow> ('w, 'b) state" where
  "ret \<equiv> State_Monad.return"

definition alloc :: "('a world_scheme, bool) state" where
  "alloc = State (\<lambda>w. (mem_ok w (mallocs w), w\<lparr>mallocs := Suc (mallocs w)\<rparr>))"

definition ub :: "'b \<Rightarrow> ('a world_scheme, 'b) state" where
  "ub dummy = State (\<lambda>w. (dummy, w\<lparr>undef := True\<rparr>))"

definition time_now :: "('a world_scheme, int) state" where
  "time_now = State (\<lambda>w. (wall_clock w (clock_reads w), w\<lparr>clock_reads := Suc (clock_reads w)\<rparr>))"

definition clock_gettime :: "('a world_scheme, (int \<times> int) option) state" where
  "clock_gettime = State (\<lambda>w. (realtime w (realtime_reads w),
      w\<lparr>realtime_reads := Suc (realtime_reads w)\<rparr>))"

definition getentropy :: "nat \<Rightarrow> ('a world_scheme, byte list option) state" where
  "getentropy n = State (\<lambda>w.
      (map_option (\<lambda>f. map f [0..<n]) (entropy w (entropy_reads w)),
       w\<lparr>entropy_reads := Suc (entropy_reads w)\<rparr>))"

lemma run_alloc [simp]:
  "run_state alloc w = (mem_ok w (mallocs w), w\<lparr>mallocs := Suc (mallocs w)\<rparr>)"
  by (simp add: alloc_def)

lemma run_ub [simp]: "run_state (ub d) w = (d, w\<lparr>undef := True\<rparr>)"
  by (simp add: ub_def)

lemma run_time_now [simp]:
  "run_state time_now w =
     (wall_clock w (clock_reads w), w\<lparr>clock_reads := Suc (clock_reads w)\<rparr>)"
  by (simp add: time_now_def)

lemma run_clock_gettime [simp]:
  "run_state clock_gettime w =
     (realtime w (realtime_reads w), w\<lparr>realtime_reads := Suc (realtime_reads w)\<rparr>)"
  by (simp add: clock_gettime_def)

lemma run_getentropy [simp]:
  "run_state (getentropy n) w =
     (map_option (\<lambda>f. map f [0..<n]) (entropy w (entropy_reads w)),
      w\<lparr>entropy_reads := Suc (entropy_reads w)\<rparr>)"
  by (simp add: getentropy_def)

section \<open>C strings\<close>

text \<open>
  A \<^verbatim>\<open>char *\<close> is a \<open>string option\<close>: \<open>None\<close> is NULL, \<open>Some s\<close> points to the characters of
  \<open>s\<close> and a terminator. The characters before the terminator are never NUL; \<open>cstr\<close> cuts a
  buffer with a length at its first NUL, which is what C sees when such a buffer is terminated
  and passed on as a string.
\<close>

definition cstr :: "string \<Rightarrow> string" where
  "cstr s = takeWhile (\<lambda>c. c \<noteq> CHR 0x00) s"

definition malloc_str :: "string \<Rightarrow> ('a world_scheme, string option) state" where
  "malloc_str s = do { ok \<leftarrow> alloc; ret (if ok then Some s else None) }"

abbreviation strdup :: "string \<Rightarrow> ('a world_scheme, string option) state" where
  "strdup \<equiv> malloc_str"

definition strcmp_eq :: "string option \<Rightarrow> string option \<Rightarrow> ('a world_scheme, bool) state" where
  "strcmp_eq p q = (case (p, q) of (Some a, Some b) \<Rightarrow> ret (a = b) | _ \<Rightarrow> ub False)"

text \<open>The \<^verbatim>\<open>%s\<close> of a \<^verbatim>\<open>printf\<close> with a NULL argument is undefined.\<close>

definition str_arg :: "string option \<Rightarrow> ('a world_scheme, string) state" where
  "str_arg p = (case p of Some s \<Rightarrow> ret s | None \<Rightarrow> ub [])"

text \<open>
  A buffer of \<open>cap\<close> bytes that holds the string \<open>buf\<close>: appending \<open>s\<close> with \<^verbatim>\<open>sprintf\<close> or
  \<^verbatim>\<open>strcat\<close> needs room for \<open>s\<close> and the terminator.
\<close>

definition buf_append :: "nat \<Rightarrow> string \<Rightarrow> string \<Rightarrow> ('a world_scheme, string) state" where
  "buf_append cap buf s =
     (if length buf + length s < cap then ret (buf @ s) else ub buf)"

definition buf_append_if ::
  "nat \<Rightarrow> bool \<Rightarrow> string \<Rightarrow> string \<Rightarrow> ('a world_scheme, string) state" where
  "buf_append_if cap c buf s = (if c then buf_append cap buf s else ret buf)"

definition str_of :: "string option \<Rightarrow> string" where
  "str_of p = (case p of None \<Rightarrow> [] | Some s \<Rightarrow> s)"

text \<open>\<^verbatim>\<open>p && *p\<close>: the pointer is not NULL and the string not empty.\<close>

definition nonempty :: "string option \<Rightarrow> bool" where
  "nonempty p \<longleftrightarrow> str_of p \<noteq> []"

lemma str_of_simps [simp]: "str_of None = []" "str_of (Some s) = s"
  by (simp_all add: str_of_def)

lemma nonempty_simps [simp]: "\<not> nonempty None" "nonempty (Some s) \<longleftrightarrow> s \<noteq> []"
  by (simp_all add: nonempty_def)

lemma strcmp_eq_Some [simp]: "strcmp_eq (Some a) (Some b) = ret (a = b)"
  by (simp add: strcmp_eq_def)

lemma str_arg_Some [simp]: "str_arg (Some a) = ret a"
  by (simp add: str_arg_def)

lemma buf_append_fits: "length buf + length s < cap \<Longrightarrow> buf_append cap buf s = ret (buf @ s)"
  by (simp add: buf_append_def)

lemma buf_append_if_fits:
  "(c \<Longrightarrow> length buf + length s < cap) \<Longrightarrow>
   buf_append_if cap c buf s = ret (buf @ (if c then s else []))"
  by (simp add: buf_append_if_def buf_append_fits)

section \<open>printf conversions\<close>

text \<open>\<^verbatim>\<open>%d\<close>, and below \<^verbatim>\<open>%02x\<close>.\<close>

definition digit_char :: "nat \<Rightarrow> char" where
  "digit_char d = char_of (48 + d)"

fun print_nat :: "nat \<Rightarrow> string" where
  "print_nat n = (if n < 10 then [digit_char n] else print_nat (n div 10) @ [digit_char (n mod 10)])"

declare print_nat.simps [simp del]

definition print_int :: "int \<Rightarrow> string" where
  "print_int i = (if i < 0 then CHR ''-'' # print_nat (nat (- i)) else print_nat (nat i))"

text \<open>The same digits computed on integers, which the evaluator handles in binary.\<close>

function print_digits :: "int \<Rightarrow> string" where
  "print_digits i = (if i < 10 then [digit_char (nat i)] else print_digits (i div 10) @ [digit_char (nat (i mod 10))])"
  by pat_completeness auto

termination
  by (relation "measure nat") auto

declare print_digits.simps [simp del]

lemma print_digits_nat: "0 \<le> i \<Longrightarrow> print_digits i = print_nat (nat i)"
proof (induction i rule: print_digits.induct)
  case (1 i)
  show ?case
  proof (cases "i < 10")
    case True
    with 1(2) have "nat i < 10" by linarith
    with True show ?thesis by (simp add: print_digits.simps [of i] print_nat.simps [of "nat i"])
  next
    case False
    with 1 have "print_digits (i div 10) = print_nat (nat (i div 10))" by simp
    moreover have "\<not> nat i < 10" using False by linarith
    ultimately show ?thesis
      using False 1(2)
      by (simp add: print_digits.simps [of i] print_nat.simps [of "nat i"] nat_div_distrib nat_mod_distrib)
  qed
qed

lemma print_int_code [code]:
  "print_int i = (if i < 0 then CHR ''-'' # print_digits (- i) else print_digits i)"
  by (simp add: print_int_def print_digits_nat)

text \<open>\<^verbatim>\<open>%02d\<close> of a number below 100.\<close>

definition two_digits :: "int \<Rightarrow> string" where
  "two_digits n = [digit_char (nat n div 10), digit_char (nat n mod 10)]"

definition hex_char :: "nat \<Rightarrow> char" where
  "hex_char d = (if d < 10 then char_of (48 + d) else char_of (87 + d))"

definition print_hex2 :: "byte \<Rightarrow> string" where
  "print_hex2 b = [hex_char (unat b div 16), hex_char (unat b mod 16)]"

lemma length_print_hex2 [simp]: "length (print_hex2 b) = 2"
  by (simp add: print_hex2_def)

lemma hex_char_inj: "a < 16 \<Longrightarrow> b < 16 \<Longrightarrow> hex_char a = hex_char b \<Longrightarrow> a = b"
  by (auto simp: hex_char_def of_char_of dest!: arg_cong [where f = "of_char :: char \<Rightarrow> nat"]
        split: if_splits)

lemma print_hex2_inj: "print_hex2 a = print_hex2 b \<Longrightarrow> a = b"
proof -
  assume h: "print_hex2 a = print_hex2 b"
  have lt: "unat x div 16 < 16" "unat x mod 16 < 16" for x :: byte
    using unsigned_less [of x, where 'a = nat] by (auto simp: less_mult_imp_div_less)
  from h have "hex_char (unat a div 16) = hex_char (unat b div 16)"
    and "hex_char (unat a mod 16) = hex_char (unat b mod 16)"
    by (simp_all add: print_hex2_def)
  then have "unat a div 16 = unat b div 16" "unat a mod 16 = unat b mod 16"
    using lt by (blast intro: hex_char_inj)+
  then have "unat a = unat b"
    by (metis div_mult_mod_eq)
  then show "a = b" by (simp add: word_unat_eq_iff)
qed

section \<open>Judgements\<close>

definition wp :: "('w, 'b) state \<Rightarrow> ('b \<Rightarrow> 'w \<Rightarrow> bool) \<Rightarrow> 'w \<Rightarrow> bool" where
  "wp m Q w = (case run_state m w of (r, w') \<Rightarrow> Q r w')"

named_theorems wps \<open>rewrite rules for weakest preconditions\<close>

lemma wp_return [wps]: "wp (ret x) Q w = Q x w"
  by (simp add: wp_def)

lemma wp_bind [wps]: "wp (State_Monad.bind m f) Q w = wp m (\<lambda>r. wp (f r) Q) w"
  by (simp add: wp_def split: prod.splits)

lemma wp_return_fun: "wp (ret x) Q = Q x"
  by (simp add: fun_eq_iff wp_return)

lemma wp_bindI: "wp m (\<lambda>r. wp (f r) Q) w \<Longrightarrow> wp (State_Monad.bind m f) Q w"
  by (simp add: wp_bind)

lemma wp_alloc [wps]: "wp alloc Q w = Q (mem_ok w (mallocs w)) (w\<lparr>mallocs := Suc (mallocs w)\<rparr>)"
  by (simp add: wp_def)

lemma wp_ub [wps]: "wp (ub d) Q w = Q d (w\<lparr>undef := True\<rparr>)"
  by (simp add: wp_def)

lemma wp_time_now [wps]:
  "wp time_now Q w =
     Q (wall_clock w (clock_reads w)) (w\<lparr>clock_reads := Suc (clock_reads w)\<rparr>)"
  by (simp add: wp_def)

lemma wpD: "wp m Q w \<Longrightarrow> run_state m w = (r, w') \<Longrightarrow> Q r w'"
  by (simp add: wp_def)

lemma wp_mono: "wp m P w \<Longrightarrow> (\<And>r w'. P r w' \<Longrightarrow> Q r w') \<Longrightarrow> wp m Q w"
  by (auto simp: wp_def)

lemma wp_conj: "wp m P w \<Longrightarrow> wp m Q w \<Longrightarrow> wp m (\<lambda>r w'. P r w' \<and> Q r w') w"
  by (auto simp: wp_def)

text \<open>\<open>frame w w'\<close>: from \<open>w\<close> to \<open>w'\<close> only draw counters moved, those of the clock and of the entropy source forwards.\<close>

definition frame :: "'a world_scheme \<Rightarrow> 'a world_scheme \<Rightarrow> bool" where
  "frame w w' \<longleftrightarrow> mem_ok w' = mem_ok w \<and> wall_clock w' = wall_clock w \<and>
     realtime w' = realtime w \<and> entropy w' = entropy w \<and> undef w' = undef w \<and>
     clock_reads w \<le> clock_reads w' \<and> entropy_reads w \<le> entropy_reads w' \<and>
     world.more w' = world.more w"

lemma frame_refl [simp, intro!]: "frame w w"
  by (simp add: frame_def)

lemma frame_trans [trans]: "frame u v \<Longrightarrow> frame v w \<Longrightarrow> frame u w"
  by (simp add: frame_def)

lemma frame_updates [simp]:
  "frame w (w'\<lparr>mallocs := n\<rparr>) = frame w w'"
  "frame w (w'\<lparr>realtime_reads := n\<rparr>) = frame w w'"
  by (simp_all add: frame_def)

lemma frame_clock [simp]:
  "frame w w' \<Longrightarrow> clock_reads w' \<le> n \<Longrightarrow> frame w (w'\<lparr>clock_reads := n\<rparr>)"
  by (simp add: frame_def)

lemma frame_draw [simp]:
  "frame w w' \<Longrightarrow> entropy_reads w' \<le> n \<Longrightarrow> frame w (w'\<lparr>entropy_reads := n\<rparr>)"
  by (simp add: frame_def)

lemma frame_undef: "frame w w' \<Longrightarrow> undef w' = undef w"
  and frame_mem_ok: "frame w w' \<Longrightarrow> mem_ok w' = mem_ok w"
  and frame_wall_clock: "frame w w' \<Longrightarrow> wall_clock w' = wall_clock w"
  and frame_entropy: "frame w w' \<Longrightarrow> entropy w' = entropy w"
  and frame_realtime: "frame w w' \<Longrightarrow> realtime w' = realtime w"
  by (simp_all add: frame_def)

definition framed :: "('a world_scheme, 'b) state \<Rightarrow> ('b \<Rightarrow> bool) \<Rightarrow> bool" where
  "framed m P \<longleftrightarrow> (\<forall>w. wp m (\<lambda>r w'. frame w w' \<and> P r) w)"

lemma framedI: "(\<And>w. wp m (\<lambda>r w'. frame w w' \<and> P r) w) \<Longrightarrow> framed m P"
  by (simp add: framed_def)

lemma framedD: "framed m P \<Longrightarrow> run_state m w = (r, w') \<Longrightarrow> frame w w' \<and> P r"
  unfolding framed_def wp_def by (drule spec [of _ w]) simp

named_theorems framed_intros \<open>framed judgements\<close>

lemma framed_return [framed_intros]: "P r \<Longrightarrow> framed (ret r) P"
  by (simp add: framed_def wps)

lemma framed_bind:
  "framed m P \<Longrightarrow> (\<And>r. P r \<Longrightarrow> framed (f r) Q) \<Longrightarrow> framed (State_Monad.bind m f) Q"
proof (rule framedI)
  fix w
  assume m: "framed m P" and f: "\<And>r. P r \<Longrightarrow> framed (f r) Q"
  obtain a w1 where a: "run_state m w = (a, w1)" by fastforce
  obtain b w2 where b: "run_state (f a) w1 = (b, w2)" by fastforce
  from framedD [OF m a] have "frame w w1" "P a" by auto
  moreover from framedD [OF f [OF \<open>P a\<close>] b] have "frame w1 w2" "Q b" by auto
  ultimately show "wp (State_Monad.bind m f) (\<lambda>r w'. frame w w' \<and> Q r) w"
    using a b by (auto simp: wp_def intro: frame_trans)
qed

lemma framed_weaken: "framed m P \<Longrightarrow> (\<And>r. P r \<Longrightarrow> Q r) \<Longrightarrow> framed m Q"
  unfolding framed_def by (blast intro: wp_mono)

lemma framed_alloc [framed_intros]: "framed alloc (\<lambda>_. True)"
  by (simp add: framed_def wps)

lemma framed_time_now [framed_intros]: "framed time_now (\<lambda>_. True)"
  by (simp add: framed_def wps)

lemma framed_getentropy [framed_intros]:
  "framed (getentropy n) (\<lambda>r. \<forall>bs. r = Some bs \<longrightarrow> length bs = n)"
  by (auto simp: framed_def wp_def)

lemma framed_clock_gettime [framed_intros]: "framed clock_gettime (\<lambda>_. True)"
  by (auto simp: framed_def wp_def)

lemma framed_malloc_str [framed_intros]:
  "framed (malloc_str s) (\<lambda>r. r = None \<or> r = Some s)"
  by (simp add: framed_def malloc_str_def wps)

lemma wp_framed:
  assumes "framed m P" and "\<And>r w'. frame w w' \<Longrightarrow> P r \<Longrightarrow> Q r w'"
  shows "wp m Q w"
  using assms by (auto simp: framed_def wp_def split: prod.splits)

text \<open>The result when no allocation fails.\<close>

definition returns :: "('a world_scheme, 'b) state \<Rightarrow> 'b \<Rightarrow> bool" where
  "returns m r \<longleftrightarrow> (\<forall>w. (\<forall>n. mem_ok w n) \<longrightarrow> wp m (\<lambda>r' w'. frame w w' \<and> r' = r) w)"

named_theorems returns_intros \<open>results when memory is available\<close>

lemma returns_return [returns_intros]: "returns (ret r) r"
  by (simp add: returns_def wps)

lemma returns_returnI: "x = r \<Longrightarrow> returns (ret x) r"
  by (simp add: returns_return)

lemma returns_bind:
  "returns m a \<Longrightarrow> returns (f a) b \<Longrightarrow> returns (State_Monad.bind m f) b"
  unfolding returns_def
proof (intro allI impI)
  fix w :: "'a world_scheme"
  assume m: "\<forall>w. (\<forall>n. mem_ok w n) \<longrightarrow> wp m (\<lambda>r' w'. frame w w' \<and> r' = a) w"
    and f: "\<forall>w. (\<forall>n. mem_ok w n) \<longrightarrow> wp (f a) (\<lambda>r' w'. frame w w' \<and> r' = b) w"
    and ok: "\<forall>n. mem_ok w n"
  obtain a' w1 where a: "run_state m w = (a', w1)" by fastforce
  from wpD [OF m [rule_format, OF ok [rule_format]] a] have w1: "frame w w1" "a' = a" by auto
  then have ok1: "\<forall>n. mem_ok w1 n" using ok by (simp add: frame_mem_ok)
  obtain b' w2 where b: "run_state (f a) w1 = (b', w2)" by fastforce
  from wpD [OF f [rule_format, OF ok1 [rule_format]] b] have "frame w1 w2" "b' = b" by auto
  with a b w1 show "wp (State_Monad.bind m f) (\<lambda>r' w'. frame w w' \<and> r' = b) w"
    by (auto simp: wp_def intro: frame_trans)
qed

lemma returns_alloc [returns_intros]: "returns alloc True"
  by (simp add: returns_def wps)

lemma returns_malloc_str [returns_intros]: "returns (malloc_str s) (Some s)"
  by (simp add: returns_def malloc_str_def wps)

lemma returnsD:
  "returns m r \<Longrightarrow> (\<And>n. mem_ok w n) \<Longrightarrow> run_state m w = (r', w') \<Longrightarrow> frame w w' \<and> r' = r"
  unfolding returns_def wp_def by (drule spec [of _ w]) auto

text \<open>\<open>starved w\<close>: some allocation of the run fails.\<close>

definition starved :: "'a world_scheme \<Rightarrow> bool" where
  "starved w \<longleftrightarrow> (\<exists>n. \<not> mem_ok w n)"

lemma starvedI: "\<not> mem_ok w n \<Longrightarrow> starved w"
  by (auto simp: starved_def)

lemma frame_starved: "frame w w' \<Longrightarrow> starved w' = starved w"
  by (simp add: starved_def frame_def)

lemma returns_notD: "returns m r \<Longrightarrow> run_state m w = (r', w') \<Longrightarrow> r' \<noteq> r \<Longrightarrow> starved w"
  using returnsD [of m r w r' w'] by (auto simp: starved_def)

lemma wp_returns: "returns m r \<Longrightarrow> \<not> starved w \<Longrightarrow> (\<And>w'. frame w w' \<Longrightarrow> Q r w') \<Longrightarrow> wp m Q w"
  by (auto simp: returns_def starved_def intro: wp_mono)

text \<open>A framed computation that differs from its result under plenty has met a failed allocation.\<close>

lemma wp_framed_avail:
  assumes "framed m P" and "returns m r0"
    and "\<And>r w'. frame w w' \<Longrightarrow> P r \<Longrightarrow> r \<noteq> r0 \<longrightarrow> starved w \<Longrightarrow> Q r w'"
  shows "wp m Q w"
proof -
  obtain r w' where run: "run_state m w = (r, w')" by fastforce
  from framedD [OF assms(1) run] returns_notD [OF assms(2) run] assms(3) [of w' r]
  have "Q r w'" by blast
  with run show ?thesis by (simp add: wp_def)
qed

lemma returns_cong: "returns m r \<Longrightarrow> m = m' \<Longrightarrow> r = r' \<Longrightarrow> returns m' r'"
  by simp

text \<open>
  \<open>attempts m r bad\<close>: without failed allocations \<open>m\<close> answers \<open>r\<close>, and with them it either does
  so too or answers something \<open>bad\<close>, an error report.
\<close>

definition attempts :: "('a world_scheme, 'b) state \<Rightarrow> 'b \<Rightarrow> ('b \<Rightarrow> bool) \<Rightarrow> bool" where
  "attempts m r bad \<longleftrightarrow> framed m (\<lambda>x. bad x \<or> x = r) \<and> returns m r"

lemma attemptsI: "framed m (\<lambda>x. bad x \<or> x = r) \<Longrightarrow> returns m r \<Longrightarrow> attempts m r bad"
  by (simp add: attempts_def)

lemma attempts_framed: "attempts m r bad \<Longrightarrow> framed m (\<lambda>x. bad x \<or> x = r)"
  and attempts_returns: "attempts m r bad \<Longrightarrow> returns m r"
  by (simp_all add: attempts_def)

named_theorems attempts_intros \<open>results with and without memory\<close>

lemma attempts_return: "x = r \<Longrightarrow> attempts (ret x) r bad"
  by (simp add: attempts_def framed_return returns_return)

lemma attempts_bind:
  assumes "attempts m a bad" and "\<And>x. bad x \<Longrightarrow> framed (f x) bad'" and "attempts (f a) b bad'"
  shows "attempts (State_Monad.bind m f) b bad'"
proof (rule attemptsI)
  show "framed (State_Monad.bind m f) (\<lambda>x. bad' x \<or> x = b)"
    by (rule framed_bind [OF attempts_framed [OF assms(1)]])
       (use assms(2) attempts_framed [OF assms(3)] in \<open>auto intro: framed_weaken\<close>)
  show "returns (State_Monad.bind m f) b"
    using assms(1,3) by (blast intro: returns_bind attempts_returns)
qed

lemma attempts_weaken: "attempts m r bad \<Longrightarrow> (\<And>x. bad x \<Longrightarrow> bad' x) \<Longrightarrow> attempts m r bad'"
  unfolding attempts_def by (blast intro: framed_weaken)

lemma attempts_alloc [attempts_intros]: "attempts alloc True Not"
  by (rule attemptsI [OF framed_weaken [OF framed_alloc] returns_alloc]) simp

lemma attempts_malloc_str [attempts_intros]: "attempts (malloc_str s) (Some s) (\<lambda>x. x = None)"
  by (rule attemptsI [OF framed_malloc_str returns_malloc_str])

lemma attemptsD:
  assumes "attempts m r bad" and "run_state m w = (x, w')"
  shows "frame w w' \<and> (x = r \<or> bad x \<and> starved w)"
  using framedD [OF attempts_framed [OF assms(1)] assms(2)]
    returns_notD [OF attempts_returns [OF assms(1)] assms(2)] by blast

lemma wp_attempts:
  assumes "attempts m r0 bad" and "\<And>r w'. frame w w' \<Longrightarrow> r = r0 \<or> bad r \<and> starved w \<Longrightarrow> Q r w'"
  shows "wp m Q w"
  using assms attemptsD [OF assms(1)] by (auto simp: wp_def split: prod.splits)

text \<open>A world where every allocation succeeds, used to evaluate programs.\<close>

definition demo_world :: world where
  "demo_world = \<lparr>mem_ok = (\<lambda>_. True), mallocs = 0, wall_clock = (\<lambda>n. 100 + int n), clock_reads = 0,
     realtime = (\<lambda>_. Some (100, 0)), realtime_reads = 0, entropy = (\<lambda>_. Some (\<lambda>_. 7)),
     entropy_reads = 0, undef = False\<rparr>"

lemma demo_world_sel [simp]: "\<not> starved demo_world" "\<not> undef demo_world"
  by (simp_all add: demo_world_def starved_def)

section \<open>Lists\<close>

lemma take_list_update_last: "i < length xs \<Longrightarrow> take (Suc i) (xs[i := x]) = take i xs @ [x]"
  by (simp add: take_Suc_conv_app_nth)

lemma takeWhile_append_stop:
  "\<forall>c \<in> set s. P c \<Longrightarrow> \<not> P d \<Longrightarrow> takeWhile P (s @ d # t) = s"
  by (induction s) auto

lemma dropWhile_append_stop:
  "\<forall>c \<in> set s. P c \<Longrightarrow> \<not> P d \<Longrightarrow> dropWhile P (s @ d # t) = d # t"
  by (induction s) auto

lemma dropWhile_hd: "\<not> P c \<Longrightarrow> dropWhile P (c # s) = c # s"
  by simp

lemma cstr_id [simp]: "CHR 0x00 \<notin> set s \<Longrightarrow> cstr s = s"
  unfolding cstr_def by (induction s) auto

lemma cstr_no_nul [simp]: "CHR 0x00 \<notin> set (cstr s)"
  unfolding cstr_def by (auto dest: set_takeWhileD)

end
