(* ===== verification/Algo.thy ===== *)
theory Algo
  imports DBSC_Prelude
begin

text \<open>
  The signature algorithm identifiers of \<^verbatim>\<open>include/algo/algo.h\<close> and \<^verbatim>\<open>src/algo/algo.c\<close>. A C
  enumeration argument is an \<^verbatim>\<open>int\<close>, so the validity test is over all integers.
\<close>

datatype OpenDBSC_Algo = ALGO_ES256 | ALGO_RS256 | ALGO_NONE

fun algo_value :: "OpenDBSC_Algo \<Rightarrow> int" where
  "algo_value ALGO_ES256 = 0"
| "algo_value ALGO_RS256 = 1"
| "algo_value ALGO_NONE = 2"

definition dbsc_sign_is_valid :: "int \<Rightarrow> bool" where
  "dbsc_sign_is_valid algo =
     (if algo = algo_value ALGO_ES256 then True
      else if algo = algo_value ALGO_RS256 then True
      else if algo = algo_value ALGO_NONE then True
      else False)"

lemma dbsc_sign_is_valid_iff: "dbsc_sign_is_valid a \<longleftrightarrow> a \<in> range algo_value"
proof
  assume "dbsc_sign_is_valid a"
  then show "a \<in> range algo_value"
    unfolding dbsc_sign_is_valid_def by (auto simp del: algo_value.simps split: if_splits)
next
  assume "a \<in> range algo_value"
  then obtain x where "a = algo_value x" by blast
  then show "dbsc_sign_is_valid a"
    by (cases x) (simp_all add: dbsc_sign_is_valid_def)
qed

end
