(* ===== verification/Session.thy ===== *)
theory Session
  imports DBSC_Prelude
begin

text \<open>
  Sessions and request contexts: \<^verbatim>\<open>include/session/session.h\<close> and \<^verbatim>\<open>src/session/session.c\<close>.
  A \<^verbatim>\<open>OpenDBSC_Session *\<close> argument is an \<open>OpenDBSC_Session option\<close>; an operation that writes
  through it returns the pointer's new contents beside its return code. The lemmas say what a
  setter and a copy leave behind on each path, allocation failure included.
\<close>

section \<open>Data\<close>

datatype OpenDBSC_SessionState = ACTIVE | BOUND

record OpenDBSC_Session =
  s_id :: "string option"
  s_user_id :: "string option"
  s_state :: OpenDBSC_SessionState
  s_public_key :: "string option"
  s_algorithm :: "string option"
  s_challenge :: "string option"
  s_expires_at :: int
  s_has_expires :: bool
  s_created_at :: int

instantiation OpenDBSC_SessionState :: linorder
begin

fun less_eq_OpenDBSC_SessionState ::
  "OpenDBSC_SessionState \<Rightarrow> OpenDBSC_SessionState \<Rightarrow> bool" where
  "less_eq_OpenDBSC_SessionState BOUND ACTIVE = False"
| "less_eq_OpenDBSC_SessionState _ _ = True"

definition less_OpenDBSC_SessionState ::
  "OpenDBSC_SessionState \<Rightarrow> OpenDBSC_SessionState \<Rightarrow> bool" where
  "less_OpenDBSC_SessionState a b \<longleftrightarrow> a \<le> b \<and> a \<noteq> b"

instance
proof
  fix a b c :: OpenDBSC_SessionState
  show "(a < b) = (a \<le> b \<and> \<not> b \<le> a)"
    by (cases a; cases b) (simp_all add: less_OpenDBSC_SessionState_def)
  show "a \<le> a" by (cases a) simp_all
  show "a \<le> b \<Longrightarrow> b \<le> c \<Longrightarrow> a \<le> c" by (cases a; cases b; cases c) simp_all
  show "a \<le> b \<Longrightarrow> b \<le> a \<Longrightarrow> a = b" by (cases a; cases b) simp_all
  show "a \<le> b \<or> b \<le> a" by (cases a; cases b) simp_all
qed

end

definition OPENDBSC_STATE_ACTIVE_STR :: string where
  "OPENDBSC_STATE_ACTIVE_STR = ''active''"

definition OPENDBSC_STATE_BOUND_STR :: string where
  "OPENDBSC_STATE_BOUND_STR = ''bound''"

section \<open>Initialisation and release\<close>

definition session_defaults :: OpenDBSC_Session where
  "session_defaults = \<lparr>s_id = None, s_user_id = None, s_state = ACTIVE, s_public_key = None,
     s_algorithm = None, s_challenge = None, s_expires_at = 0, s_has_expires = False,
     s_created_at = 0\<rparr>"

definition opendbsc_session_init :: "OpenDBSC_Session option \<Rightarrow> OpenDBSC_Session option" where
  "opendbsc_session_init session =
     (case session of None \<Rightarrow> None | Some s \<Rightarrow> Some session_defaults)"

definition opendbsc_session_free :: "OpenDBSC_Session option \<Rightarrow> OpenDBSC_Session option" where
  "opendbsc_session_free session =
     (case session of None \<Rightarrow> None
      | Some s \<Rightarrow> opendbsc_session_init (Some (s\<lparr>s_id := None, s_user_id := None,
          s_public_key := None, s_algorithm := None, s_challenge := None\<rparr>)))"

lemma session_init_Some [simp]: "opendbsc_session_init (Some s) = Some session_defaults"
  by (simp add: opendbsc_session_init_def)

lemma session_free_Some [simp]: "opendbsc_session_free (Some s) = Some session_defaults"
  by (simp add: opendbsc_session_free_def)

lemma session_defaults_sel [simp]:
  "s_id session_defaults = None" "s_user_id session_defaults = None"
  "s_state session_defaults = ACTIVE" "s_public_key session_defaults = None"
  "s_algorithm session_defaults = None" "s_challenge session_defaults = None"
  "s_expires_at session_defaults = 0" "s_has_expires session_defaults = False"
  "s_created_at session_defaults = 0"
  by (simp_all add: session_defaults_def)

section \<open>Setters\<close>

text \<open>
  The static \<^verbatim>\<open>set_string\<close>: the field's old value goes in, the return code and its new value
  come out. On a failed \<^verbatim>\<open>strdup\<close> the old value stays.
\<close>

definition set_string ::
  "string option \<Rightarrow> string option \<Rightarrow> ('a world_scheme, int \<times> string option) state" where
  "set_string field v =
     (if v = None then ret (0, None)
      else do {
        copy \<leftarrow> strdup (str_of v);
        if copy = None then ret (-1, field) else ret (0, copy)
      })"

definition opendbsc_session_set_id :: "OpenDBSC_Session option \<Rightarrow> string option \<Rightarrow>
    ('a world_scheme, int \<times> OpenDBSC_Session option) state" where
  "opendbsc_session_set_id session v =
     (case session of None \<Rightarrow> ret (-1, None)
      | Some s \<Rightarrow> do { (rc, f) \<leftarrow> set_string (s_id s) v; ret (rc, Some (s\<lparr>s_id := f\<rparr>)) })"

definition opendbsc_session_set_user_id :: "OpenDBSC_Session option \<Rightarrow> string option \<Rightarrow>
    ('a world_scheme, int \<times> OpenDBSC_Session option) state" where
  "opendbsc_session_set_user_id session v =
     (case session of None \<Rightarrow> ret (-1, None)
      | Some s \<Rightarrow> do { (rc, f) \<leftarrow> set_string (s_user_id s) v;
                      ret (rc, Some (s\<lparr>s_user_id := f\<rparr>)) })"

definition opendbsc_session_set_public_key :: "OpenDBSC_Session option \<Rightarrow> string option \<Rightarrow>
    ('a world_scheme, int \<times> OpenDBSC_Session option) state" where
  "opendbsc_session_set_public_key session v =
     (case session of None \<Rightarrow> ret (-1, None)
      | Some s \<Rightarrow> do { (rc, f) \<leftarrow> set_string (s_public_key s) v;
                      ret (rc, Some (s\<lparr>s_public_key := f\<rparr>)) })"

definition opendbsc_session_set_algorithm :: "OpenDBSC_Session option \<Rightarrow> string option \<Rightarrow>
    ('a world_scheme, int \<times> OpenDBSC_Session option) state" where
  "opendbsc_session_set_algorithm session v =
     (case session of None \<Rightarrow> ret (-1, None)
      | Some s \<Rightarrow> do { (rc, f) \<leftarrow> set_string (s_algorithm s) v;
                      ret (rc, Some (s\<lparr>s_algorithm := f\<rparr>)) })"

definition opendbsc_session_set_challenge :: "OpenDBSC_Session option \<Rightarrow> string option \<Rightarrow>
    ('a world_scheme, int \<times> OpenDBSC_Session option) state" where
  "opendbsc_session_set_challenge session v =
     (case session of None \<Rightarrow> ret (-1, None)
      | Some s \<Rightarrow> do { (rc, f) \<leftarrow> set_string (s_challenge s) v;
                      ret (rc, Some (s\<lparr>s_challenge := f\<rparr>)) })"

definition opendbsc_session_set_state ::
  "OpenDBSC_Session option \<Rightarrow> OpenDBSC_SessionState \<Rightarrow> OpenDBSC_Session option" where
  "opendbsc_session_set_state session st =
     (case session of None \<Rightarrow> None | Some s \<Rightarrow> Some (s\<lparr>s_state := st\<rparr>))"

definition opendbsc_session_set_state_str ::
  "OpenDBSC_Session option \<Rightarrow> string option \<Rightarrow> int \<times> OpenDBSC_Session option" where
  "opendbsc_session_set_state_str session st =
     (case (session, st) of
        (Some s, Some v) \<Rightarrow>
          if v = OPENDBSC_STATE_ACTIVE_STR then (0, Some (s\<lparr>s_state := ACTIVE\<rparr>))
          else if v = OPENDBSC_STATE_BOUND_STR then (0, Some (s\<lparr>s_state := BOUND\<rparr>))
          else (-1, session)
      | _ \<Rightarrow> (-1, session))"

definition opendbsc_session_state_str :: "OpenDBSC_Session option \<Rightarrow> string option" where
  "opendbsc_session_state_str session =
     (case session of None \<Rightarrow> None
      | Some s \<Rightarrow> (case s_state s of BOUND \<Rightarrow> Some OPENDBSC_STATE_BOUND_STR
                  | ACTIVE \<Rightarrow> Some OPENDBSC_STATE_ACTIVE_STR))"

definition opendbsc_session_is_bound :: "OpenDBSC_Session option \<Rightarrow> bool" where
  "opendbsc_session_is_bound session =
     (case session of None \<Rightarrow> False | Some s \<Rightarrow> s_state s = BOUND)"

definition opendbsc_session_set_expires_at ::
  "OpenDBSC_Session option \<Rightarrow> int \<Rightarrow> OpenDBSC_Session option" where
  "opendbsc_session_set_expires_at session t =
     (case session of None \<Rightarrow> None
      | Some s \<Rightarrow> Some (s\<lparr>s_expires_at := t, s_has_expires := (t \<noteq> 0)\<rparr>))"

definition opendbsc_session_set_created_at ::
  "OpenDBSC_Session option \<Rightarrow> int \<Rightarrow> OpenDBSC_Session option" where
  "opendbsc_session_set_created_at session t =
     (case session of None \<Rightarrow> None | Some s \<Rightarrow> Some (s\<lparr>s_created_at := t\<rparr>))"

section \<open>Copy\<close>

definition opendbsc_session_copy ::
  "OpenDBSC_Session option \<Rightarrow> OpenDBSC_Session option \<Rightarrow>
    ('a world_scheme, int \<times> OpenDBSC_Session option) state" where
  "opendbsc_session_copy dest src =
     (case (opendbsc_session_free dest, src) of
        (Some d, Some s) \<Rightarrow> do {
          let d = d\<lparr>s_state := s_state s, s_expires_at := s_expires_at s,
                    s_has_expires := s_has_expires s, s_created_at := s_created_at s\<rparr>;
          (rc, f) \<leftarrow> set_string (s_id d) (s_id s);
          let d = d\<lparr>s_id := f\<rparr>;
          if rc \<noteq> 0 then ret (-1, Some d) else do {
          (rc, f) \<leftarrow> set_string (s_user_id d) (s_user_id s);
          let d = d\<lparr>s_user_id := f\<rparr>;
          if rc \<noteq> 0 then ret (-1, Some d) else do {
          (rc, f) \<leftarrow> set_string (s_public_key d) (s_public_key s);
          let d = d\<lparr>s_public_key := f\<rparr>;
          if rc \<noteq> 0 then ret (-1, Some d) else do {
          (rc, f) \<leftarrow> set_string (s_algorithm d) (s_algorithm s);
          let d = d\<lparr>s_algorithm := f\<rparr>;
          if rc \<noteq> 0 then ret (-1, Some d) else do {
          (rc, f) \<leftarrow> set_string (s_challenge d) (s_challenge s);
          let d = d\<lparr>s_challenge := f\<rparr>;
          if rc \<noteq> 0 then ret (-1, Some d) else ret (0, Some d) } } } }
        }
      | _ \<Rightarrow> ret (-1, dest))"

section \<open>New identifiers\<close>

text \<open>
  The UUIDv7 generator is the fetched library \<^verbatim>\<open>uuidv7-h\<close>, so it is a parameter: the status and
  the 16 bytes it computes from the timestamp and the random bytes, and the text of a UUID.
  The output buffer is given by its size (\<open>None\<close> for a NULL pointer).
\<close>

record uuidv7_ops =
  uuidv7_generate :: "64 word \<Rightarrow> byte list \<Rightarrow> int \<times> byte list"
  uuidv7_to_string :: "byte list \<Rightarrow> string"

definition opendbsc_session_new_id ::
  "uuidv7_ops \<Rightarrow> nat option \<Rightarrow> ('a world_scheme, int \<times> string) state" where
  "opendbsc_session_new_id U out =
     (case out of None \<Rightarrow> ret (-1, [])
      | Some out_size \<Rightarrow>
        if out_size < 37 then ret (-1, [])
        else do {
          tp \<leftarrow> clock_gettime;
          case tp of None \<Rightarrow> ret (-1, [])
          | Some (tv_sec, tv_nsec) \<Rightarrow> do {
              let unix_ts_ms = (word_of_int tv_sec * 1000 + word_of_int tv_nsec div 1000000 :: 64 word);
              rand \<leftarrow> getentropy 10;
              case rand of None \<Rightarrow> ret (-1, [])
              | Some rand_bytes \<Rightarrow>
                  (case uuidv7_generate U unix_ts_ms rand_bytes of (status, uuid) \<Rightarrow>
                     if status < 0 then ret (-1, [])
                     else do {
                       text \<leftarrow> buf_append out_size [] (uuidv7_to_string U uuid);
                       ret (0, text)
                     })
            }
        })"

section \<open>Request contexts\<close>

record OpenDBSC_Context =
  ctx_session_id :: "string option"

definition opendbsc_context_init :: "OpenDBSC_Context option \<Rightarrow> OpenDBSC_Context option" where
  "opendbsc_context_init ctx =
     (case ctx of None \<Rightarrow> None | Some c \<Rightarrow> Some (c\<lparr>ctx_session_id := None\<rparr>))"

definition opendbsc_context_set_session_id ::
  "OpenDBSC_Context option \<Rightarrow> string option \<Rightarrow> OpenDBSC_Context option" where
  "opendbsc_context_set_session_id ctx session_id =
     (case ctx of None \<Rightarrow> None | Some c \<Rightarrow> Some (c\<lparr>ctx_session_id := session_id\<rparr>))"

text \<open>The out parameter is the old contents of \<^verbatim>\<open>*session_id\<close>, \<open>None\<close> when the pointer is NULL.\<close>

definition opendbsc_context_get_session_id ::
  "OpenDBSC_Context option \<Rightarrow> string option option \<Rightarrow> bool \<times> string option option" where
  "opendbsc_context_get_session_id ctx out =
     (case (ctx, out) of
        (Some c, Some _) \<Rightarrow> (ctx_session_id c \<noteq> None, Some (ctx_session_id c))
      | _ \<Rightarrow> (False, out))"

section \<open>What the setters and the copy leave behind\<close>

lemma framed_set_string [framed_intros]:
  "framed (set_string f v) (\<lambda>(rc, f'). (rc = 0 \<and> f' = v) \<or> (rc = -1 \<and> v \<noteq> None \<and> f' = f))"
  by (auto simp: framed_def set_string_def malloc_str_def wps split: if_splits)

lemma returns_set_string [returns_intros]: "returns (set_string f v) (0, v)"
  by (auto simp: returns_def set_string_def malloc_str_def wps)

text \<open>A setter either stores the value or reports -1 and changes nothing.\<close>

definition setter_result ::
  "'r \<Rightarrow> 'r \<Rightarrow> string option \<Rightarrow> int \<times> 'r option \<Rightarrow> bool" where
  "setter_result s s' v res \<longleftrightarrow> res = (0, Some s') \<or> (res = (-1, Some s) \<and> v \<noteq> None)"

lemmas session_setter_defs =
  opendbsc_session_set_id_def opendbsc_session_set_user_id_def
  opendbsc_session_set_public_key_def opendbsc_session_set_algorithm_def
  opendbsc_session_set_challenge_def

lemma framed_session_setters [framed_intros]:
  "framed (opendbsc_session_set_id (Some s) v) (setter_result s (s\<lparr>s_id := v\<rparr>) v)"
  "framed (opendbsc_session_set_user_id (Some s) v) (setter_result s (s\<lparr>s_user_id := v\<rparr>) v)"
  "framed (opendbsc_session_set_public_key (Some s) v) (setter_result s (s\<lparr>s_public_key := v\<rparr>) v)"
  "framed (opendbsc_session_set_algorithm (Some s) v) (setter_result s (s\<lparr>s_algorithm := v\<rparr>) v)"
  "framed (opendbsc_session_set_challenge (Some s) v) (setter_result s (s\<lparr>s_challenge := v\<rparr>) v)"
  unfolding session_setter_defs option.case
  by (rule framed_bind [OF framed_set_string],
      auto simp: setter_result_def intro!: framed_return)+

lemma returns_session_setters [returns_intros]:
  "returns (opendbsc_session_set_id (Some s) v) (0, Some (s\<lparr>s_id := v\<rparr>))"
  "returns (opendbsc_session_set_user_id (Some s) v) (0, Some (s\<lparr>s_user_id := v\<rparr>))"
  "returns (opendbsc_session_set_public_key (Some s) v) (0, Some (s\<lparr>s_public_key := v\<rparr>))"
  "returns (opendbsc_session_set_algorithm (Some s) v) (0, Some (s\<lparr>s_algorithm := v\<rparr>))"
  "returns (opendbsc_session_set_challenge (Some s) v) (0, Some (s\<lparr>s_challenge := v\<rparr>))"
  unfolding session_setter_defs option.case
  by (rule returns_bind [OF returns_set_string], simp add: returns_return)+

lemma session_copy_NULL:
  "opendbsc_session_copy None src = ret (-1, None)"
  "opendbsc_session_copy (Some d) None = ret (-1, Some d)"
  by (simp_all add: opendbsc_session_copy_def opendbsc_session_free_def)

text \<open>A copy is exact, or reports -1; it never reports success on a partial copy.\<close>

lemma framed_session_copy [framed_intros]:
  "framed (opendbsc_session_copy (Some d) (Some s))
     (\<lambda>(rc, p). (rc = 0 \<and> p = Some s) \<or> (rc = -1 \<and> p \<noteq> None))"
  unfolding opendbsc_session_copy_def session_free_Some prod.case option.case Let_def
  by (rule framed_bind [OF framed_set_string], clarsimp, safe; clarsimp?;
      (rule framed_bind [OF framed_set_string], clarsimp, safe; clarsimp?)?;
      (rule framed_bind [OF framed_set_string], clarsimp, safe; clarsimp?)?;
      (rule framed_bind [OF framed_set_string], clarsimp, safe; clarsimp?)?;
      (rule framed_bind [OF framed_set_string], clarsimp, safe; clarsimp?)?;
      simp add: framed_return)

lemma returns_session_copy [returns_intros]:
  "returns (opendbsc_session_copy (Some d) (Some s)) (0, Some s)"
  unfolding opendbsc_session_copy_def session_free_Some prod.case option.case Let_def
  by (rule returns_bind [OF returns_set_string], simp)+
     (rule returns_returnI, simp)

lemma set_state_str_state_str:
  "opendbsc_session_set_state_str (Some s) (opendbsc_session_state_str (Some t)) =
     (0, Some (s\<lparr>s_state := s_state t\<rparr>))"
  by (cases "s_state t")
     (simp_all add: opendbsc_session_set_state_str_def opendbsc_session_state_str_def
        OPENDBSC_STATE_ACTIVE_STR_def OPENDBSC_STATE_BOUND_STR_def)

text \<open>
  The identifier a call of \<^verbatim>\<open>opendbsc_session_new_id\<close> reports fits the buffer when the library
  writes the 36 characters it documents.
\<close>

lemma framed_session_new_id:
  assumes "\<And>u. length (uuidv7_to_string U u) = 36"
  shows "framed (opendbsc_session_new_id U (Some 37))
     (\<lambda>(rc, t). (rc = -1 \<and> t = []) \<or> (rc = 0 \<and> (\<exists>u. t = uuidv7_to_string U u)))"
  using assms
  by (auto simp: framed_def opendbsc_session_new_id_def wp_def buf_append_def
        split: option.splits prod.splits)

lemma context_get_set:
  "opendbsc_context_get_session_id
     (opendbsc_context_set_session_id (Some c) (Some i)) (Some old) = (True, Some (Some i))"
  by (simp add: opendbsc_context_get_session_id_def opendbsc_context_set_session_id_def)

end
