(* ===== verification/Store.thy ===== *)
theory Store
  imports Session
begin

text \<open>
  The store interface of \<^verbatim>\<open>include/store/store.h\<close>: the vtable as a record of operations over
  the opaque implementation \<open>impl\<close>, and the contract its clients rely on as the locale
  \<open>session_store\<close>. The pointers through which operations return sessions are results here; all
  callers pass addresses of their own locals, so the guards against a NULL out pointer have no
  counterpart.

  \<open>sys\<close> extends the world by the implementation's state and by the events reported to the
  application's callback.
\<close>

section \<open>The system state\<close>

record event =
  ev_type :: string
  ev_user :: "string option"
  ev_session :: "string option"
  ev_detail :: "string option"

record 's sys = world +
  impl :: 's
  events :: "event list"

definition get_impl :: "('s sys, 's) state" where
  "get_impl = State (\<lambda>w. (impl w, w))"

definition put_impl :: "'s \<Rightarrow> ('s sys, unit) state" where
  "put_impl x = State (\<lambda>w. ((), w\<lparr>impl := x\<rparr>))"

definition log_event :: "event \<Rightarrow> ('s sys, unit) state" where
  "log_event e = State (\<lambda>w. ((), w\<lparr>events := events w @ [e]\<rparr>))"

lemma run_get_impl [simp]: "run_state get_impl w = (impl w, w)"
  by (simp add: get_impl_def)

lemma run_put_impl [simp]: "run_state (put_impl x) w = ((), w\<lparr>impl := x\<rparr>)"
  by (simp add: put_impl_def)

lemma run_log_event [simp]: "run_state (log_event e) w = ((), w\<lparr>events := events w @ [e]\<rparr>)"
  by (simp add: log_event_def)

lemma wp_get_impl [wps]: "wp get_impl Q w = Q (impl w) w"
  by (simp add: wp_def)

lemma wp_put_impl [wps]: "wp (put_impl x) Q w = Q () (w\<lparr>impl := x\<rparr>)"
  by (simp add: wp_def)

lemma wp_log_event [wps]: "wp (log_event e) Q w = Q () (w\<lparr>events := events w @ [e]\<rparr>)"
  by (simp add: wp_def)

lemma more_sys: "world.more v = sys.fields (impl v) (events v)" for v :: "'s sys"
  by (rule sys.cases [of v]) (simp only: world.simps sys.defs sys.simps)

lemma frame_sys:
  fixes w w' :: "'s sys"
  assumes "frame w w'"
  shows frame_impl: "impl w' = impl w" and frame_events: "events w' = events w"
proof -
  from assms have "sys.fields (impl w') (events w') = sys.fields (impl w) (events w)"
    unfolding frame_def more_sys by blast
  then show "impl w' = impl w" and "events w' = events w"
    by (simp_all only: sys.defs sys.ext_inject)
qed

text \<open>
  \<open>oframe w w'\<close>: the oracles, the event log and the undefined-behaviour flag are as before; the
  implementation may have changed and no draw counter of the clock or the entropy goes back.
\<close>

definition oframe :: "'s sys \<Rightarrow> 's sys \<Rightarrow> bool" where
  "oframe w w' \<longleftrightarrow> mem_ok w' = mem_ok w \<and> wall_clock w' = wall_clock w \<and>
     realtime w' = realtime w \<and> entropy w' = entropy w \<and> undef w' = undef w \<and>
     events w' = events w \<and> clock_reads w \<le> clock_reads w' \<and> entropy_reads w \<le> entropy_reads w'"

lemma oframe_refl [simp, intro!]: "oframe w w"
  by (simp add: oframe_def)

lemma oframe_trans [trans]: "oframe u v \<Longrightarrow> oframe v w \<Longrightarrow> oframe u w"
  by (simp add: oframe_def)

lemma frame_oframe: "frame w w' \<Longrightarrow> oframe w w'"
  using frame_events [of w w'] by (simp add: oframe_def frame_def)

lemma oframe_updates [simp]:
  "oframe w (w'\<lparr>mallocs := n\<rparr>) = oframe w w'"
  "oframe w (w'\<lparr>realtime_reads := n\<rparr>) = oframe w w'"
  "oframe w (w'\<lparr>impl := x\<rparr>) = oframe w w'"
  by (simp_all add: oframe_def)

lemma oframe_clock [simp]:
  "oframe w w' \<Longrightarrow> clock_reads w' \<le> n \<Longrightarrow> oframe w (w'\<lparr>clock_reads := n\<rparr>)"
  by (simp add: oframe_def)

lemma oframe_draw [simp]:
  "oframe w w' \<Longrightarrow> entropy_reads w' \<le> n \<Longrightarrow> oframe w (w'\<lparr>entropy_reads := n\<rparr>)"
  by (simp add: oframe_def)

lemma frame_clock_reads: "frame w w' \<Longrightarrow> clock_reads w \<le> clock_reads w'"
  and oframe_clock_reads: "oframe w w' \<Longrightarrow> clock_reads w \<le> clock_reads w'"
  by (simp_all add: frame_def oframe_def)

lemma oframe_mem_ok: "oframe w w' \<Longrightarrow> mem_ok w' = mem_ok w"
  and oframe_undef: "oframe w w' \<Longrightarrow> undef w' = undef w"
  and oframe_events: "oframe w w' \<Longrightarrow> events w' = events w"
  and oframe_wall_clock: "oframe w w' \<Longrightarrow> wall_clock w' = wall_clock w"
  and oframe_entropy: "oframe w w' \<Longrightarrow> entropy w' = entropy w"
  and oframe_realtime: "oframe w w' \<Longrightarrow> realtime w' = realtime w"
  by (simp_all add: oframe_def)

lemma oframe_starved: "oframe w w' \<Longrightarrow> starved w' = starved w"
  by (simp add: starved_def oframe_def)

lemmas oframe_sels = oframe_mem_ok oframe_undef oframe_events oframe_wall_clock oframe_entropy
  oframe_realtime

text \<open>A library call on the connection that is the implementation's state.\<close>

definition on_impl :: "('d \<Rightarrow> 'r \<times> 'd) \<Rightarrow> ('d sys, 'r) state" where
  "on_impl f = do { d \<leftarrow> get_impl; put_impl (snd (f d)); ret (fst (f d)) }"

lemma wp_on_impl: "wp (on_impl f) Q w = (case f (impl w) of (r, d) \<Rightarrow> Q r (w\<lparr>impl := d\<rparr>))"
  by (simp add: on_impl_def wps split: prod.split)

section \<open>The vtable\<close>

record 's OpenDBSC_Store =
  st_create :: "OpenDBSC_Session option \<Rightarrow> ('s sys, int) state"
  st_get :: "string option \<Rightarrow> ('s sys, int \<times> OpenDBSC_Session option) state"
  st_update :: "OpenDBSC_Session option \<Rightarrow> ('s sys, int) state"
  st_delete :: "string option \<Rightarrow> ('s sys, int) state"
  st_get_by_user_id :: "string option \<Rightarrow> ('s sys, int \<times> OpenDBSC_Session list) state"
  st_delete_by_user_id :: "string option \<Rightarrow> ('s sys, int) state"
  st_free_sessions :: "OpenDBSC_Session list \<Rightarrow> ('s sys, unit) state"
  st_destroy :: "('s sys, unit) state"

section \<open>The contract\<close>

text \<open>
  An expiry observed between two world states: one of the clock readings taken in between is
  past the session's expiry.
\<close>

definition expired_between :: "'s sys \<Rightarrow> 's sys \<Rightarrow> OpenDBSC_Session \<Rightarrow> bool" where
  "expired_between w w' s \<longleftrightarrow> s_has_expires s \<and>
     (\<exists>n. clock_reads w \<le> n \<and> n < clock_reads w' \<and> s_expires_at s < wall_clock w n)"

definition live_between :: "'s sys \<Rightarrow> 's sys \<Rightarrow> OpenDBSC_Session \<Rightarrow> bool" where
  "live_between w w' s \<longleftrightarrow> (s_has_expires s \<longrightarrow>
     (\<exists>n. clock_reads w \<le> n \<and> n < clock_reads w' \<and> wall_clock w n \<le> s_expires_at s))"

locale session_store =
  fixes st :: "'s OpenDBSC_Store"
    and view :: "'s \<Rightarrow> string \<Rightarrow> OpenDBSC_Session option"
    and inv :: "'s \<Rightarrow> bool"
    and storable :: "OpenDBSC_Session \<Rightarrow> bool"
  assumes view_id: "inv x \<Longrightarrow> view x i = Some s \<Longrightarrow> s_id s = Some i"
    and create_law:
      "inv (impl w) \<Longrightarrow> s_id s = Some i \<Longrightarrow> storable s \<Longrightarrow>
       run_state (st_create st (Some s)) w = (rc, w') \<Longrightarrow>
       oframe w w' \<and> inv (impl w') \<and>
       (rc = 0 \<and> view (impl w') = (view (impl w))(i \<mapsto> s) \<or>
        rc = -1 \<and> (view (impl w') = view (impl w) \<or> view (impl w') = (view (impl w))(i := None)))"
    and get_law:
      "inv (impl w) \<Longrightarrow> run_state (st_get st (Some i)) w = ((rc, out), w') \<Longrightarrow>
       oframe w w' \<and> inv (impl w') \<and>
       (rc = 0 \<and> out \<noteq> None \<and> view (impl w) i = out \<and> view (impl w') = view (impl w) \<and>
          live_between w w' (the out) \<or>
        rc = -1 \<and> out = None \<and>
          (view (impl w') = view (impl w) \<or>
           (\<exists>s. view (impl w) i = Some s \<and> expired_between w w' s \<and>
                view (impl w') = (view (impl w))(i := None))))"
    and update_law:
      "inv (impl w) \<Longrightarrow> s_id s = Some i \<Longrightarrow> storable s \<Longrightarrow> view (impl w) i = Some s0 \<Longrightarrow>
       s_created_at s0 = s_created_at s \<Longrightarrow>
       run_state (st_update st (Some s)) w = (rc, w') \<Longrightarrow>
       oframe w w' \<and> inv (impl w') \<and>
       (rc = 0 \<and> view (impl w') = (view (impl w))(i \<mapsto> s) \<or>
        rc = -1 \<and> (view (impl w') = view (impl w) \<or> view (impl w') = (view (impl w))(i := None)))"
    and delete_law:
      "inv (impl w) \<Longrightarrow> run_state (st_delete st (Some i)) w = (rc, w') \<Longrightarrow>
       oframe w w' \<and> inv (impl w') \<and>
       (rc = 0 \<and> view (impl w') = (view (impl w))(i := None) \<or>
        rc = -1 \<and> (view (impl w') = view (impl w) \<or> view (impl w') = (view (impl w))(i := None)))"
    and free_law: "run_state (st_free_sessions st xs) w = ((), w)"

text \<open>
  The contract also holds of the states whose sessions are all storable: the operations store no
  others.
\<close>

context session_store
begin

lemma storable_contract:
  "session_store st view (\<lambda>x. inv x \<and> (\<forall>i s. view x i = Some s \<longrightarrow> storable s)) storable"
proof (unfold_locales, goal_cases)
  case (1 x i s)
  then show ?case using view_id by blast
next
  case (2 w s i rc w')
  with create_law [of w s i rc w'] show ?case by (auto split: if_splits)
next
  case (3 w i rc out w')
  with get_law [of w i rc out w'] show ?case by (auto split: if_splits)
next
  case (4 w s i s0 rc w')
  with update_law [of w s i s0 rc w'] show ?case by (auto split: if_splits)
next
  case (5 w i rc w')
  with delete_law [of w i rc w'] show ?case by (auto split: if_splits)
next
  case (6 xs w)
  then show ?case by (rule free_law)
qed

end

text \<open>
  A reliable store fails only for a reason the caller can see: a failed allocation, a missing or
  an expired session.
\<close>

locale reliable_store = session_store +
  assumes create_avail:
      "inv (impl w) \<Longrightarrow> s_id s = Some i \<Longrightarrow> storable s \<Longrightarrow>
       run_state (st_create st (Some s)) w = (rc, w') \<Longrightarrow> rc \<noteq> 0 \<Longrightarrow> starved w"
    and get_avail:
      "inv (impl w) \<Longrightarrow> view (impl w) i = Some s \<Longrightarrow>
       run_state (st_get st (Some i)) w = ((rc, out), w') \<Longrightarrow> rc \<noteq> 0 \<Longrightarrow>
       starved w \<or> expired_between w w' s"
    and update_avail:
      "inv (impl w) \<Longrightarrow> s_id s = Some i \<Longrightarrow> storable s \<Longrightarrow> view (impl w) i = Some s0 \<Longrightarrow>
       s_created_at s0 = s_created_at s \<Longrightarrow>
       run_state (st_update st (Some s)) w = (rc, w') \<Longrightarrow> rc \<noteq> 0 \<Longrightarrow> starved w"
    and delete_avail:
      "inv (impl w) \<Longrightarrow> run_state (st_delete st (Some i)) w = (rc, w') \<Longrightarrow> rc \<noteq> 0 \<Longrightarrow> starved w"

end
