(* ===== verification/Header.thy ===== *)
theory Header
  imports DBSC_Prelude
begin

text \<open>
  Structured headers: \<^verbatim>\<open>include/protocol/header.h\<close> and \<^verbatim>\<open>src/protocol/header.c\<close>. The serialisers
  size a buffer in a first pass and fill it in a second; both passes are modelled, and a write past
  the size of the first is undefined behaviour. A pointer into a string is the rest of the string
  from there. String lengths are assumed to fit the \<^verbatim>\<open>int\<close> the code adds them up in.

  The lemmas give the text each serialiser produces, what the parsers accept, and the round trips
  between them.
\<close>

abbreviation dq :: char where
  "dq \<equiv> CHR 0x22"

abbreviation backslash :: char where
  "backslash \<equiv> CHR 0x5C"

section \<open>Internal helpers\<close>

definition is_space :: "char \<Rightarrow> bool" where
  "is_space c \<longleftrightarrow> c = CHR '' '' \<or> c = CHR 0x09 \<or> c = CHR 0x0D \<or> c = CHR 0x0A \<or>
     c = CHR 0x0C \<or> c = CHR 0x0B"

definition memdup_str :: "string \<Rightarrow> nat \<Rightarrow> ('a world_scheme, string option) state" where
  "memdup_str src len = do {
     ok \<leftarrow> alloc;
     if \<not> ok then ret None
     else if len \<le> length src then ret (Some (take len src)) else ub None }"

definition arr_get :: "string option list \<Rightarrow> nat \<Rightarrow> ('a world_scheme, string) state" where
  "arr_get arr i = (if i < length arr then str_arg (arr ! i) else ub [])"

fun join_total :: "string option list \<Rightarrow> nat \<Rightarrow> nat \<Rightarrow> nat \<Rightarrow> ('a world_scheme, nat) state" where
  "join_total arr i 0 t = ret t"
| "join_total arr i (Suc k) t = do { s \<leftarrow> arr_get arr i; join_total arr (Suc i) k (t + length s) }"

fun join_fill :: "nat \<Rightarrow> string option list \<Rightarrow> nat \<Rightarrow> char \<Rightarrow> nat \<Rightarrow> nat \<Rightarrow> string \<Rightarrow>
    ('a world_scheme, string) state" where
  "join_fill cap arr count sep i 0 out = ret out"
| "join_fill cap arr count sep i (Suc k) out = do {
     s \<leftarrow> arr_get arr i;
     out \<leftarrow> buf_append cap out s;
     out \<leftarrow> buf_append_if cap (i + 1 < count) out [sep];
     join_fill cap arr count sep (Suc i) k out }"

definition join_strings :: "string option list \<Rightarrow> nat \<Rightarrow> char \<Rightarrow>
    ('a world_scheme, string option) state" where
  "join_strings arr count sep =
     (if count = 0 then memdup_str [] 0
      else do {
        n \<leftarrow> join_total arr 0 count 0;
        let n = n + (count - 1);
        ok \<leftarrow> alloc;
        if \<not> ok then ret None
        else do { out \<leftarrow> join_fill (n + 1) arr count sep 0 count []; ret (Some out) } })"

text \<open>
  The scan of a quoted string: what the pointer passes over, and where it stops, at the closing
  quote or at the end.
\<close>

fun scan_quoted :: "string \<Rightarrow> string \<times> string" where
  "scan_quoted [] = ([], [])"
| "scan_quoted (c # cs) =
     (if c = dq then ([], c # cs)
      else if c = backslash \<and> cs \<noteq> [] then
        (case scan_quoted (tl cs) of (body, rest) \<Rightarrow> (c # hd cs # body, rest))
      else (case scan_quoted cs of (body, rest) \<Rightarrow> (c # body, rest)))"

definition unquote :: "string option \<Rightarrow> ('a world_scheme, string option) state" where
  "unquote value =
     (case value of None \<Rightarrow> ret None
      | Some v \<Rightarrow>
        (case dropWhile is_space v of [] \<Rightarrow> ret None
         | c # start \<Rightarrow>
           if c \<noteq> dq then ret None
           else (case scan_quoted start of (body, p) \<Rightarrow>
             (case p of [] \<Rightarrow> ret None
              | _ # tail \<Rightarrow>
                if dropWhile is_space tail \<noteq> [] then ret None
                else memdup_str start (length body)))))"

section \<open>Serialisation\<close>

definition param_text :: "string \<Rightarrow> string option \<Rightarrow> string" where
  "param_text key v = '';'' @ key @ ''='' @ [dq] @ str_of v @ [dq]"

definition param_len :: "string \<Rightarrow> string option \<Rightarrow> nat" where
  "param_len key v = (if nonempty v then length (param_text key v) else 0)"

definition opendbsc_registration_serialize ::
  "string option list option \<Rightarrow> nat \<Rightarrow> string option \<Rightarrow> string option \<Rightarrow> string option \<Rightarrow>
   string option \<Rightarrow> string option \<Rightarrow> string option \<Rightarrow> ('a world_scheme, string option) state" where
  "opendbsc_registration_serialize algorithms count path challenge authorization provider_key
       provider_session_id provider_url =
     (if count > 0 \<and> algorithms = None then ret None
      else do {
        algs \<leftarrow> join_strings (case algorithms of None \<Rightarrow> [] | Some a \<Rightarrow> a) count CHR '' '';
        case algs of None \<Rightarrow> ret None
        | Some algs \<Rightarrow> do {
            let n = length (''('' @ algs @ '')'') + param_len ''path'' path +
                    param_len ''challenge'' challenge + param_len ''authorization'' authorization +
                    param_len ''provider_key'' provider_key +
                    param_len ''provider_session_id'' provider_session_id +
                    param_len ''provider_url'' provider_url;
            ok \<leftarrow> alloc;
            if \<not> ok then ret None
            else do {
              w \<leftarrow> buf_append (n + 1) [] (''('' @ algs @ '')'');
              w \<leftarrow> buf_append_if (n + 1) (nonempty path) w (param_text ''path'' path);
              w \<leftarrow> buf_append_if (n + 1) (nonempty challenge) w (param_text ''challenge'' challenge);
              w \<leftarrow> buf_append_if (n + 1) (nonempty authorization) w (param_text ''authorization'' authorization);
              w \<leftarrow> buf_append_if (n + 1) (nonempty provider_key) w (param_text ''provider_key'' provider_key);
              w \<leftarrow> buf_append_if (n + 1) (nonempty provider_session_id) w
                    (param_text ''provider_session_id'' provider_session_id);
              w \<leftarrow> buf_append_if (n + 1) (nonempty provider_url) w (param_text ''provider_url'' provider_url);
              ret (Some w) } } })"

definition quoted :: "string \<Rightarrow> string" where
  "quoted s = [dq] @ s @ [dq]"

definition opendbsc_challenge_serialize ::
  "string option \<Rightarrow> string option \<Rightarrow> ('a world_scheme, string option) state" where
  "opendbsc_challenge_serialize value session_id =
     (case value of None \<Rightarrow> ret None
      | Some v \<Rightarrow> do {
          let n = length (quoted v) + param_len ''id'' session_id;
          ok \<leftarrow> alloc;
          if \<not> ok then ret None
          else do {
            w \<leftarrow> buf_append (n + 1) [] (quoted v);
            w \<leftarrow> buf_append_if (n + 1) (nonempty session_id) w (param_text ''id'' session_id);
            ret (Some w) } })"

definition opendbsc_session_response_serialize ::
  "string option \<Rightarrow> ('a world_scheme, string option) state" where
  "opendbsc_session_response_serialize jwt =
     (case jwt of None \<Rightarrow> ret None
      | Some v \<Rightarrow> do {
          let n = length (quoted v);
          ok \<leftarrow> alloc;
          if \<not> ok then ret None
          else do { out \<leftarrow> buf_append (n + 1) [] (quoted v); ret (Some out) } })"

definition opendbsc_session_id_serialize ::
  "string option \<Rightarrow> ('a world_scheme, string option) state" where
  "opendbsc_session_id_serialize i =
     (case i of None \<Rightarrow> ret None
      | Some v \<Rightarrow> do {
          let n = length (quoted v);
          ok \<leftarrow> alloc;
          if \<not> ok then ret None
          else do { out \<leftarrow> buf_append (n + 1) [] (quoted v); ret (Some out) } })"

record OpenDBSC_SkippedEntry =
  sk_reason :: "string option"
  sk_session_id :: "string option"

definition entry_text :: "OpenDBSC_SkippedEntry \<Rightarrow> string" where
  "entry_text e = str_of (sk_reason e) @
     (if nonempty (sk_session_id e) then param_text ''session_identifier'' (sk_session_id e) else [])"

text \<open>The first pass: the loop at index \<open>i\<close> with \<open>k\<close> entries left.\<close>

fun skipped_len :: "OpenDBSC_SkippedEntry list \<Rightarrow> nat \<Rightarrow> nat \<Rightarrow> nat \<Rightarrow> nat \<Rightarrow> ('a world_scheme, nat) state" where
  "skipped_len entries count i 0 n = ret n"
| "skipped_len entries count i (Suc k) n =
     (if i < length entries then
        (let n = n + length (str_of (sk_reason (entries ! i)));
             n = n + param_len ''session_identifier'' (sk_session_id (entries ! i));
             n = n + (if i + 1 < count then 2 else 0)
         in skipped_len entries count (Suc i) k n)
      else ub n)"

fun skipped_fill :: "nat \<Rightarrow> OpenDBSC_SkippedEntry list \<Rightarrow> nat \<Rightarrow> nat \<Rightarrow> nat \<Rightarrow> string \<Rightarrow>
    ('a world_scheme, string) state" where
  "skipped_fill cap entries count i 0 w = ret w"
| "skipped_fill cap entries count i (Suc k) w =
     (if i < length entries then do {
        let e = entries ! i;
        w \<leftarrow> buf_append cap w (str_of (sk_reason e));
        w \<leftarrow> buf_append_if cap (nonempty (sk_session_id e)) w
              (param_text ''session_identifier'' (sk_session_id e));
        w \<leftarrow> buf_append_if cap (i + 1 < count) w '', '';
        skipped_fill cap entries count (Suc i) k w }
      else ub w)"

text \<open>
  The result is NULL, or a buffer; when there is no entry nothing is ever written to the buffer,
  so it has no terminator: \<open>Some None\<close>.
\<close>

definition opendbsc_session_skipped_serialize ::
  "OpenDBSC_SkippedEntry list option \<Rightarrow> nat \<Rightarrow> ('a world_scheme, string option option) state" where
  "opendbsc_session_skipped_serialize entries count =
     (if count > 0 \<and> entries = None then ret None
      else do {
        let es = (case entries of None \<Rightarrow> [] | Some es \<Rightarrow> es);
        n \<leftarrow> skipped_len es count 0 count 0;
        ok \<leftarrow> alloc;
        if \<not> ok then ret None
        else do {
          w \<leftarrow> skipped_fill (n + 1) es count 0 count [];
          ret (Some (if count = 0 then None else Some w)) } })"

section \<open>Parsing\<close>

definition opendbsc_parse_session_response :: "string option \<Rightarrow> ('a world_scheme, string option) state" where
  "opendbsc_parse_session_response value = unquote value"

definition opendbsc_parse_session_id :: "string option \<Rightarrow> ('a world_scheme, string option) state" where
  "opendbsc_parse_session_id value = unquote value"

definition is_token_char :: "char \<Rightarrow> bool" where
  "is_token_char c \<longleftrightarrow>
     (let n = (of_char c :: nat) in
      (65 \<le> n \<and> n \<le> 90) \<or> (97 \<le> n \<and> n \<le> 122) \<or> (48 \<le> n \<and> n \<le> 57) \<or>
      c \<in> set ''!#$%&'' \<or> c = CHR 0x27 \<or> c \<in> set ''*+-.^_`|~:/'')"

definition is_valid_skip_reason :: "string \<Rightarrow> bool" where
  "is_valid_skip_reason reason \<longleftrightarrow>
     reason \<in> set [''unreachable'', ''server_error'', ''quota_exceeded'']"

text \<open>One \<open>;key="value"\<close> parameter, the pointer just behind the semicolon: key, value and rest.\<close>

definition parse_param :: "string \<Rightarrow> (string \<times> string \<times> string) option" where
  "parse_param p =
     (let p = dropWhile is_space p;
          key = takeWhile is_token_char p;
          p = dropWhile is_space (dropWhile is_token_char p)
      in case p of [] \<Rightarrow> None
         | c # p \<Rightarrow>
           if c \<noteq> CHR ''='' then None
           else (case dropWhile is_space p of [] \<Rightarrow> None
             | c # p \<Rightarrow>
               if c \<noteq> dq then None
               else (case scan_quoted p of (v, p) \<Rightarrow>
                 (case p of [] \<Rightarrow> None | _ # p \<Rightarrow> Some (key, v, p)))))"

lemma length_scan_quoted: "scan_quoted s = (body, rest) \<Longrightarrow> length body + length rest = length s"
  by (induction s arbitrary: body rest rule: scan_quoted.induct)
     (auto split: if_splits prod.splits simp: neq_Nil_conv)

lemma parse_param_decreases: "parse_param p = Some (k, v, rest) \<Longrightarrow> length rest < length p"
proof -
  assume a: "parse_param p = Some (k, v, rest)"
  let ?p1 = "dropWhile is_space (dropWhile is_token_char (dropWhile is_space p))"
  from a obtain c q d r e where 1: "?p1 = c # q" and 2: "dropWhile is_space q = d # r"
    and 3: "scan_quoted r = (v, e # rest)"
    by (auto simp: parse_param_def Let_def split: list.splits if_splits prod.splits)
  have "length ?p1 \<le> length p"
    by (meson le_trans length_dropWhile_le)
  moreover have "length (dropWhile is_space q) \<le> length q" by (rule length_dropWhile_le)
  moreover have "length v + length (e # rest) = length r" by (rule length_scan_quoted [OF 3])
  ultimately show ?thesis unfolding 1 2 by simp
qed

text \<open>The parameters of an entry: \<open>None\<close> for a failure, or the rest and the identifier found.\<close>

function params_loop :: "string \<Rightarrow> string option \<Rightarrow>
    ('a world_scheme, (string \<times> string option) option) state" where
  "params_loop [] session_id = ret (Some ([], session_id))"
| "params_loop (c # p) session_id =
     (if c \<noteq> CHR '';'' then ret (Some (c # p, session_id))
      else (case parse_param p of None \<Rightarrow> ret None
        | Some (key, v, rest) \<Rightarrow>
          if key = ''session_identifier'' then do {
            copy \<leftarrow> memdup_str v (length v);
            if copy = None then ret None else params_loop rest copy }
          else params_loop rest session_id))"
  by pat_completeness auto

termination
  by (relation "measure (\<lambda>(p, s). length p)") (auto dest: parse_param_decreases)

definition add_entry :: "string \<Rightarrow> string \<Rightarrow> OpenDBSC_SkippedEntry list \<Rightarrow> nat \<Rightarrow>
    ('a world_scheme, (OpenDBSC_SkippedEntry list \<times> nat) option) state" where
  "add_entry tok sid entries capacity = do {
     ok \<leftarrow> (if length entries = capacity then alloc else ret True);
     let capacity = (if length entries = capacity
                     then (if capacity = 0 then 4 else capacity * 2) else capacity);
     if \<not> ok then ret None
     else do {
       reason \<leftarrow> memdup_str tok (length tok);
       if reason = None then ret None
       else if length entries < capacity
       then ret (Some (entries @ [\<lparr>sk_reason = reason, sk_session_id = Some sid\<rparr>], capacity))
       else ub None } }"

text \<open>
  The loop over entries. Every turn consumes a character, so a string of length \<open>n\<close> takes at most
  \<open>n\<close> turns; the first argument counts the turns left.
\<close>

fun skipped_loop :: "nat \<Rightarrow> string \<Rightarrow> OpenDBSC_SkippedEntry list \<Rightarrow> nat \<Rightarrow>
    ('a world_scheme, OpenDBSC_SkippedEntry list option) state" where
  "skipped_loop 0 p entries capacity = (if p = [] then ret (Some entries) else ub None)"
| "skipped_loop (Suc k) p entries capacity =
     (if p = [] then ret (Some entries)
      else (let p = dropWhile (\<lambda>c. is_space c \<or> c = CHR '','') p in
        if p = [] then ret (Some entries)
        else (let tok = takeWhile is_token_char p; p = dropWhile is_token_char p in
          if tok = [] then ret None
          else do {
            r \<leftarrow> params_loop p None;
            case r of None \<Rightarrow> ret None
            | Some (p, session_id) \<Rightarrow>
                if is_valid_skip_reason tok \<and> session_id \<noteq> None then do {
                  r \<leftarrow> add_entry tok (the session_id) entries capacity;
                  case r of None \<Rightarrow> ret None
                  | Some (entries, capacity) \<Rightarrow> skipped_loop k p entries capacity }
                else skipped_loop k p entries capacity })))"

definition opendbsc_parse_session_skipped :: "string option \<Rightarrow>
    ('a world_scheme, int \<times> OpenDBSC_SkippedEntry list) state" where
  "opendbsc_parse_session_skipped value =
     (case value of None \<Rightarrow> ret (-1, [])
      | Some v \<Rightarrow> do {
          r \<leftarrow> skipped_loop (length v) v [] 0;
          case r of None \<Rightarrow> ret (-1, []) | Some es \<Rightarrow> ret (0, es) })"

section \<open>The texts the serialisers produce\<close>

fun join_text :: "char \<Rightarrow> string list \<Rightarrow> string" where
  "join_text sep [] = []"
| "join_text sep [s] = s"
| "join_text sep (s # t # ss) = s @ sep # join_text sep (t # ss)"

lemma length_join_text: "length (join_text sep ss) = sum_list (map length ss) + (length ss - 1)"
  by (induction sep ss rule: join_text.induct) auto

lemma arr_get_Some: "i < length ss \<Longrightarrow> arr_get (map Some ss) i = ret (ss ! i)"
  by (simp add: arr_get_def)

lemma join_total_sum:
  "i + k = length ss \<Longrightarrow> join_total (map Some ss) i k t = ret (t + sum_list (map length (drop i ss)))"
proof (induction k arbitrary: i t)
  case (Suc k)
  then have "i < length ss" by simp
  with Suc show ?case by (simp add: arr_get_Some Cons_nth_drop_Suc [symmetric] add.assoc)
qed simp

lemma join_fill_text:
  "i + k = length ss \<Longrightarrow> length out + length (join_text sep (drop i ss)) < cap \<Longrightarrow>
   join_fill cap (map Some ss) (length ss) sep i k out = ret (out @ join_text sep (drop i ss))"
proof (induction k arbitrary: i out)
  case (Suc k)
  then have i: "i < length ss" by simp
  have drop: "drop i ss = ss ! i # drop (Suc i) ss" using i by (simp add: Cons_nth_drop_Suc)
  show ?case
  proof (cases "Suc i < length ss")
    case True
    then obtain u us where u: "drop (Suc i) ss = u # us" by (metis drop_eq_Nil leD neq_Nil_conv)
    from Suc.prems(2) have "length out + length (ss ! i) + 1 + length (join_text sep (drop (Suc i) ss)) < cap"
      by (simp add: drop u)
    with Suc.IH [of "Suc i" "out @ ss ! i @ [sep]"] Suc.prems(1) True show ?thesis
      by (simp add: arr_get_Some i buf_append_fits buf_append_if_def drop u)
  next
    case False
    then have d: "drop (Suc i) ss = []" "k = 0" using Suc.prems(1) by simp_all
    with Suc.prems show ?thesis
      by (simp add: arr_get_Some i buf_append_fits buf_append_if_def drop)
  qed
qed simp

lemma attempts_memdup: "attempts (memdup_str s (length s)) (Some s) (\<lambda>x. x = None)"
  unfolding memdup_str_def
  by (rule attempts_bind [OF attempts_alloc]) (simp_all add: framed_return attempts_return)

lemma attempts_join:
  "attempts (join_strings (map Some ss) (length ss) sep) (Some (join_text sep ss)) (\<lambda>x. x = None)"
proof (cases ss)
  case Nil
  with attempts_memdup [of "[]"] show ?thesis by (simp add: join_strings_def)
next
  case (Cons s ss')
  have fill: "join_fill (sum_list (map length ss) + (length ss - 1) + 1) (map Some ss) (length ss) sep 0 (length ss) []
      = ret (join_text sep ss)"
    using join_fill_text [of 0 "length ss" ss "[]" sep "sum_list (map length ss) + (length ss - 1) + 1"] by (simp add: length_join_text)
  have "length ss \<noteq> 0" using Cons by simp
  then show ?thesis
    by (simp add: join_strings_def join_total_sum Let_def del: One_nat_def)
       (rule attempts_bind [OF attempts_alloc], simp add: framed_return,
        simp add: fill [simplified] attempts_return)
qed

definition opt_param :: "string \<Rightarrow> string option \<Rightarrow> string" where
  "opt_param key v = (if nonempty v then param_text key v else [])"

lemma param_len_opt: "param_len key v = length (opt_param key v)"
  by (simp add: param_len_def opt_param_def)

lemma buf_append_opt:
  "length w + length (opt_param key v) < cap \<Longrightarrow>
   buf_append_if cap (nonempty v) w (param_text key v) = ret (w @ opt_param key v)"
  by (cases "nonempty v") (simp_all add: opt_param_def buf_append_if_def buf_append_fits)

definition registration_text :: "string list \<Rightarrow> string option \<Rightarrow> string option \<Rightarrow> string option \<Rightarrow>
    string option \<Rightarrow> string option \<Rightarrow> string option \<Rightarrow> string" where
  "registration_text ss path challenge authorization provider_key provider_session_id provider_url =
     ''('' @ join_text CHR '' '' ss @ '')'' @ opt_param ''path'' path @ opt_param ''challenge'' challenge @
     opt_param ''authorization'' authorization @ opt_param ''provider_key'' provider_key @
     opt_param ''provider_session_id'' provider_session_id @ opt_param ''provider_url'' provider_url"

lemma attempts_registration:
  "attempts (opendbsc_registration_serialize (Some (map Some ss)) (length ss) path challenge authorization
      provider_key provider_session_id provider_url)
     (Some (registration_text ss path challenge authorization provider_key provider_session_id provider_url))
     (\<lambda>x. x = None)"
  unfolding opendbsc_registration_serialize_def option.case
  apply (simp only: option.distinct simp_thms if_False)
  apply (rule attempts_bind [OF attempts_join], simp add: framed_return)
  apply (simp only: option.case Let_def)
  apply (rule attempts_bind [OF attempts_alloc], simp add: framed_return)
  apply (simp add: param_len_opt buf_append_fits buf_append_opt registration_text_def attempts_return)
  done

lemma attempts_challenge:
  "attempts (opendbsc_challenge_serialize (Some v) sid) (Some (quoted v @ opt_param ''id'' sid)) (\<lambda>x. x = None)"
  unfolding opendbsc_challenge_serialize_def option.case Let_def
  by (rule attempts_bind [OF attempts_alloc])
     (simp_all add: framed_return param_len_opt buf_append_fits buf_append_opt attempts_return)

lemma attempts_quoted:
  "attempts (opendbsc_session_id_serialize (Some v)) (Some (quoted v)) (\<lambda>x. x = None)"
  "attempts (opendbsc_session_response_serialize (Some v)) (Some (quoted v)) (\<lambda>x. x = None)"
  unfolding opendbsc_session_id_serialize_def opendbsc_session_response_serialize_def option.case Let_def
  by (rule attempts_bind [OF attempts_alloc], simp_all add: framed_return buf_append_fits attempts_return)+

fun entries_text :: "OpenDBSC_SkippedEntry list \<Rightarrow> string" where
  "entries_text [] = []"
| "entries_text [e] = entry_text e"
| "entries_text (e # f # es) = entry_text e @ '', '' @ entries_text (f # es)"

lemma entry_text_opt: "entry_text e = str_of (sk_reason e) @ opt_param ''session_identifier'' (sk_session_id e)"
  by (simp add: entry_text_def opt_param_def)

lemma skipped_len_text:
  "i + k = length es \<Longrightarrow> skipped_len es (length es) i k n = ret (n + length (entries_text (drop i es)))"
proof (induction k arbitrary: i n)
  case (Suc k)
  then have i: "i < length es" by simp
  have drop: "drop i es = es ! i # drop (Suc i) es" using i by (simp add: Cons_nth_drop_Suc)
  show ?case
  proof (cases "Suc i < length es")
    case True
    then obtain u us where u: "drop (Suc i) es = u # us" by (metis drop_eq_Nil leD neq_Nil_conv)
    with Suc.IH [of "Suc i"] Suc.prems True i show ?thesis
      by (simp add: Let_def drop param_len_opt entry_text_opt add.assoc)
  next
    case False
    then have d: "drop (Suc i) es = []" "k = 0" using Suc.prems by simp_all
    with i False show ?thesis by (simp add: Let_def drop param_len_opt entry_text_opt add.assoc)
  qed
qed simp

lemma skipped_fill_text:
  "i + k = length es \<Longrightarrow> length w + length (entries_text (drop i es)) < cap \<Longrightarrow>
   skipped_fill cap es (length es) i k w = ret (w @ entries_text (drop i es))"
proof (induction k arbitrary: i w)
  case (Suc k)
  then have i: "i < length es" by simp
  have drop: "drop i es = es ! i # drop (Suc i) es" using i by (simp add: Cons_nth_drop_Suc)
  show ?case
  proof (cases "Suc i < length es")
    case True
    then obtain u us where u: "drop (Suc i) es = u # us" by (metis drop_eq_Nil leD neq_Nil_conv)
    from Suc.prems(2) have "length w + length (entry_text (es ! i)) + 2 + length (entries_text (drop (Suc i) es)) < cap"
      by (simp add: drop u)
    with Suc.IH [of "Suc i" "w @ entry_text (es ! i) @ '', ''"] Suc.prems(1) True i show ?thesis
      by (simp add: Let_def drop u buf_append_fits buf_append_opt buf_append_if_def [of _ True] entry_text_opt)
  next
    case False
    then have d: "drop (Suc i) es = []" "k = 0" using Suc.prems(1) by simp_all
    with Suc.prems i False show ?thesis
      by (simp add: Let_def drop buf_append_fits buf_append_opt buf_append_if_def [of _ False] entry_text_opt)
  qed
qed simp

lemma attempts_skipped_serialize:
  "attempts (opendbsc_session_skipped_serialize (Some es) (length es))
     (Some (if es = [] then None else Some (entries_text es))) (\<lambda>x. x = None)"
proof -
  have fill: "skipped_fill (length (entries_text es) + 1) es (length es) 0 (length es) [] = ret (entries_text es)"
    using skipped_fill_text [of 0 "length es" es "[]" "length (entries_text es) + 1"] by simp
  show ?thesis
    unfolding opendbsc_session_skipped_serialize_def
    apply (simp only: option.distinct simp_thms if_False option.case Let_def)
    apply (subst skipped_len_text, simp)
    apply (simp only: bind_left_identity drop_0 add_0)
    apply (rule attempts_bind [OF attempts_alloc], simp add: framed_return)
    apply (simp only: fill bind_left_identity not_True_eq_False if_False)
    apply (rule attempts_return, simp)
    done
qed

section \<open>What the parsers accept\<close>

definition clean :: "string \<Rightarrow> bool" where
  "clean s \<longleftrightarrow> dq \<notin> set s \<and> backslash \<notin> set s"

lemma scan_clean: "clean s \<Longrightarrow> scan_quoted (s @ dq # t) = (s, dq # t)"
  by (induction s) (auto simp: clean_def)

text \<open>Scanning splits the text where the first quote that no backslash protects is.\<close>

lemma scan_split: "scan_quoted s = (body, rest) \<Longrightarrow> s = body @ rest \<and> (rest = [] \<or> hd rest = dq)"
  by (induction s arbitrary: body rest rule: scan_quoted.induct)
     (auto split: if_splits prod.splits simp: neq_Nil_conv)

text \<open>The pure result of unquoting.\<close>

definition unquoted :: "string \<Rightarrow> string option" where
  "unquoted v =
     (case dropWhile is_space v of [] \<Rightarrow> None
      | c # start \<Rightarrow> if c \<noteq> dq then None
          else (case scan_quoted start of (body, p) \<Rightarrow>
            if p \<noteq> [] \<and> dropWhile is_space (tl p) = [] then Some body else None))"

lemma attempts_unquote: "attempts (unquote (Some v)) (unquoted v) (\<lambda>x. x = None)"
proof (cases "dropWhile is_space v")
  case Nil
  show ?thesis unfolding unquote_def unquoted_def option.case Nil by (simp add: attempts_return)
next
  case (Cons c start)
  obtain body p where sc: "scan_quoted start = (body, p)" by fastforce
  then have st: "start = body @ p" using scan_split by blast
  have "attempts (memdup_str start (length body)) (Some body) (\<lambda>x. x = None)"
    unfolding memdup_str_def
    by (rule attempts_bind [OF attempts_alloc]) (simp_all add: framed_return attempts_return st)
  then show ?thesis
    unfolding unquote_def unquoted_def option.case Cons list.case sc prod.case
    by (cases p) (auto intro: attempts_return)
qed

lemma unquoted_quoted: "clean s \<Longrightarrow> unquoted (quoted s) = Some s"
  using scan_clean [of s "[]"] by (simp add: unquoted_def quoted_def is_space_def)

lemma attempts_parse:
  "attempts (opendbsc_parse_session_id (Some v)) (unquoted v) (\<lambda>x. x = None)"
  "attempts (opendbsc_parse_session_response (Some v)) (unquoted v) (\<lambda>x. x = None)"
  by (simp_all add: opendbsc_parse_session_id_def opendbsc_parse_session_response_def attempts_unquote)

section \<open>The skipped header\<close>

definition valid_entry :: "OpenDBSC_SkippedEntry \<Rightarrow> bool" where
  "valid_entry e \<longleftrightarrow> (\<exists>r. sk_reason e = Some r \<and> is_valid_skip_reason r) \<and> sk_session_id e \<noteq> None"

lemma framed_memdup: "framed (memdup_str s (length s)) (\<lambda>x. x = None \<or> x = Some s)"
  by (rule framed_weaken [OF attempts_framed [OF attempts_memdup]]) simp

lemma framed_params_loop:
  "framed (params_loop p sid :: ('w world_scheme, _) state) (\<lambda>r. \<forall>rest s. r = Some (rest, s) \<longrightarrow> length rest \<le> length p)"
proof (induction p sid rule: params_loop.induct)
  case (2 c p sid)
  show ?case
  proof (cases "c = CHR '';'' \<and> parse_param p \<noteq> None")
    case True
    then obtain key v rest where pp: "parse_param p = Some (key, v, rest)" by auto
    note le = parse_param_decreases [OF pp]
    from True have c: "\<not> c \<noteq> CHR '';''" by simp
    show ?thesis
    proof (cases "key = ''session_identifier''")
      case key: True
      have "framed (params_loop rest x :: ('w world_scheme, _) state) (\<lambda>r. \<forall>rest s. r = Some (rest, s) \<longrightarrow> length rest \<le> length (c # p))"
        if "x \<noteq> None" for x
        by (rule framed_weaken [OF "2.IH"(1) [OF c pp refl refl key that]]) (use le in fastforce)
      then show ?thesis
        using True pp key by (auto intro!: framed_bind [OF framed_memdup] framed_return)
    next
      case key: False
      have "framed (params_loop rest sid :: ('w world_scheme, _) state) (\<lambda>r. \<forall>rest s. r = Some (rest, s) \<longrightarrow> length rest \<le> length (c # p))"
        by (rule framed_weaken [OF "2.IH"(2) [OF c pp refl refl key]]) (use le in fastforce)
      then show ?thesis using True pp key by simp
    qed
  next
    case False
    then have "c \<noteq> CHR '';'' \<or> parse_param p = None" by (simp only: de_Morgan_conj not_not)
    then show ?thesis by (elim disjE) (auto intro!: framed_return)
  qed
qed (simp add: framed_return)

lemma framed_add_entry:
  assumes "length es \<le> cap"
  shows "framed (add_entry tok sid es cap) (\<lambda>r. \<forall>es' cap'. r = Some (es', cap') \<longrightarrow>
     es' = es @ [\<lparr>sk_reason = Some tok, sk_session_id = Some sid\<rparr>] \<and> length es' \<le> cap')"
proof -
  have ok: "framed (if length es = cap then alloc else ret True) (\<lambda>_. True)"
    by (simp add: framed_alloc framed_return)
  show ?thesis
    unfolding add_entry_def Let_def
    by (rule framed_bind [OF ok]) (use assms in \<open>auto simp: Suc_le_eq intro!: framed_bind [OF framed_memdup] framed_return\<close>)
qed

lemma framed_skipped_loop:
  "length p \<le> k \<Longrightarrow> length es \<le> cap \<Longrightarrow> \<forall>e\<in>set es. valid_entry e \<Longrightarrow>
   framed (skipped_loop k p es cap :: ('w world_scheme, _) state) (\<lambda>r. \<forall>es'. r = Some es' \<longrightarrow> (\<forall>e\<in>set es'. valid_entry e))"
proof (induction k arbitrary: p es cap)
  case 0
  then show ?case by (simp add: framed_return)
next
  case (Suc k)
  define p1 where "p1 = dropWhile (\<lambda>c. is_space c \<or> c = CHR '','') p"
  define tok where "tok = takeWhile is_token_char p1"
  define p2 where "p2 = dropWhile is_token_char p1"
  have le: "length p1 \<le> length p" "length tok + length p2 = length p1"
    unfolding p1_def tok_def p2_def
    by (rule length_dropWhile_le, metis length_append takeWhile_dropWhile_id)
  show ?case
  proof (cases "p = [] \<or> p1 = [] \<or> tok = []")
    case True
    with Suc.prems show ?thesis
      by (auto simp: Let_def p1_def [symmetric] tok_def [symmetric] intro!: framed_return)
  next
    case False
    then have short: "length p2 \<le> k" using le Suc.prems(1) by (cases tok) auto
    have go: "framed ((case r of None \<Rightarrow> ret None
            | Some (p, session_id) \<Rightarrow>
                if is_valid_skip_reason tok \<and> session_id \<noteq> None then do {
                  r \<leftarrow> add_entry tok (the session_id) es cap;
                  case r of None \<Rightarrow> ret None
                  | Some (entries, capacity) \<Rightarrow> skipped_loop k p entries capacity }
                else skipped_loop k p es cap) :: ('w world_scheme, _) state)
        (\<lambda>r. \<forall>es'. r = Some es' \<longrightarrow> (\<forall>e\<in>set es'. valid_entry e))"
      if r: "\<forall>rest s. r = Some (rest, s) \<longrightarrow> length rest \<le> length p2" for r
    proof (cases r)
      case None
      then show ?thesis by (simp add: framed_return)
    next
      case (Some q)
      obtain rest sid where q: "q = (rest, sid)" by fastforce
      with r Some short have len: "length rest \<le> k" by force
      show ?thesis
      proof (cases "is_valid_skip_reason tok \<and> sid \<noteq> None")
        case True
        then have v: "valid_entry \<lparr>sk_reason = Some tok, sk_session_id = Some (the sid)\<rparr>"
          by (simp add: valid_entry_def)
        have "framed (do { r \<leftarrow> add_entry tok (the sid) es cap;
                  case r of None \<Rightarrow> ret None
                  | Some (entries, capacity) \<Rightarrow> skipped_loop k rest entries capacity } :: ('w world_scheme, _) state)
          (\<lambda>r. \<forall>es'. r = Some es' \<longrightarrow> (\<forall>e\<in>set es'. valid_entry e))"
          by (rule framed_bind [OF framed_add_entry [OF Suc.prems(2)]])
             (use v Suc.prems(3) in \<open>auto split: option.splits intro!: framed_return Suc.IH [OF len]\<close>)
        with True show ?thesis unfolding Some q option.case prod.case by (simp only: simp_thms if_True)
      next
        case False
        then show ?thesis unfolding Some q option.case prod.case
          by (simp only: if_False) (rule Suc.IH [OF len Suc.prems(2,3)])
      qed
    qed
    have "framed (params_loop p2 None \<bind> (\<lambda>r. case r of None \<Rightarrow> ret None
            | Some (p, session_id) \<Rightarrow>
                if is_valid_skip_reason tok \<and> session_id \<noteq> None then do {
                  r \<leftarrow> add_entry tok (the session_id) es cap;
                  case r of None \<Rightarrow> ret None
                  | Some (entries, capacity) \<Rightarrow> skipped_loop k p entries capacity }
                else skipped_loop k p es cap) :: ('w world_scheme, _) state)
        (\<lambda>r. \<forall>es'. r = Some es' \<longrightarrow> (\<forall>e\<in>set es'. valid_entry e))"
      by (rule framed_bind [OF framed_params_loop go])
    note body = this
    from False have ne: "(p = []) = False" "(p1 = []) = False" "(tok = []) = False" by simp_all
    show ?thesis
      unfolding skipped_loop.simps Let_def p1_def [symmetric] tok_def [symmetric] p2_def [symmetric] ne if_False
      by (rule body)
  qed
qed

section \<open>Reading back what was written\<close>

definition good_entry :: "OpenDBSC_SkippedEntry \<Rightarrow> bool" where
  "good_entry e \<longleftrightarrow> (\<exists>r s. e = \<lparr>sk_reason = Some r, sk_session_id = Some s\<rparr> \<and>
     is_valid_skip_reason r \<and> s \<noteq> [] \<and> clean s)"

abbreviation skip_sep :: "char \<Rightarrow> bool" where
  "skip_sep c \<equiv> is_space c \<or> c = CHR '',''"

lemma reason_chars: "\<forall>r\<in>set [''unreachable'', ''server_error'', ''quota_exceeded''].
    r \<noteq> [] \<and> (\<forall>c\<in>set r. is_token_char c) \<and> \<not> skip_sep (hd r)"
  by code_simp

lemma valid_reason:
  "is_valid_skip_reason r \<Longrightarrow> r \<noteq> [] \<and> (\<forall>c\<in>set r. is_token_char c) \<and> \<not> skip_sep (hd r)"
  unfolding is_valid_skip_reason_def by (rule bspec [OF reason_chars])

lemma stop_chars: "\<not> is_token_char CHR '';''" "\<not> is_token_char CHR ''=''" "\<not> is_space CHR ''=''" "\<not> is_space dq"
  by code_simp+

lemma key_chars: "(\<forall>c\<in>set ''session_identifier''. is_token_char c) \<and> \<not> is_space CHR ''s''"
  by code_simp

lemma parse_param_text:
  assumes "clean s"
  shows "parse_param (''session_identifier'' @ CHR ''='' # dq # s @ dq # t) = Some (''session_identifier'', s, t)"
proof -
  let ?k = "''session_identifier''"
  have sp: "dropWhile is_space (?k @ u) = ?k @ u" for u
    using key_chars by simp
  have k: "takeWhile is_token_char (?k @ CHR ''='' # u) = ?k"
    "dropWhile is_token_char (?k @ CHR ''='' # u) = CHR ''='' # u" for u
    using takeWhile_append_stop [of ?k is_token_char "CHR ''=''" u]
      dropWhile_append_stop [of ?k is_token_char "CHR ''=''" u] key_chars stop_chars by blast+
  show ?thesis
    unfolding parse_param_def Let_def sp k
    by (simp add: stop_chars scan_clean [OF assms])
qed

lemma attempts_params_text:
  assumes s: "clean s" "s \<noteq> []" and t: "t = [] \<or> hd t = CHR '',''"
  shows "attempts (params_loop (param_text ''session_identifier'' (Some s) @ t) None) (Some (t, Some s)) (\<lambda>x. x = None)"
proof -
  have eq: "param_text ''session_identifier'' (Some s) @ t =
      CHR '';'' # ''session_identifier'' @ CHR ''='' # dq # s @ dq # t"
    by (simp add: param_text_def)
  have stop: "params_loop t (Some s) = ret (Some (t, Some s))"
    using t by (cases t) auto
  show ?thesis
    unfolding eq params_loop.simps(2) parse_param_text [OF s(1)]
    apply (simp only: simp_thms if_False option.case prod.case if_True)
    apply (rule attempts_bind [OF attempts_memdup], simp add: framed_return)
    apply (simp add: stop attempts_return)
    done
qed

lemma attempts_add_entry:
  assumes "length es \<le> cap"
  shows "\<exists>cap'. length (es @ [e]) \<le> cap' \<and>
    attempts (add_entry tok sid es cap)
      (Some (es @ [\<lparr>sk_reason = Some tok, sk_session_id = Some sid\<rparr>], cap')) (\<lambda>x. x = None)"
proof -
  have ok: "attempts (if length es = cap then alloc else ret True) True Not"
    by (simp add: attempts_alloc attempts_return)
  let ?c = "if length es = cap then (if cap = 0 then 4 else cap * 2) else cap"
  have c: "length es < ?c" using assms by auto
  have "attempts (add_entry tok sid es cap)
      (Some (es @ [\<lparr>sk_reason = Some tok, sk_session_id = Some sid\<rparr>], ?c)) (\<lambda>x. x = None)"
    unfolding add_entry_def Let_def
    apply (rule attempts_bind [OF ok], simp add: framed_return)
    apply (simp only: not_True_eq_False if_False)
    apply (rule attempts_bind [OF attempts_memdup], simp add: framed_return)
    apply (simp only: option.distinct if_False c if_True, rule attempts_return, rule refl)
    done
  with c show ?thesis by (intro exI [of _ ?c]) simp
qed

lemma attempts_skipped_loop:
  "\<forall>e\<in>set es. good_entry e \<Longrightarrow> dropWhile skip_sep p = entries_text es \<Longrightarrow> length p \<le> k \<Longrightarrow>
   length acc \<le> cap \<Longrightarrow>
   attempts (skipped_loop k p acc cap :: ('w world_scheme, _) state) (Some (acc @ es)) (\<lambda>x. x = None)"
proof (induction es arbitrary: k p acc cap)
  case Nil
  then show ?case by (cases k) (auto simp: Let_def attempts_return)
next
  case (Cons e es)
  then obtain r s where e: "e = \<lparr>sk_reason = Some r, sk_session_id = Some s\<rparr>"
    and r: "is_valid_skip_reason r" and s: "s \<noteq> []" "clean s"
    by (auto simp: good_entry_def)
  note vr = valid_reason [OF r]
  define t where "t = (if es = [] then [] else '', '' @ entries_text es)"
  let ?param = "param_text ''session_identifier'' (Some s)"
  have p1: "dropWhile skip_sep p = r @ ?param @ t"
    using Cons.prems(2) s by (cases es) (simp_all add: t_def entry_text_def e)
  have semi: "?param @ t = CHR '';'' # tl (?param @ t)" by (simp add: param_text_def)
  have tok: "takeWhile is_token_char (r @ ?param @ t) = r" "dropWhile is_token_char (r @ ?param @ t) = ?param @ t"
    using takeWhile_append_stop [of r is_token_char "CHR '';''" "tl (?param @ t)"]
      dropWhile_append_stop [of r is_token_char "CHR '';''" "tl (?param @ t)"] vr stop_chars semi by auto
  have tl: "t = [] \<or> hd t = CHR '',''" by (simp add: t_def)
  have ne: "(p = []) = False" "(r @ ?param @ t = []) = False" "(r = []) = False" using p1 vr by auto
  have "length (dropWhile skip_sep p) \<le> length p" by (rule length_dropWhile_le)
  then have len: "length r + length t < length p" unfolding p1 by (simp add: param_text_def)
  obtain k' where k: "k = Suc k'" using Cons.prems(3) ne by (cases k) auto
  obtain cap' where cap': "length (acc @ [e]) \<le> cap'"
    and add: "attempts (add_entry r s acc cap :: ('w world_scheme, _) state) (Some (acc @ [e], cap')) (\<lambda>x. x = None)"
    using attempts_add_entry [OF Cons.prems(4), of e r s] by (auto simp: e)
  have hd: "dropWhile skip_sep t = entries_text es"
  proof (cases es)
    case (Cons f fs)
    with Cons.prems(1) obtain r' s' where f: "f = \<lparr>sk_reason = Some r', sk_session_id = Some s'\<rparr>"
      and r': "is_valid_skip_reason r'" by (auto simp: good_entry_def)
    then obtain u where u: "entries_text es = r' @ u"
      using Cons by (cases fs) (simp_all add: entry_text_def)
    have "dropWhile skip_sep (r' @ u) = r' @ u"
      using valid_reason [OF r'] by (cases r') auto
    moreover have "t = CHR '','' # CHR '' '' # r' @ u" using Cons u by (simp add: t_def)
    ultimately show ?thesis by (simp add: u is_space_def)
  qed (simp add: t_def)
  have rest: "attempts (skipped_loop k' t (acc @ [e]) cap' :: ('w world_scheme, _) state) (Some (acc @ e # es)) (\<lambda>x. x = None)"
    using Cons.IH [of t k' "acc @ [e]" cap'] Cons.prems(1,3) hd len k cap' by simp
  show ?case
    unfolding k skipped_loop.simps p1 Let_def tok ne if_False
    apply (rule attempts_bind [OF attempts_params_text [OF s(2,1) tl]], simp add: framed_return)
    apply (simp only: option.case prod.case option.distinct option.sel r simp_thms if_True)
    apply (rule attempts_bind [OF add], simp add: framed_return)
    apply (simp only: option.case prod.case, rule rest)
    done
qed

lemma attempts_parse_skipped:
  assumes "\<forall>e\<in>set es. good_entry e" and "es \<noteq> []"
  shows "attempts (opendbsc_parse_session_skipped (Some (entries_text es))) (0, es) (\<lambda>r. r = (-1, []))"
proof -
  have start: "dropWhile skip_sep (entries_text es) = entries_text es"
  proof (cases es)
    case (Cons e fs)
    with assms obtain r s where e: "e = \<lparr>sk_reason = Some r, sk_session_id = Some s\<rparr>" "is_valid_skip_reason r"
      by (auto simp: good_entry_def)
    then obtain u where "entries_text es = r @ u"
      using Cons by (cases fs) (simp_all add: entry_text_def)
    then show ?thesis using valid_reason [OF e(2)] by (cases r) auto
  qed (use assms in simp)
  show ?thesis
    unfolding opendbsc_parse_session_skipped_def option.case
    by (rule attempts_bind [OF attempts_skipped_loop [OF assms(1) start]])
       (simp_all add: framed_return attempts_return)
qed

section \<open>What the parser reads\<close>

text \<open>
  The skipped header as the parser understands it: entries between blanks and commas, each a token
  with parameters; an entry without a session identifier, or with a reason the specification does
  not define, is passed over. \<open>None\<close> is a header that is refused.
\<close>

function skip_params :: "string \<Rightarrow> string option \<Rightarrow> (string \<times> string option) option" where
  "skip_params [] sid = Some ([], sid)"
| "skip_params (c # p) sid =
     (if c \<noteq> CHR '';'' then Some (c # p, sid)
      else (case parse_param p of None \<Rightarrow> None
        | Some (key, v, rest) \<Rightarrow> skip_params rest (if key = ''session_identifier'' then Some v else sid)))"
  by pat_completeness auto

termination
  by (relation "measure (\<lambda>(p, s). length p)") (auto dest: parse_param_decreases)

lemma skip_params_length: "skip_params p sid = Some (rest, s) \<Longrightarrow> length rest \<le> length p"
proof (induction p sid arbitrary: rest s rule: skip_params.induct)
  case (2 c p sid)
  then show ?case
    by (fastforce split: if_splits option.splits prod.splits dest: parse_param_decreases)
qed simp

lemma token_rest:
  "takeWhile is_token_char (dropWhile P p) \<noteq> [] \<Longrightarrow> length (dropWhile is_token_char (dropWhile P p)) < length p"
  using length_dropWhile_le [of P p]
    arg_cong [OF takeWhile_dropWhile_id [of is_token_char "dropWhile P p"], where f = length]
  by (cases "takeWhile is_token_char (dropWhile P p)") simp_all

function skipped_read :: "string \<Rightarrow> OpenDBSC_SkippedEntry list option" where
  "skipped_read p =
     (let q = dropWhile skip_sep p; tok = takeWhile is_token_char q
      in if q = [] then Some []
         else if tok = [] then None
         else (case skip_params (dropWhile is_token_char q) None of None \<Rightarrow> None
           | Some (rest, sid) \<Rightarrow>
               map_option (\<lambda>es. if is_valid_skip_reason tok \<and> sid \<noteq> None
                   then \<lparr>sk_reason = Some tok, sk_session_id = sid\<rparr> # es else es) (skipped_read rest)))"
  by pat_completeness auto

termination
  by (relation "measure length") (auto dest!: skip_params_length token_rest)

declare skipped_read.simps [simp del]

lemma returns_params_loop: "returns (params_loop p sid :: ('w world_scheme, _) state) (skip_params p sid)"
proof (induction p sid rule: skip_params.induct)
  case (2 c p sid)
  show ?case
  proof (cases "c \<noteq> CHR '';'' \<or> parse_param p = None")
    case True
    then show ?thesis by (elim disjE) (simp_all add: returns_return)
  next
    case False
    then obtain key v rest where pp: "parse_param p = Some (key, v, rest)" and c: "c = CHR '';''" by auto
    have IH: "returns (params_loop rest (if key = ''session_identifier'' then Some v else sid) :: ('w world_scheme, _) state)
        (skip_params rest (if key = ''session_identifier'' then Some v else sid))"
      using "2.IH" [OF _ pp refl refl] c by simp
    show ?thesis
    proof (cases "key = ''session_identifier''")
      case True
      with IH show ?thesis
        by (simp add: c pp) (rule returns_bind [OF attempts_returns [OF attempts_memdup]], simp)
    next
      case False
      with IH show ?thesis by (simp add: c pp)
    qed
  qed
qed (simp add: returns_return)

lemma returns_skipped_loop:
  "length p \<le> k \<Longrightarrow> length acc \<le> cap \<Longrightarrow>
   returns (skipped_loop k p acc cap :: ('w world_scheme, _) state) (map_option (\<lambda>es. acc @ es) (skipped_read p))"
proof (induction k arbitrary: p acc cap)
  case 0
  then show ?case by (simp add: skipped_read.simps [of "[]"] returns_return)
next
  case (Suc k)
  let ?q = "dropWhile skip_sep p" and ?tok = "takeWhile is_token_char (dropWhile skip_sep p)"
  let ?p = "dropWhile is_token_char (dropWhile skip_sep p)"
  show ?case
  proof (cases "p = [] \<or> ?q = [] \<or> ?tok = []")
    case True
    have stop: "skipped_read p = Some []" if "?q = []"
      using that by (subst skipped_read.simps) (simp only: Let_def simp_thms if_True)
    have bad: "skipped_read p = None" if "?q \<noteq> []" "?tok = []"
      using that by (subst skipped_read.simps) (simp only: Let_def simp_thms if_True if_False)
    consider "p = []" | "p \<noteq> []" "?q = []" | "p \<noteq> []" "?q \<noteq> []" "?tok = []" using True by blast
    then show ?thesis
    proof cases
      case 1
      then show ?thesis using stop by (simp add: returns_return)
    next
      case 2
      show ?thesis
        unfolding stop [OF 2(2)] skipped_loop.simps Let_def by (simp only: 2 if_True if_False) (simp add: returns_return)
    next
      case 3
      show ?thesis
        unfolding bad [OF 3(2,3)] skipped_loop.simps Let_def by (simp only: 3 if_True if_False) (simp add: returns_return)
    qed
  next
    case False
    then have ne: "(p = []) = False" "(?q = []) = False" "(?tok = []) = False" by auto
    have short: "length ?p \<le> k" using token_rest [of skip_sep p] False Suc.prems(1) by simp
    have read: "skipped_read p = (case skip_params ?p None of None \<Rightarrow> None
      | Some (rest, sid) \<Rightarrow> map_option (\<lambda>es. if is_valid_skip_reason ?tok \<and> sid \<noteq> None
          then \<lparr>sk_reason = Some ?tok, sk_session_id = sid\<rparr> # es else es) (skipped_read rest))"
      by (simp only: skipped_read.simps [of p] Let_def ne if_False)
    show ?thesis
    proof (cases "skip_params ?p None")
      case None
      show ?thesis
        unfolding skipped_loop.simps Let_def ne if_False read None option.case
        by (rule returns_bind [OF returns_params_loop]) (simp add: None returns_return)
    next
      case (Some r)
      obtain rest sid where r: "r = (rest, sid)" by fastforce
      have len: "length rest \<le> k" using skip_params_length [OF Some [unfolded r]] short by simp
      show ?thesis
        unfolding skipped_loop.simps Let_def ne if_False read
      proof (rule returns_bind [OF returns_params_loop], cases "is_valid_skip_reason ?tok \<and> sid \<noteq> None")
        case True
        then obtain i where i: "sid = Some i" by auto
        obtain cap' where cap': "length (acc @ [undefined]) \<le> cap'"
          and add: "attempts (add_entry ?tok i acc cap :: ('w world_scheme, _) state)
            (Some (acc @ [\<lparr>sk_reason = Some ?tok, sk_session_id = Some i\<rparr>], cap')) (\<lambda>x. x = None)"
          using attempts_add_entry [OF Suc.prems(2), of undefined ?tok i] by blast
        have "returns (skipped_loop k rest (acc @ [\<lparr>sk_reason = Some ?tok, sk_session_id = Some i\<rparr>]) cap' :: ('w world_scheme, _) state)
            (map_option (\<lambda>es. acc @ \<lparr>sk_reason = Some ?tok, sk_session_id = Some i\<rparr> # es) (skipped_read rest))"
          using Suc.IH [OF len, of "acc @ [\<lparr>sk_reason = Some ?tok, sk_session_id = Some i\<rparr>]" cap'] cap' by simp
        then have go: "returns (do { r \<leftarrow> add_entry ?tok (the sid) acc cap; case r of None \<Rightarrow> ret None
              | Some (entries, capacity) \<Rightarrow> skipped_loop k rest entries capacity } :: ('w world_scheme, _) state)
            (map_option (\<lambda>es. acc @ \<lparr>sk_reason = Some ?tok, sk_session_id = Some i\<rparr> # es) (skipped_read rest))"
          unfolding i option.sel by (intro returns_bind [OF attempts_returns [OF add]]) simp
        have eq: "map_option (\<lambda>es. acc @ es) (map_option (\<lambda>es. if is_valid_skip_reason ?tok \<and> sid \<noteq> None
                then \<lparr>sk_reason = Some ?tok, sk_session_id = sid\<rparr> # es else es) (skipped_read rest)) =
            map_option (\<lambda>es. acc @ \<lparr>sk_reason = Some ?tok, sk_session_id = Some i\<rparr> # es) (skipped_read rest)"
          using True by (simp add: i option.map_comp comp_def)
        from True have yes: "(is_valid_skip_reason ?tok \<and> sid \<noteq> None) = True" by simp
        show "returns ((case skip_params ?p None of None \<Rightarrow> ret None
            | Some (p, session_id) \<Rightarrow>
                if is_valid_skip_reason ?tok \<and> session_id \<noteq> None then do {
                  r \<leftarrow> add_entry ?tok (the session_id) acc cap;
                  case r of None \<Rightarrow> ret None
                  | Some (entries, capacity) \<Rightarrow> skipped_loop k p entries capacity }
                else skipped_loop k p acc cap) :: ('w world_scheme, _) state)
          (map_option (\<lambda>es. acc @ es) (case skip_params ?p None of None \<Rightarrow> None
            | Some (rest, sid) \<Rightarrow> map_option (\<lambda>es. if is_valid_skip_reason ?tok \<and> sid \<noteq> None
                then \<lparr>sk_reason = Some ?tok, sk_session_id = sid\<rparr> # es else es) (skipped_read rest)))"
          unfolding Some r option.case prod.case eq unfolding yes if_True by (rule go)
      next
        case False
        with Suc.IH [OF len Suc.prems(2)] show "returns ((case skip_params ?p None of None \<Rightarrow> ret None
            | Some (p, session_id) \<Rightarrow>
                if is_valid_skip_reason ?tok \<and> session_id \<noteq> None then do {
                  r \<leftarrow> add_entry ?tok (the session_id) acc cap;
                  case r of None \<Rightarrow> ret None
                  | Some (entries, capacity) \<Rightarrow> skipped_loop k p entries capacity }
                else skipped_loop k p acc cap) :: ('w world_scheme, _) state)
          (map_option (\<lambda>es. acc @ es) (case skip_params ?p None of None \<Rightarrow> None
            | Some (rest, sid) \<Rightarrow> map_option (\<lambda>es. if is_valid_skip_reason ?tok \<and> sid \<noteq> None
                then \<lparr>sk_reason = Some ?tok, sk_session_id = sid\<rparr> # es else es) (skipped_read rest)))"
          by (auto simp: Some r option.map_comp comp_def)
      qed
    qed
  qed
qed

lemma framed_parse_skipped [framed_intros]:
  "framed (opendbsc_parse_session_skipped (Some h))
    (\<lambda>(rc, es). rc = 0 \<and> (\<forall>e\<in>set es. valid_entry e) \<or> rc = -1 \<and> es = [])"
  unfolding opendbsc_parse_session_skipped_def option.case
  by (rule framed_bind [OF framed_skipped_loop]) (auto intro!: framed_return split: option.splits)

lemma attempts_read_skipped:
  "attempts (opendbsc_parse_session_skipped (Some h))
     (case skipped_read h of None \<Rightarrow> (-1, []) | Some es \<Rightarrow> (0, es)) (\<lambda>_. True)"
proof (rule attemptsI)
  show "framed (opendbsc_parse_session_skipped (Some h)) (\<lambda>x. True \<or> x = (case skipped_read h of None \<Rightarrow> (-1, []) | Some es \<Rightarrow> (0, es)))"
    by (rule framed_weaken [OF framed_parse_skipped]) simp
  show "returns (opendbsc_parse_session_skipped (Some h)) (case skipped_read h of None \<Rightarrow> (-1, []) | Some es \<Rightarrow> (0, es))"
    unfolding opendbsc_parse_session_skipped_def option.case
    by (rule returns_bind [OF returns_skipped_loop [OF order_refl]])
       (auto simp: returns_return split: option.split)
qed

section \<open>Properties\<close>

text \<open>
  The registration header. For any list of algorithm names and any optional parameters, the
  second pass fills exactly the buffer the first pass sized, without leaving it, and the text is
  the parenthesised algorithm list followed by the parameters that are present and not empty, in
  the fixed order; NULL is returned only for want of memory.
\<close>

theorem registration_serialize_exact:
  assumes "run_state (opendbsc_registration_serialize (Some (map Some ss)) (length ss) path challenge
      authorization provider_key provider_session_id provider_url) w = (r, w')"
  shows "undef w' = undef w \<and>
    (r = Some (''('' @ join_text CHR '' '' ss @ '')'' @ opt_param ''path'' path @
           opt_param ''challenge'' challenge @ opt_param ''authorization'' authorization @
           opt_param ''provider_key'' provider_key @
           opt_param ''provider_session_id'' provider_session_id @ opt_param ''provider_url'' provider_url) \<or>
     r = None \<and> starved w)"
  using attemptsD [OF attempts_registration assms] by (auto simp: registration_text_def frame_undef)

theorem registration_serialize_exact_witness:
  "fst (run_state (opendbsc_registration_serialize (Some [Some ''ES256'', Some ''RS256'']) 2 (Some ''reg'')
      (Some ''cv'') None (Some []) None None) demo_world) =
   Some (''(ES256 RS256);path='' @ [dq] @ ''reg'' @ [dq] @ '';challenge='' @ [dq] @ ''cv'' @ [dq])"
proof -
  let ?r = "run_state (opendbsc_registration_serialize (Some (map Some [''ES256'', ''RS256'']))
      (length [''ES256'', ''RS256'']) (Some ''reg'') (Some ''cv'') None (Some []) None None) demo_world"
  have "undef (snd ?r) = undef demo_world \<and>
    (fst ?r = Some (''('' @ join_text CHR '' '' [''ES256'', ''RS256''] @ '')'' @ opt_param ''path'' (Some ''reg'') @
           opt_param ''challenge'' (Some ''cv'') @ opt_param ''authorization'' None @
           opt_param ''provider_key'' (Some []) @
           opt_param ''provider_session_id'' None @ opt_param ''provider_url'' None) \<or>
     fst ?r = None \<and> starved demo_world)"
    by (rule registration_serialize_exact [where w' = "snd ?r"]) (simp add: prod_eq_iff)
  then show ?thesis by (simp add: opt_param_def param_text_def numeral_2_eq_2)
qed

text \<open>
  The session-id header round trip: an identifier without quotes and backslashes that is
  serialised is read back unchanged, unless memory runs out on either side.
\<close>

theorem session_id_roundtrip:
  assumes "clean i" and "run_state (opendbsc_session_id_serialize (Some i)) w = (Some h, w1)"
    and "run_state (opendbsc_parse_session_id (Some h)) w1 = (r, w2)"
  shows "r = Some i \<or> r = None \<and> starved w"
proof -
  from attemptsD [OF attempts_quoted(1) assms(2)] have h: "h = quoted i" and f: "frame w w1" by auto
  from attemptsD [OF attempts_parse(1) assms(3)] show ?thesis
    by (auto simp: h unquoted_quoted [OF assms(1)] frame_starved [OF f])
qed

theorem session_id_roundtrip_witness:
  "let (h, w1) = run_state (opendbsc_session_id_serialize (Some ''s1'')) demo_world
   in h = Some [dq, CHR ''s'', CHR ''1'', dq] \<and> fst (run_state (opendbsc_parse_session_id h) w1) = Some ''s1''"
proof -
  let ?s = "run_state (opendbsc_session_id_serialize (Some ''s1'')) demo_world"
  let ?p = "run_state (opendbsc_parse_session_id (fst ?s)) (snd ?s)"
  have s: "fst ?s = Some [dq, CHR ''s'', CHR ''1'', dq]" by code_simp
  have "fst ?p = Some ''s1'' \<or> fst ?p = None \<and> starved demo_world"
    by (rule session_id_roundtrip [where h = "[dq, CHR ''s'', CHR ''1'', dq]" and ?w1.0 = "snd ?s" and ?w2.0 = "snd ?p"])
       (simp_all add: s prod_eq_iff clean_def)
  with s show ?thesis by (simp add: case_prod_beta)
qed

text \<open>
  C32: The skipped header round trip: a non-empty list of entries with reasons the specification
  defines and non-empty identifiers without quotes and backslashes is read back exactly, in
  order, from the text the serialiser writes, unless memory runs out.
\<close>

theorem session_skipped_roundtrip:
  assumes "\<forall>e\<in>set es. good_entry e" and "es \<noteq> []"
    and "run_state (opendbsc_session_skipped_serialize (Some es) (length es)) w = (Some buf, w1)"
    and "run_state (opendbsc_parse_session_skipped buf) w1 = (r, w2)"
  shows "r = (0, es) \<or> r = (-1, []) \<and> starved w"
proof -
  from attemptsD [OF attempts_skipped_serialize assms(3)] assms(2)
  have b: "buf = Some (entries_text es)" and f: "frame w w1" by auto
  from attemptsD [OF attempts_parse_skipped [OF assms(1,2)] assms(4) [unfolded b]] show ?thesis
    by (auto simp: frame_starved [OF f])
qed

theorem session_skipped_roundtrip_witness:
  "let es = [\<lparr>sk_reason = Some ''unreachable'', sk_session_id = Some ''s1''\<rparr>,
             \<lparr>sk_reason = Some ''quota_exceeded'', sk_session_id = Some ''s2''\<rparr>];
       (b, w1) = run_state (opendbsc_session_skipped_serialize (Some es) 2) demo_world
   in fst (run_state (opendbsc_parse_session_skipped (the b)) w1) = (0, es)"
proof -
  let ?es = "[\<lparr>sk_reason = Some ''unreachable'', sk_session_id = Some ''s1''\<rparr>,
             \<lparr>sk_reason = Some ''quota_exceeded'', sk_session_id = Some ''s2''\<rparr>]"
  let ?s = "run_state (opendbsc_session_skipped_serialize (Some ?es) (length ?es)) demo_world"
  let ?p = "run_state (opendbsc_parse_session_skipped (the (fst ?s))) (snd ?s)"
  have "fst ?s \<noteq> None" by code_simp
  then have s: "?s = (Some (the (fst ?s)), snd ?s)" by (simp add: prod_eq_iff)
  have good: "\<forall>e\<in>set ?es. good_entry e" by (simp add: good_entry_def clean_def is_valid_skip_reason_def)
  have "fst ?p = (0, ?es) \<or> fst ?p = (-1, []) \<and> starved demo_world"
    by (rule session_skipped_roundtrip [OF good _ s surjective_pairing]) simp
  then have "fst ?p = (0, ?es)" by simp
  then show ?thesis by (simp add: case_prod_beta numeral_2_eq_2)
qed

text \<open>
  The skipped-header parser on arbitrary input. It always returns within as many turns as the
  header has characters and without undefined behaviour, with 0 and entries that all carry a
  reason the specification defines and a session identifier, or with -1 and nothing.
\<close>

theorem session_skipped_parse_safe:
  assumes "run_state (opendbsc_parse_session_skipped v) w = ((rc, es), w')"
  shows "undef w' = undef w \<and>
    (rc = 0 \<and> (\<forall>e\<in>set es. \<exists>r s. e = \<lparr>sk_reason = Some r, sk_session_id = Some s\<rparr> \<and>
                  r \<in> {''unreachable'', ''server_error'', ''quota_exceeded''}) \<or>
     rc = -1 \<and> es = [])"
proof (cases v)
  case None
  with assms show ?thesis by (simp add: opendbsc_parse_session_skipped_def)
next
  case (Some h)
  from framedD [OF framed_parse_skipped assms [unfolded Some]] have "undef w' = undef w"
    "rc = 0 \<and> (\<forall>e\<in>set es. valid_entry e) \<or> rc = -1 \<and> es = []" by (auto simp: frame_undef)
  moreover have "\<exists>r s. e = \<lparr>sk_reason = Some r, sk_session_id = Some s\<rparr> \<and>
      r \<in> {''unreachable'', ''server_error'', ''quota_exceeded''}" if "valid_entry e" for e
    using that by (cases e) (auto simp: valid_entry_def is_valid_skip_reason_def)
  ultimately show ?thesis by blast
qed

theorem session_skipped_parse_safe_witness:
  "\<not> undef (snd (run_state (opendbsc_parse_session_skipped (Some '', unreachable;a=b'')) demo_world)) \<and>
   fst (run_state (opendbsc_parse_session_skipped (Some '', unreachable;a=b'')) demo_world) = (-1, [])"
proof -
  let ?p = "run_state (opendbsc_parse_session_skipped (Some '', unreachable;a=b'')) demo_world"
  have r: "fst ?p = (-1, [])" by code_simp
  have "undef (snd ?p) = undef demo_world \<and>
    ((-1::int) = 0 \<and> (\<forall>e\<in>set []. \<exists>r s. e = \<lparr>sk_reason = Some r, sk_session_id = Some s\<rparr> \<and>
                  r \<in> {''unreachable'', ''server_error'', ''quota_exceeded''}) \<or>
     (-1::int) = -1 \<and> [] = ([] :: OpenDBSC_SkippedEntry list))"
    by (rule session_skipped_parse_safe [where v = "Some '', unreachable;a=b''"]) (simp add: r prod_eq_iff)
  with r show ?thesis by simp
qed

text \<open>With no entries the serialiser returns a buffer nothing was written to.\<close>

lemma session_skipped_serialize_empty:
  "fst (run_state (opendbsc_session_skipped_serialize (Some []) 0) demo_world) = Some None"
  by code_simp

end
