(* ===== verification/Base64url.thy ===== *)
theory Base64url
  imports DBSC_Prelude
begin

text \<open>
  The base64url codec of \<^verbatim>\<open>src/protocol/jwt.c\<close>: the alphabet, the digit test, the decoder with its
  padded copy and the encoder with its trimmed tail. Output buffers are lists with the capacity
  the code allocates; a store past it is undefined behaviour. The lemmas give the decoder's exact
  result on every input, show both routines stay inside their buffers, and prove that decoding
  inverts encoding.
\<close>

unbundle bit_operations_syntax

section \<open>The alphabet\<close>

definition b64url_table :: string where
  "b64url_table = ''ABCDEFGHIJKLMNOPQRSTUVWXYZabcdefghijklmnopqrstuvwxyz0123456789-_''"

abbreviation ascii :: "char \<Rightarrow> int" where
  "ascii c \<equiv> of_char c"

definition b64url_digit :: "char \<Rightarrow> int" where
  "b64url_digit c =
     (if ascii c \<ge> ascii CHR ''A'' \<and> ascii c \<le> ascii CHR ''Z'' then ascii c - ascii CHR ''A''
      else if ascii c \<ge> ascii CHR ''a'' \<and> ascii c \<le> ascii CHR ''z'' then ascii c - ascii CHR ''a'' + 26
      else if ascii c \<ge> ascii CHR ''0'' \<and> ascii c \<le> ascii CHR ''9'' then ascii c - ascii CHR ''0'' + 52
      else if c = CHR ''-'' \<or> c = CHR ''+'' then 62
      else if c = CHR ''_'' \<or> c = CHR ''/'' then 63
      else -1)"

section \<open>Decoding\<close>

definition put_byte :: "nat \<Rightarrow> byte list \<Rightarrow> byte \<Rightarrow> ('a world_scheme, byte list) state" where
  "put_byte cap buf b = (if length buf < cap then ret (buf @ [b]) else ub buf)"

definition put_byte_if ::
  "nat \<Rightarrow> bool \<Rightarrow> byte list \<Rightarrow> byte \<Rightarrow> ('a world_scheme, byte list) state" where
  "put_byte_if cap c buf b = (if c then put_byte cap buf b else ret buf)"

text \<open>The loop over the padded copy; its argument is the part of the copy not read yet.\<close>

fun decode_loop ::
  "nat \<Rightarrow> string \<Rightarrow> byte list \<Rightarrow> ('a world_scheme, byte list option) state" where
  "decode_loop cap [] decoded = ret (Some decoded)"
| "decode_loop cap (p0 # p1 # p2 # p3 # rest) decoded =
     (let d0 = b64url_digit p0;
          d1 = b64url_digit p1;
          d2 = (if p2 = CHR ''='' then 0 else b64url_digit p2);
          d3 = (if p3 = CHR ''='' then 0 else b64url_digit p3)
      in if d0 < 0 \<or> d1 < 0 \<or> (p2 \<noteq> CHR ''='' \<and> d2 < 0) \<or> (p3 \<noteq> CHR ''='' \<and> d3 < 0)
         then ret None
         else do {
           decoded \<leftarrow> put_byte cap decoded (word_of_int (push_bit 2 d0 OR drop_bit 4 d1));
           decoded \<leftarrow> put_byte_if cap (p2 \<noteq> CHR ''='') decoded
                       (word_of_int (push_bit 4 (d1 AND 0x0f) OR drop_bit 2 d2));
           decoded \<leftarrow> put_byte_if cap (p3 \<noteq> CHR ''='') decoded
                       (word_of_int (push_bit 6 (d2 AND 0x03) OR d3));
           decode_loop cap rest decoded })"
| "decode_loop cap _ decoded = ub None"

definition std_alphabet :: "char \<Rightarrow> char" where
  "std_alphabet c = (if c = CHR ''-'' then CHR ''+'' else if c = CHR ''_'' then CHR ''/'' else c)"

definition opendbsc_base64url_decode ::
  "string option \<Rightarrow> ('a world_scheme, int \<times> byte list option) state" where
  "opendbsc_base64url_decode inp =
     (case inp of None \<Rightarrow> ret (-1, None)
      | Some s \<Rightarrow>
        let len = length s in
        if len = 0 then ret (-1, None)
        else do {
          let pad = (4 - len mod 4) mod 4;
          let padded_len = len + pad;
          ok \<leftarrow> alloc;
          if \<not> ok then ret (-1, None)
          else do {
            let padded = map std_alphabet s @ replicate pad CHR ''='';
            let decoded_max = padded_len div 4 * 3;
            ok \<leftarrow> alloc;
            if \<not> ok then ret (-1, None)
            else do {
              decoded \<leftarrow> decode_loop decoded_max padded [];
              case decoded of None \<Rightarrow> ret (-1, None) | Some bs \<Rightarrow> ret (0, Some bs) } } })"

section \<open>Encoding\<close>

definition put_chars :: "nat \<Rightarrow> string \<Rightarrow> string \<Rightarrow> ('a world_scheme, string) state" where
  "put_chars cap buf s = (if length buf + length s \<le> cap then ret (buf @ s) else ub buf)"

definition table_char :: "32 word \<Rightarrow> char" where
  "table_char k = b64url_table ! unat (k AND 0x3f)"

fun encode_loop :: "nat \<Rightarrow> byte list \<Rightarrow> string \<Rightarrow> ('a world_scheme, string) state" where
  "encode_loop cap [] out = ret out"
| "encode_loop cap (x # rest) out =
     (let b = push_bit 16 (ucast x);
          b = (if rest \<noteq> [] then b OR push_bit 8 (ucast (rest ! 0)) else b);
          b = (if length rest > 1 then b OR ucast (rest ! 1) else b)
      in do {
        out \<leftarrow> put_chars cap out
          [table_char (drop_bit 18 b),
           table_char (drop_bit 12 b),
           if rest \<noteq> [] then table_char (drop_bit 6 b) else CHR 0x00,
           if length rest > 1 then table_char b else CHR 0x00];
        encode_loop cap (drop 2 rest) out })"

text \<open>The loop that trims zero characters from the end; the argument is reversed.\<close>

fun trim_zeros :: "string \<Rightarrow> string" where
  "trim_zeros [] = []"
| "trim_zeros (c # cs) = (if c = CHR 0x00 then trim_zeros cs else rev (c # cs))"

definition opendbsc_base64url_encode ::
  "byte list option \<Rightarrow> ('a world_scheme, string option) state" where
  "opendbsc_base64url_encode inp =
     (case inp of None \<Rightarrow> ret None
      | Some bs \<Rightarrow>
        if length bs = 0 then ret None
        else do {
          let out_len = (length bs + 2) div 3 * 4;
          ok \<leftarrow> alloc;
          if \<not> ok then ret None
          else do {
            out \<leftarrow> encode_loop (out_len + 1) bs [];
            out \<leftarrow> put_chars (out_len + 1) out [CHR 0x00];
            let out = trim_zeros (rev (butlast out));
            ret (Some (cstr out)) } })"

section \<open>The decoder's result\<close>

definition decode_group :: "char \<Rightarrow> char \<Rightarrow> char \<Rightarrow> char \<Rightarrow> byte list option" where
  "decode_group p0 p1 p2 p3 =
     (let d0 = b64url_digit p0; d1 = b64url_digit p1;
          d2 = (if p2 = CHR ''='' then 0 else b64url_digit p2);
          d3 = (if p3 = CHR ''='' then 0 else b64url_digit p3)
      in if d0 < 0 \<or> d1 < 0 \<or> d2 < 0 \<or> d3 < 0 then None
         else Some ([word_of_int (push_bit 2 d0 OR drop_bit 4 d1)] @
                    (if p2 \<noteq> CHR ''='' then [word_of_int (push_bit 4 (d1 AND 0x0f) OR drop_bit 2 d2)] else []) @
                    (if p3 \<noteq> CHR ''='' then [word_of_int (push_bit 6 (d2 AND 0x03) OR d3)] else [])))"

fun decode_groups :: "string \<Rightarrow> byte list option" where
  "decode_groups [] = Some []"
| "decode_groups (p0 # p1 # p2 # p3 # rest) =
     (case (decode_group p0 p1 p2 p3, decode_groups rest) of
        (Some g, Some bs) \<Rightarrow> Some (g @ bs) | _ \<Rightarrow> None)"
| "decode_groups _ = None"

definition b64_decode :: "string \<Rightarrow> byte list option" where
  "b64_decode s =
     (if s = [] then None
      else decode_groups (map std_alphabet s @ replicate ((4 - length s mod 4) mod 4) CHR ''=''))"

lemma put_byte_fits: "length buf < cap \<Longrightarrow> put_byte cap buf b = ret (buf @ [b])"
  by (simp add: put_byte_def)

lemma put_byte_if_fits:
  "length buf < cap \<Longrightarrow> put_byte_if cap c buf b = ret (buf @ (if c then [b] else []))"
  by (simp add: put_byte_if_def put_byte_def)

lemma div4: "(4 + n) div 4 = Suc (n div 4)" "Suc (Suc (Suc (Suc n))) div 4 = Suc (n div 4)" for n :: nat
  by simp_all

lemma decode_group_length: "decode_group p0 p1 p2 p3 = Some g \<Longrightarrow> 1 \<le> length g \<and> length g \<le> 3"
  by (auto simp: decode_group_def Let_def split: if_splits)

lemma decode_loop_groups:
  "length s mod 4 = 0 \<Longrightarrow> length acc + length s div 4 * 3 \<le> cap \<Longrightarrow>
   wp (decode_loop cap s acc) (\<lambda>r w'. w' = w \<and> r = map_option ((@) acc) (decode_groups s)) w"
proof (induction s arbitrary: acc rule: decode_groups.induct)
  case (2 p0 p1 p2 p3 rest)
  have room: "length acc + 3 + length rest div 4 * 3 \<le> cap" and m: "length rest mod 4 = 0"
    using "2.prems" by (simp_all add: div4)
  show ?case
  proof (cases "decode_group p0 p1 p2 p3")
    case None
    then show ?thesis
      by (auto simp: decode_group_def Let_def wps split: if_splits)
  next
    case (Some g)
    have "wp (decode_loop cap rest (acc @ g))
      (\<lambda>r w'. w' = w \<and> r = map_option ((@) (acc @ g)) (decode_groups rest)) w"
      by (rule "2.IH" [OF m]) (use room decode_group_length [OF Some] in simp)
    with Some room show ?thesis
      by (cases "decode_groups rest")
         (auto simp: decode_group_def Let_def put_byte_fits put_byte_if_fits wps split: if_splits)
  qed
qed (simp_all add: wps)

lemma decode_groups_length: "decode_groups s = Some bs \<Longrightarrow> length s div 4 \<le> length bs \<and> length bs \<le> length s div 4 * 3"
proof (induction s arbitrary: bs rule: decode_groups.induct)
  case (2 p0 p1 p2 p3 rest)
  then obtain g b where "decode_group p0 p1 p2 p3 = Some g" "decode_groups rest = Some b" "bs = g @ b"
    by (auto split: option.splits)
  with 2(1) [of b] decode_group_length [of p0 p1 p2 p3 g] show ?case by (simp add: div4)
qed simp_all

lemma padded_length: "(n + (4 - n mod 4) mod 4) mod 4 = (0 :: nat)"
proof -
  have "n mod 4 < 4" by simp
  then have "n mod 4 = 0 \<or> n mod 4 = 1 \<or> n mod 4 = 2 \<or> n mod 4 = 3" by arith
  then have "(n mod 4 + (4 - n mod 4) mod 4) mod 4 = 0" by auto
  then show ?thesis by (simp only: mod_add_left_eq)
qed

lemma pad_div: "(n + (4 - n mod 4) mod 4) div 4 = (n + 3) div 4" for n :: nat
proof -
  have "n mod 4 < 4" by simp
  then consider "n mod 4 = 0" | "n mod 4 = 1" | "n mod 4 = 2" | "n mod 4 = 3" by linarith
  then show ?thesis using mult_div_mod_eq [of 4 n] by cases (simp_all, arith+)
qed

lemma append_Nil_id: "(@) [] = id"
  by auto

lemma wp_decode:
  "wp (opendbsc_base64url_decode (Some s)) (\<lambda>r w'. frame w w' \<and>
     (r = (-1, None) \<and> (starved w \<or> b64_decode s = None) \<or>
      (\<exists>bs. r = (0, Some bs) \<and> b64_decode s = Some bs))) w"
proof (cases "s = []")
  case True
  then show ?thesis by (simp add: opendbsc_base64url_decode_def b64_decode_def wps)
next
  case False
  let ?pad = "(4 - length s mod 4) mod 4"
  let ?p = "map std_alphabet s @ replicate ?pad CHR ''=''"
  have loop: "wp (decode_loop ((length s + ?pad) div 4 * 3) ?p [])
      (\<lambda>r w'. w' = v \<and> r = decode_groups ?p) v" for v :: "'a world_scheme"
    using decode_loop_groups [of ?p "[]" "(length s + ?pad) div 4 * 3" v]
    by (simp add: padded_length append_Nil_id option.map_id)
  show ?thesis
    using False
    by (auto simp: opendbsc_base64url_decode_def wps Let_def b64_decode_def starved_def
          intro!: wp_mono [OF loop] split: option.splits)
qed

section \<open>The encoder's result\<close>

definition encode_group :: "byte \<Rightarrow> byte \<Rightarrow> byte \<Rightarrow> 32 word" where
  "encode_group x y z = push_bit 16 (ucast x) OR push_bit 8 (ucast y) OR ucast z"

fun b64_encode :: "byte list \<Rightarrow> string" where
  "b64_encode [] = []"
| "b64_encode [x] =
     (let b = encode_group x 0 0 in [table_char (drop_bit 18 b), table_char (drop_bit 12 b)])"
| "b64_encode [x, y] =
     (let b = encode_group x y 0
      in [table_char (drop_bit 18 b), table_char (drop_bit 12 b), table_char (drop_bit 6 b)])"
| "b64_encode (x # y # z # rest) =
     (let b = encode_group x y z
      in [table_char (drop_bit 18 b), table_char (drop_bit 12 b), table_char (drop_bit 6 b),
          table_char b] @ b64_encode rest)"

lemma and_3f: "k AND 0x3f = (take_bit 6 k :: 32 word)"
  by (simp add: take_bit_eq_mask mask_eq_exp_minus_1)

lemma digit_of_table: "\<forall>n\<in>set [0..<64]. b64url_digit (std_alphabet (b64url_table ! n)) = int n \<and>
   b64url_table ! n \<notin> {CHR 0x00, CHR ''.'', CHR ''=''} \<and> std_alphabet (b64url_table ! n) \<noteq> CHR ''=''"
  by code_simp

lemma table_char_index: "unat (k AND 0x3f :: 32 word) < 64"
  using take_bit_nat_less_exp [of 6 "unat k"] by (simp add: and_3f unsigned_take_bit_eq)

lemma table_char_simps [simp]:
  "b64url_digit (std_alphabet (table_char k)) = uint (k AND 0x3f)"
  "table_char k \<noteq> CHR 0x00" "table_char k \<noteq> CHR ''.''" "std_alphabet (table_char k) \<noteq> CHR ''=''"
  using digit_of_table [rule_format, of "unat (k AND 0x3f)"] table_char_index [of k]
  by (auto simp: table_char_def)

text \<open>Bit by bit, the three bytes the decoder assembles are the ones the encoder spread.\<close>

lemma byte_eqI:
  "(\<And>n. n \<in> {0, 1, 2, 3, 4, 5, 6, 7} \<Longrightarrow> bit a n = bit b n) \<Longrightarrow> a = b" for a b :: byte
proof (rule bit_word_eqI)
  fix n
  assume h: "\<And>n. n \<in> {0, 1, 2, 3, 4, 5, 6, 7} \<Longrightarrow> bit a n = bit b n" and "n < LENGTH(8)"
  then have "n \<in> {0, 1, 2, 3, 4, 5, 6, 7}" by (simp; arith)
  then show "bit a n = bit b n" by (rule h)
qed

lemma byte_high: "8 \<le> n \<Longrightarrow> \<not> bit w n" for w :: byte
  using bit_imp_le_length [of w n] by auto

lemma masks: "(0x0f :: int) = mask 4" "(0x03 :: int) = mask 2" "(0x3f :: 32 word) = mask 6"
  by (simp_all add: mask_eq_exp_minus_1)

lemma assemble:
  fixes x y z :: byte
  defines "b \<equiv> encode_group x y z"
  shows "word_of_int (push_bit 2 (uint (drop_bit 18 b AND 0x3f)) OR
           drop_bit 4 (uint (drop_bit 12 b AND 0x3f))) = x"
    and "word_of_int (push_bit 4 (uint (drop_bit 12 b AND 0x3f) AND 0x0f) OR
           drop_bit 2 (uint (drop_bit 6 b AND 0x3f))) = y"
    and "word_of_int (push_bit 6 (uint (drop_bit 6 b AND 0x3f) AND 0x03) OR uint (b AND 0x3f)) = z"
  unfolding b_def encode_group_def masks
  by (rule byte_eqI; elim insertE emptyE; simp add: bit_simps byte_high)+

lemma decode_encode_group:
  fixes x y z :: byte
  defines "b \<equiv> encode_group x y z"
  shows "decode_group (std_alphabet (table_char (drop_bit 18 b))) (std_alphabet (table_char (drop_bit 12 b)))
     (std_alphabet (table_char (drop_bit 6 b))) (std_alphabet (table_char b)) = Some [x, y, z]"
  using assemble [of x y z] unfolding b_def by (simp add: decode_group_def Let_def)

lemma decode_encode_tail:
  "(let b = encode_group x 0 0 in
     decode_group (std_alphabet (table_char (drop_bit 18 b))) (std_alphabet (table_char (drop_bit 12 b)))
       CHR ''='' CHR ''='') = Some [x]"
  "(let b = encode_group x y 0 in
     decode_group (std_alphabet (table_char (drop_bit 18 b))) (std_alphabet (table_char (drop_bit 12 b)))
       (std_alphabet (table_char (drop_bit 6 b))) CHR ''='') = Some [x, y]"
  using assemble [of x 0 0] assemble [of x y 0] by (simp_all add: decode_group_def Let_def)

lemma b64_encode_no_stop: "c \<in> set (b64_encode bs) \<Longrightarrow> c \<noteq> CHR 0x00 \<and> c \<noteq> CHR ''.''"
  by (induction bs rule: b64_encode.induct) (auto simp: Let_def)

lemma b64_encode_Nil [simp]: "b64_encode bs = [] \<longleftrightarrow> bs = []"
  by (cases bs rule: b64_encode.cases) (auto simp: Let_def)

lemma decode_groups_encode:
  "decode_groups (map std_alphabet (b64_encode bs) @
     replicate ((4 - length (b64_encode bs) mod 4) mod 4) CHR ''='') = Some bs"
proof (induction bs rule: b64_encode.induct)
  case (4 x y z rest)
  then show ?case
    using decode_encode_group [of x y z] by (simp add: Let_def)
qed (use decode_encode_tail in \<open>simp_all add: Let_def numeral_2_eq_2\<close>)

lemma b64_decode_encode: "bs \<noteq> [] \<Longrightarrow> b64_decode (b64_encode bs) = Some bs"
  by (simp add: b64_decode_def decode_groups_encode)

text \<open>What the encoder's buffer holds before the zeros are trimmed.\<close>

fun b64_padded :: "byte list \<Rightarrow> string" where
  "b64_padded [] = []"
| "b64_padded [x] = b64_encode [x] @ [CHR 0x00, CHR 0x00]"
| "b64_padded [x, y] = b64_encode [x, y] @ [CHR 0x00]"
| "b64_padded (x # y # z # rest) = b64_encode [x, y, z] @ b64_padded rest"

lemma trim_zeros_eq: "trim_zeros t = rev (dropWhile (\<lambda>c. c = CHR 0x00) t)"
  by (induction t) auto

lemma dropWhile_replicate: "P c \<Longrightarrow> dropWhile P (replicate k c @ t) = dropWhile P t"
  by (induction k) auto

lemma padded_zeros: "\<exists>k. b64_padded bs = b64_encode bs @ replicate k CHR 0x00"
proof (induction bs rule: b64_padded.induct)
  case (4 x y z rest)
  then show ?case by (auto simp: Let_def)
qed (auto intro: exI [of _ 0] exI [of _ 1] exI [of _ 2] simp: numeral_2_eq_2)

lemma trim_padded: "trim_zeros (rev (b64_padded bs)) = b64_encode bs"
proof -
  obtain k where k: "b64_padded bs = b64_encode bs @ replicate k CHR 0x00"
    using padded_zeros by blast
  have "dropWhile (\<lambda>c. c = CHR 0x00) (rev (b64_encode bs)) = rev (b64_encode bs)"
    using b64_encode_no_stop [of "hd (rev (b64_encode bs))" bs]
    by (cases "rev (b64_encode bs)") (auto simp: dropWhile_eq_self_iff)
  then show ?thesis
    by (simp add: k trim_zeros_eq dropWhile_replicate)
qed

lemma length_padded: "length (b64_padded bs) = (length bs + 2) div 3 * 4"
proof (induction bs rule: b64_padded.induct)
  case (4 x y z rest)
  have "(length (x # y # z # rest) + 2) div 3 = Suc ((length rest + 2) div 3)"
    by (simp add: div_add_self1 [of 3 "length rest + 2", symmetric])
  with 4 show ?case by (simp add: Let_def)
qed (simp_all add: Let_def)

lemma encode_loop_padded:
  "length out + length (b64_padded bs) \<le> cap \<Longrightarrow>
   wp (encode_loop cap bs out) (\<lambda>r w'. w' = w \<and> r = out @ b64_padded bs) w"
proof (induction bs arbitrary: out rule: b64_padded.induct)
  case (4 x y z rest)
  let ?g = "let b = encode_group x y z in
    [table_char (drop_bit 18 b), table_char (drop_bit 12 b), table_char (drop_bit 6 b), table_char b]"
  have "wp (encode_loop cap rest (out @ ?g)) (\<lambda>r w'. w' = w \<and> r = (out @ ?g) @ b64_padded rest) w"
    by (rule 4(1)) (use 4(2) in \<open>simp add: Let_def\<close>)
  with 4(2) show ?case
    by (simp add: Let_def put_chars_def wps encode_group_def or.assoc)
qed (simp_all add: Let_def put_chars_def wps encode_group_def)

lemma wp_encode:
  "bs \<noteq> [] \<Longrightarrow> wp (opendbsc_base64url_encode (Some bs)) (\<lambda>r w'. frame w w' \<and>
     (r = None \<and> starved w \<or> r = Some (b64_encode bs))) w"
proof -
  assume ne: "bs \<noteq> []"
  let ?cap = "(length bs + 2) div 3 * 4 + 1"
  have loop: "wp (encode_loop ?cap bs []) (\<lambda>r w'. w' = v \<and> r = b64_padded bs) v" for v :: "'a world_scheme"
    using encode_loop_padded [of "[]" bs ?cap v] by (simp add: length_padded)
  have cs: "cstr (b64_encode bs) = b64_encode bs"
    using b64_encode_no_stop by (intro cstr_id) blast
  show ?thesis
    using ne
    by (auto simp: opendbsc_base64url_encode_def wps Let_def starved_def put_chars_def length_padded
          trim_padded cs intro!: wp_mono [OF loop [simplified]])
qed

section \<open>Properties\<close>

text \<open>
  C30: Decoding inverts encoding. Whenever the encoder returns a string for some bytes, decoding
  that string returns 0 and the same bytes, or reports -1 because an allocation failed.
\<close>

theorem base64url_roundtrip:
  assumes "run_state (opendbsc_base64url_encode (Some bs)) w = (Some s, w1)"
    and "run_state (opendbsc_base64url_decode (Some s)) w1 = ((rc, out), w2)"
  shows "rc = 0 \<and> out = Some bs \<or> rc = -1 \<and> out = None \<and> starved w"
proof -
  have ne: "bs \<noteq> []"
    using assms(1) by (auto simp: opendbsc_base64url_encode_def)
  from wpD [OF wp_encode [OF ne] assms(1)] have s: "s = b64_encode bs" and f: "frame w w1" by auto
  from wpD [OF wp_decode assms(2)] show ?thesis
    by (auto simp: s b64_decode_encode [OF ne] frame_starved [OF f])
qed

theorem base64url_roundtrip_witness:
  "let (e, w1) = run_state (opendbsc_base64url_encode (Some [0, 255, 16, 131])) demo_world
   in e = Some ''AP8Qgw'' \<and> fst (run_state (opendbsc_base64url_decode e) w1) = (0, Some [0, 255, 16, 131])"
proof -
  let ?e = "run_state (opendbsc_base64url_encode (Some [0, 255, 16, 131])) demo_world"
  let ?d = "run_state (opendbsc_base64url_decode (fst ?e)) (snd ?e)"
  have e: "fst ?e = Some ''AP8Qgw''" by code_simp
  have "fst (fst ?d) = 0 \<and> snd (fst ?d) = Some [0, 255, 16, 131] \<or>
    fst (fst ?d) = -1 \<and> snd (fst ?d) = None \<and> starved demo_world"
    by (rule base64url_roundtrip [where s = "''AP8Qgw''" and ?w1.0 = "snd ?e" and ?w2.0 = "snd ?d"])
       (simp_all add: e prod_eq_iff)
  then show ?thesis using e by (simp add: case_prod_beta prod_eq_iff)
qed

text \<open>
  C31: The decoder never leaves its buffers, on any input and under any pattern of allocation
  failures; it answers 0 with between one and three bytes per started group of four characters,
  or -1 with nothing, and the bytes are those of the pure decoder.
\<close>

theorem base64url_decode_safe:
  assumes "run_state (opendbsc_base64url_decode inp) w = ((rc, out), w')"
  shows "undef w' = undef w \<and>
    (rc = -1 \<and> out = None \<or>
     (\<exists>s bs. rc = 0 \<and> inp = Some s \<and> out = Some bs \<and> b64_decode s = Some bs \<and>
        (length s + 3) div 4 \<le> length bs \<and> length bs \<le> (length s + 3) div 4 * 3))"
proof (cases inp)
  case None
  with assms show ?thesis by (simp add: opendbsc_base64url_decode_def)
next
  case (Some s)
  have len: "(length s + 3) div 4 \<le> length bs \<and> length bs \<le> (length s + 3) div 4 * 3"
    if "b64_decode s = Some bs" for bs
  proof -
    have "(length s + (4 - length s mod 4) mod 4) div 4 = (length s + 3) div 4" by (rule pad_div)
    with that decode_groups_length [of "map std_alphabet s @ replicate ((4 - length s mod 4) mod 4) CHR ''=''" bs]
    show ?thesis by (simp add: b64_decode_def split: if_splits)
  qed
  from wpD [OF wp_decode] assms Some show ?thesis
    by (fastforce simp: frame_undef dest: len)
qed

theorem base64url_decode_safe_witness:
  "fst (run_state (opendbsc_base64url_decode (Some ''AP8=A'')) demo_world) = (-1, None) \<and>
   \<not> undef (snd (run_state (opendbsc_base64url_decode (Some ''AP8=A'')) demo_world))"
proof -
  let ?d = "run_state (opendbsc_base64url_decode (Some ''AP8=A'')) demo_world"
  have "fst ?d = (-1, None)" by code_simp
  moreover have "undef (snd ?d) = undef demo_world"
    using base64url_decode_safe [of "Some ''AP8=A''" demo_world "fst (fst ?d)" "snd (fst ?d)" "snd ?d"]
    by simp
  ultimately show ?thesis by (simp add: demo_world_def)
qed

text \<open>
  The decoder is more lenient than base64url: a padding sign is accepted in the third place of a
  group alone, padding is accepted before the end, and so are the two signs of the standard
  alphabet.
\<close>

lemma base64url_decode_lenient:
  "fst (run_state (opendbsc_base64url_decode (Some ''QQ==QUFB'')) demo_world) = (0, Some [65, 65, 65, 65]) \<and>
   fst (run_state (opendbsc_base64url_decode (Some ''AA=A'')) demo_world) = (0, Some [0, 0]) \<and>
   fst (run_state (opendbsc_base64url_decode (Some ''+/==+/=='')) demo_world) = (0, Some [251, 251])"
  by (intro conjI; code_simp)

end
