(* ===== verification/JWT.thy ===== *)
theory JWT
  imports Base64url
begin

text \<open>
  DBSC proof tokens: \<^verbatim>\<open>include/protocol/jwt.h\<close> and \<^verbatim>\<open>src/protocol/jwt.c\<close> but for the codec.
  Splitting and decoding a token, the key construction from a JWK, and the two verification
  entry points.

  The JSON library cJSON and the OpenSSL primitives are not part of the repository, so they are
  parameters: records of pure functions. A call of theirs that allocates draws one answer of the
  world's allocator and reports NULL or 0 when it is refused.
\<close>

section \<open>The external libraries\<close>

text \<open>
  \<open>'j\<close> is the type of JSON values. \<open>cj_string\<close> is \<^verbatim>\<open>valuestring\<close> when \<^verbatim>\<open>cJSON_IsString\<close> holds.
\<close>

record 'j cjson_reader =
  cj_parse :: "string \<Rightarrow> 'j option"
  cj_get :: "'j \<Rightarrow> string \<Rightarrow> 'j option"
  cj_string :: "'j \<Rightarrow> string option"
  cj_is_object :: "'j \<Rightarrow> bool"
  cj_print :: "'j \<Rightarrow> string"

text \<open>
  \<open>'b\<close> is the type of big numbers and \<open>'k\<close> the type of keys. \<open>ec_set_affine\<close> builds the P-256 key
  with the given coordinates, \<open>rsa_set0\<close> the RSA key with modulus and exponent, \<open>sig_der\<close> the DER
  form of an ECDSA signature, \<open>digest_verify key msg sig\<close> the answer of the SHA-256 verification.
\<close>

record ('b, 'k) openssl =
  bin2bn :: "byte list \<Rightarrow> 'b"
  ec_set_affine :: "'b \<Rightarrow> 'b \<Rightarrow> 'k option"
  rsa_set0 :: "'b \<Rightarrow> 'b \<Rightarrow> 'k option"
  sig_der :: "'b \<Rightarrow> 'b \<Rightarrow> byte list option"
  digest_verify :: "'k \<Rightarrow> string \<Rightarrow> byte list \<Rightarrow> bool"

definition guarded :: "'b option \<Rightarrow> ('a world_scheme, 'b option) state" where
  "guarded r = do { ok \<leftarrow> alloc; ret (if ok then r else None) }"

lemma framed_guarded [framed_intros]: "framed (guarded r) (\<lambda>x. x = None \<or> x = r)"
  by (simp add: framed_def guarded_def wps)

lemma returns_guarded [returns_intros]: "returns (guarded r) r"
  by (simp add: returns_def guarded_def wps)

section \<open>Proof tokens\<close>

record OpenDBSC_ProofJWT =
  p_algorithm :: "string option"
  p_type :: "string option"
  p_jwk :: "string option"
  p_challenge :: "string option"
  p_authorization :: "string option"
  p_signature :: "string option"

definition proof_defaults :: OpenDBSC_ProofJWT where
  "proof_defaults = \<lparr>p_algorithm = None, p_type = None, p_jwk = None, p_challenge = None,
     p_authorization = None, p_signature = None\<rparr>"

definition opendbsc_proof_jwt_init :: "OpenDBSC_ProofJWT option \<Rightarrow> OpenDBSC_ProofJWT option" where
  "opendbsc_proof_jwt_init p = (case p of None \<Rightarrow> None | Some _ \<Rightarrow> Some proof_defaults)"

definition opendbsc_proof_jwt_free :: "OpenDBSC_ProofJWT option \<Rightarrow> OpenDBSC_ProofJWT option" where
  "opendbsc_proof_jwt_free p =
     (case p of None \<Rightarrow> None
      | Some q \<Rightarrow> opendbsc_proof_jwt_init (Some (q\<lparr>p_algorithm := None, p_type := None,
          p_jwk := None, p_challenge := None, p_authorization := None, p_signature := None\<rparr>)))"

text \<open>
  The three parts of a token: the code's pointers into the string, here the text up to the next
  separator and, for the signature, to the end.
\<close>

definition strchr :: "string \<Rightarrow> char \<Rightarrow> string option" where
  "strchr s c = (case dropWhile (\<lambda>x. x \<noteq> c) s of [] \<Rightarrow> None | t \<Rightarrow> Some t)"

definition split_jwt :: "string option \<Rightarrow> (string \<times> string \<times> string) option" where
  "split_jwt token =
     (case token of None \<Rightarrow> None
      | Some t \<Rightarrow> (case strchr t CHR ''.'' of None \<Rightarrow> None
        | Some first \<Rightarrow> (case strchr (tl first) CHR ''.'' of None \<Rightarrow> None
          | Some second \<Rightarrow>
              if strchr (tl second) CHR ''.'' \<noteq> None then None
              else Some (take (length t - length first) t,
                         take (length (tl first) - length second) (tl first),
                         tl second))))"

definition strndup_null :: "string option \<Rightarrow> nat \<Rightarrow> ('a world_scheme, string option) state" where
  "strndup_null s n =
     (case s of None \<Rightarrow> ret None
      | Some t \<Rightarrow> do {
          ok \<leftarrow> alloc;
          if \<not> ok then ret None
          else if n \<le> length t then ret (Some (take n t)) else ub None })"

text \<open>The bytes of a decoded part, as the JSON parser reads them.\<close>

definition bytes_text :: "byte list \<Rightarrow> string" where
  "bytes_text bs = map (\<lambda>b. char_of (unat b)) bs"

text \<open>\<^verbatim>\<open>if (cJSON_IsString(x)) field = strdup(x->valuestring)\<close>, for a field that is NULL.\<close>

definition dup_string_item ::
  "'j cjson_reader \<Rightarrow> 'j option \<Rightarrow> ('a world_scheme, string option) state" where
  "dup_string_item J x =
     (case Option.bind x (cj_string J) of None \<Rightarrow> ret None | Some v \<Rightarrow> strdup v)"

definition parse_proof :: "'j cjson_reader \<Rightarrow> string \<Rightarrow> string \<Rightarrow> string option \<Rightarrow>
    OpenDBSC_ProofJWT \<Rightarrow> ('a world_scheme, int \<times> OpenDBSC_ProofJWT) state" where
  "parse_proof J header_json payload_json signature_raw p = do {
     header \<leftarrow> guarded (cj_parse J header_json);
     case header of None \<Rightarrow> ret (-1, p)
     | Some header \<Rightarrow> do {
         payload \<leftarrow> guarded (cj_parse J payload_json);
         case payload of None \<Rightarrow> ret (-1, p)
         | Some payload \<Rightarrow> do {
             let jwk = cj_get J header ''jwk'';
             alg \<leftarrow> dup_string_item J (cj_get J header ''alg'');
             typ \<leftarrow> dup_string_item J (cj_get J header ''typ'');
             key \<leftarrow> (case jwk of
                     Some o' \<Rightarrow> if cj_is_object J o' then guarded (Some (cj_print J o')) else ret None
                   | None \<Rightarrow> ret None);
             jti \<leftarrow> dup_string_item J (cj_get J payload ''jti'');
             authorization \<leftarrow> dup_string_item J (cj_get J payload ''authorization'');
             sig \<leftarrow> (case signature_raw of None \<Rightarrow> ret None | Some s \<Rightarrow> strdup s);
             if alg = None \<or> jti = None then ret (-1, proof_defaults)
             else ret (0, \<lparr>p_algorithm = alg, p_type = typ, p_jwk = key, p_challenge = jti,
                           p_authorization = authorization, p_signature = sig\<rparr>) } } }"

definition opendbsc_jwt_decode :: "'j cjson_reader \<Rightarrow> string option \<Rightarrow> OpenDBSC_ProofJWT option \<Rightarrow>
    ('a world_scheme, int \<times> OpenDBSC_ProofJWT option) state" where
  "opendbsc_jwt_decode J token proof' =
     (case proof' of None \<Rightarrow> ret (-1, None)
      | Some p \<Rightarrow> (case split_jwt token of None \<Rightarrow> ret (-1, Some p)
        | Some (h, pl, s) \<Rightarrow> do {
            header_b64 \<leftarrow> strndup_null (Some h) (length h);
            payload_b64 \<leftarrow> strndup_null (Some pl) (length pl);
            sig_copy \<leftarrow> strndup_null (Some s) (length s);
            if header_b64 = None \<or> payload_b64 = None \<or> sig_copy = None then ret (-1, Some p)
            else do {
              (rc, header_json) \<leftarrow> opendbsc_base64url_decode header_b64;
              if rc \<noteq> 0 then ret (-1, Some p)
              else do {
                (rc, payload_json) \<leftarrow> opendbsc_base64url_decode payload_b64;
                if rc \<noteq> 0 then ret (-1, Some p)
                else do {
                  (rc, p') \<leftarrow> parse_proof J (bytes_text (the header_json))
                                (bytes_text (the payload_json)) sig_copy p;
                  ret (rc, Some p') } } } }))"

section \<open>Keys\<close>

definition jwk_get_b64 :: "'j cjson_reader \<Rightarrow> 'j \<Rightarrow> string \<Rightarrow>
    ('a world_scheme, int \<times> byte list option) state" where
  "jwk_get_b64 J jwk key =
     (case Option.bind (cj_get J jwk key) (cj_string J) of None \<Rightarrow> ret (-1, None)
      | Some v \<Rightarrow> opendbsc_base64url_decode (Some v))"

text \<open>
  The two key constructors fetch two numbers and hand them to the library; both read the second
  field only when the first was there.
\<close>

definition evp_pkey_from_ec_jwk :: "'j cjson_reader \<Rightarrow> ('b, 'k) openssl \<Rightarrow> 'j \<Rightarrow>
    ('a world_scheme, 'k option) state" where
  "evp_pkey_from_ec_jwk J C jwk = do {
     (rc, x) \<leftarrow> jwk_get_b64 J jwk ''x'';
     if rc \<noteq> 0 then ret None
     else do {
       (rc, y) \<leftarrow> jwk_get_b64 J jwk ''y'';
       if rc \<noteq> 0 then ret None
       else do {
         ec \<leftarrow> alloc;
         if \<not> ec then ret None
         else do {
           bx \<leftarrow> guarded (Some (bin2bn C (the x)));
           bY \<leftarrow> guarded (Some (bin2bn C (the y)));
           case (bx, bY) of
             (Some bx, Some bY) \<Rightarrow>
               (case ec_set_affine C bx bY of None \<Rightarrow> ret None
                | Some k \<Rightarrow> guarded (Some k))
           | _ \<Rightarrow> ret None } } } }"

definition evp_pkey_from_rsa_jwk :: "'j cjson_reader \<Rightarrow> ('b, 'k) openssl \<Rightarrow> 'j \<Rightarrow>
    ('a world_scheme, 'k option) state" where
  "evp_pkey_from_rsa_jwk J C jwk = do {
     (rc, n) \<leftarrow> jwk_get_b64 J jwk ''n'';
     if rc \<noteq> 0 then ret None
     else do {
       (rc, e) \<leftarrow> jwk_get_b64 J jwk ''e'';
       if rc \<noteq> 0 then ret None
       else do {
         rsa \<leftarrow> alloc;
         if \<not> rsa then ret None
         else do {
           bn_n \<leftarrow> guarded (Some (bin2bn C (the n)));
           bn_e \<leftarrow> guarded (Some (bin2bn C (the e)));
           case (bn_n, bn_e) of
             (Some bn_n, Some bn_e) \<Rightarrow>
               (case rsa_set0 C bn_n bn_e of None \<Rightarrow> ret None
                | Some k \<Rightarrow> guarded (Some k))
           | _ \<Rightarrow> ret None } } } }"

definition evp_pkey_from_jwk :: "'j cjson_reader \<Rightarrow> ('b, 'k) openssl \<Rightarrow> 'j \<Rightarrow>
    ('a world_scheme, 'k option) state" where
  "evp_pkey_from_jwk J C jwk =
     (case Option.bind (cj_get J jwk ''kty'') (cj_string J) of None \<Rightarrow> ret None
      | Some kty \<Rightarrow>
        if kty = ''EC'' then
          (case Option.bind (cj_get J jwk ''crv'') (cj_string J) of None \<Rightarrow> ret None
           | Some crv \<Rightarrow> if crv \<noteq> ''P-256'' then ret None else evp_pkey_from_ec_jwk J C jwk)
        else if kty = ''RSA'' then evp_pkey_from_rsa_jwk J C jwk
        else ret None)"

section \<open>Signatures\<close>

definition es256_raw_to_der :: "('b, 'k) openssl \<Rightarrow> byte list \<Rightarrow>
    ('a world_scheme, int \<times> byte list) state" where
  "es256_raw_to_der C sig =
     (if length sig \<noteq> 64 then ret (-1, sig)
      else do {
        ecsig \<leftarrow> alloc;
        if \<not> ecsig then ret (-1, sig)
        else do {
          r \<leftarrow> guarded (Some (bin2bn C (take 32 sig)));
          s \<leftarrow> guarded (Some (bin2bn C (take 32 (drop 32 sig))));
          case (r, s) of
            (Some r, Some s) \<Rightarrow> do {
              der \<leftarrow> guarded (sig_der C r s);
              case der of None \<Rightarrow> ret (-1, sig)
              | Some der \<Rightarrow> if length der > 0 then ret (0, der) else ret (-1, sig) }
          | _ \<Rightarrow> ret (-1, sig) } })"

definition verify_signature_with_jwk :: "'j cjson_reader \<Rightarrow> ('b, 'k) openssl \<Rightarrow> string option \<Rightarrow>
    OpenDBSC_ProofJWT option \<Rightarrow> string option \<Rightarrow> ('a world_scheme, int) state" where
  "verify_signature_with_jwk J C token proof' jwk_json =
     (case (token, proof') of
        (Some t, Some p) \<Rightarrow>
          (case p_algorithm p of None \<Rightarrow> ret (-1)
           | Some alg \<Rightarrow>
             if alg = ''none'' then ret 0
             else if alg \<noteq> ''ES256'' \<and> alg \<noteq> ''RS256'' then ret (-1)
             else (case (jwk_json, p_signature p) of
               (Some key_json, Some signature) \<Rightarrow>
                 (case split_jwt token of None \<Rightarrow> ret (-1)
                  | Some (h, pl, s) \<Rightarrow> do {
                      let signed_len = length t - length s - 1;
                      (rc, sig) \<leftarrow> opendbsc_base64url_decode (Some signature);
                      if rc \<noteq> 0 then ret (-1)
                      else do {
                        (rc, sig) \<leftarrow> (if alg = ''ES256'' then es256_raw_to_der C (the sig)
                                     else ret (0, the sig));
                        if rc \<noteq> 0 then ret (-1)
                        else do {
                          jwk \<leftarrow> guarded (cj_parse J key_json);
                          case jwk of None \<Rightarrow> ret (-1)
                          | Some jwk \<Rightarrow> do {
                              pkey \<leftarrow> evp_pkey_from_jwk J C jwk;
                              case pkey of None \<Rightarrow> ret (-1)
                              | Some pkey \<Rightarrow> do {
                                  ctx \<leftarrow> alloc;
                                  if \<not> ctx then ret (-1)
                                  else do {
                                    init \<leftarrow> alloc;
                                    update \<leftarrow> alloc;
                                    let final = digest_verify C pkey (take signed_len t) sig;
                                    ret (if init \<and> update \<and> final then 0 else -1) } } } } } })
             | _ \<Rightarrow> ret (-1)))
      | _ \<Rightarrow> ret (-1))"

definition opendbsc_jwt_verify_signature :: "'j cjson_reader \<Rightarrow> ('b, 'k) openssl \<Rightarrow>
    string option \<Rightarrow> OpenDBSC_ProofJWT option \<Rightarrow> ('a world_scheme, int) state" where
  "opendbsc_jwt_verify_signature J C token proof' =
     (case proof' of None \<Rightarrow> ret (-1)
      | Some p \<Rightarrow> verify_signature_with_jwk J C token (Some p) (p_jwk p))"

section \<open>The entry points\<close>

definition check_proof_type :: "OpenDBSC_ProofJWT \<Rightarrow> int" where
  "check_proof_type p =
     (case p_type p of None \<Rightarrow> -1 | Some t \<Rightarrow> if t \<noteq> ''dbsc+jwt'' then -1 else 0)"

definition check_registration_jwk_rules :: "OpenDBSC_ProofJWT \<Rightarrow> ('a world_scheme, int) state" where
  "check_registration_jwk_rules p = do {
     none \<leftarrow> strcmp_eq (p_algorithm p) (Some ''none'');
     if none then ret (if p_jwk p = None then 0 else -1)
     else ret (if p_jwk p \<noteq> None then 0 else -1) }"

text \<open>
  A NULL \<open>proof\<close> makes the code work on a local structure that it releases before returning.
\<close>

definition opendbsc_jwt_decode_and_verify :: "'j cjson_reader \<Rightarrow> ('b, 'k) openssl \<Rightarrow>
    string option \<Rightarrow> OpenDBSC_ProofJWT option \<Rightarrow>
    ('a world_scheme, int \<times> OpenDBSC_ProofJWT option) state" where
  "opendbsc_jwt_decode_and_verify J C token proof' = do {
     let target = (case proof' of None \<Rightarrow> proof_defaults | Some p \<Rightarrow> p);
     (rc, target') \<leftarrow> opendbsc_jwt_decode J token (Some target);
     let out = (if proof' = None then None else target');
     if rc \<noteq> 0 then ret (-1, out)
     else do {
       let p = the target';
       bad \<leftarrow> (if check_proof_type p \<noteq> 0 then ret True
              else do {
                rules \<leftarrow> check_registration_jwk_rules p;
                if rules \<noteq> 0 then ret True
                else do {
                  v \<leftarrow> verify_signature_with_jwk J C token (Some p) (p_jwk p);
                  ret (v \<noteq> 0) } });
       if bad then ret (-1, out) else ret (0, out) } }"

definition opendbsc_jwt_verify_with_jwk :: "'j cjson_reader \<Rightarrow> ('b, 'k) openssl \<Rightarrow>
    string option \<Rightarrow> string option \<Rightarrow> OpenDBSC_ProofJWT option \<Rightarrow>
    ('a world_scheme, int \<times> OpenDBSC_ProofJWT option) state" where
  "opendbsc_jwt_verify_with_jwk J C token jwk_json proof' =
     (if token = None \<or> jwk_json = None then ret (-1, proof')
      else do {
        let target = (case proof' of None \<Rightarrow> proof_defaults | Some p \<Rightarrow> p);
        (rc, target') \<leftarrow> opendbsc_jwt_decode J token (Some target);
        let out = (if proof' = None then None else target');
        if rc \<noteq> 0 then ret (-1, out)
        else do {
          let p = the target';
          bad \<leftarrow> (if p_jwk p \<noteq> None then ret True
                 else if check_proof_type p \<noteq> 0 then ret True
                 else do {
                   none \<leftarrow> strcmp_eq (p_algorithm p) (Some ''none'');
                   if none then ret True
                   else do {
                     v \<leftarrow> verify_signature_with_jwk J C token (Some p) jwk_json;
                     ret (v \<noteq> 0) } });
          if bad then ret (-1, out) else ret (0, out) } })"

section \<open>Tokens as text\<close>

lemma strchr_simps:
  "strchr [] c = None"
  "strchr (x # s) c = (if x = c then Some (x # s) else strchr s c)"
  by (simp_all add: strchr_def)

lemma strchr_None_iff: "strchr s c = None \<longleftrightarrow> c \<notin> set s"
  by (induction s) (auto simp: strchr_simps)

lemma strchr_append: "c \<notin> set h \<Longrightarrow> strchr (h @ c # t) c = Some (c # t)"
  by (induction h) (auto simp: strchr_simps)

lemma strchr_SomeD:
  assumes "strchr s c = Some u"
  obtains h t where "s = h @ c # t" "u = c # t" "c \<notin> set h"
proof -
  from assms have "c \<in> set s" by (metis option.distinct(1) strchr_None_iff)
  then obtain h t where s: "s = h @ c # t" "c \<notin> set h" using split_list_first [of c s] by blast
  from s assms strchr_append [of c h t] have "u = c # t" by simp
  with s show ?thesis by (rule_tac that)
qed

text \<open>Splitting succeeds exactly on three parts without a separator inside.\<close>

lemma split_jwt_iff:
  "split_jwt (Some t) = Some (h, pl, s) \<longleftrightarrow>
     t = h @ ''.'' @ pl @ ''.'' @ s \<and> CHR ''.'' \<notin> set h \<union> set pl \<union> set s"
proof
  assume "t = h @ ''.'' @ pl @ ''.'' @ s \<and> CHR ''.'' \<notin> set h \<union> set pl \<union> set s"
  then show "split_jwt (Some t) = Some (h, pl, s)"
    by (simp add: split_jwt_def strchr_append strchr_None_iff)
next
  assume a: "split_jwt (Some t) = Some (h, pl, s)"
  then obtain first second where f: "strchr t CHR ''.'' = Some first"
    and g: "strchr (tl first) CHR ''.'' = Some second" and r: "strchr (tl second) CHR ''.'' = None"
    and e: "h = take (length t - length first) t"
      "pl = take (length (tl first) - length second) (tl first)" "s = tl second"
    by (auto simp: split_jwt_def split: option.splits if_splits)
  from f obtain x y where "t = x @ CHR ''.'' # y" "first = CHR ''.'' # y" "CHR ''.'' \<notin> set x"
    by (rule strchr_SomeD)
  moreover from g obtain u v where "tl first = u @ CHR ''.'' # v" "second = CHR ''.'' # v" "CHR ''.'' \<notin> set u"
    by (rule strchr_SomeD)
  ultimately show "t = h @ ''.'' @ pl @ ''.'' @ s \<and> CHR ''.'' \<notin> set h \<union> set pl \<union> set s"
    using e r by (simp add: strchr_None_iff)
qed

section \<open>What the steps answer\<close>

lemma attempts_guarded [attempts_intros]: "attempts (guarded r) r (\<lambda>x. x = None)"
  by (rule attemptsI [OF framed_guarded returns_guarded])

definition decode_answer :: "string \<Rightarrow> int \<times> byte list option" where
  "decode_answer s = (case b64_decode s of None \<Rightarrow> (-1, None) | Some bs \<Rightarrow> (0, Some bs))"

lemma attempts_decode [attempts_intros]:
  "attempts (opendbsc_base64url_decode (Some s)) (decode_answer s) (\<lambda>r. r = (-1, None))"
  by (rule attemptsI)
     (auto simp: framed_def returns_def decode_answer_def starved_def
        intro!: wp_mono [OF wp_decode] split: option.splits)

lemma attempts_strndup: "attempts (strndup_null (Some s) (length s)) (Some s) (\<lambda>x. x = None)"
  by (auto simp: strndup_null_def framed_return intro!: attempts_bind [OF attempts_alloc] attempts_return)

lemma attempts_dup_item:
  "attempts (dup_string_item J x) (Option.bind x (cj_string J)) (\<lambda>r. r = None)"
  by (auto simp: dup_string_item_def intro!: attempts_return attempts_malloc_str split: option.splits)

definition jwk_bytes :: "'j cjson_reader \<Rightarrow> 'j \<Rightarrow> string \<Rightarrow> byte list option" where
  "jwk_bytes J jwk key = Option.bind (Option.bind (cj_get J jwk key) (cj_string J)) b64_decode"

definition answer :: "'b option \<Rightarrow> int \<times> 'b option" where
  "answer r = (if r = None then -1 else 0, r)"

lemma attempts_jwk_get:
  "attempts (jwk_get_b64 J jwk key) (answer (jwk_bytes J jwk key)) (\<lambda>r. r = (-1, None))"
proof (cases "Option.bind (cj_get J jwk key) (cj_string J)")
  case None
  then show ?thesis by (simp add: jwk_get_b64_def jwk_bytes_def answer_def attempts_return)
next
  case (Some v)
  then show ?thesis using attempts_decode [of v]
    by (simp add: jwk_get_b64_def jwk_bytes_def answer_def decode_answer_def split: option.splits)
qed

definition key_from ::
  "('b \<Rightarrow> 'b \<Rightarrow> 'k option) \<Rightarrow> (byte list \<Rightarrow> 'b) \<Rightarrow> byte list option \<Rightarrow> byte list option \<Rightarrow> 'k option" where
  "key_from mk num x y =
     (case (x, y) of (Some x, Some y) \<Rightarrow> mk (num x) (num y) | _ \<Rightarrow> None)"

lemma framed_ret_None: "framed (ret None) (\<lambda>x. x = None)"
  by (simp add: framed_return)

lemma attempts_build_key:
  "attempts (do { ok \<leftarrow> alloc;
      if \<not> ok then ret None
      else do {
        bx \<leftarrow> guarded (Some a);
        bY \<leftarrow> guarded (Some b);
        case (bx, bY) of
          (Some bx, Some bY) \<Rightarrow> (case mk bx bY of None \<Rightarrow> ret None | Some k \<Rightarrow> guarded (Some k))
        | _ \<Rightarrow> ret None } }) (mk a b) (\<lambda>x. x = None)"
  apply (rule attempts_bind [OF attempts_alloc], simp add: framed_ret_None)
  apply (simp only: not_True_eq_False if_False)
  apply (rule attempts_bind [OF attempts_guarded])
   apply (rule framed_bind [OF framed_guarded], simp add: framed_ret_None)
  apply (rule attempts_bind [OF attempts_guarded], simp add: framed_ret_None)
  apply (auto intro: attempts_return attempts_guarded split: option.splits)
  done

lemma attempts_fetch:
  assumes "jwk_bytes J jwk f = None \<Longrightarrow> r = None"
    and "\<And>b. jwk_bytes J jwk f = Some b \<Longrightarrow> attempts (g (Some b)) r (\<lambda>x. x = None)"
  shows "attempts (do { (rc, x) \<leftarrow> jwk_get_b64 J jwk f; if rc \<noteq> 0 then ret None else g x }) r (\<lambda>x. x = None)"
  by (rule attempts_bind [OF attempts_jwk_get], simp add: framed_ret_None)
     (cases "jwk_bytes J jwk f"; simp add: answer_def attempts_return assms)

lemma attempts_keys:
  "attempts (evp_pkey_from_ec_jwk J C jwk)
     (key_from (ec_set_affine C) (bin2bn C) (jwk_bytes J jwk ''x'') (jwk_bytes J jwk ''y'')) (\<lambda>x. x = None)"
  "attempts (evp_pkey_from_rsa_jwk J C jwk)
     (key_from (rsa_set0 C) (bin2bn C) (jwk_bytes J jwk ''n'') (jwk_bytes J jwk ''e'')) (\<lambda>x. x = None)"
  unfolding evp_pkey_from_ec_jwk_def evp_pkey_from_rsa_jwk_def
  subgoal
    apply (rule attempts_fetch, simp add: key_from_def)
    apply (rule attempts_fetch, simp add: key_from_def)
    apply (simp only: key_from_def option.sel prod.case option.case)
    apply (rule attempts_build_key [unfolded prod.case])
    done
  subgoal
    apply (rule attempts_fetch, simp add: key_from_def)
    apply (rule attempts_fetch, simp add: key_from_def)
    apply (simp only: key_from_def option.sel prod.case option.case)
    apply (rule attempts_build_key [unfolded prod.case])
    done
  done

definition jwk_key :: "'j cjson_reader \<Rightarrow> ('b, 'k) openssl \<Rightarrow> 'j \<Rightarrow> 'k option" where
  "jwk_key J C jwk =
     (let field = (\<lambda>f. Option.bind (cj_get J jwk f) (cj_string J)) in
      if field ''kty'' = Some ''EC'' \<and> field ''crv'' = Some ''P-256''
      then key_from (ec_set_affine C) (bin2bn C) (jwk_bytes J jwk ''x'') (jwk_bytes J jwk ''y'')
      else if field ''kty'' = Some ''RSA''
      then key_from (rsa_set0 C) (bin2bn C) (jwk_bytes J jwk ''n'') (jwk_bytes J jwk ''e'')
      else None)"

lemma attempts_jwk_key: "attempts (evp_pkey_from_jwk J C jwk) (jwk_key J C jwk) (\<lambda>x. x = None)"
  by (auto simp: evp_pkey_from_jwk_def jwk_key_def Let_def attempts_keys
        intro: attempts_return split: option.splits)

definition der_of :: "('b, 'k) openssl \<Rightarrow> byte list \<Rightarrow> byte list option" where
  "der_of C sig =
     (if length sig \<noteq> 64 then None
      else case sig_der C (bin2bn C (take 32 sig)) (bin2bn C (take 32 (drop 32 sig))) of
        None \<Rightarrow> None | Some der \<Rightarrow> if der \<noteq> [] then Some der else None)"

lemma attempts_to_der:
  "attempts (es256_raw_to_der C sig) (case der_of C sig of None \<Rightarrow> (-1, sig) | Some der \<Rightarrow> (0, der))
     (\<lambda>r. fst r = -1)"
  unfolding es256_raw_to_der_def
  apply (cases "length sig = 64"; simp add: der_of_def attempts_return)
  apply (rule attempts_bind [OF attempts_alloc], simp add: framed_return, simp)
  apply (rule attempts_bind [OF attempts_guarded])
   apply (rule framed_bind [OF framed_guarded], simp add: framed_return)
  apply (rule attempts_bind [OF attempts_guarded], simp add: framed_return, simp)
  apply (rule attempts_bind [OF attempts_guarded], simp add: framed_return)
  apply (auto intro: attempts_return split: option.splits)
  done

section \<open>What a signature check means\<close>

definition sig_bytes :: "('b, 'k) openssl \<Rightarrow> string \<Rightarrow> string \<Rightarrow> byte list option" where
  "sig_bytes C alg s =
     Option.bind (b64_decode s) (\<lambda>b. if alg = ''ES256'' then der_of C b else Some b)"

definition signed_by :: "'j cjson_reader \<Rightarrow> ('b, 'k) openssl \<Rightarrow> string \<Rightarrow> string \<Rightarrow> string \<Rightarrow> string \<Rightarrow> bool" where
  "signed_by J C alg key_json s msg =
     (case (sig_bytes C alg s, Option.bind (cj_parse J key_json) (jwk_key J C)) of
        (Some sig, Some k) \<Rightarrow> digest_verify C k msg sig
      | _ \<Rightarrow> False)"

definition signature_ok :: "'j cjson_reader \<Rightarrow> ('b, 'k) openssl \<Rightarrow> string \<Rightarrow> OpenDBSC_ProofJWT \<Rightarrow>
    string option \<Rightarrow> bool" where
  "signature_ok J C t p key_json =
     (p_algorithm p = Some ''none'' \<or>
      (p_algorithm p \<in> {Some ''ES256'', Some ''RS256''} \<and>
       (case (key_json, p_signature p, split_jwt (Some t)) of
          (Some kj, Some s, Some (h, pl, _)) \<Rightarrow> signed_by J C (the (p_algorithm p)) kj s (h @ ''.'' @ pl)
        | _ \<Rightarrow> False)))"

lemma signed_text:
  "split_jwt (Some t) = Some (h, pl, s) \<Longrightarrow> take (length t - length s - 1) t = h @ ''.'' @ pl"
  by (simp add: split_jwt_iff)

lemma framed_ret_minus: "framed (ret (-1)) (\<lambda>r. r = (-1::int))"
  by (simp add: framed_return)

lemma attempts_check:
  assumes "k = None \<Longrightarrow> \<not> good" and "\<And>x. k = Some x \<Longrightarrow> good = f x"
  shows "attempts (case k of None \<Rightarrow> ret (-1) | Some pkey \<Rightarrow> do {
      ctx \<leftarrow> alloc;
      if \<not> ctx then ret (-1)
      else do {
        init \<leftarrow> alloc;
        update \<leftarrow> alloc;
        let final = f pkey;
        ret (if init \<and> update \<and> final then 0 else -1) } }) (if good then 0 else -1 :: int) (\<lambda>r. r = -1)"
proof (cases k)
  case None
  with assms(1) show ?thesis by (simp add: attempts_return)
next
  case (Some x)
  have "attempts (do { ctx \<leftarrow> alloc;
      if \<not> ctx then ret (-1)
      else do {
        init \<leftarrow> alloc;
        update \<leftarrow> alloc;
        ret (if init \<and> update \<and> f x then 0 else -1) } }) (if f x then 0 else -1 :: int) (\<lambda>r. r = -1)"
    by (rule attempts_bind [OF attempts_alloc], simp add: framed_ret_minus,
        simp only: not_True_eq_False if_False, rule attempts_bind [OF attempts_alloc], simp,
        rule framed_bind [OF framed_alloc], simp add: framed_ret_minus,
        rule attempts_bind [OF attempts_alloc], simp add: framed_ret_minus)
       (simp add: attempts_return)
  then show ?thesis unfolding Some option.case Let_def assms(2) [OF Some] .
qed

lemma attempts_sig:
  "attempts (if alg = ''ES256'' then es256_raw_to_der C sig else ret (0, sig))
     (case if alg = ''ES256'' then der_of C sig else Some sig of None \<Rightarrow> (-1, sig) | Some d \<Rightarrow> (0, d))
     (\<lambda>r. fst r = -1)"
  by (cases "alg = ''ES256''") (simp_all only: if_True if_False simp_thms attempts_to_der option.case,
      simp_all add: attempts_return)

lemma attempts_verify_signature:
  "attempts (verify_signature_with_jwk J C (Some t) (Some p) key_json)
     (if signature_ok J C t p key_json then 0 else -1) (\<lambda>r. r = -1)"
proof (cases "p_algorithm p \<in> {Some ''ES256'', Some ''RS256''} \<and> key_json \<noteq> None \<and> p_signature p \<noteq> None \<and>
    split_jwt (Some t) \<noteq> None")
  case False
  show ?thesis
  proof (cases "p_algorithm p")
    case None
    then show ?thesis
      by (simp add: verify_signature_with_jwk_def signature_ok_def attempts_return)
  next
    case (Some alg)
    show ?thesis
    proof (cases "alg = ''ES256'' \<or> alg = ''RS256''")
      case True
      with False Some have "key_json = None \<or> p_signature p = None \<or> split_jwt (Some t) = None" by auto
      with Some True show ?thesis
        by (cases key_json; cases "p_signature p")
           (auto simp: verify_signature_with_jwk_def signature_ok_def attempts_return)
    next
      case False
      with Some show ?thesis
        by (simp add: verify_signature_with_jwk_def signature_ok_def attempts_return)
    qed
  qed
next
  case True
  then obtain alg kj sg h pl s where a: "p_algorithm p = Some alg" "key_json = Some kj"
    "p_signature p = Some sg" "split_jwt (Some t) = Some (h, pl, s)" "alg = ''ES256'' \<or> alg = ''RS256''"
    by (cases "split_jwt (Some t)") auto
  define good where "good = signature_ok J C t p key_json"
  have good: "good = signed_by J C alg kj sg (h @ ''.'' @ pl)"
    using a by (auto simp: good_def signature_ok_def)
  have rest: "attempts (do { (rc, sig) \<leftarrow> (if alg = ''ES256'' then es256_raw_to_der C b else ret (0, b));
      if rc \<noteq> 0 then ret (-1)
      else do {
        jwk \<leftarrow> guarded (cj_parse J kj);
        case jwk of None \<Rightarrow> ret (-1)
        | Some jwk \<Rightarrow> do {
            pkey \<leftarrow> evp_pkey_from_jwk J C jwk;
            case pkey of None \<Rightarrow> ret (-1)
            | Some pkey \<Rightarrow> do {
                ctx \<leftarrow> alloc;
                if \<not> ctx then ret (-1)
                else do {
                  init \<leftarrow> alloc;
                  update \<leftarrow> alloc;
                  let final = digest_verify C pkey (h @ ''.'' @ pl) sig;
                  ret (if init \<and> update \<and> final then 0 else -1) } } } } })
    (if good then 0 else -1 :: int) (\<lambda>r. r = -1)" if b: "b64_decode sg = Some b" for b
  proof (rule attempts_bind [OF attempts_sig], clarsimp simp: framed_ret_minus, goal_cases)
    case 1
    show ?case
    proof (cases "if alg = ''ES256'' then der_of C b else Some b")
      case None
      then have "\<not> good" using b by (simp add: good signed_by_def sig_bytes_def)
      with None show ?thesis by (simp add: attempts_return)
    next
      case (Some d)
      then have sb: "sig_bytes C alg sg = Some d" using b by (simp add: sig_bytes_def)
      show ?thesis
        unfolding Some option.case prod.case
        apply (simp only: simp_thms if_False)
        apply (rule attempts_bind [OF attempts_guarded], simp add: framed_ret_minus)
        apply (cases "cj_parse J kj"; simp only: option.case)
         apply (simp add: attempts_return good signed_by_def split: option.splits)
        apply (rule attempts_bind [OF attempts_jwk_key], simp add: framed_ret_minus)
        apply (rule attempts_check; simp add: good signed_by_def sb)
        done
    qed
  qed
  have n: "(alg = ''none'') = False" "(alg \<noteq> ''ES256'' \<and> alg \<noteq> ''RS256'') = False" using a(5) by auto
  have bad: "\<not> good" if "b64_decode sg = None"
    using that by (simp add: good signed_by_def sig_bytes_def)
  have "attempts (verify_signature_with_jwk J C (Some t) (Some p) key_json)
     (if good then 0 else -1) (\<lambda>r. r = -1)"
    unfolding verify_signature_with_jwk_def prod.case option.case a(1-4) signed_text [OF a(4)] n if_False
    apply (simp only: Let_def prod.case signed_text [OF a(4)])
    apply (rule attempts_bind [OF attempts_decode], simp add: framed_ret_minus)
    apply (cases "b64_decode sg")
     apply (simp add: decode_answer_def bad attempts_return)
    apply (simp only: decode_answer_def option.case prod.case option.sel simp_thms if_False)
    apply (rule rest [unfolded Let_def], assumption)
    done
  then show ?thesis by (simp only: good_def)
qed

section \<open>What a token claims\<close>

definition claims_of :: "'j cjson_reader \<Rightarrow> 'j \<Rightarrow> 'j \<Rightarrow> string option \<Rightarrow> OpenDBSC_ProofJWT" where
  "claims_of J header payload sig =
     (let field = (\<lambda>obj f. Option.bind (cj_get J obj f) (cj_string J)) in
      \<lparr>p_algorithm = field header ''alg'', p_type = field header ''typ'',
       p_jwk = (case cj_get J header ''jwk'' of None \<Rightarrow> None
                | Some k \<Rightarrow> if cj_is_object J k then Some (cj_print J k) else None),
       p_challenge = field payload ''jti'', p_authorization = field payload ''authorization'',
       p_signature = sig\<rparr>)"

definition jwt_claims :: "'j cjson_reader \<Rightarrow> string \<Rightarrow> OpenDBSC_ProofJWT option" where
  "jwt_claims J t =
     (case split_jwt (Some t) of None \<Rightarrow> None
      | Some (h, pl, s) \<Rightarrow> (case (b64_decode h, b64_decode pl) of
          (Some hb, Some pb) \<Rightarrow> (case (cj_parse J (bytes_text hb), cj_parse J (bytes_text pb)) of
            (Some H, Some P) \<Rightarrow> let c = claims_of J H P (Some s) in
               if p_algorithm c = None \<or> p_challenge c = None then None else Some c
          | _ \<Rightarrow> None)
        | _ \<Rightarrow> None))"

text \<open>A decoded proof may miss optional claims whose copies failed, and only those.\<close>

definition partial_of :: "OpenDBSC_ProofJWT \<Rightarrow> OpenDBSC_ProofJWT \<Rightarrow> bool" where
  "partial_of q c \<longleftrightarrow> p_algorithm q = p_algorithm c \<and> p_challenge q = p_challenge c \<and>
     (p_type q = None \<or> p_type q = p_type c) \<and> (p_jwk q = None \<or> p_jwk q = p_jwk c) \<and>
     (p_authorization q = None \<or> p_authorization q = p_authorization c) \<and>
     (p_signature q = None \<or> p_signature q = p_signature c)"

lemma partial_of_refl [simp]: "partial_of c c"
  by (simp add: partial_of_def)

lemma framed_dup_item:
  "framed (dup_string_item J x) (\<lambda>r. r = None \<or> r = Option.bind x (cj_string J))"
  by (rule attempts_framed [OF attempts_dup_item])

lemma framed_print_item:
  "framed (case k of Some o' \<Rightarrow> if cj_is_object J o' then guarded (Some (cj_print J o')) else ret None
                 | None \<Rightarrow> ret None)
     (\<lambda>r. r = None \<or> r = (case k of None \<Rightarrow> None
                | Some o' \<Rightarrow> if cj_is_object J o' then Some (cj_print J o') else None))"
  by (auto simp: framed_return intro: framed_weaken [OF framed_guarded] split: option.splits)

lemma returns_print_item:
  "returns (case k of Some o' \<Rightarrow> if cj_is_object J o' then guarded (Some (cj_print J o')) else ret None
                 | None \<Rightarrow> ret None)
     (case k of None \<Rightarrow> None | Some o' \<Rightarrow> if cj_is_object J o' then Some (cj_print J o') else None)"
  by (auto simp: returns_return returns_guarded split: option.splits)

lemma partial_claimsI:
  assumes "a = None \<or> a = Option.bind (cj_get J H ''alg'') (cj_string J)"
    and "t = None \<or> t = Option.bind (cj_get J H ''typ'') (cj_string J)"
    and "k = None \<or> k = (case cj_get J H ''jwk'' of None \<Rightarrow> None
                | Some o' \<Rightarrow> if cj_is_object J o' then Some (cj_print J o') else None)"
    and "j = None \<or> j = Option.bind (cj_get J P ''jti'') (cj_string J)"
    and "u = None \<or> u = Option.bind (cj_get J P ''authorization'') (cj_string J)"
    and "s = None \<or> s = Some sg" and "a \<noteq> None" and "j \<noteq> None"
  shows "partial_of \<lparr>p_algorithm = a, p_type = t, p_jwk = k, p_challenge = j,
    p_authorization = u, p_signature = s\<rparr> (claims_of J H P (Some sg))"
  unfolding partial_of_def claims_of_def Let_def OpenDBSC_ProofJWT.simps
  using assms by (intro conjI; (blast | assumption))

lemma framed_parse_proof:
  "framed (parse_proof J hj pj (Some s) p) (\<lambda>(rc, q). rc = -1 \<or>
     rc = 0 \<and> (\<exists>H P. cj_parse J hj = Some H \<and> cj_parse J pj = Some P \<and>
       p_algorithm q \<noteq> None \<and> p_challenge q \<noteq> None \<and> partial_of q (claims_of J H P (Some s))))"
  unfolding parse_proof_def
  apply (rule framed_bind [OF framed_guarded])
  apply (split option.split, intro conjI impI allI, simp add: framed_return)
  apply (rule framed_bind [OF framed_guarded])
  apply (split option.split, intro conjI impI allI, simp add: framed_return)
  apply (simp only: Let_def)
  apply (rule framed_bind [OF framed_dup_item])
  apply (rule framed_bind [OF framed_dup_item])
  apply (rule framed_bind [OF framed_print_item])
  apply (rule framed_bind [OF framed_dup_item])
  apply (rule framed_bind [OF framed_dup_item])
  apply (simp only: option.case)
  apply (rule framed_bind [OF framed_malloc_str])
  apply (split if_split, intro conjI impI; rule framed_return)
   apply simp
  subgoal premises prems for r H ra P a t k j u sg
  proof -
    from prems(1,3) have hp: "cj_parse J hj = Some H" "cj_parse J pj = Some P" by auto
    from prems(11) have ne: "a \<noteq> None" "j \<noteq> None" by auto
    note q = partial_claimsI [OF prems(5,6,7,8,9,10) ne]
    show ?thesis unfolding prod.case OpenDBSC_ProofJWT.simps by (rule disjI2, rule conjI [OF refl], rule exI [of _ H], rule exI [of _ P]) (intro conjI hp ne q)
  qed
  done

lemma returns_parse_proof:
  assumes "cj_parse J hj = Some H" and "cj_parse J pj = Some P"
  shows "returns (parse_proof J hj pj (Some s) p)
     (let c = claims_of J H P (Some s) in
      if p_algorithm c = None \<or> p_challenge c = None then (-1, proof_defaults) else (0, c))"
  unfolding parse_proof_def
  apply (rule returns_bind [OF returns_guarded])
  apply (simp only: assms option.case)
  apply (rule returns_bind [OF returns_guarded])
  apply (simp only: assms option.case Let_def)
  apply (rule returns_bind [OF attempts_returns [OF attempts_dup_item]])
  apply (rule returns_bind [OF attempts_returns [OF attempts_dup_item]])
  apply (rule returns_bind [OF returns_print_item])
  apply (rule returns_bind [OF attempts_returns [OF attempts_dup_item]])
  apply (rule returns_bind [OF attempts_returns [OF attempts_dup_item]])
  apply (rule returns_bind [OF returns_malloc_str])
  apply (simp add: claims_of_def Let_def returns_return)
  done

lemma returns_parse_fail:
  assumes "cj_parse J hj = None \<or> cj_parse J pj = None"
  shows "returns (parse_proof J hj pj s p) (-1, p)"
  unfolding parse_proof_def
  apply (rule returns_bind [OF returns_guarded])
  apply (split option.split, intro conjI impI allI, simp add: returns_return)
  apply (rule returns_bind [OF returns_guarded])
  using assms apply (auto simp: returns_return)
  done

lemma decode_answer_simps:
  "fst (decode_answer s) \<noteq> 0 \<longleftrightarrow> b64_decode s = None"
  "b64_decode s = Some b \<Longrightarrow> decode_answer s = (0, Some b)"
  by (simp_all add: decode_answer_def split: option.splits)

lemma framed_decode:
  "framed (opendbsc_base64url_decode (Some s)) (\<lambda>(rc, out). rc = -1 \<or>
     (\<exists>b. rc = 0 \<and> out = Some b \<and> b64_decode s = Some b))"
  by (rule framed_weaken [OF attempts_framed [OF attempts_decode]])
     (auto simp: decode_answer_def split: option.splits)

text \<open>Decoding a token fills the structure with what the token claims.\<close>

lemma framed_jwt_decode:
  "framed (opendbsc_jwt_decode J (Some t) (Some p)) (\<lambda>(rc, out). \<exists>q. out = Some q \<and>
     (rc = -1 \<or> rc = 0 \<and> (\<exists>c. jwt_claims J t = Some c \<and> partial_of q c)))"
proof (cases "split_jwt (Some t)")
  case None
  then show ?thesis by (simp add: opendbsc_jwt_decode_def framed_return)
next
  case (Some parts)
  obtain h pl s where parts: "parts = (h, pl, s)" by (cases parts)
  note dup = attempts_framed [OF attempts_strndup]
  show ?thesis
    unfolding opendbsc_jwt_decode_def Some parts option.case prod.case
    apply (rule framed_bind [OF dup], rule framed_bind [OF dup], rule framed_bind [OF dup])
    apply (split if_split, intro conjI impI, simp add: framed_return, clarsimp)
    apply (rule framed_bind [OF framed_decode], clarsimp, intro conjI impI, simp add: framed_return)
    apply (rule framed_bind [OF framed_decode], clarsimp, intro conjI impI, simp add: framed_return)
    apply (rule framed_bind [OF framed_parse_proof], clarsimp)
    apply (rule framed_return)
    apply (auto simp: jwt_claims_def Some parts partial_of_def Let_def)
    done
qed

lemma returns_jwt_decode:
  "\<exists>q. returns (opendbsc_jwt_decode J (Some t) (Some p) ::
             ('w world_scheme, int \<times> OpenDBSC_ProofJWT option) state)
         (if jwt_claims J t = None then -1 else 0, Some q) \<and>
       (\<forall>c. jwt_claims J t = Some c \<longrightarrow> q = c)"
proof (cases "split_jwt (Some t)")
  case None
  then show ?thesis by (auto simp: opendbsc_jwt_decode_def jwt_claims_def intro: returns_return)
next
  case (Some parts)
  obtain h pl s where parts: "parts = (h, pl, s)" by (cases parts)
  note dup = attempts_returns [OF attempts_strndup]
  note dec = attempts_returns [OF attempts_decode]
  have start: "returns (opendbsc_jwt_decode J (Some t) (Some p) ::
      ('w world_scheme, int \<times> OpenDBSC_ProofJWT option) state) r"
    if "returns (do {
        (rc, header_json) \<leftarrow> opendbsc_base64url_decode (Some h);
        if rc \<noteq> 0 then ret (-1, Some p)
        else do {
          (rc, payload_json) \<leftarrow> opendbsc_base64url_decode (Some pl);
          if rc \<noteq> 0 then ret (-1, Some p)
          else do {
            (rc, p') \<leftarrow> parse_proof J (bytes_text (the header_json)) (bytes_text (the payload_json)) (Some s) p;
            ret (rc, Some p') } } } :: ('w world_scheme, int \<times> OpenDBSC_ProofJWT option) state) r" for r
    unfolding opendbsc_jwt_decode_def Some parts option.case prod.case
    by (rule returns_bind [OF dup], rule returns_bind [OF dup], rule returns_bind [OF dup])
       (simp only: option.distinct simp_thms if_False, rule that)
  show ?thesis
  proof (cases "b64_decode h = None \<or> b64_decode pl = None")
    case True
    then have "jwt_claims J t = None" by (auto simp: jwt_claims_def Some parts split: option.splits)
    moreover have "returns (opendbsc_jwt_decode J (Some t) (Some p) ::
      ('w world_scheme, int \<times> OpenDBSC_ProofJWT option) state) (-1, Some p)"
      apply (rule start)
      apply (rule returns_bind [OF dec])
      using True apply (cases "b64_decode h")
       apply (simp add: decode_answer_def returns_return)
      apply (simp add: decode_answer_simps)
      apply (rule returns_bind [OF dec])
      apply (simp add: decode_answer_def returns_return)
      done
    ultimately show ?thesis by auto
  next
    case False
    then obtain hb pb where b: "b64_decode h = Some hb" "b64_decode pl = Some pb" by auto
    have go: "returns (opendbsc_jwt_decode J (Some t) (Some p) ::
      ('w world_scheme, int \<times> OpenDBSC_ProofJWT option) state) (rc, Some q)"
      if "returns (parse_proof J (bytes_text hb) (bytes_text pb) (Some s) p ::
            ('w world_scheme, int \<times> OpenDBSC_ProofJWT) state) (rc, q)" for rc q
      apply (rule start)
      apply (rule returns_bind [OF dec], simp add: decode_answer_simps b)
      apply (rule returns_bind [OF dec], simp add: decode_answer_simps b)
      apply (rule returns_bind [OF that], simp add: returns_return)
      done
    show ?thesis
    proof (cases "cj_parse J (bytes_text hb) = None \<or> cj_parse J (bytes_text pb) = None")
      case True
      then have "jwt_claims J t = None"
        by (auto simp: jwt_claims_def Some parts b split: option.splits)
      with go [OF returns_parse_fail [OF True]] show ?thesis by auto
    next
      case False
      then obtain H P where hp: "cj_parse J (bytes_text hb) = Some H" "cj_parse J (bytes_text pb) = Some P"
        by auto
      from returns_parse_proof [OF hp] go show ?thesis
        by (fastforce simp: jwt_claims_def Some parts b hp Let_def split: if_splits)
    qed
  qed
qed

section \<open>What the entry points accept\<close>

definition registration_ok :: "'j cjson_reader \<Rightarrow> ('b, 'k) openssl \<Rightarrow> string \<Rightarrow> OpenDBSC_ProofJWT \<Rightarrow> bool" where
  "registration_ok J C t q \<longleftrightarrow> p_type q = Some ''dbsc+jwt'' \<and>
     (p_jwk q = None \<longleftrightarrow> p_algorithm q = Some ''none'') \<and> signature_ok J C t q (p_jwk q)"

definition refresh_ok :: "'j cjson_reader \<Rightarrow> ('b, 'k) openssl \<Rightarrow> string \<Rightarrow> string \<Rightarrow> OpenDBSC_ProofJWT \<Rightarrow> bool" where
  "refresh_ok J C t kj q \<longleftrightarrow> p_jwk q = None \<and> p_type q = Some ''dbsc+jwt'' \<and>
     p_algorithm q \<noteq> Some ''none'' \<and> signature_ok J C t q (Some kj)"

lemma check_proof_type_ok: "check_proof_type p = 0 \<longleftrightarrow> p_type p = Some ''dbsc+jwt''"
  by (auto simp: check_proof_type_def split: option.splits)

lemma jwt_claims_alg: "jwt_claims J t = Some c \<Longrightarrow> p_algorithm c \<noteq> None \<and> p_challenge c \<noteq> None"
  by (auto simp: jwt_claims_def Let_def split: option.splits if_splits prod.splits)

lemma check_rules:
  "p_algorithm p = Some alg \<Longrightarrow>
   check_registration_jwk_rules p = ret (if p_jwk p = None \<longleftrightarrow> alg = ''none'' then 0 else -1)"
  by (auto simp: check_registration_jwk_rules_def)

text \<open>The sequence of checks, on a decoded proof.\<close>

definition registration_checks :: "'j cjson_reader \<Rightarrow> ('b, 'k) openssl \<Rightarrow> string \<Rightarrow> OpenDBSC_ProofJWT \<Rightarrow>
    ('a world_scheme, bool) state" where
  "registration_checks J C t p =
     (if check_proof_type p \<noteq> 0 then ret True
      else do {
        rules \<leftarrow> check_registration_jwk_rules p;
        if rules \<noteq> 0 then ret True
        else do {
          v \<leftarrow> verify_signature_with_jwk J C (Some t) (Some p) (p_jwk p);
          ret (v \<noteq> 0) } })"

definition refresh_checks :: "'j cjson_reader \<Rightarrow> ('b, 'k) openssl \<Rightarrow> string \<Rightarrow> string \<Rightarrow> OpenDBSC_ProofJWT \<Rightarrow>
    ('a world_scheme, bool) state" where
  "refresh_checks J C t kj p =
     (if p_jwk p \<noteq> None then ret True
      else if check_proof_type p \<noteq> 0 then ret True
      else do {
        none \<leftarrow> strcmp_eq (p_algorithm p) (Some ''none'');
        if none then ret True
        else do {
          v \<leftarrow> verify_signature_with_jwk J C (Some t) (Some p) (Some kj);
          ret (v \<noteq> 0) } })"

lemma attempts_verdict:
  "attempts (do { v \<leftarrow> verify_signature_with_jwk J C (Some t) (Some p) k; ret (v \<noteq> 0) })
     (\<not> signature_ok J C t p k) (\<lambda>b. b)"
  by (rule attempts_bind [OF attempts_verify_signature]) (simp_all add: framed_return attempts_return)

lemma attempts_registration_checks:
  "p_algorithm p = Some alg \<Longrightarrow>
   attempts (registration_checks J C t p) (\<not> registration_ok J C t p) (\<lambda>b. b)"
  using attempts_verdict [of J C t p "p_jwk p"]
  by (auto simp: registration_checks_def registration_ok_def check_proof_type_ok check_rules attempts_return)

lemma attempts_refresh_checks:
  "p_algorithm p = Some alg \<Longrightarrow>
   attempts (refresh_checks J C t kj p) (\<not> refresh_ok J C t kj p) (\<lambda>b. b)"
  using attempts_verdict [of J C t p "Some kj"]
  by (auto simp: refresh_checks_def refresh_ok_def check_proof_type_ok attempts_return)

text \<open>Both entry points decode, then check; they differ in the checks.\<close>

definition decode_then :: "'j cjson_reader \<Rightarrow> string \<Rightarrow> (OpenDBSC_ProofJWT \<Rightarrow> ('a world_scheme, bool) state) \<Rightarrow>
    OpenDBSC_ProofJWT option \<Rightarrow> ('a world_scheme, int \<times> OpenDBSC_ProofJWT option) state" where
  "decode_then J t checks proof' = do {
     (rc, target') \<leftarrow> opendbsc_jwt_decode J (Some t)
       (Some (case proof' of None \<Rightarrow> proof_defaults | Some p \<Rightarrow> p));
     if rc \<noteq> 0 then ret (-1, if proof' = None then None else target')
     else do {
       bad \<leftarrow> checks (the target');
       if bad then ret (-1, if proof' = None then None else target')
       else ret (0, if proof' = None then None else target') } }"

lemma entry_points:
  "opendbsc_jwt_decode_and_verify J C (Some t) proof' = decode_then J t (registration_checks J C t) proof'"
  "opendbsc_jwt_verify_with_jwk J C (Some t) (Some kj) proof' = decode_then J t (refresh_checks J C t kj) proof'"
  by (simp_all add: opendbsc_jwt_decode_and_verify_def opendbsc_jwt_verify_with_jwk_def decode_then_def
      registration_checks_def refresh_checks_def Let_def case_prod_beta cong: if_cong)

lemma framed_decode_then:
  assumes "\<And>p alg. p_algorithm p = Some alg \<Longrightarrow> attempts (checks p) (\<not> ok p) (\<lambda>b. b)"
  shows "framed (decode_then J t checks proof') (\<lambda>(rc, out).
     (proof' \<noteq> None \<longrightarrow> out \<noteq> None) \<and> (rc = -1 \<or> rc = 0 \<and> (\<exists>c q. jwt_claims J t = Some c \<and>
        partial_of q c \<and> ok q \<and> (proof' \<noteq> None \<longrightarrow> out = Some q))))"
  unfolding decode_then_def
proof (rule framed_bind [OF framed_jwt_decode], clarify, goal_cases)
  case (1 rc out q)
  then consider "rc = -1" | c where "rc = 0" "jwt_claims J t = Some c" "partial_of q c" by blast
  then show ?case
  proof cases
    case 1
    then show ?thesis by (simp add: framed_return)
  next
    case 2
    then obtain alg where "p_algorithm q = Some alg"
      using jwt_claims_alg by (fastforce simp: partial_of_def)
    from attempts_framed [OF assms [OF this]]
    have ch: "framed (checks q) (\<lambda>bad. \<not> bad \<longrightarrow> ok q)" by (rule framed_weaken) auto
    show ?thesis
      unfolding 2(1) option.sel
      by (simp only: simp_thms if_False, rule framed_bind [OF ch])
         (use 2(2,3) in \<open>auto intro!: framed_return\<close>)
  qed
qed

lemma returns_decode_then:
  fixes checks :: "OpenDBSC_ProofJWT \<Rightarrow> ('w world_scheme, bool) state"
  assumes "\<And>p alg. p_algorithm p = Some alg \<Longrightarrow> attempts (checks p) (\<not> ok p) (\<lambda>b. b)"
  shows "\<exists>out. returns (decode_then J t checks proof')
     (case jwt_claims J t of None \<Rightarrow> -1 | Some c \<Rightarrow> if ok c then 0 else -1, out) \<and>
     (\<forall>c. jwt_claims J t = Some c \<longrightarrow> out = (if proof' = None then None else Some c))"
proof -
  obtain q where d: "returns (opendbsc_jwt_decode J (Some t) (Some (case proof' of None \<Rightarrow> proof_defaults | Some p \<Rightarrow> p)) ::
      ('w world_scheme, int \<times> OpenDBSC_ProofJWT option) state)
      (if jwt_claims J t = None then -1 else 0, Some q)"
    and q: "\<forall>c. jwt_claims J t = Some c \<longrightarrow> q = c"
    using returns_jwt_decode [of J t "case proof' of None \<Rightarrow> proof_defaults | Some p \<Rightarrow> p"]
    by (elim exE conjE) (rule that)
  show ?thesis
  proof (cases "jwt_claims J t")
    case None
    have "returns (decode_then J t checks proof') (-1, if proof' = None then None else Some q)"
      unfolding decode_then_def by (rule returns_bind [OF d]) (simp add: None returns_return)
    with None show ?thesis by auto
  next
    case (Some c)
    then obtain alg where "p_algorithm c = Some alg" using jwt_claims_alg by blast
    from q Some have qc: "q = c" by simp
    from attempts_returns [OF assms [OF \<open>p_algorithm c = Some alg\<close>]] have ch: "returns (checks c) (\<not> ok c)" .
    have "returns (decode_then J t checks proof')
        (if ok c then 0 else -1, if proof' = None then None else Some c)"
      unfolding decode_then_def
      apply (rule returns_bind [OF d])
      apply (simp only: Some qc option.distinct option.sel prod.case simp_thms if_False)
      apply (rule returns_bind [OF ch])
      apply (simp add: returns_return)
      done
    with Some show ?thesis by auto
  qed
qed

lemma framed_decode_and_verify [framed_intros]:
  "framed (opendbsc_jwt_decode_and_verify J C (Some t) proof') (\<lambda>(rc, out).
     (proof' \<noteq> None \<longrightarrow> out \<noteq> None) \<and> (rc = -1 \<or> rc = 0 \<and> (\<exists>c q. jwt_claims J t = Some c \<and>
        partial_of q c \<and> registration_ok J C t q \<and> (proof' \<noteq> None \<longrightarrow> out = Some q))))"
  unfolding entry_points by (rule framed_decode_then [OF attempts_registration_checks])

lemma framed_verify_with_jwk [framed_intros]:
  "framed (opendbsc_jwt_verify_with_jwk J C (Some t) (Some kj) proof') (\<lambda>(rc, out).
     (proof' \<noteq> None \<longrightarrow> out \<noteq> None) \<and> (rc = -1 \<or> rc = 0 \<and> (\<exists>c q. jwt_claims J t = Some c \<and>
        partial_of q c \<and> refresh_ok J C t kj q \<and> (proof' \<noteq> None \<longrightarrow> out = Some q))))"
  unfolding entry_points by (rule framed_decode_then [OF attempts_refresh_checks])

lemma returns_decode_and_verify:
  "\<exists>out. returns (opendbsc_jwt_decode_and_verify J C (Some t) proof')
     (case jwt_claims J t of None \<Rightarrow> -1 | Some c \<Rightarrow> if registration_ok J C t c then 0 else -1, out) \<and>
     (\<forall>c. jwt_claims J t = Some c \<longrightarrow> out = (if proof' = None then None else Some c))"
  unfolding entry_points by (rule returns_decode_then [OF attempts_registration_checks])

lemma returns_verify_with_jwk:
  "\<exists>out. returns (opendbsc_jwt_verify_with_jwk J C (Some t) (Some kj) proof')
     (case jwt_claims J t of None \<Rightarrow> -1 | Some c \<Rightarrow> if refresh_ok J C t kj c then 0 else -1, out) \<and>
     (\<forall>c. jwt_claims J t = Some c \<longrightarrow> out = (if proof' = None then None else Some c))"
  unfolding entry_points by (rule returns_decode_then [OF attempts_refresh_checks])

section \<open>A concrete instance of the libraries\<close>

text \<open>
  Small stand-ins that satisfy the interfaces, for evaluating examples: JSON texts are single
  letters, a key is the concatenation of its two numbers and signs exactly its own bytes.
\<close>

datatype demo_json = JString string | JObject "(string \<times> demo_json) list"

definition demo_key_object :: demo_json where
  "demo_key_object = JObject [(''kty'', JString ''RSA''), (''n'', JString ''AQ''), (''e'', JString ''Ag'')]"

definition demo_texts :: "(string \<times> demo_json) list" where
  "demo_texts =
     [(''R'', JObject [(''alg'', JString ''RS256''), (''typ'', JString ''dbsc+jwt''), (''jwk'', demo_key_object)]),
      (''F'', JObject [(''alg'', JString ''RS256''), (''typ'', JString ''dbsc+jwt'')]),
      (''N'', JObject [(''alg'', JString ''none''), (''typ'', JString ''dbsc+jwt'')]),
      (''P'', JObject [(''jti'', JString ''c''), (''authorization'', JString ''a'')]),
      (''K'', demo_key_object)]"

fun demo_get :: "demo_json \<Rightarrow> string \<Rightarrow> demo_json option" where
  "demo_get (JObject fs) k = map_of fs k"
| "demo_get (JString _) k = None"

fun demo_string :: "demo_json \<Rightarrow> string option" where
  "demo_string (JString s) = Some s"
| "demo_string (JObject _) = None"

definition demo_cjson :: "demo_json cjson_reader" where
  "demo_cjson = \<lparr>cj_parse = map_of demo_texts, cj_get = demo_get, cj_string = demo_string,
     cj_is_object = (\<lambda>j. demo_string j = None), cj_print = (\<lambda>_. ''K'')\<rparr>"

definition demo_openssl :: "(byte list, byte list) openssl" where
  "demo_openssl = \<lparr>bin2bn = (\<lambda>b. b), ec_set_affine = (\<lambda>x y. Some (x @ y)),
     rsa_set0 = (\<lambda>n e. Some (n @ e)), sig_der = (\<lambda>r s. Some (r @ s)),
     digest_verify = (\<lambda>k msg sig. sig = k)\<rparr>"

section \<open>Properties\<close>

text \<open>
  A token splits exactly when it is three parts joined by two separators, none of the parts
  containing a separator; the parts found are those three.
\<close>

theorem split_jwt_exact:
  "split_jwt (Some t) = Some (h, pl, s) \<longleftrightarrow>
     t = h @ ''.'' @ pl @ ''.'' @ s \<and> CHR ''.'' \<notin> set h \<union> set pl \<union> set s"
  by (rule split_jwt_iff)

lemma accepted_text:
  assumes "jwt_claims J t = Some c"
  obtains h pl s where "t = h @ ''.'' @ pl @ ''.'' @ s" "split_jwt (Some t) = Some (h, pl, s)"
    "p_signature c = Some s"
proof -
  from assms obtain h pl s where sp: "split_jwt (Some t) = Some (h, pl, s)" and c: "p_signature c = Some s"
    by (auto simp: jwt_claims_def claims_of_def Let_def split: option.splits if_splits)
  from sp have "t = h @ ''.'' @ pl @ ''.'' @ s" by (simp only: split_jwt_iff)
  from that [OF this sp c] show ?thesis .
qed

lemma signature_ok_signed:
  assumes "signature_ok J C t q k" and "p_algorithm q \<noteq> Some ''none''"
    and "split_jwt (Some t) = Some (h, pl, s)" and "p_signature q = None \<or> p_signature q = Some s"
  shows "\<exists>alg kj. p_algorithm q = Some alg \<and> alg \<in> {''ES256'', ''RS256''} \<and> k = Some kj \<and>
    signed_by J C alg kj s (h @ ''.'' @ pl)"
  using assms by (auto simp: signature_ok_def split: option.splits)

text \<open>
  C27: Registration proofs. If decode-and-verify returns 0, the token is three base64url parts, its
  type claim is "dbsc+jwt", and either its algorithm is "none" or it is ES256 or RS256 and the
  third part is a signature of the first two under the key the header embeds. This holds for
  every answer of the JSON and crypto libraries and every pattern of allocation failures, and the
  call has no undefined behaviour.
\<close>

theorem jwt_decode_and_verify_sound:
  assumes "run_state (opendbsc_jwt_decode_and_verify J C (Some t) (Some p)) w = ((0, out), w')"
  shows "undef w' = undef w \<and>
    (\<exists>h pl s c q. t = h @ ''.'' @ pl @ ''.'' @ s \<and> jwt_claims J t = Some c \<and> out = Some q \<and>
       partial_of q c \<and> p_type c = Some ''dbsc+jwt'' \<and>
       (p_algorithm c = Some ''none'' \<and> p_jwk q = None \<or>
        (\<exists>alg k. p_algorithm c = Some alg \<and> alg \<in> {''ES256'', ''RS256''} \<and> p_jwk c = Some k \<and>
           p_jwk q = Some k \<and> signed_by J C alg k s (h @ ''.'' @ pl))))"
proof -
  from framedD [OF framed_decode_and_verify assms] obtain c q where f: "frame w w'"
    and c: "jwt_claims J t = Some c" "partial_of q c" "registration_ok J C t q" "out = Some q" by auto
  obtain h pl s where sp: "t = h @ ''.'' @ pl @ ''.'' @ s" "split_jwt (Some t) = Some (h, pl, s)"
    "p_signature c = Some s" using accepted_text [OF c(1)] .
  have sig: "p_signature q = None \<or> p_signature q = Some s" using c(2) sp(3) by (auto simp: partial_of_def)
  have ty: "p_type c = Some ''dbsc+jwt''" and alg: "p_algorithm q = p_algorithm c"
    using c(2,3) by (auto simp: partial_of_def registration_ok_def)
  have "p_algorithm c = Some ''none'' \<and> p_jwk q = None \<or>
        (\<exists>alg k. p_algorithm c = Some alg \<and> alg \<in> {''ES256'', ''RS256''} \<and> p_jwk c = Some k \<and>
           p_jwk q = Some k \<and> signed_by J C alg k s (h @ ''.'' @ pl))"
  proof (cases "p_algorithm q = Some ''none''")
    case True
    with c(3) alg show ?thesis by (simp add: registration_ok_def)
  next
    case False
    from c(3) have "signature_ok J C t q (p_jwk q)" by (simp add: registration_ok_def)
    from signature_ok_signed [OF this False sp(2) sig] c(2) show ?thesis
      by (auto simp: partial_of_def)
  qed
  note key = this
  show ?thesis
    by (rule conjI [OF frame_undef [OF f]], rule exI [of _ h], rule exI [of _ pl], rule exI [of _ s],
        rule exI [of _ c], rule exI [of _ q]) (intro conjI sp(1) c(1,2,4) ty key)
qed

theorem jwt_decode_and_verify_sound_witness:
  "fst (fst (run_state (opendbsc_jwt_decode_and_verify demo_cjson demo_openssl (Some ''Ug.UA.AQI'')
      (Some proof_defaults)) demo_world)) = 0 \<and>
   (\<exists>h pl s. ''Ug.UA.AQI'' = h @ ''.'' @ pl @ ''.'' @ s \<and>
      signed_by demo_cjson demo_openssl ''RS256'' ''K'' s (h @ ''.'' @ pl))"
proof -
  let ?r = "run_state (opendbsc_jwt_decode_and_verify demo_cjson demo_openssl (Some ''Ug.UA.AQI'')
      (Some proof_defaults)) demo_world"
  have rc: "fst (fst ?r) = 0" by code_simp
  have c: "map_option (\<lambda>c. (p_algorithm c, p_jwk c)) (jwt_claims demo_cjson ''Ug.UA.AQI'') = Some (Some ''RS256'', Some ''K'')"
    by code_simp
  have "undef (snd ?r) = undef demo_world \<and>
    (\<exists>h pl s c q. ''Ug.UA.AQI'' = h @ ''.'' @ pl @ ''.'' @ s \<and> jwt_claims demo_cjson ''Ug.UA.AQI'' = Some c \<and>
       snd (fst ?r) = Some q \<and> partial_of q c \<and> p_type c = Some ''dbsc+jwt'' \<and>
       (p_algorithm c = Some ''none'' \<and> p_jwk q = None \<or>
        (\<exists>alg k. p_algorithm c = Some alg \<and> alg \<in> {''ES256'', ''RS256''} \<and> p_jwk c = Some k \<and>
           p_jwk q = Some k \<and> signed_by demo_cjson demo_openssl alg k s (h @ ''.'' @ pl))))"
    by (rule jwt_decode_and_verify_sound [where p = proof_defaults]) (simp add: rc prod_eq_iff)
  then obtain h pl s c' alg k where w: "''Ug.UA.AQI'' = h @ ''.'' @ pl @ ''.'' @ s"
    "jwt_claims demo_cjson ''Ug.UA.AQI'' = Some c'"
    "p_algorithm c' = Some ''none'' \<or> p_algorithm c' = Some alg \<and> p_jwk c' = Some k \<and>
       signed_by demo_cjson demo_openssl alg k s (h @ ''.'' @ pl)" by blast
  from c w(2) have "p_algorithm c' = Some ''RS256''" "p_jwk c' = Some ''K''" by simp_all
  with w(3) have "signed_by demo_cjson demo_openssl ''RS256'' ''K'' s (h @ ''.'' @ pl)" by simp
  with w(1) have "\<exists>h pl s. ''Ug.UA.AQI'' = h @ ''.'' @ pl @ ''.'' @ s \<and>
      signed_by demo_cjson demo_openssl ''RS256'' ''K'' s (h @ ''.'' @ pl)" by (intro exI conjI)
  with rc show ?thesis by (intro conjI)
qed

text \<open>
  C28: Refresh proofs. If verification against a stored key returns 0, the type claim of the token is
  "dbsc+jwt", its algorithm is ES256 or RS256, never "none", and the third part of the token is a
  signature of the first two under the stored key, whatever allocation fails. The proof handed out
  has no key, and the token embeds none when no allocation fails: a token with a key of its own is
  refused unless the copy of that key runs out of memory.
\<close>

theorem jwt_verify_with_jwk_sound:
  fixes w :: "'a world_scheme"
  assumes "run_state (opendbsc_jwt_verify_with_jwk J C token key (Some p)) w = ((0, out), w')"
  shows "undef w' = undef w \<and>
    (\<exists>t kj h pl s c q alg. token = Some t \<and> key = Some kj \<and> t = h @ ''.'' @ pl @ ''.'' @ s \<and>
       jwt_claims J t = Some c \<and> out = Some q \<and> partial_of q c \<and> p_jwk q = None \<and>
       (p_jwk c = None \<or> starved w) \<and>
       p_type c = Some ''dbsc+jwt'' \<and> p_algorithm c = Some alg \<and> alg \<in> {''ES256'', ''RS256''} \<and>
       signed_by J C alg kj s (h @ ''.'' @ pl))"
proof -
  from assms obtain t kj where tk: "token = Some t" "key = Some kj"
    by (cases token; cases key) (simp_all add: opendbsc_jwt_verify_with_jwk_def)
  from framedD [OF framed_verify_with_jwk assms [unfolded tk]] obtain c q where f: "frame w w'"
    and c: "jwt_claims J t = Some c" "partial_of q c" "refresh_ok J C t kj q" "out = Some q" by auto
  obtain h pl s where sp: "t = h @ ''.'' @ pl @ ''.'' @ s" "split_jwt (Some t) = Some (h, pl, s)"
    "p_signature c = Some s" using accepted_text [OF c(1)] .
  have sig: "p_signature q = None \<or> p_signature q = Some s" using c(2) sp(3) by (auto simp: partial_of_def)
  have "signature_ok J C t q (Some kj)" "p_algorithm q \<noteq> Some ''none''"
    using c(3) by (simp_all add: refresh_ok_def)
  from signature_ok_signed [OF this sp(2) sig] obtain alg where a:
    "p_algorithm q = Some alg" "alg \<in> {''ES256'', ''RS256''}" "signed_by J C alg kj s (h @ ''.'' @ pl)" by auto
  have b: "p_type c = Some ''dbsc+jwt''" "p_algorithm c = Some alg" "p_jwk q = None"
    using a(1) c(2,3) by (auto simp: partial_of_def refresh_ok_def)
  have own: "p_jwk c = None \<or> starved w"
  proof (cases "starved w")
    case False
    obtain out' where r: "returns (opendbsc_jwt_verify_with_jwk J C (Some t) (Some kj) (Some p) :: ('a world_scheme, _) state)
        (case jwt_claims J t of None \<Rightarrow> -1 | Some c \<Rightarrow> if refresh_ok J C t kj c then 0 else -1, out')"
      and o: "\<forall>c. jwt_claims J t = Some c \<longrightarrow> out' = (if Some p = None then None else Some c)"
      using returns_verify_with_jwk [of J C t kj "Some p"] by (elim exE conjE) (rule that)
    have ok: "mem_ok w n" for n using False by (simp add: starved_def)
    from returnsD [OF r ok assms [unfolded tk]] have "out' = out" by (simp only: prod.inject)
    moreover have "out' = Some c" using o c(1) by (simp only: option.distinct if_False simp_thms)
    ultimately have "q = c" using c(4) by (simp only: option.inject)
    with b(3) show ?thesis by simp
  qed simp
  show ?thesis
    by (rule conjI [OF frame_undef [OF f]], rule exI [of _ t], rule exI [of _ kj], rule exI [of _ h],
        rule exI [of _ pl], rule exI [of _ s], rule exI [of _ c], rule exI [of _ q], rule exI [of _ alg])
       (intro conjI tk sp(1) c(1,2,4) a(2,3) b own)
qed

theorem jwt_verify_with_jwk_sound_witness:
  "fst (fst (run_state (opendbsc_jwt_verify_with_jwk demo_cjson demo_openssl (Some ''Rg.UA.AQI'')
      (Some ''K'') (Some proof_defaults)) demo_world)) = 0 \<and>
   (\<exists>h pl s. ''Rg.UA.AQI'' = h @ ''.'' @ pl @ ''.'' @ s \<and>
      signed_by demo_cjson demo_openssl ''RS256'' ''K'' s (h @ ''.'' @ pl))"
proof -
  let ?r = "run_state (opendbsc_jwt_verify_with_jwk demo_cjson demo_openssl (Some ''Rg.UA.AQI'')
      (Some ''K'') (Some proof_defaults)) demo_world"
  have rc: "fst (fst ?r) = 0" by code_simp
  have c: "map_option p_algorithm (jwt_claims demo_cjson ''Rg.UA.AQI'') = Some (Some ''RS256'')"
    by code_simp
  have "undef (snd ?r) = undef demo_world \<and>
    (\<exists>t kj h pl s c q alg. Some ''Rg.UA.AQI'' = Some t \<and> Some ''K'' = Some kj \<and> t = h @ ''.'' @ pl @ ''.'' @ s \<and>
       jwt_claims demo_cjson t = Some c \<and> snd (fst ?r) = Some q \<and> partial_of q c \<and> p_jwk q = None \<and>
       (p_jwk c = None \<or> starved demo_world) \<and> p_type c = Some ''dbsc+jwt'' \<and> p_algorithm c = Some alg \<and> alg \<in> {''ES256'', ''RS256''} \<and>
       signed_by demo_cjson demo_openssl alg kj s (h @ ''.'' @ pl))"
    by (rule jwt_verify_with_jwk_sound [where p = proof_defaults]) (simp add: rc prod_eq_iff)
  then obtain t kj h pl s c' alg where w: "Some ''Rg.UA.AQI'' = Some t" "Some ''K'' = Some kj"
    "t = h @ ''.'' @ pl @ ''.'' @ s" "jwt_claims demo_cjson t = Some c'"
    "p_algorithm c' = Some alg" "signed_by demo_cjson demo_openssl alg kj s (h @ ''.'' @ pl)" by blast
  from w(1-3) have t: "t = ''Rg.UA.AQI''" "kj = ''K''" "''Rg.UA.AQI'' = h @ ''.'' @ pl @ ''.'' @ s" by simp_all
  from c w(4,5) have "alg = ''RS256''" unfolding t(1) by simp
  with w(6) t(2) have "signed_by demo_cjson demo_openssl ''RS256'' ''K'' s (h @ ''.'' @ pl)" by simp
  with t(3) have "\<exists>h pl s. ''Rg.UA.AQI'' = h @ ''.'' @ pl @ ''.'' @ s \<and>
      signed_by demo_cjson demo_openssl ''RS256'' ''K'' s (h @ ''.'' @ pl)" by (intro exI conjI)
  with rc show ?thesis by (intro conjI)
qed

text \<open>
  C29: Completeness of both entry points. When no allocation fails, a registration proof is
  accepted exactly when it decodes and passes the registration rules, and a refresh proof exactly
  when it decodes and passes the refresh rules under the stored key; otherwise -1 is returned.
\<close>

theorem jwt_entry_points_exact:
  assumes "\<not> starved w"
    and "run_state (opendbsc_jwt_decode_and_verify J C (Some t) p) w = ((rc, out), w1)"
    and "run_state (opendbsc_jwt_verify_with_jwk J C (Some t) (Some kj) p) w = ((rc', out'), w2)"
  shows "rc = (case jwt_claims J t of None \<Rightarrow> -1 | Some c \<Rightarrow> if registration_ok J C t c then 0 else -1) \<and>
    rc' = (case jwt_claims J t of None \<Rightarrow> -1 | Some c \<Rightarrow> if refresh_ok J C t kj c then 0 else -1)"
proof -
  from assms(1) have mem: "mem_ok w n" for n by (simp add: starved_def)
  obtain o1 where r1: "returns (opendbsc_jwt_decode_and_verify J C (Some t) p :: ('a world_scheme, _) state)
      (case jwt_claims J t of None \<Rightarrow> -1 | Some c \<Rightarrow> if registration_ok J C t c then 0 else -1, o1)"
    using returns_decode_and_verify [of J C t p] by (elim exE conjE) (rule that)
  obtain o2 where r2: "returns (opendbsc_jwt_verify_with_jwk J C (Some t) (Some kj) p :: ('a world_scheme, _) state)
      (case jwt_claims J t of None \<Rightarrow> -1 | Some c \<Rightarrow> if refresh_ok J C t kj c then 0 else -1, o2)"
    using returns_verify_with_jwk [of J C t kj p] by (elim exE conjE) (rule that)
  from returnsD [OF r1 mem assms(2)] returnsD [OF r2 mem assms(3)] show ?thesis by simp
qed

theorem jwt_entry_points_exact_witness:
  "fst (fst (run_state (opendbsc_jwt_decode_and_verify demo_cjson demo_openssl (Some ''Ug.UA.AQI'') None) demo_world)) = 0 \<and>
   fst (fst (run_state (opendbsc_jwt_verify_with_jwk demo_cjson demo_openssl (Some ''Ug.UA.AQI'') (Some ''K'') None) demo_world)) = -1"
proof -
  let ?a = "run_state (opendbsc_jwt_decode_and_verify demo_cjson demo_openssl (Some ''Ug.UA.AQI'') None) demo_world"
  let ?b = "run_state (opendbsc_jwt_verify_with_jwk demo_cjson demo_openssl (Some ''Ug.UA.AQI'') (Some ''K'') None) demo_world"
  have e: "(case jwt_claims demo_cjson ''Ug.UA.AQI'' of None \<Rightarrow> -1
      | Some c \<Rightarrow> if registration_ok demo_cjson demo_openssl ''Ug.UA.AQI'' c then (0::int) else -1) = 0"
    "(case jwt_claims demo_cjson ''Ug.UA.AQI'' of None \<Rightarrow> -1
      | Some c \<Rightarrow> if refresh_ok demo_cjson demo_openssl ''Ug.UA.AQI'' ''K'' c then (0::int) else -1) = -1"
    by code_simp+
  have "fst (fst ?a) = (case jwt_claims demo_cjson ''Ug.UA.AQI'' of None \<Rightarrow> -1
      | Some c \<Rightarrow> if registration_ok demo_cjson demo_openssl ''Ug.UA.AQI'' c then 0 else -1) \<and>
    fst (fst ?b) = (case jwt_claims demo_cjson ''Ug.UA.AQI'' of None \<Rightarrow> -1
      | Some c \<Rightarrow> if refresh_ok demo_cjson demo_openssl ''Ug.UA.AQI'' ''K'' c then 0 else -1)"
    by (rule jwt_entry_points_exact [where w = demo_world and p = None and ?w1.0 = "snd ?a"
          and ?w2.0 = "snd ?b" and out = "snd (fst ?a)" and out' = "snd (fst ?b)"]) simp_all
  with e show ?thesis by simp
qed

end
