(* ===== verification/Instruction.thy ===== *)
theory Instruction
  imports JWT Session
begin

text \<open>
  Session instructions: \<^verbatim>\<open>include/protocol/instruction.h\<close> and \<^verbatim>\<open>src/protocol/instruction.c\<close>. A growing
  array is the list of its counted elements and its capacity; storing element \<open>count\<close> when the
  capacity is not larger is undefined behaviour. The JSON writer of cJSON is a parameter; each of
  its calls draws one answer of the allocator. \<open>set_string\<close> is the static function of the same
  text in \<^verbatim>\<open>session.c\<close>.

  The lemmas give the document an instruction stands for, and show that serialisation produces it
  completely or reports NULL, and that the adding operations append an exact copy or change
  nothing but the capacity.
\<close>

section \<open>Data\<close>

record OpenDBSC_ScopeRule =
  r_type :: "string option"
  r_domain :: "string option"
  r_path :: "string option"

record OpenDBSC_SessionScope =
  sc_origin :: "string option"
  sc_include_site :: int
  sc_specification :: "OpenDBSC_ScopeRule list"
  sc_capacity :: nat

record OpenDBSC_SessionCredential =
  c_type :: "string option"
  c_name :: "string option"
  c_attributes :: "string option"

record OpenDBSC_SessionInstruction =
  i_session_identifier :: "string option"
  i_refresh_url :: "string option"
  i_continue_session :: int
  i_has_continue :: int
  i_scope :: OpenDBSC_SessionScope
  i_credentials :: "OpenDBSC_SessionCredential list"
  i_credentials_capacity :: nat
  i_initiators :: "string list"
  i_initiators_capacity :: nat

section \<open>Rules, credentials and scopes\<close>

definition rule_defaults :: OpenDBSC_ScopeRule where
  "rule_defaults = \<lparr>r_type = None, r_domain = None, r_path = None\<rparr>"

definition opendbsc_rule_init :: "OpenDBSC_ScopeRule option \<Rightarrow> OpenDBSC_ScopeRule option" where
  "opendbsc_rule_init rule = (case rule of None \<Rightarrow> None | Some _ \<Rightarrow> Some rule_defaults)"

definition opendbsc_rule_free :: "OpenDBSC_ScopeRule option \<Rightarrow> OpenDBSC_ScopeRule option" where
  "opendbsc_rule_free rule =
     (case rule of None \<Rightarrow> None
      | Some r \<Rightarrow> opendbsc_rule_init (Some (r\<lparr>r_type := None, r_domain := None, r_path := None\<rparr>)))"

definition opendbsc_rule_set_type :: "OpenDBSC_ScopeRule option \<Rightarrow> string option \<Rightarrow>
    ('a world_scheme, int \<times> OpenDBSC_ScopeRule option) state" where
  "opendbsc_rule_set_type rule v =
     (case rule of None \<Rightarrow> ret (-1, None)
      | Some r \<Rightarrow> do { (rc, f) \<leftarrow> set_string (r_type r) v; ret (rc, Some (r\<lparr>r_type := f\<rparr>)) })"

definition opendbsc_rule_set_domain :: "OpenDBSC_ScopeRule option \<Rightarrow> string option \<Rightarrow>
    ('a world_scheme, int \<times> OpenDBSC_ScopeRule option) state" where
  "opendbsc_rule_set_domain rule v =
     (case rule of None \<Rightarrow> ret (-1, None)
      | Some r \<Rightarrow> do { (rc, f) \<leftarrow> set_string (r_domain r) v; ret (rc, Some (r\<lparr>r_domain := f\<rparr>)) })"

definition opendbsc_rule_set_path :: "OpenDBSC_ScopeRule option \<Rightarrow> string option \<Rightarrow>
    ('a world_scheme, int \<times> OpenDBSC_ScopeRule option) state" where
  "opendbsc_rule_set_path rule v =
     (case rule of None \<Rightarrow> ret (-1, None)
      | Some r \<Rightarrow> do { (rc, f) \<leftarrow> set_string (r_path r) v; ret (rc, Some (r\<lparr>r_path := f\<rparr>)) })"

definition credential_defaults :: OpenDBSC_SessionCredential where
  "credential_defaults = \<lparr>c_type = None, c_name = None, c_attributes = None\<rparr>"

definition opendbsc_credential_init ::
  "OpenDBSC_SessionCredential option \<Rightarrow> OpenDBSC_SessionCredential option" where
  "opendbsc_credential_init cred = (case cred of None \<Rightarrow> None | Some _ \<Rightarrow> Some credential_defaults)"

definition opendbsc_credential_free ::
  "OpenDBSC_SessionCredential option \<Rightarrow> OpenDBSC_SessionCredential option" where
  "opendbsc_credential_free cred =
     (case cred of None \<Rightarrow> None
      | Some c \<Rightarrow> opendbsc_credential_init
          (Some (c\<lparr>c_type := None, c_name := None, c_attributes := None\<rparr>)))"

definition opendbsc_credential_set_type :: "OpenDBSC_SessionCredential option \<Rightarrow> string option \<Rightarrow>
    ('a world_scheme, int \<times> OpenDBSC_SessionCredential option) state" where
  "opendbsc_credential_set_type cred v =
     (case cred of None \<Rightarrow> ret (-1, None)
      | Some c \<Rightarrow> do { (rc, f) \<leftarrow> set_string (c_type c) v; ret (rc, Some (c\<lparr>c_type := f\<rparr>)) })"

definition opendbsc_credential_set_name :: "OpenDBSC_SessionCredential option \<Rightarrow> string option \<Rightarrow>
    ('a world_scheme, int \<times> OpenDBSC_SessionCredential option) state" where
  "opendbsc_credential_set_name cred v =
     (case cred of None \<Rightarrow> ret (-1, None)
      | Some c \<Rightarrow> do { (rc, f) \<leftarrow> set_string (c_name c) v; ret (rc, Some (c\<lparr>c_name := f\<rparr>)) })"

definition opendbsc_credential_set_attributes :: "OpenDBSC_SessionCredential option \<Rightarrow> string option \<Rightarrow>
    ('a world_scheme, int \<times> OpenDBSC_SessionCredential option) state" where
  "opendbsc_credential_set_attributes cred v =
     (case cred of None \<Rightarrow> ret (-1, None)
      | Some c \<Rightarrow> do { (rc, f) \<leftarrow> set_string (c_attributes c) v;
                      ret (rc, Some (c\<lparr>c_attributes := f\<rparr>)) })"

text \<open>The shared growth step: the return code and the new capacity.\<close>

definition grow_array :: "nat \<Rightarrow> nat \<Rightarrow> ('a world_scheme, int \<times> nat) state" where
  "grow_array count capacity =
     (if count < capacity then ret (0, capacity)
      else do {
        let new_capacity = (if capacity = 0 then 4 else capacity * 2);
        ok \<leftarrow> alloc;
        if \<not> ok then ret (-1, capacity) else ret (0, new_capacity) })"

definition scope_defaults :: OpenDBSC_SessionScope where
  "scope_defaults = \<lparr>sc_origin = None, sc_include_site = 0, sc_specification = [], sc_capacity = 0\<rparr>"

definition opendbsc_scope_init :: "OpenDBSC_SessionScope option \<Rightarrow> OpenDBSC_SessionScope option" where
  "opendbsc_scope_init scope = (case scope of None \<Rightarrow> None | Some _ \<Rightarrow> Some scope_defaults)"

definition opendbsc_scope_free :: "OpenDBSC_SessionScope option \<Rightarrow> OpenDBSC_SessionScope option" where
  "opendbsc_scope_free scope =
     (case scope of None \<Rightarrow> None
      | Some s \<Rightarrow> opendbsc_scope_init (Some (s\<lparr>sc_origin := None,
          sc_specification := map (\<lambda>r. the (opendbsc_rule_free (Some r))) (sc_specification s)\<rparr>)))"

definition opendbsc_scope_set_origin :: "OpenDBSC_SessionScope option \<Rightarrow> string option \<Rightarrow>
    ('a world_scheme, int \<times> OpenDBSC_SessionScope option) state" where
  "opendbsc_scope_set_origin scope v =
     (case scope of None \<Rightarrow> ret (-1, None)
      | Some s \<Rightarrow> do { (rc, f) \<leftarrow> set_string (sc_origin s) v; ret (rc, Some (s\<lparr>sc_origin := f\<rparr>)) })"

definition opendbsc_scope_set_include_site ::
  "OpenDBSC_SessionScope option \<Rightarrow> int \<Rightarrow> OpenDBSC_SessionScope option" where
  "opendbsc_scope_set_include_site scope v =
     (case scope of None \<Rightarrow> None
      | Some s \<Rightarrow> Some (s\<lparr>sc_include_site := (if v \<noteq> 0 then 1 else 0)\<rparr>))"

definition opendbsc_scope_add_rule ::
  "OpenDBSC_SessionScope option \<Rightarrow> OpenDBSC_ScopeRule option \<Rightarrow>
    ('a world_scheme, int \<times> OpenDBSC_SessionScope option) state" where
  "opendbsc_scope_add_rule scope rule =
     (case (scope, rule) of
        (Some s, Some r) \<Rightarrow> do {
          (rc, cap) \<leftarrow> grow_array (length (sc_specification s)) (sc_capacity s);
          let s = s\<lparr>sc_capacity := cap\<rparr>;
          if rc \<noteq> 0 then ret (-1, Some s)
          else if \<not> length (sc_specification s) < cap then ub (-1, Some s)
          else do {
            let dst = opendbsc_rule_init (Some rule_defaults);
            (rc, dst) \<leftarrow> opendbsc_rule_set_type dst (r_type r);
            if rc \<noteq> 0 then ret (-1, Some s) else do {
            (rc, dst) \<leftarrow> opendbsc_rule_set_domain dst (r_domain r);
            if rc \<noteq> 0 then ret (-1, Some s) else do {
            (rc, dst) \<leftarrow> opendbsc_rule_set_path dst (r_path r);
            if rc \<noteq> 0 then ret (-1, Some s)
            else ret (0, Some (s\<lparr>sc_specification := sc_specification s @ [the dst]\<rparr>)) } } } }
      | _ \<Rightarrow> ret (-1, scope))"

section \<open>Instructions\<close>

definition instruction_defaults :: OpenDBSC_SessionInstruction where
  "instruction_defaults = \<lparr>i_session_identifier = None, i_refresh_url = None, i_continue_session = 1,
     i_has_continue = 0, i_scope = scope_defaults, i_credentials = [], i_credentials_capacity = 0,
     i_initiators = [], i_initiators_capacity = 0\<rparr>"

definition opendbsc_instruction_init ::
  "OpenDBSC_SessionInstruction option \<Rightarrow> OpenDBSC_SessionInstruction option" where
  "opendbsc_instruction_init ins = (case ins of None \<Rightarrow> None | Some _ \<Rightarrow> Some instruction_defaults)"

definition opendbsc_instruction_free ::
  "OpenDBSC_SessionInstruction option \<Rightarrow> OpenDBSC_SessionInstruction option" where
  "opendbsc_instruction_free ins =
     (case ins of None \<Rightarrow> None
      | Some i \<Rightarrow> opendbsc_instruction_init (Some (i\<lparr>i_session_identifier := None, i_refresh_url := None,
          i_credentials := map (\<lambda>c. the (opendbsc_credential_free (Some c))) (i_credentials i),
          i_scope := the (opendbsc_scope_free (Some (i_scope i)))\<rparr>)))"

definition opendbsc_instruction_set_session_identifier ::
  "OpenDBSC_SessionInstruction option \<Rightarrow> string option \<Rightarrow>
    ('a world_scheme, int \<times> OpenDBSC_SessionInstruction option) state" where
  "opendbsc_instruction_set_session_identifier ins v =
     (case ins of None \<Rightarrow> ret (-1, None)
      | Some i \<Rightarrow> do { (rc, f) \<leftarrow> set_string (i_session_identifier i) v;
                      ret (rc, Some (i\<lparr>i_session_identifier := f\<rparr>)) })"

definition opendbsc_instruction_set_refresh_url ::
  "OpenDBSC_SessionInstruction option \<Rightarrow> string option \<Rightarrow>
    ('a world_scheme, int \<times> OpenDBSC_SessionInstruction option) state" where
  "opendbsc_instruction_set_refresh_url ins v =
     (case ins of None \<Rightarrow> ret (-1, None)
      | Some i \<Rightarrow> do { (rc, f) \<leftarrow> set_string (i_refresh_url i) v;
                      ret (rc, Some (i\<lparr>i_refresh_url := f\<rparr>)) })"

definition opendbsc_instruction_set_continue_session ::
  "OpenDBSC_SessionInstruction option \<Rightarrow> int \<Rightarrow> OpenDBSC_SessionInstruction option" where
  "opendbsc_instruction_set_continue_session ins v =
     (case ins of None \<Rightarrow> None
      | Some i \<Rightarrow> Some (i\<lparr>i_continue_session := (if v \<noteq> 0 then 1 else 0), i_has_continue := 1\<rparr>))"

definition opendbsc_instruction_set_continue ::
  "OpenDBSC_SessionInstruction option \<Rightarrow> bool \<Rightarrow> OpenDBSC_SessionInstruction option" where
  "opendbsc_instruction_set_continue ins v =
     opendbsc_instruction_set_continue_session ins (if v then 1 else 0)"

definition opendbsc_instruction_add_refresh_initiator ::
  "OpenDBSC_SessionInstruction option \<Rightarrow> string option \<Rightarrow>
    ('a world_scheme, int \<times> OpenDBSC_SessionInstruction option) state" where
  "opendbsc_instruction_add_refresh_initiator ins origin =
     (case (ins, origin) of
        (Some i, Some org) \<Rightarrow> do {
          (rc, cap) \<leftarrow> grow_array (length (i_initiators i)) (i_initiators_capacity i);
          let i = i\<lparr>i_initiators_capacity := cap\<rparr>;
          if rc \<noteq> 0 then ret (-1, Some i)
          else do {
            copy \<leftarrow> strdup org;
            case copy of None \<Rightarrow> ret (-1, Some i)
            | Some c \<Rightarrow>
                if \<not> length (i_initiators i) < cap then ub (-1, Some i)
                else ret (0, Some (i\<lparr>i_initiators := i_initiators i @ [c]\<rparr>)) } }
      | _ \<Rightarrow> ret (-1, ins))"

definition opendbsc_instruction_add_credential ::
  "OpenDBSC_SessionInstruction option \<Rightarrow> OpenDBSC_SessionCredential option \<Rightarrow>
    ('a world_scheme, int \<times> OpenDBSC_SessionInstruction option) state" where
  "opendbsc_instruction_add_credential ins cred =
     (case (ins, cred) of
        (Some i, Some c) \<Rightarrow> do {
          (rc, cap) \<leftarrow> grow_array (length (i_credentials i)) (i_credentials_capacity i);
          let i = i\<lparr>i_credentials_capacity := cap\<rparr>;
          if rc \<noteq> 0 then ret (-1, Some i)
          else if \<not> length (i_credentials i) < cap then ub (-1, Some i)
          else do {
            let dst = opendbsc_credential_init (Some credential_defaults);
            (rc, dst) \<leftarrow> opendbsc_credential_set_type dst (c_type c);
            if rc \<noteq> 0 then ret (-1, Some i) else do {
            (rc, dst) \<leftarrow> opendbsc_credential_set_name dst (c_name c);
            if rc \<noteq> 0 then ret (-1, Some i) else do {
            (rc, dst) \<leftarrow> opendbsc_credential_set_attributes dst (c_attributes c);
            if rc \<noteq> 0 then ret (-1, Some i)
            else ret (0, Some (i\<lparr>i_credentials := i_credentials i @ [the dst]\<rparr>)) } } } }
      | _ \<Rightarrow> ret (-1, ins))"

section \<open>JSON\<close>

record 'j cjson_writer =
  cj_object :: 'j
  cj_array :: 'j
  cj_str :: "string \<Rightarrow> 'j"
  cj_bool :: "bool \<Rightarrow> 'j"
  cj_add :: "'j \<Rightarrow> string \<Rightarrow> 'j \<Rightarrow> 'j"
  cj_push :: "'j \<Rightarrow> 'j \<Rightarrow> 'j"
  cj_format :: "'j \<Rightarrow> string"

text \<open>Stop with NULL when a step answers NULL: the code's \<^verbatim>\<open>goto fail\<close>.\<close>

definition unless_null :: "('w, 'b option) state \<Rightarrow> ('b \<Rightarrow> ('w, 'c option) state) \<Rightarrow> ('w, 'c option) state" where
  "unless_null m f = do { x \<leftarrow> m; case x of None \<Rightarrow> ret None | Some y \<Rightarrow> f y }"

definition json_add_string :: "'j cjson_writer \<Rightarrow> 'j \<Rightarrow> string \<Rightarrow> string option \<Rightarrow>
    ('a world_scheme, 'j option) state" where
  "json_add_string W obj key v =
     (case v of None \<Rightarrow> ret (Some obj) | Some s \<Rightarrow> guarded (Some (cj_add W obj key (cj_str W s))))"

definition scope_rule_to_json :: "'j cjson_writer \<Rightarrow> OpenDBSC_ScopeRule option \<Rightarrow>
    ('a world_scheme, 'j option) state" where
  "scope_rule_to_json W rule =
     (case rule of None \<Rightarrow> ret None
      | Some r \<Rightarrow>
          unless_null (guarded (Some (cj_object W))) (\<lambda>obj.
          unless_null (json_add_string W obj ''type'' (r_type r)) (\<lambda>obj.
          unless_null (json_add_string W obj ''domain'' (r_domain r)) (\<lambda>obj.
          json_add_string W obj ''path'' (r_path r)))))"

fun rules_to_json :: "'j cjson_writer \<Rightarrow> OpenDBSC_ScopeRule list \<Rightarrow> 'j \<Rightarrow>
    ('a world_scheme, 'j option) state" where
  "rules_to_json W [] spec = ret (Some spec)"
| "rules_to_json W (r # rs) spec =
     unless_null (scope_rule_to_json W (Some r)) (\<lambda>rule.
     unless_null (guarded (Some (cj_push W spec rule))) (\<lambda>spec. rules_to_json W rs spec))"

definition scope_to_json :: "'j cjson_writer \<Rightarrow> OpenDBSC_SessionScope option \<Rightarrow>
    ('a world_scheme, 'j option) state" where
  "scope_to_json W scope =
     (case scope of None \<Rightarrow> ret None
      | Some s \<Rightarrow>
          unless_null (guarded (Some (cj_object W))) (\<lambda>obj.
          unless_null (json_add_string W obj ''origin'' (sc_origin s)) (\<lambda>obj.
          unless_null (guarded (Some (cj_add W obj ''include_site'' (cj_bool W (sc_include_site s \<noteq> 0))))) (\<lambda>obj.
          unless_null (guarded (Some (cj_array W))) (\<lambda>spec.
          unless_null (rules_to_json W (sc_specification s) spec) (\<lambda>spec.
          guarded (Some (cj_add W obj ''scope_specification'' spec))))))))"

definition credential_to_json :: "'j cjson_writer \<Rightarrow> OpenDBSC_SessionCredential option \<Rightarrow>
    ('a world_scheme, 'j option) state" where
  "credential_to_json W cred =
     (case cred of None \<Rightarrow> ret None
      | Some c \<Rightarrow>
          unless_null (guarded (Some (cj_object W))) (\<lambda>obj.
          unless_null (json_add_string W obj ''type'' (c_type c)) (\<lambda>obj.
          unless_null (json_add_string W obj ''name'' (c_name c)) (\<lambda>obj.
          json_add_string W obj ''attributes'' (c_attributes c)))))"

fun credentials_to_json :: "'j cjson_writer \<Rightarrow> OpenDBSC_SessionCredential list \<Rightarrow> 'j \<Rightarrow>
    ('a world_scheme, 'j option) state" where
  "credentials_to_json W [] creds = ret (Some creds)"
| "credentials_to_json W (c # cs) creds =
     unless_null (credential_to_json W (Some c)) (\<lambda>cred.
     unless_null (guarded (Some (cj_push W creds cred))) (\<lambda>creds. credentials_to_json W cs creds))"

fun initiators_to_json :: "'j cjson_writer \<Rightarrow> string list \<Rightarrow> 'j \<Rightarrow> ('a world_scheme, 'j option) state" where
  "initiators_to_json W [] arr = ret (Some arr)"
| "initiators_to_json W (s # ss) arr =
     unless_null (guarded (Some (cj_str W s))) (\<lambda>org.
     unless_null (guarded (Some (cj_push W arr org))) (\<lambda>arr. initiators_to_json W ss arr))"

definition opendbsc_instruction_to_json :: "'j cjson_writer \<Rightarrow> OpenDBSC_SessionInstruction option \<Rightarrow>
    ('a world_scheme, 'j option) state" where
  "opendbsc_instruction_to_json W ins =
     (case ins of None \<Rightarrow> ret None
      | Some i \<Rightarrow>
          unless_null (guarded (Some (cj_object W))) (\<lambda>obj.
          if i_has_continue i \<noteq> 0 \<and> i_continue_session i = 0
          then guarded (Some (cj_add W obj ''continue'' (cj_bool W False)))
          else
          unless_null (json_add_string W obj ''session_identifier'' (i_session_identifier i)) (\<lambda>obj.
          unless_null (json_add_string W obj ''refresh_url'' (i_refresh_url i)) (\<lambda>obj.
          unless_null (if i_has_continue i \<noteq> 0
                       then guarded (Some (cj_add W obj ''continue'' (cj_bool W (i_continue_session i \<noteq> 0))))
                       else ret (Some obj)) (\<lambda>obj.
          unless_null (if length (i_initiators i) > 0 then
                         unless_null (guarded (Some (cj_array W))) (\<lambda>arr.
                         unless_null (initiators_to_json W (i_initiators i) arr) (\<lambda>arr.
                         guarded (Some (cj_add W obj ''allowed_refresh_initiators'' arr))))
                       else ret (Some obj)) (\<lambda>obj.
          unless_null (scope_to_json W (Some (i_scope i))) (\<lambda>scope.
          unless_null (guarded (Some (cj_add W obj ''scope'' scope))) (\<lambda>obj.
          unless_null (guarded (Some (cj_array W))) (\<lambda>creds.
          unless_null (credentials_to_json W (i_credentials i) creds) (\<lambda>creds.
          guarded (Some (cj_add W obj ''credentials'' creds)))))))))))) "

definition opendbsc_instruction_to_string :: "'j cjson_writer \<Rightarrow> OpenDBSC_SessionInstruction option \<Rightarrow>
    ('a world_scheme, string option) state" where
  "opendbsc_instruction_to_string W ins =
     unless_null (opendbsc_instruction_to_json W ins) (\<lambda>json. guarded (Some (cj_format W json)))"

section \<open>The arrays\<close>

definition scope_wf :: "OpenDBSC_SessionScope \<Rightarrow> bool" where
  "scope_wf s \<longleftrightarrow> length (sc_specification s) \<le> sc_capacity s"

definition instruction_wf :: "OpenDBSC_SessionInstruction \<Rightarrow> bool" where
  "instruction_wf i \<longleftrightarrow> length (i_credentials i) \<le> i_credentials_capacity i \<and>
     length (i_initiators i) \<le> i_initiators_capacity i \<and> scope_wf (i_scope i)"

lemma framed_grow:
  "n \<le> cap \<Longrightarrow> framed (grow_array n cap) (\<lambda>(rc, cap'). rc = 0 \<and> n < cap' \<or> rc = -1 \<and> cap' = cap)"
  by (auto simp: grow_array_def framed_def wps)

lemma rule_setters:
  "opendbsc_rule_set_type (Some r) v = do { (rc, f) \<leftarrow> set_string (r_type r) v; ret (rc, Some (r\<lparr>r_type := f\<rparr>)) }"
  "opendbsc_rule_set_domain (Some r) v = do { (rc, f) \<leftarrow> set_string (r_domain r) v; ret (rc, Some (r\<lparr>r_domain := f\<rparr>)) }"
  "opendbsc_rule_set_path (Some r) v = do { (rc, f) \<leftarrow> set_string (r_path r) v; ret (rc, Some (r\<lparr>r_path := f\<rparr>)) }"
  by (simp_all add: opendbsc_rule_set_type_def opendbsc_rule_set_domain_def opendbsc_rule_set_path_def)

lemma framed_rule_setters:
  "framed (opendbsc_rule_set_type (Some r) v) (\<lambda>(rc, p). rc = 0 \<and> p = Some (r\<lparr>r_type := v\<rparr>) \<or> rc = -1)"
  "framed (opendbsc_rule_set_domain (Some r) v) (\<lambda>(rc, p). rc = 0 \<and> p = Some (r\<lparr>r_domain := v\<rparr>) \<or> rc = -1)"
  "framed (opendbsc_rule_set_path (Some r) v) (\<lambda>(rc, p). rc = 0 \<and> p = Some (r\<lparr>r_path := v\<rparr>) \<or> rc = -1)"
  unfolding rule_setters by (rule framed_bind [OF framed_set_string], auto intro!: framed_return)+

lemma framed_credential_setters:
  "framed (opendbsc_credential_set_type (Some c) v) (\<lambda>(rc, p). rc = 0 \<and> p = Some (c\<lparr>c_type := v\<rparr>) \<or>
     rc = -1 \<and> p = Some c)"
  "framed (opendbsc_credential_set_name (Some c) v) (\<lambda>(rc, p). rc = 0 \<and> p = Some (c\<lparr>c_name := v\<rparr>) \<or>
     rc = -1 \<and> p = Some c)"
  "framed (opendbsc_credential_set_attributes (Some c) v)
     (\<lambda>(rc, p). rc = 0 \<and> p = Some (c\<lparr>c_attributes := v\<rparr>) \<or> rc = -1 \<and> p = Some c)"
  unfolding opendbsc_credential_set_type_def opendbsc_credential_set_name_def
    opendbsc_credential_set_attributes_def option.case
  by (rule framed_bind [OF framed_set_string], auto intro!: framed_return)+

lemma init_Some:
  "opendbsc_rule_init (Some r) = Some rule_defaults"
  "opendbsc_credential_init (Some c) = Some credential_defaults"
  by (simp_all add: opendbsc_rule_init_def opendbsc_credential_init_def)

lemma framed_add_rule:
  assumes "scope_wf s"
  shows "framed (opendbsc_scope_add_rule (Some s) (Some r)) (\<lambda>(rc, p). \<exists>s'. p = Some s' \<and> scope_wf s' \<and>
     sc_origin s' = sc_origin s \<and> sc_include_site s' = sc_include_site s \<and>
     (rc = 0 \<and> sc_specification s' = sc_specification s @ [r] \<or>
      rc = -1 \<and> sc_specification s' = sc_specification s))"
  using assms
  unfolding opendbsc_scope_add_rule_def prod.case option.case scope_wf_def Let_def init_Some
  apply -
  apply (rule framed_bind [OF framed_grow], assumption)
  apply (clarify, elim disjE conjE; simp add: framed_return)
  apply (rule framed_bind [OF framed_rule_setters(1)], clarify, elim disjE conjE; simp add: framed_return)
  apply (rule framed_bind [OF framed_rule_setters(2)], clarify, elim disjE conjE; simp add: framed_return)
  apply (rule framed_bind [OF framed_rule_setters(3)], clarify, elim disjE conjE; simp add: framed_return rule_defaults_def)
  done

lemma framed_add_credential:
  assumes "instruction_wf i"
  shows "framed (opendbsc_instruction_add_credential (Some i) (Some c)) (\<lambda>(rc, p). \<exists>i'. p = Some i' \<and>
     instruction_wf i' \<and>
     (rc = 0 \<and> i' = i\<lparr>i_credentials_capacity := i_credentials_capacity i',
                     i_credentials := i_credentials i @ [c]\<rparr> \<or>
      rc = -1 \<and> i' = i\<lparr>i_credentials_capacity := i_credentials_capacity i'\<rparr>))"
proof -
  have wf: "length (i_credentials i) \<le> i_credentials_capacity i" "length (i_initiators i) \<le> i_initiators_capacity i"
    "scope_wf (i_scope i)" using assms by (simp_all add: instruction_wf_def)
  show ?thesis
    unfolding opendbsc_instruction_add_credential_def prod.case option.case Let_def init_Some
    apply (rule framed_bind [OF framed_grow [OF wf(1)]])
    apply (clarify, elim disjE conjE; simp add: framed_return instruction_wf_def wf)
    apply (rule framed_bind [OF framed_credential_setters(1)], clarify, elim disjE conjE; simp add: framed_return wf)
    apply (rule framed_bind [OF framed_credential_setters(2)], clarify, elim disjE conjE; simp add: framed_return wf)
    apply (rule framed_bind [OF framed_credential_setters(3)], clarify, elim disjE conjE; simp add: framed_return wf credential_defaults_def)
    done
qed

lemma framed_add_initiator:
  assumes "instruction_wf i"
  shows "framed (opendbsc_instruction_add_refresh_initiator (Some i) (Some s)) (\<lambda>(rc, p). \<exists>i'. p = Some i' \<and>
     instruction_wf i' \<and>
     (rc = 0 \<and> i' = i\<lparr>i_initiators_capacity := i_initiators_capacity i',
                     i_initiators := i_initiators i @ [s]\<rparr> \<or>
      rc = -1 \<and> i' = i\<lparr>i_initiators_capacity := i_initiators_capacity i'\<rparr>))"
proof -
  have wf: "length (i_credentials i) \<le> i_credentials_capacity i" "length (i_initiators i) \<le> i_initiators_capacity i"
    "scope_wf (i_scope i)" using assms by (simp_all add: instruction_wf_def)
  show ?thesis
  unfolding opendbsc_instruction_add_refresh_initiator_def prod.case option.case
  apply (rule framed_bind [OF framed_grow [OF wf(2)]])
  apply (clarify, elim disjE conjE; simp add: framed_return instruction_wf_def wf Let_def)
  apply (rule framed_bind [OF framed_malloc_str], elim disjE; simp add: framed_return wf)
  done
qed

section \<open>The document of an instruction\<close>

definition put_string :: "'j cjson_writer \<Rightarrow> string \<Rightarrow> string option \<Rightarrow> 'j \<Rightarrow> 'j" where
  "put_string W key v obj = (case v of None \<Rightarrow> obj | Some s \<Rightarrow> cj_add W obj key (cj_str W s))"

definition rule_json :: "'j cjson_writer \<Rightarrow> OpenDBSC_ScopeRule \<Rightarrow> 'j" where
  "rule_json W r = put_string W ''path'' (r_path r) (put_string W ''domain'' (r_domain r)
     (put_string W ''type'' (r_type r) (cj_object W)))"

definition scope_json :: "'j cjson_writer \<Rightarrow> OpenDBSC_SessionScope \<Rightarrow> 'j" where
  "scope_json W s =
     cj_add W (cj_add W (put_string W ''origin'' (sc_origin s) (cj_object W)) ''include_site''
         (cj_bool W (sc_include_site s \<noteq> 0)))
       ''scope_specification'' (foldl (cj_push W) (cj_array W) (map (rule_json W) (sc_specification s)))"

definition credential_json :: "'j cjson_writer \<Rightarrow> OpenDBSC_SessionCredential \<Rightarrow> 'j" where
  "credential_json W c = put_string W ''attributes'' (c_attributes c) (put_string W ''name'' (c_name c)
     (put_string W ''type'' (c_type c) (cj_object W)))"

definition instruction_json :: "'j cjson_writer \<Rightarrow> OpenDBSC_SessionInstruction \<Rightarrow> 'j" where
  "instruction_json W i =
     (if i_has_continue i \<noteq> 0 \<and> i_continue_session i = 0
      then cj_add W (cj_object W) ''continue'' (cj_bool W False)
      else
        let obj = put_string W ''refresh_url'' (i_refresh_url i)
                    (put_string W ''session_identifier'' (i_session_identifier i) (cj_object W));
            obj = (if i_has_continue i \<noteq> 0
                   then cj_add W obj ''continue'' (cj_bool W (i_continue_session i \<noteq> 0)) else obj);
            obj = (if i_initiators i \<noteq> []
                   then cj_add W obj ''allowed_refresh_initiators''
                          (foldl (cj_push W) (cj_array W) (map (cj_str W) (i_initiators i)))
                   else obj);
            obj = cj_add W obj ''scope'' (scope_json W (i_scope i))
        in cj_add W obj ''credentials''
             (foldl (cj_push W) (cj_array W) (map (credential_json W) (i_credentials i))))"

text \<open>A step that answers its value or NULL.\<close>

definition yields :: "('a world_scheme, 'b option) state \<Rightarrow> 'b \<Rightarrow> bool" where
  "yields m a \<longleftrightarrow> attempts m (Some a) (\<lambda>x. x = None)"

lemma yields_guarded [attempts_intros]: "yields (guarded (Some a)) a"
  by (simp add: yields_def attempts_guarded)

lemma yields_ret: "yields (ret (Some a)) a"
  by (simp add: yields_def attempts_return)

lemma yields_unless: "yields m a \<Longrightarrow> yields (f a) b \<Longrightarrow> yields (unless_null m f) b"
  unfolding yields_def unless_null_def
  by (erule attempts_bind) (simp_all add: framed_return)

lemma yields_cong: "yields m a \<Longrightarrow> a = b \<Longrightarrow> yields m b"
  by simp

lemma yields_add_string: "yields (json_add_string W obj key v) (put_string W key v obj)"
  by (auto simp: json_add_string_def put_string_def yields_ret yields_guarded split: option.splits)

lemma yields_rule: "yields (scope_rule_to_json W (Some r)) (rule_json W r)"
  unfolding scope_rule_to_json_def rule_json_def option.case
  by (rule yields_unless [OF yields_guarded], rule yields_unless [OF yields_add_string],
      rule yields_unless [OF yields_add_string], rule yields_add_string)

lemma yields_credential: "yields (credential_to_json W (Some r)) (credential_json W r)"
  unfolding credential_to_json_def credential_json_def option.case
  by (rule yields_unless [OF yields_guarded], rule yields_unless [OF yields_add_string],
      rule yields_unless [OF yields_add_string], rule yields_add_string)

lemma yields_pushed:
  "yields m x \<Longrightarrow> yields (f (cj_push W acc x)) b \<Longrightarrow>
   yields (unless_null m (\<lambda>y. unless_null (guarded (Some (cj_push W acc y))) f)) b"
  by (erule yields_unless, rule yields_unless [OF yields_guarded])

lemma yields_rules: "yields (rules_to_json W rs acc) (foldl (cj_push W) acc (map (rule_json W) rs))"
  by (induction rs arbitrary: acc)
     (simp_all add: yields_ret yields_pushed [OF yields_rule])

lemma yields_credentials:
  "yields (credentials_to_json W cs acc) (foldl (cj_push W) acc (map (credential_json W) cs))"
  by (induction cs arbitrary: acc)
     (simp_all add: yields_ret yields_pushed [OF yields_credential])

lemma yields_initiators: "yields (initiators_to_json W ss acc) (foldl (cj_push W) acc (map (cj_str W) ss))"
  by (induction ss arbitrary: acc)
     (simp_all add: yields_ret yields_pushed [OF yields_guarded])

lemma yields_scope: "yields (scope_to_json W (Some s)) (scope_json W s)"
  unfolding scope_to_json_def scope_json_def option.case
  by (rule yields_unless [OF yields_guarded], rule yields_unless [OF yields_add_string],
      rule yields_unless [OF yields_guarded], rule yields_unless [OF yields_guarded],
      rule yields_unless [OF yields_rules], rule yields_guarded)

lemma yields_continue:
  "yields (if c then guarded (Some (cj_add W obj k v)) else ret (Some obj)) (if c then cj_add W obj k v else obj)"
  by (simp add: yields_guarded yields_ret)

lemma yields_initiator_list:
  "yields (if length ss > 0 then
       unless_null (guarded (Some (cj_array W))) (\<lambda>arr.
       unless_null (initiators_to_json W ss arr) (\<lambda>arr. guarded (Some (cj_add W obj k arr))))
     else ret (Some obj))
   (if ss \<noteq> [] then cj_add W obj k (foldl (cj_push W) (cj_array W) (map (cj_str W) ss)) else obj)"
proof (cases ss)
  case (Cons s ss')
  have "yields (unless_null (guarded (Some (cj_array W))) (\<lambda>arr.
       unless_null (initiators_to_json W ss arr) (\<lambda>arr. guarded (Some (cj_add W obj k arr)))))
    (cj_add W obj k (foldl (cj_push W) (cj_array W) (map (cj_str W) ss)))"
    by (rule yields_unless [OF yields_guarded], rule yields_unless [OF yields_initiators], rule yields_guarded)
  with Cons show ?thesis by simp
qed (simp add: yields_ret)

lemma yields_instruction: "yields (opendbsc_instruction_to_json W (Some i)) (instruction_json W i)"
proof (cases "i_has_continue i \<noteq> 0 \<and> i_continue_session i = 0")
  case True
  then show ?thesis
    unfolding opendbsc_instruction_to_json_def instruction_json_def option.case if_P [OF True]
    by (intro yields_unless [OF yields_guarded] yields_guarded)
next
  case False
  show ?thesis
    unfolding opendbsc_instruction_to_json_def instruction_json_def option.case Let_def if_not_P [OF False]
    by (rule yields_unless [OF yields_guarded], rule yields_unless [OF yields_add_string],
        rule yields_unless [OF yields_add_string], rule yields_unless [OF yields_continue],
        rule yields_unless [OF yields_initiator_list], rule yields_unless [OF yields_scope],
        rule yields_unless [OF yields_guarded], rule yields_unless [OF yields_guarded],
        rule yields_unless [OF yields_credentials], rule yields_guarded)
qed

lemma yields_to_string: "yields (opendbsc_instruction_to_string W (Some i)) (cj_format W (instruction_json W i))"
  unfolding opendbsc_instruction_to_string_def
  by (rule yields_unless [OF yields_instruction yields_guarded])

lemma attempts_to_string:
  "attempts (opendbsc_instruction_to_string W (Some i)) (Some (cj_format W (instruction_json W i))) (\<lambda>x. x = None)"
  using yields_to_string by (simp add: yields_def)

section \<open>Properties\<close>

text \<open>
  C33: Serialisation is all or nothing. Whatever allocation fails, the JSON text of an instruction
  is either the text of its complete document or NULL, never a truncated one, and with memory it
  is the document; when the continue flag was set to false the document holds that flag only.
\<close>

theorem instruction_to_string_exact:
  "(case run_state (opendbsc_instruction_to_string W (Some i)) w of (r, w') \<Rightarrow>
      undef w' = undef w \<and>
      (r = Some (cj_format W (instruction_json W i)) \<or> r = None \<and> starved w)) \<and>
   instruction_json W (the (opendbsc_instruction_set_continue (Some i) False)) =
     cj_add W (cj_object W) ''continue'' (cj_bool W False)"
proof
  obtain r w' where run: "run_state (opendbsc_instruction_to_string W (Some i)) w = (r, w')" by fastforce
  from attemptsD [OF attempts_to_string run] run
  show "case run_state (opendbsc_instruction_to_string W (Some i)) w of (r, w') \<Rightarrow>
      undef w' = undef w \<and>
      (r = Some (cj_format W (instruction_json W i)) \<or> r = None \<and> starved w)"
    by (auto simp: frame_undef)
  show "instruction_json W (the (opendbsc_instruction_set_continue (Some i) False)) =
     cj_add W (cj_object W) ''continue'' (cj_bool W False)"
    by (simp add: instruction_json_def opendbsc_instruction_set_continue_def
        opendbsc_instruction_set_continue_session_def)
qed

text \<open>
  The growing arrays. On a well-formed instruction and scope, adding a rule, a credential or a
  refresh initiator never writes outside the array, keeps the structure well formed, and either
  answers 0 with an exact copy appended or -1 with the contents unchanged.
\<close>

theorem instruction_arrays_safe:
  assumes "instruction_wf i"
    and "run_state (opendbsc_instruction_add_credential (Some i) (Some c)) w = ((rc1, p1), w1)"
    and "run_state (opendbsc_instruction_add_refresh_initiator (Some i) (Some s)) w = ((rc2, p2), w2)"
    and "run_state (opendbsc_scope_add_rule (Some (i_scope i)) (Some r)) w = ((rc3, p3), w3)"
  shows "undef w1 = undef w \<and> undef w2 = undef w \<and> undef w3 = undef w \<and>
    (\<exists>i1. p1 = Some i1 \<and> instruction_wf i1 \<and>
       (rc1 = 0 \<and> i_credentials i1 = i_credentials i @ [c] \<or> rc1 = -1 \<and> i_credentials i1 = i_credentials i)) \<and>
    (\<exists>i2. p2 = Some i2 \<and> instruction_wf i2 \<and>
       (rc2 = 0 \<and> i_initiators i2 = i_initiators i @ [s] \<or> rc2 = -1 \<and> i_initiators i2 = i_initiators i)) \<and>
    (\<exists>s3. p3 = Some s3 \<and> scope_wf s3 \<and>
       (rc3 = 0 \<and> sc_specification s3 = sc_specification (i_scope i) @ [r] \<or>
        rc3 = -1 \<and> sc_specification s3 = sc_specification (i_scope i)))"
proof -
  have sw: "scope_wf (i_scope i)" using assms(1) by (simp add: instruction_wf_def)
  from framedD [OF framed_add_credential [OF assms(1)] assms(2)] have 1: "undef w1 = undef w"
    "\<exists>i1. p1 = Some i1 \<and> instruction_wf i1 \<and>
       (rc1 = 0 \<and> i_credentials i1 = i_credentials i @ [c] \<or> rc1 = -1 \<and> i_credentials i1 = i_credentials i)"
    by (auto simp: frame_undef dest: arg_cong [where f = i_credentials])
  from framedD [OF framed_add_initiator [OF assms(1)] assms(3)] have 2: "undef w2 = undef w"
    "\<exists>i2. p2 = Some i2 \<and> instruction_wf i2 \<and>
       (rc2 = 0 \<and> i_initiators i2 = i_initiators i @ [s] \<or> rc2 = -1 \<and> i_initiators i2 = i_initiators i)"
    by (auto simp: frame_undef dest: arg_cong [where f = i_initiators])
  from framedD [OF framed_add_rule [OF sw] assms(4)] have 3: "undef w3 = undef w"
    "\<exists>s3. p3 = Some s3 \<and> scope_wf s3 \<and>
       (rc3 = 0 \<and> sc_specification s3 = sc_specification (i_scope i) @ [r] \<or>
        rc3 = -1 \<and> sc_specification s3 = sc_specification (i_scope i))"
    by (auto simp: frame_undef)
  from 1 2 3 show ?thesis by simp
qed

theorem instruction_arrays_safe_witness:
  "let (r, w') = run_state (opendbsc_instruction_add_refresh_initiator (Some instruction_defaults) (Some ''a'')) demo_world
   in map_option i_initiators (snd r) = Some [''a''] \<and> \<not> undef w'"
proof -
  let ?i = instruction_defaults
  let ?c = credential_defaults
  let ?a = "run_state (opendbsc_instruction_add_credential (Some ?i) (Some ?c)) demo_world"
  let ?b = "run_state (opendbsc_instruction_add_refresh_initiator (Some ?i) (Some ''a'')) demo_world"
  let ?d = "run_state (opendbsc_scope_add_rule (Some (i_scope ?i)) (Some rule_defaults)) demo_world"
  have wf: "instruction_wf ?i"
    by (simp add: instruction_wf_def scope_wf_def instruction_defaults_def scope_defaults_def)
  have rc: "fst (fst ?b) = 0" by code_simp
  obtain rc1 p1 w1 where a: "?a = ((rc1, p1), w1)" by (metis prod.exhaust)
  obtain rc2 p2 w2 where b: "?b = ((rc2, p2), w2)" by (metis prod.exhaust)
  obtain rc3 p3 w3 where d: "?d = ((rc3, p3), w3)" by (metis prod.exhaust)
  from instruction_arrays_safe [OF wf a b d] rc b show ?thesis
    by (auto simp: instruction_defaults_def)
qed

end
