(* ===== verification/Manager.thy ===== *)
theory Manager
  imports Store Header Instruction
begin

text \<open>
  The session manager: \<^verbatim>\<open>include/manager/manager.h\<close> and \<^verbatim>\<open>src/manager/manager.c\<close>. Its operations
  run over the system state of the store they are given. The response goes in and out as a
  record; all callers pass the address of a response of their own, so the guard against a NULL
  response has no counterpart, while a NULL manager is \<open>None\<close>.

  The event callback belongs to the application: when it is set, an event is appended to the log
  of the system state.
\<close>

section \<open>Data\<close>

record ('j, 'b, 'k) externals =
  ext_json :: "'j cjson_reader"
  ext_writer :: "'j cjson_writer"
  ext_ssl :: "('b, 'k) openssl"
  ext_uuid :: uuidv7_ops

record 's OpenDBSC_ManagerConfig =
  cfg_store :: "'s OpenDBSC_Store option"
  cfg_cookie_name :: "string option"
  cfg_cookie_path :: "string option"
  cfg_cookie_domain :: "string option"
  cfg_secure :: int
  cfg_same_site :: "string option"
  cfg_cookie_ttl :: int
  cfg_session_ttl :: int
  cfg_authorization :: "string option"
  cfg_on_event :: bool

record OpenDBSC_ManagerResponse =
  rs_status :: int
  rs_set_cookie :: "string option"
  rs_registration :: "string option"
  rs_challenge :: "string option"
  rs_body :: "string option"

record 's OpenDBSC_Manager =
  mgr_cfg :: "'s OpenDBSC_ManagerConfig"

definition OPENDBSC_DEFAULT_COOKIE_NAME :: string where
  "OPENDBSC_DEFAULT_COOKIE_NAME = ''session_id''"

definition OPENDBSC_DEFAULT_COOKIE_PATH :: string where
  "OPENDBSC_DEFAULT_COOKIE_PATH = ''/''"

definition OPENDBSC_DEFAULT_SAME_SITE :: string where
  "OPENDBSC_DEFAULT_SAME_SITE = ''Lax''"

definition OPENDBSC_DEFAULT_COOKIE_TTL :: int where
  "OPENDBSC_DEFAULT_COOKIE_TTL = 3600"

definition opendbsc_manager_response_init ::
  "OpenDBSC_ManagerResponse option \<Rightarrow> OpenDBSC_ManagerResponse option" where
  "opendbsc_manager_response_init resp =
     (case resp of None \<Rightarrow> None
      | Some _ \<Rightarrow> Some \<lparr>rs_status = 0, rs_set_cookie = None, rs_registration = None,
                       rs_challenge = None, rs_body = None\<rparr>)"

definition opendbsc_manager_response_free ::
  "OpenDBSC_ManagerResponse option \<Rightarrow> OpenDBSC_ManagerResponse option" where
  "opendbsc_manager_response_free resp =
     (case resp of None \<Rightarrow> None
      | Some r \<Rightarrow> opendbsc_manager_response_init (Some (r\<lparr>rs_set_cookie := None,
          rs_registration := None, rs_challenge := None, rs_body := None\<rparr>)))"

abbreviation empty_response :: OpenDBSC_ManagerResponse where
  "empty_response \<equiv> \<lparr>rs_status = 0, rs_set_cookie = None, rs_registration = None,
     rs_challenge = None, rs_body = None\<rparr>"

section \<open>Helpers\<close>

definition emit_event :: "'s OpenDBSC_Manager \<Rightarrow> string \<Rightarrow> string option \<Rightarrow> string option \<Rightarrow> string \<Rightarrow>
    ('s sys, unit) state" where
  "emit_event mgr ty user session_id detail =
     (if cfg_on_event (mgr_cfg mgr)
      then log_event \<lparr>ev_type = ty, ev_user = user, ev_session = session_id, ev_detail = Some detail\<rparr>
      else ret ())"

fun hex_fill :: "nat \<Rightarrow> byte list \<Rightarrow> string \<Rightarrow> ('a world_scheme, string) state" where
  "hex_fill cap [] out = ret out"
| "hex_fill cap (b # bs) out = do { out \<leftarrow> buf_append cap out (print_hex2 b); hex_fill cap bs out }"

definition opendbsc_manager_generate_challenge :: "('a world_scheme, string option) state" where
  "opendbsc_manager_generate_challenge = do {
     r \<leftarrow> getentropy 32;
     case r of None \<Rightarrow> strdup ''fallback-challenge''
     | Some bytes \<Rightarrow> do {
         ok \<leftarrow> alloc;
         if \<not> ok then ret None
         else do { out \<leftarrow> hex_fill (32 * 2 + 1) bytes []; ret (Some out) } } }"

definition copy_string :: "string option \<Rightarrow> ('a world_scheme, string option) state" where
  "copy_string s = (case s of None \<Rightarrow> ret None | Some v \<Rightarrow> strdup v)"

definition or_default :: "string option \<Rightarrow> string \<Rightarrow> string option" where
  "or_default s d = (if s \<noteq> None then s else Some d)"

definition opendbsc_manager_init :: "'s OpenDBSC_Manager option \<Rightarrow> 's OpenDBSC_ManagerConfig option \<Rightarrow>
    ('s sys, int \<times> 's OpenDBSC_Manager option) state" where
  "opendbsc_manager_init mgr cfg =
     (case (mgr, cfg) of
        (Some m, Some c) \<Rightarrow>
          if cfg_store c = None then ret (-1, mgr)
          else do {
            name \<leftarrow> copy_string (or_default (cfg_cookie_name c) OPENDBSC_DEFAULT_COOKIE_NAME);
            path \<leftarrow> copy_string (or_default (cfg_cookie_path c) OPENDBSC_DEFAULT_COOKIE_PATH);
            domain \<leftarrow> copy_string (cfg_cookie_domain c);
            same_site \<leftarrow> copy_string (or_default (cfg_same_site c) OPENDBSC_DEFAULT_SAME_SITE);
            authorization \<leftarrow> copy_string (cfg_authorization c);
            ret (0, Some \<lparr>mgr_cfg = \<lparr>cfg_store = cfg_store c, cfg_cookie_name = name,
              cfg_cookie_path = path, cfg_cookie_domain = domain, cfg_secure = cfg_secure c,
              cfg_same_site = same_site,
              cfg_cookie_ttl = (if cfg_cookie_ttl c = 0 then OPENDBSC_DEFAULT_COOKIE_TTL
                                else cfg_cookie_ttl c),
              cfg_session_ttl = cfg_session_ttl c, cfg_authorization = authorization,
              cfg_on_event = cfg_on_event c\<rparr>\<rparr>) }
      | _ \<Rightarrow> ret (-1, mgr))"

definition opendbsc_manager_destroy :: "'s OpenDBSC_Manager option \<Rightarrow> 's OpenDBSC_Manager option" where
  "opendbsc_manager_destroy mgr =
     (case mgr of None \<Rightarrow> None
      | Some m \<Rightarrow> Some \<lparr>mgr_cfg = \<lparr>cfg_store = None, cfg_cookie_name = None, cfg_cookie_path = None,
          cfg_cookie_domain = None, cfg_secure = 0, cfg_same_site = None, cfg_cookie_ttl = 0,
          cfg_session_ttl = 0, cfg_authorization = None, cfg_on_event = False\<rparr>\<rparr>)"

section \<open>Cookies and bodies\<close>

definition cookie_head :: "string \<Rightarrow> string \<Rightarrow> string \<Rightarrow> int \<Rightarrow> int \<Rightarrow> string" where
  "cookie_head name val path max_age secure =
     name @ ''='' @ val @ ''; Path='' @ path @ ''; Max-Age='' @ print_int max_age @ ''; HttpOnly'' @
     (if secure \<noteq> 0 then ''; Secure'' else [])"

definition build_set_cookie_with_max_age :: "'s OpenDBSC_Manager \<Rightarrow> string option \<Rightarrow> int \<Rightarrow>
    ('a world_scheme, string option) state" where
  "build_set_cookie_with_max_age mgr val max_age = do {
     let domain = cfg_cookie_domain (mgr_cfg mgr);
     let same_site = cfg_same_site (mgr_cfg mgr);
     let secure = cfg_secure (mgr_cfg mgr);
     name \<leftarrow> str_arg (cfg_cookie_name (mgr_cfg mgr));
     val \<leftarrow> str_arg val;
     path \<leftarrow> str_arg (cfg_cookie_path (mgr_cfg mgr));
     let n = length (cookie_head name val path max_age secure) +
             (if nonempty same_site then length ''; SameSite='' else 0);
     let n = n + (if nonempty same_site then length (str_of same_site) else 0);
     let n = n + (if nonempty domain then length (''; Domain='' @ str_of domain) else 0);
     ok \<leftarrow> alloc;
     if \<not> ok then ret None
     else do {
       w \<leftarrow> buf_append (n + 1) [] (cookie_head name val path max_age secure);
       w \<leftarrow> buf_append_if (n + 1) (nonempty domain) w (''; Domain='' @ str_of domain);
       w \<leftarrow> buf_append_if (n + 1) (nonempty same_site) w (''; SameSite='' @ str_of same_site);
       ret (Some w) } }"

definition build_set_cookie :: "'s OpenDBSC_Manager \<Rightarrow> string option \<Rightarrow>
    ('a world_scheme, string option) state" where
  "build_set_cookie mgr val = build_set_cookie_with_max_age mgr val (cfg_cookie_ttl (mgr_cfg mgr))"

definition credential_attributes :: "string \<Rightarrow> string \<Rightarrow> string" where
  "credential_attributes path same_site =
     ''Path='' @ path @ ''; Secure; HttpOnly; SameSite='' @ same_site"

text \<open>The return codes of the setters are not looked at.\<close>

definition build_instruction_body :: "('j, 'b, 'k) externals \<Rightarrow> 's OpenDBSC_Manager \<Rightarrow>
    OpenDBSC_Session \<Rightarrow> bool \<Rightarrow> ('a world_scheme, string option) state" where
  "build_instruction_body E mgr session continue_session = do {
     let inst = opendbsc_instruction_init (Some instruction_defaults);
     if \<not> continue_session then
       opendbsc_instruction_to_string (ext_writer E) (opendbsc_instruction_set_continue inst False)
     else do {
       let inst = opendbsc_instruction_set_continue inst True;
       (rc, inst) \<leftarrow> opendbsc_instruction_set_session_identifier inst (s_id session);
       (rc, inst) \<leftarrow> opendbsc_instruction_set_refresh_url inst (Some ''/dbsc/refresh'');
       let inst = map_option (\<lambda>i. i\<lparr>i_scope :=
                    the (opendbsc_scope_set_include_site (Some (i_scope i)) 0)\<rparr>) inst;
       let cred = opendbsc_credential_init (Some credential_defaults);
       (rc, cred) \<leftarrow> opendbsc_credential_set_type cred (Some ''cookie'');
       (rc, cred) \<leftarrow> opendbsc_credential_set_name cred (cfg_cookie_name (mgr_cfg mgr));
       path \<leftarrow> str_arg (cfg_cookie_path (mgr_cfg mgr));
       same_site \<leftarrow> str_arg (cfg_same_site (mgr_cfg mgr));
       let n = length (credential_attributes path same_site);
       ok \<leftarrow> alloc;
       cred \<leftarrow> (if ok then do {
                  attrs \<leftarrow> buf_append (n + 1) [] (credential_attributes path same_site);
                  (rc, cred) \<leftarrow> opendbsc_credential_set_attributes cred (Some attrs);
                  ret cred }
                else ret cred);
       (rc, inst) \<leftarrow> opendbsc_instruction_add_credential inst cred;
       opendbsc_instruction_to_string (ext_writer E) inst } }"

definition apply_session_ttl :: "OpenDBSC_Session \<Rightarrow> int \<Rightarrow> ('a world_scheme, OpenDBSC_Session) state" where
  "apply_session_ttl session ttl_seconds =
     (if ttl_seconds > 0 then do {
        now \<leftarrow> time_now;
        ret (the (opendbsc_session_set_expires_at (Some session) (now + ttl_seconds))) }
      else ret (session\<lparr>s_expires_at := 0, s_has_expires := False\<rparr>))"

text \<open>The store behind the manager; calling through a NULL pointer is undefined.\<close>

definition with_store :: "'s OpenDBSC_Manager \<Rightarrow> 'r \<Rightarrow> ('s OpenDBSC_Store \<Rightarrow> ('s sys, 'r) state) \<Rightarrow>
    ('s sys, 'r) state" where
  "with_store mgr dummy f =
     (case cfg_store (mgr_cfg mgr) of None \<Rightarrow> ub dummy | Some st \<Rightarrow> f st)"

section \<open>Handlers\<close>

text \<open>The answer to a login, once the session is stored.\<close>

definition login_answer :: "'s OpenDBSC_Manager \<Rightarrow> string \<Rightarrow> OpenDBSC_Session option \<Rightarrow>
    OpenDBSC_Session \<Rightarrow> OpenDBSC_ManagerResponse \<Rightarrow>
    ('s sys, int \<times> OpenDBSC_Session option \<times> OpenDBSC_ManagerResponse) state" where
  "login_answer m user_id out_session session resp = do {
     cookie \<leftarrow> build_set_cookie m (s_id session);
     let resp = resp\<lparr>rs_set_cookie := cookie\<rparr>;
     header \<leftarrow> opendbsc_registration_serialize (Some [Some ''ES256'', Some ''RS256'']) 2
                 (Some ''/dbsc/register'') (s_challenge session)
                 (cfg_authorization (mgr_cfg m)) None None None;
     let resp = resp\<lparr>rs_registration := header, rs_status := 200\<rparr>;
     out \<leftarrow> (case out_session of None \<Rightarrow> ret None
             | Some o' \<Rightarrow> do {
                 (rc, o') \<leftarrow> opendbsc_session_copy (Some o') (Some session);
                 ret o' });
     emit_event m ''LOGIN'' (Some user_id) (s_id session) ''login successful'';
     ret (0, out, resp) }"

text \<open>The part that gives a new session its challenge and stores it.\<close>

definition login_store :: "'s OpenDBSC_Manager \<Rightarrow> string \<Rightarrow> OpenDBSC_Session option \<Rightarrow>
    OpenDBSC_Session option \<Rightarrow> OpenDBSC_ManagerResponse \<Rightarrow>
    ('s sys, int \<times> OpenDBSC_Session option \<times> OpenDBSC_ManagerResponse) state" where
  "login_store m user_id out_session session resp = do {
     challenge \<leftarrow> opendbsc_manager_generate_challenge;
     if challenge = None then ret (-1, out_session, resp)
     else do {
       (rc, session) \<leftarrow> opendbsc_session_set_challenge session challenge;
       now \<leftarrow> time_now;
       let session = opendbsc_session_set_created_at session now;
       session \<leftarrow> apply_session_ttl (the session) (cfg_session_ttl (mgr_cfg m));
       rc \<leftarrow> with_store m (-1) (\<lambda>st. st_create st (Some session));
       if rc \<noteq> 0 then ret (-1, out_session, resp)
       else login_answer m user_id out_session session resp } }"

definition opendbsc_manager_initiate :: "('j, 'b, 'k) externals \<Rightarrow> 's OpenDBSC_Manager option \<Rightarrow>
    string option \<Rightarrow> OpenDBSC_Session option \<Rightarrow> OpenDBSC_ManagerResponse \<Rightarrow>
    ('s sys, int \<times> OpenDBSC_Session option \<times> OpenDBSC_ManagerResponse) state" where
  "opendbsc_manager_initiate E mgr user_id out_session resp =
     (case (mgr, user_id) of
        (Some m, Some user) \<Rightarrow> do {
          let resp = the (opendbsc_manager_response_init (Some resp));
          (rc, sid) \<leftarrow> opendbsc_session_new_id (ext_uuid E) (Some 37);
          if rc \<noteq> 0 then ret (-1, out_session, resp)
          else do {
            let session = opendbsc_session_init (Some session_defaults);
            (rc, session) \<leftarrow> opendbsc_session_set_id session (Some sid);
            (rc, session) \<leftarrow> opendbsc_session_set_user_id session (Some user);
            let session = opendbsc_session_set_state session ACTIVE;
            login_store m user out_session session resp } }
      | _ \<Rightarrow> ret (-1, out_session, resp))"

definition opendbsc_manager_get_session :: "'s OpenDBSC_Manager option \<Rightarrow> string option \<Rightarrow>
    ('s sys, int \<times> OpenDBSC_Session option) state" where
  "opendbsc_manager_get_session mgr cookie_session_id =
     (case mgr of None \<Rightarrow> ret (-1, None)
      | Some m \<Rightarrow>
          if cookie_session_id = None then ret (-1, None)
          else with_store m (-1, None) (\<lambda>st. st_get st cookie_session_id))"

definition set_challenge_response :: "OpenDBSC_ManagerResponse \<Rightarrow> string option \<Rightarrow> string option \<Rightarrow> int \<Rightarrow>
    ('a world_scheme, OpenDBSC_ManagerResponse) state" where
  "set_challenge_response resp challenge session_id status = do {
     header \<leftarrow> opendbsc_challenge_serialize challenge session_id;
     body \<leftarrow> strdup (quoted ''Secure-Session-Challenge issued'');
     ret (resp\<lparr>rs_status := status, rs_challenge := header, rs_body := body\<rparr>) }"

text \<open>The status and quoted body of an early answer.\<close>

definition answer_with :: "OpenDBSC_ManagerResponse \<Rightarrow> int \<Rightarrow> string \<Rightarrow>
    ('a world_scheme, int \<times> OpenDBSC_ManagerResponse) state" where
  "answer_with resp status msg = do {
     body \<leftarrow> strdup (quoted msg);
     ret (0, resp\<lparr>rs_status := status, rs_body := body\<rparr>) }"

text \<open>Re-issue the session's challenge and release the copy of the session.\<close>

definition challenge_again :: "'s OpenDBSC_Store \<Rightarrow> OpenDBSC_ManagerResponse \<Rightarrow> OpenDBSC_Session \<Rightarrow>
    ('s sys, int \<times> OpenDBSC_ManagerResponse) state" where
  "challenge_again st resp s = do {
     resp \<leftarrow> set_challenge_response resp (s_challenge s) (s_id s) 403;
     st_free_sessions st [s];
     ret (0, resp) }"

text \<open>The three response fields register and refresh fill after a successful update.\<close>

definition success_response :: "('j, 'b, 'k) externals \<Rightarrow> 's OpenDBSC_Manager \<Rightarrow> OpenDBSC_Session \<Rightarrow>
    OpenDBSC_ManagerResponse \<Rightarrow> ('a world_scheme, OpenDBSC_ManagerResponse) state" where
  "success_response E m s resp = do {
     cookie \<leftarrow> build_set_cookie m (s_id s);
     header \<leftarrow> opendbsc_challenge_serialize (s_challenge s) (s_id s);
     body \<leftarrow> build_instruction_body E m s True;
     ret (resp\<lparr>rs_set_cookie := cookie, rs_challenge := header, rs_body := body, rs_status := 200\<rparr>) }"

text \<open>
  The binding part of registration, after every check: set the key, rotate the challenge, extend
  the life time, store and answer. \<open>s\<close> is the fetched copy.
\<close>

definition register_bind :: "('j, 'b, 'k) externals \<Rightarrow> 's OpenDBSC_Manager \<Rightarrow> 's OpenDBSC_Store \<Rightarrow>
    OpenDBSC_ManagerResponse \<Rightarrow> OpenDBSC_Session \<Rightarrow> OpenDBSC_ProofJWT \<Rightarrow>
    ('s sys, int \<times> OpenDBSC_ManagerResponse) state" where
  "register_bind E m st resp s proof' = do {
     let p = opendbsc_session_set_state (Some s) BOUND;
     (rc, p) \<leftarrow> opendbsc_session_set_public_key p (p_jwk proof');
     (rc, p) \<leftarrow> opendbsc_session_set_algorithm p (p_algorithm proof');
     new_challenge \<leftarrow> opendbsc_manager_generate_challenge;
     if new_challenge = None then do { st_free_sessions st [the p]; ret (-1, resp) }
     else do {
       (rc, p) \<leftarrow> opendbsc_session_set_challenge p new_challenge;
       s \<leftarrow> apply_session_ttl (the p) (cfg_session_ttl (mgr_cfg m));
       rc \<leftarrow> st_update st (Some s);
       if rc \<noteq> 0 then do { st_free_sessions st [s]; ret (-1, resp) }
       else do {
         alg \<leftarrow> str_arg (p_algorithm proof');
         emit_event m ''REGISTER'' (s_user_id s) (s_id s) (take 255 (''alg='' @ alg));
         resp \<leftarrow> success_response E m s resp;
         st_free_sessions st [s];
         ret (0, resp) } } }"

text \<open>The checks on the proof of an ACTIVE session, from the missing header to the binding.\<close>

definition register_proof :: "('j, 'b, 'k) externals \<Rightarrow> 's OpenDBSC_Manager \<Rightarrow> 's OpenDBSC_Store \<Rightarrow>
    OpenDBSC_ManagerResponse \<Rightarrow> OpenDBSC_Session \<Rightarrow> string option \<Rightarrow>
    ('s sys, int \<times> OpenDBSC_ManagerResponse) state" where
  "register_proof E m st resp s session_response_header =
     (if \<not> nonempty session_response_header then challenge_again st resp s
      else do {
        (rc, proof') \<leftarrow> opendbsc_jwt_decode_and_verify (ext_json E) (ext_ssl E)
                          session_response_header (Some proof_defaults);
        if rc \<noteq> 0 then challenge_again st resp s
        else (case proof' of None \<Rightarrow> ub (-1, resp)
        | Some p \<Rightarrow> do {
            same \<leftarrow> (if p_challenge p = None then ret False
                    else strcmp_eq (p_challenge p) (s_challenge s));
            if \<not> same then challenge_again st resp s
            else do {
              auth_ok \<leftarrow> (if cfg_authorization (mgr_cfg m) = None then ret True
                         else if p_authorization p = None then ret False
                         else strcmp_eq (p_authorization p) (cfg_authorization (mgr_cfg m)));
              if \<not> auth_ok then challenge_again st resp s
              else register_bind E m st resp s p } }) })"

definition opendbsc_manager_register :: "('j, 'b, 'k) externals \<Rightarrow> 's OpenDBSC_Manager option \<Rightarrow>
    string option \<Rightarrow> string option \<Rightarrow> OpenDBSC_ManagerResponse \<Rightarrow>
    ('s sys, int \<times> OpenDBSC_ManagerResponse) state" where
  "opendbsc_manager_register E mgr cookie_session_id session_response_header resp =
     (case mgr of None \<Rightarrow> ret (-1, resp)
      | Some m \<Rightarrow>
        let resp = the (opendbsc_manager_response_init (Some resp)) in
        if \<not> nonempty cookie_session_id then answer_with resp 401 ''missing session cookie''
        else with_store m (-1, resp) (\<lambda>st. do {
          (rc, session) \<leftarrow> st_get st cookie_session_id;
          if rc \<noteq> 0 then answer_with resp 401 ''invalid session''
          else (case session of None \<Rightarrow> ub (-1, resp)
          | Some s \<Rightarrow>
            if s_state s \<noteq> ACTIVE then do {
              st_free_sessions st [s];
              answer_with resp 400 ''session is not in active state for registration'' }
            else register_proof E m st resp s session_response_header) }))"

text \<open>The extending part of a refresh, after every check.\<close>

definition refresh_extend :: "('j, 'b, 'k) externals \<Rightarrow> 's OpenDBSC_Manager \<Rightarrow> 's OpenDBSC_Store \<Rightarrow>
    OpenDBSC_ManagerResponse \<Rightarrow> OpenDBSC_Session \<Rightarrow> ('s sys, int \<times> OpenDBSC_ManagerResponse) state" where
  "refresh_extend E m st resp s = do {
     new_challenge \<leftarrow> opendbsc_manager_generate_challenge;
     if new_challenge = None then do { st_free_sessions st [s]; ret (-1, resp) }
     else do {
       (rc, p) \<leftarrow> opendbsc_session_set_challenge (Some s) new_challenge;
       s \<leftarrow> apply_session_ttl (the p) (cfg_session_ttl (mgr_cfg m));
       rc \<leftarrow> st_update st (Some s);
       if rc \<noteq> 0 then do { st_free_sessions st [s]; ret (-1, resp) }
       else do {
         emit_event m ''REFRESH'' (s_user_id s) (s_id s) ''session extended'';
         resp \<leftarrow> success_response E m s resp;
         st_free_sessions st [s];
         ret (0, resp) } } }"

text \<open>The checks on the proof of a BOUND session.\<close>

definition refresh_proof :: "('j, 'b, 'k) externals \<Rightarrow> 's OpenDBSC_Manager \<Rightarrow> 's OpenDBSC_Store \<Rightarrow>
    OpenDBSC_ManagerResponse \<Rightarrow> OpenDBSC_Session \<Rightarrow> string option \<Rightarrow>
    ('s sys, int \<times> OpenDBSC_ManagerResponse) state" where
  "refresh_proof E m st resp s session_response_header =
     (if \<not> nonempty session_response_header then challenge_again st resp s
      else do {
        (rc, proof') \<leftarrow> (if s_public_key s = None then ret (-1, Some proof_defaults)
                        else opendbsc_jwt_verify_with_jwk (ext_json E) (ext_ssl E)
                               session_response_header (s_public_key s) (Some proof_defaults));
        if rc \<noteq> 0 then challenge_again st resp s
        else (case proof' of None \<Rightarrow> ub (-1, resp)
        | Some p \<Rightarrow> do {
            same \<leftarrow> (if p_challenge p = None then ret False
                    else strcmp_eq (p_challenge p) (s_challenge s));
            if \<not> same then challenge_again st resp s
            else refresh_extend E m st resp s }) })"

definition opendbsc_manager_refresh :: "('j, 'b, 'k) externals \<Rightarrow> 's OpenDBSC_Manager option \<Rightarrow>
    string option \<Rightarrow> string option \<Rightarrow> OpenDBSC_ManagerResponse \<Rightarrow>
    ('s sys, int \<times> OpenDBSC_ManagerResponse) state" where
  "opendbsc_manager_refresh E mgr session_id session_response_header resp =
     (case mgr of None \<Rightarrow> ret (-1, resp)
      | Some m \<Rightarrow>
        let resp = the (opendbsc_manager_response_init (Some resp)) in
        if \<not> nonempty session_id then answer_with resp 400 ''missing session identification''
        else with_store m (-1, resp) (\<lambda>st. do {
          (rc, session) \<leftarrow> st_get st session_id;
          if rc \<noteq> 0 then answer_with resp 401 ''invalid session''
          else (case session of None \<Rightarrow> ub (-1, resp)
          | Some s \<Rightarrow>
            if s_state s \<noteq> BOUND then do {
              st_free_sessions st [s];
              answer_with resp 400 ''session is not bound'' }
            else refresh_proof E m st resp s session_response_header) }))"

text \<open>The closing of a fetched session; the user name is copied before the copy is released.\<close>

definition close_session :: "('j, 'b, 'k) externals \<Rightarrow> 's OpenDBSC_Manager \<Rightarrow> 's OpenDBSC_Store \<Rightarrow>
    OpenDBSC_ManagerResponse \<Rightarrow> OpenDBSC_Session \<Rightarrow> string option \<Rightarrow>
    ('s sys, int \<times> OpenDBSC_ManagerResponse) state" where
  "close_session E m st resp s session_id = do {
     user_id \<leftarrow> copy_string (s_user_id s);
     if s_user_id s \<noteq> None \<and> user_id = None then do { st_free_sessions st [s]; ret (-1, resp) }
     else do {
       body \<leftarrow> build_instruction_body E m s False;
       if body = None then do { st_free_sessions st [s]; ret (-1, resp) }
       else do {
         cookie \<leftarrow> build_set_cookie_with_max_age m (s_id s) 0;
         let resp = resp\<lparr>rs_set_cookie := cookie, rs_body := body, rs_status := 200\<rparr>;
         rc \<leftarrow> st_delete st session_id;
         if rc \<noteq> 0 then do { st_free_sessions st [s]; ret (-1, resp) }
         else do {
           emit_event m ''CLOSE'' user_id session_id ''session closed'';
           st_free_sessions st [s];
           ret (0, resp) } } } }"

definition opendbsc_manager_close :: "('j, 'b, 'k) externals \<Rightarrow> 's OpenDBSC_Manager option \<Rightarrow>
    string option \<Rightarrow> OpenDBSC_ManagerResponse \<Rightarrow> ('s sys, int \<times> OpenDBSC_ManagerResponse) state" where
  "opendbsc_manager_close E mgr session_id resp =
     (case mgr of None \<Rightarrow> ret (-1, resp)
      | Some m \<Rightarrow>
        let resp = the (opendbsc_manager_response_init (Some resp)) in
        if \<not> nonempty session_id then answer_with resp 400 ''missing session identification''
        else with_store m (-1, resp) (\<lambda>st. do {
          (rc, session) \<leftarrow> st_get st session_id;
          if rc \<noteq> 0 then answer_with resp 401 ''invalid session''
          else (case session of None \<Rightarrow> ub (-1, resp)
          | Some s \<Rightarrow> close_session E m st resp s session_id) }))"

end
