(* ===== verification/Manager_Spec.thy ===== *)
theory Manager_Spec
  imports Manager
begin

text \<open>
  What the manager's operations do to the sessions of the store, for any store that keeps the
  contract of \<open>session_store\<close> and accepts the sessions the manager makes (\<open>manager_store\<close>). A store
  that may fail at any time is called flaky; one that is not fails only for want of memory. The
  lemmas of the locale are proved once here; \<open>Manager_Properties\<close> states them for the in-memory
  store and \<open>Sql_Manager\<close> for the two SQL stores.
\<close>

section \<open>Steps that leave the store alone\<close>

definition challenge_of :: "(nat \<Rightarrow> byte) option \<Rightarrow> string" where
  "challenge_of e =
     (case e of None \<Rightarrow> ''fallback-challenge'' | Some f \<Rightarrow> concat (map print_hex2 (map f [0..<32])))"

text \<open>\<open>fresh w w' c\<close>: the text of a draw of the entropy source made between \<open>w\<close> and \<open>w'\<close>.\<close>

definition fresh :: "'a world_scheme \<Rightarrow> 'a world_scheme \<Rightarrow> string \<Rightarrow> bool" where
  "fresh w w' c \<longleftrightarrow> (\<exists>n. entropy_reads w \<le> n \<and> n < entropy_reads w' \<and> c = challenge_of (entropy w n))"

lemma fresh_mono: "fresh w v c \<Longrightarrow> entropy_reads v \<le> entropy_reads v' \<Longrightarrow> fresh w v' c"
  unfolding fresh_def by (blast intro: order_less_le_trans)

lemma length_hex: "length (concat (map print_hex2 bs)) = 2 * length bs"
  by (induction bs) simp_all

lemma hex_fill_text:
  "length out + 2 * length bs < cap \<Longrightarrow> hex_fill cap bs out = ret (out @ concat (map print_hex2 bs))"
  by (induction bs arbitrary: out) (simp_all add: buf_append_fits)

lemma concat_hex_inj:
  "concat (map print_hex2 as) = concat (map print_hex2 bs) \<Longrightarrow> length as = length bs \<Longrightarrow> as = bs"
proof (induction as arbitrary: bs)
  case (Cons a as)
  then obtain b bs' where bs: "bs = b # bs'" by (cases bs) auto
  from Cons.prems have "print_hex2 a = print_hex2 b \<and>
      concat (map print_hex2 as) = concat (map print_hex2 bs')"
    by (simp add: bs append_eq_append_conv)
  with Cons bs show ?case by (auto dest: print_hex2_inj)
qed simp

lemma wp_generate_challenge:
  "wp opendbsc_manager_generate_challenge (\<lambda>r w'. frame w w' \<and>
     (r = None \<and> starved w \<or> (\<exists>c. r = Some c \<and> fresh w w' c))) w"
proof (cases "entropy w (entropy_reads w)")
  case None
  then have "fresh w w' ''fallback-challenge''" if "entropy_reads w' = Suc (entropy_reads w)" for w'
    using that by (auto simp: fresh_def challenge_of_def intro!: exI [of _ "entropy_reads w"])
  then show ?thesis
    by (auto simp: opendbsc_manager_generate_challenge_def wp_bind wp_def [of "getentropy 32"] None
        malloc_str_def wps starved_def)
next
  case (Some f)
  let ?bs = "map f [0..<32]"
  have fr: "fresh w w' (concat (map print_hex2 ?bs))" if "entropy_reads w' = Suc (entropy_reads w)" for w'
    unfolding fresh_def challenge_of_def by (rule exI [of _ "entropy_reads w"]) (simp add: Some that)
  have fill: "hex_fill (32 * 2 + 1) ?bs [] = ret (concat (map print_hex2 ?bs))"
    by (subst hex_fill_text) simp_all
  have "wp (do { ok \<leftarrow> alloc;
         if \<not> ok then ret None
         else do { out \<leftarrow> hex_fill (32 * 2 + 1) ?bs []; ret (Some out) } })
    (\<lambda>r w'. frame w w' \<and> (r = None \<and> starved w \<or> (\<exists>c. r = Some c \<and> fresh w w' c)))
    (w\<lparr>entropy_reads := Suc (entropy_reads w)\<rparr>)"
    unfolding fill using fr by (simp add: wps starved_def, blast)
  then show ?thesis
    by (simp add: opendbsc_manager_generate_challenge_def wp_bind [of "getentropy 32"]
        wp_def [of "getentropy 32"] Some)
qed

definition mgr_ok :: "'s OpenDBSC_Manager \<Rightarrow> bool" where
  "mgr_ok m \<longleftrightarrow> cfg_store (mgr_cfg m) \<noteq> None \<and> cfg_cookie_name (mgr_cfg m) \<noteq> None \<and>
     cfg_cookie_path (mgr_cfg m) \<noteq> None \<and> cfg_same_site (mgr_cfg m) \<noteq> None"

definition cookie_text :: "'s OpenDBSC_Manager \<Rightarrow> string \<Rightarrow> int \<Rightarrow> string" where
  "cookie_text m val max_age =
     (let c = mgr_cfg m in
      cookie_head (str_of (cfg_cookie_name c)) val (str_of (cfg_cookie_path c)) max_age (cfg_secure c) @
      (if nonempty (cfg_cookie_domain c) then ''; Domain='' @ str_of (cfg_cookie_domain c) else []) @
      (if nonempty (cfg_same_site c) then ''; SameSite='' @ str_of (cfg_same_site c) else []))"

lemma str_arg_ne: "p \<noteq> None \<Longrightarrow> str_arg p = ret (str_of p)"
  by (cases p) simp_all

lemma attempts_cookie:
  assumes "mgr_ok m"
  shows "attempts (build_set_cookie_with_max_age m (Some v) age) (Some (cookie_text m v age)) (\<lambda>x. x = None)"
proof -
  have ne: "cfg_cookie_name (mgr_cfg m) \<noteq> None" "cfg_cookie_path (mgr_cfg m) \<noteq> None"
    using assms by (simp_all add: mgr_ok_def)
  have ap: "buf_append_if cap (nonempty p) w s = ret (w @ (if nonempty p then s else []))"
    if "length w + (if nonempty p then length s else 0) < cap" for cap p w s
    using that by (cases "nonempty p") (simp_all add: buf_append_if_def buf_append_fits)
  show ?thesis
    unfolding build_set_cookie_with_max_age_def Let_def str_arg_ne [OF ne(1)] str_arg_ne [OF ne(2)]
    apply (simp only: bind_left_identity str_arg_Some)
    apply (rule attempts_bind [OF attempts_alloc], simp add: framed_return)
    apply (simp only: not_True_eq_False if_False)
    apply (simp add: buf_append_fits ap cookie_text_def Let_def attempts_return)
    done
qed

lemma framed_instruction_setters:
  "framed (opendbsc_instruction_set_session_identifier (Some i) v) (\<lambda>(rc, p).
     p = Some (i\<lparr>i_session_identifier := v\<rparr>) \<or> p = Some i)"
  "framed (opendbsc_instruction_set_refresh_url (Some i) v) (\<lambda>(rc, p).
     p = Some (i\<lparr>i_refresh_url := v\<rparr>) \<or> p = Some i)"
  unfolding opendbsc_instruction_set_session_identifier_def opendbsc_instruction_set_refresh_url_def
    option.case
  by (rule framed_bind [OF framed_set_string], auto intro!: framed_return)+

lemma framed_to_string: "framed (opendbsc_instruction_to_string W (Some i)) (\<lambda>_. True)"
  by (rule framed_weaken [OF attempts_framed [OF attempts_to_string]]) simp

lemma framed_body:
  assumes ok: "mgr_ok m"
  shows "framed (build_instruction_body E m s cont) (\<lambda>_. True)"
proof (cases cont)
  case False
  then show ?thesis
    by (simp add: build_instruction_body_def opendbsc_instruction_init_def Let_def framed_to_string
        opendbsc_instruction_set_continue_def opendbsc_instruction_set_continue_session_def)
next
  case True
  have ne: "cfg_cookie_path (mgr_cfg m) \<noteq> None" "cfg_same_site (mgr_cfg m) \<noteq> None"
    using ok by (simp_all add: mgr_ok_def)
  define P where "P = (\<lambda>p. \<exists>i. p = Some i \<and> instruction_wf i)"
  define R where "R = (\<lambda>p :: OpenDBSC_SessionCredential option. p \<noteq> None)"
  have ident: "framed (opendbsc_instruction_set_session_identifier p v) (\<lambda>(rc, q). P q)" if "P p" for p v
    using that by (auto simp: P_def instruction_wf_def intro!: framed_weaken [OF framed_instruction_setters(1)])
  have url: "framed (opendbsc_instruction_set_refresh_url p v) (\<lambda>(rc, q). P q)" if "P p" for p v
    using that by (auto simp: P_def instruction_wf_def intro!: framed_weaken [OF framed_instruction_setters(2)])
  have ctype: "framed (opendbsc_credential_set_type p v) (\<lambda>(rc, q). R q)" if "R p" for p v
    using that by (auto simp: R_def intro!: framed_weaken [OF framed_credential_setters(1)])
  have cname: "framed (opendbsc_credential_set_name p v) (\<lambda>(rc, q). R q)" if "R p" for p v
    using that by (auto simp: R_def intro!: framed_weaken [OF framed_credential_setters(2)])
  have cattr: "framed (opendbsc_credential_set_attributes p v) (\<lambda>(rc, q). R q)" if "R p" for p v
    using that by (auto simp: R_def intro!: framed_weaken [OF framed_credential_setters(3)])
  have add: "framed (opendbsc_instruction_add_credential p c) (\<lambda>(rc, q). P q)" if "P p" "R c" for p c
    using that by (auto simp: P_def R_def intro!: framed_weaken [OF framed_add_credential])
  have str: "framed (opendbsc_instruction_to_string W p) (\<lambda>_. True)" if "P p" for W p
    using that by (auto simp: P_def framed_to_string)
  have start: "P (opendbsc_instruction_set_continue (opendbsc_instruction_init (Some instruction_defaults)) True)"
    by (simp add: P_def opendbsc_instruction_init_def opendbsc_instruction_set_continue_def
        opendbsc_instruction_set_continue_session_def instruction_wf_def scope_wf_def
        instruction_defaults_def scope_defaults_def)
  have site: "P (map_option (\<lambda>i. i\<lparr>i_scope := the (opendbsc_scope_set_include_site (Some (i_scope i)) 0)\<rparr>) p)"
    if "P p" for p
    using that by (auto simp: P_def opendbsc_scope_set_include_site_def instruction_wf_def scope_wf_def)
  have cred: "R (opendbsc_credential_init (Some credential_defaults))"
    by (simp add: R_def opendbsc_credential_init_def)
  have attrs: "framed (if ok then do {
                  attrs \<leftarrow> buf_append (length t + 1) [] t;
                  (rc, cred) \<leftarrow> opendbsc_credential_set_attributes c (Some attrs);
                  ret cred } else ret c) R" if "R c" for c t ok
    using that by (auto simp: buf_append_fits framed_return intro!: framed_bind [OF cattr])
  show ?thesis
    unfolding build_instruction_body_def Let_def str_arg_ne [OF ne(1)] str_arg_ne [OF ne(2)]
    apply (simp only: True not_True_eq_False if_False bind_left_identity)
    apply (rule framed_bind [OF ident [OF start]], clarify)
    apply (rule framed_bind [OF url], assumption, clarify)
    apply (rule framed_bind [OF ctype [OF cred]], clarify)
    apply (rule framed_bind [OF cname], assumption, clarify)
    apply (rule framed_bind [OF framed_alloc])
    apply (rule framed_bind [OF attrs], assumption)
    apply (rule framed_bind [OF add [OF site]], assumption, assumption, clarify)
    apply (rule str, assumption)
    done
qed

lemma attempts_close_body:
  "attempts (build_instruction_body E m s False)
     (Some (cj_format (ext_writer E) (cj_add (ext_writer E) (cj_object (ext_writer E)) ''continue''
        (cj_bool (ext_writer E) False)))) (\<lambda>x. x = None)"
  using attempts_to_string [of "ext_writer E" "instruction_defaults\<lparr>i_continue_session := 0, i_has_continue := 1\<rparr>"]
  by (simp add: build_instruction_body_def opendbsc_instruction_init_def Let_def instruction_json_def
      opendbsc_instruction_set_continue_def opendbsc_instruction_set_continue_session_def)

lemma framed_challenge_serialize: "framed (opendbsc_challenge_serialize v sid) (\<lambda>_. True)"
proof (cases v)
  case None
  then show ?thesis by (simp add: opendbsc_challenge_serialize_def framed_return)
next
  case (Some c)
  then show ?thesis by (auto intro: framed_weaken [OF attempts_framed [OF attempts_challenge]])
qed

text \<open>\<open>got w x t\<close>: the response field \<open>x\<close> carries the text \<open>t\<close> unless an allocation failed.\<close>

definition got :: "'a world_scheme \<Rightarrow> string option \<Rightarrow> string \<Rightarrow> bool" where
  "got w x t \<longleftrightarrow> x = Some t \<or> x = None \<and> starved w"

lemma gotI: "x = Some t \<or> x = None \<and> starved w \<Longrightarrow> got w x t"
  by (simp add: got_def)

lemma frame_got: "frame w w' \<Longrightarrow> got w' x t = got w x t"
  by (simp add: got_def frame_starved)

text \<open>The challenge \<open>c\<close> for the session \<open>i\<close> in the response header.\<close>

definition offers :: "'a world_scheme \<Rightarrow> OpenDBSC_ManagerResponse \<Rightarrow> string option \<Rightarrow> string \<Rightarrow> bool" where
  "offers w r c i \<longleftrightarrow> (\<forall>t. c = Some t \<longrightarrow> got w (rs_challenge r) (quoted t @ opt_param ''id'' (Some i)))"

lemma frame_offers: "frame w w' \<Longrightarrow> offers w' r c i = offers w r c i"
  by (simp add: offers_def frame_got)

lemma wp_challenge_header:
  "wp (opendbsc_challenge_serialize c (Some i)) (\<lambda>x w'. frame w w' \<and>
     (\<forall>t. c = Some t \<longrightarrow> got w x (quoted t @ opt_param ''id'' (Some i)))) w"
proof (cases c)
  case None
  then show ?thesis by (simp add: opendbsc_challenge_serialize_def wp_return)
next
  case (Some t)
  show ?thesis unfolding Some by (rule wp_attempts [OF attempts_challenge]) (auto simp: got_def)
qed

lemma wp_set_challenge_response:
  "wp (set_challenge_response resp c (Some i) st) (\<lambda>r w'. frame w w' \<and> rs_status r = st \<and> offers w r c i) w"
  unfolding set_challenge_response_def
  by (rule wp_bindI, rule wp_mono [OF wp_challenge_header], rule wp_bindI, rule wp_framed [OF framed_malloc_str])
     (auto simp: wp_return offers_def intro: frame_trans)

lemma framed_answer_with: "framed (answer_with resp st msg) (\<lambda>(rc, r). rc = 0 \<and> rs_status r = st)"
  unfolding answer_with_def by (rule framed_bind [OF framed_malloc_str]) (simp add: framed_return)

lemma wp_success_response:
  assumes "mgr_ok m" and "s_id s = Some i"
  shows "wp (success_response E m s resp) (\<lambda>r w'. frame w w' \<and> rs_status r = 200 \<and>
     got w (rs_set_cookie r) (cookie_text m i (cfg_cookie_ttl (mgr_cfg m))) \<and> offers w r (s_challenge s) i) w"
  unfolding success_response_def build_set_cookie_def assms(2)
  by (rule wp_bindI, rule wp_attempts [OF attempts_cookie [OF assms(1)]],
      rule wp_bindI, rule wp_mono [OF wp_challenge_header],
      rule wp_bindI, rule wp_framed [OF framed_body [OF assms(1)]])
     (auto simp: wp_return offers_def got_def frame_starved intro: frame_trans)

definition same_but_expiry :: "OpenDBSC_Session \<Rightarrow> OpenDBSC_Session \<Rightarrow> bool" where
  "same_but_expiry s s' \<longleftrightarrow>
     s' = s\<lparr>s_expires_at := s_expires_at s', s_has_expires := s_has_expires s'\<rparr>"

lemma same_but_expiry_sel:
  "same_but_expiry s s' \<Longrightarrow> s_id s' = s_id s \<and> s_user_id s' = s_user_id s \<and> s_state s' = s_state s \<and>
     s_public_key s' = s_public_key s \<and> s_algorithm s' = s_algorithm s \<and>
     s_challenge s' = s_challenge s \<and> s_created_at s' = s_created_at s"
  unfolding same_but_expiry_def by (cases s; cases s') simp

lemma framed_ttl: "framed (apply_session_ttl s ttl) (\<lambda>s'. same_but_expiry s s')"
proof (cases "ttl > 0")
  case True
  then show ?thesis
    unfolding apply_session_ttl_def
    by (simp, intro framed_bind [OF framed_time_now] framed_return)
       (simp add: same_but_expiry_def opendbsc_session_set_expires_at_def)
qed (simp add: apply_session_ttl_def same_but_expiry_def framed_return)

section \<open>The system around the store\<close>

text \<open>
  \<open>stands view ok w evs m v\<close>: at \<open>v\<close>, reached from \<open>w\<close> with nothing undefined, the store is well
  formed and stands for the map \<open>m\<close>, and the event log is \<open>evs\<close>.
\<close>

definition stands :: "('s \<Rightarrow> string \<Rightarrow> OpenDBSC_Session option) \<Rightarrow> ('s \<Rightarrow> bool) \<Rightarrow> 's sys \<Rightarrow> event list \<Rightarrow>
    (string \<Rightarrow> OpenDBSC_Session option) \<Rightarrow> 's sys \<Rightarrow> bool" where
  "stands view ok w evs m v \<longleftrightarrow> mem_ok v = mem_ok w \<and> wall_clock v = wall_clock w \<and>
     realtime v = realtime w \<and> entropy v = entropy w \<and> undef v = undef w \<and>
     clock_reads w \<le> clock_reads v \<and> entropy_reads w \<le> entropy_reads v \<and> events v = evs \<and> ok (impl v) \<and> view (impl v) = m"

lemma stands_start: "ok (impl w) \<Longrightarrow> stands view ok w (events w) (view (impl w)) w"
  by (simp add: stands_def)

lemma stands_frame: "stands view ok w evs m v \<Longrightarrow> frame v v' \<Longrightarrow> stands view ok w evs m v'"
  using frame_impl [of v v'] frame_events [of v v'] by (simp add: stands_def frame_def)

lemma stands_oframe:
  "stands view ok w evs m v \<Longrightarrow> oframe v v' \<Longrightarrow> ok (impl v') \<Longrightarrow> view (impl v') = m' \<Longrightarrow>
   stands view ok w evs m' v'"
  by (simp add: stands_def oframe_def)

lemma stands_starved: "stands view ok w evs m v \<Longrightarrow> starved v = starved w"
  and stands_got: "stands view ok w evs m v \<Longrightarrow> got v = got w"
  and stands_offers: "stands view ok w evs m v \<Longrightarrow> offers v = offers w"
  by (simp_all add: stands_def starved_def got_def offers_def fun_eq_iff)

lemma stands_fresh: "stands view ok w evs m v \<Longrightarrow> fresh v v' c \<Longrightarrow> fresh w v' c"
  unfolding stands_def fresh_def by (metis order_trans)

lemma stands_view: "stands view ok w evs m v \<Longrightarrow> ok (impl v) \<and> view (impl v) = m"
  by (simp add: stands_def)

lemma stands_expired:
  "stands view ok w evs m v \<Longrightarrow> expired_between v v' s \<Longrightarrow> expired_between w v' s"
  unfolding stands_def expired_between_def by (metis order_trans)

lemma stands_live:
  "stands view ok w evs m v \<Longrightarrow> live_between v v' s \<Longrightarrow> live_between w v' s"
  unfolding stands_def live_between_def by (metis order_trans)

lemma wp_emit:
  assumes "stands view ok w evs m v"
    and "\<And>v' e. stands view ok w (evs @ (if cfg_on_event (mgr_cfg mgr) then [e] else [])) m v' \<Longrightarrow>
           ev_type e = ty \<Longrightarrow> ev_user e = user \<Longrightarrow> ev_session e = sid \<Longrightarrow> ev_detail e = Some detail \<Longrightarrow> Q () v'"
  shows "wp (emit_event mgr ty user sid detail) Q v"
  using assms(1) assms(2) [of "\<lparr>ev_type = ty, ev_user = user, ev_session = sid, ev_detail = Some detail\<rparr>"]
  by (auto simp: emit_event_def wps stands_def)

text \<open>Stepping over a framed computation, a challenge or a setter.\<close>

lemma wp_step:
  assumes "stands view ok w evs m v" and "framed c P"
    and "\<And>r v'. stands view ok w evs m v' \<Longrightarrow> P r \<Longrightarrow> Q r v'"
  shows "wp c Q v"
  by (rule wp_framed [OF assms(2)]) (use stands_frame [OF assms(1)] assms(3) in blast)

lemma wp_step_challenge:
  assumes "stands view ok w evs m v"
    and "\<And>v'. stands view ok w evs m v' \<Longrightarrow> starved w \<Longrightarrow> Q None v'"
    and "\<And>c v'. stands view ok w evs m v' \<Longrightarrow> fresh w v' c \<Longrightarrow> Q (Some c) v'"
  shows "wp opendbsc_manager_generate_challenge Q v"
  by (rule wp_mono [OF wp_generate_challenge])
     (use stands_frame [OF assms(1)] stands_starved [OF assms(1)] stands_fresh [OF assms(1)] assms(2,3) in auto)

lemma attempts_session_setters:
  "attempts (opendbsc_session_set_id (Some s) v) (0, Some (s\<lparr>s_id := v\<rparr>)) (\<lambda>r. r = (-1, Some s))"
  "attempts (opendbsc_session_set_user_id (Some s) v) (0, Some (s\<lparr>s_user_id := v\<rparr>)) (\<lambda>r. r = (-1, Some s))"
  "attempts (opendbsc_session_set_public_key (Some s) v) (0, Some (s\<lparr>s_public_key := v\<rparr>)) (\<lambda>r. r = (-1, Some s))"
  "attempts (opendbsc_session_set_algorithm (Some s) v) (0, Some (s\<lparr>s_algorithm := v\<rparr>)) (\<lambda>r. r = (-1, Some s))"
  "attempts (opendbsc_session_set_challenge (Some s) v) (0, Some (s\<lparr>s_challenge := v\<rparr>)) (\<lambda>r. r = (-1, Some s))"
  by (rule attemptsI, rule framed_weaken, rule framed_session_setters, force simp: setter_result_def,
      rule returns_session_setters)+

lemma wp_step_setter:
  assumes "stands view ok w evs m v" and "attempts c (0, Some s') (\<lambda>r. r = (-1, Some s))"
    and "\<And>v' rc s''. stands view ok w evs m v' \<Longrightarrow> s'' = s' \<or> s'' = s \<and> starved w \<Longrightarrow> Q (rc, Some s'') v'"
  shows "wp c Q v"
  by (rule wp_attempts [OF assms(2)])
     (use stands_frame [OF assms(1)] stands_starved [OF assms(1)] assms(3) in auto)

text \<open>The two proof checks, with what an acceptance and a refusal tell.\<close>

lemma wp_step_proof:
  fixes c :: "('s sys, int \<times> OpenDBSC_ProofJWT option) state"
  assumes at: "stands view ok w evs m v"
    and fr: "framed c (\<lambda>(rc, out). (Some p0 \<noteq> None \<longrightarrow> out \<noteq> None) \<and> (rc = -1 \<or> rc = 0 \<and>
        (\<exists>a q. claims = Some a \<and> partial_of q a \<and> good q \<and> (Some p0 \<noteq> None \<longrightarrow> out = Some q))))"
    and re: "\<exists>out. returns c (case claims of None \<Rightarrow> -1 | Some a \<Rightarrow> if good a then 0 else -1, out) \<and>
        (\<forall>a. claims = Some a \<longrightarrow> out = (if Some p0 = None then None else Some a))"
    and acc: "\<And>v' q a. stands view ok w evs m v' \<Longrightarrow> claims = Some a \<Longrightarrow> partial_of q a \<Longrightarrow> good q \<Longrightarrow>
        starved w \<or> q = a \<Longrightarrow> Q (0, Some q) v'"
    and rej: "\<And>v' out. stands view ok w evs m v' \<Longrightarrow> starved w \<or> (\<forall>a. claims = Some a \<longrightarrow> \<not> good a) \<Longrightarrow>
        Q (-1, out) v'"
  shows "wp c Q v"
proof -
  obtain rc out v' where run: "run_state c v = ((rc, out), v')" by (metis prod.exhaust)
  from framedD [OF fr run] have f: "frame v v'" and o: "out \<noteq> None"
    and cs: "rc = -1 \<or> rc = 0 \<and> (\<exists>a q. claims = Some a \<and> partial_of q a \<and> good q \<and> out = Some q)" by auto
  note at' = stands_frame [OF at f]
  from re obtain out0 where re0: "returns c (case claims of None \<Rightarrow> -1 | Some a \<Rightarrow> if good a then 0 else -1, out0)"
    and out0: "\<forall>a. claims = Some a \<longrightarrow> out0 = Some a" by auto
  have exact: "starved w \<or> (rc, out) = (case claims of None \<Rightarrow> -1 | Some a \<Rightarrow> if good a then 0 else -1, out0)"
    using returns_notD [OF re0 run] stands_starved [OF at] by blast
  have "Q (rc, out) v'"
  proof (cases "rc = 0")
    case True
    with cs obtain a q where q: "claims = Some a" "partial_of q a" "good q" "out = Some q" by auto
    with exact out0 have "starved w \<or> q = a" by auto
    from acc [OF at' q(1,2,3) this] q(4) True show ?thesis by simp
  next
    case False
    with cs have "rc = -1" by auto
    moreover have "starved w \<or> (\<forall>a. claims = Some a \<longrightarrow> \<not> good a)"
      using exact False by (auto split: if_splits)
    ultimately show ?thesis using rej [OF at'] by blast
  qed
  with run show ?thesis by (simp add: wp_def)
qed

lemmas wp_step_register_proof =
  wp_step_proof [OF _ framed_decode_and_verify returns_decode_and_verify]

lemmas wp_step_refresh_proof =
  wp_step_proof [OF _ framed_verify_with_jwk returns_verify_with_jwk]

text \<open>What binding makes of a session \<open>s\<close> with the proof \<open>q\<close>.\<close>

definition bound_from :: "'s sys \<Rightarrow> 's sys \<Rightarrow> OpenDBSC_Session \<Rightarrow> OpenDBSC_ProofJWT \<Rightarrow> OpenDBSC_Session \<Rightarrow> bool" where
  "bound_from w w' s q s' \<longleftrightarrow> s_id s' = s_id s \<and> s_user_id s' = s_user_id s \<and>
     s_created_at s' = s_created_at s \<and> s_state s' = BOUND \<and>
     (s_public_key s' = p_jwk q \<or> starved w \<and> s_public_key s' = s_public_key s) \<and>
     (s_algorithm s' = p_algorithm q \<or> starved w \<and> s_algorithm s' = s_algorithm s) \<and>
     ((\<exists>c. s_challenge s' = Some c \<and> fresh w w' c) \<or> starved w \<and> s_challenge s' = s_challenge s)"

text \<open>What a refresh makes of it.\<close>

definition extended_from :: "'s sys \<Rightarrow> 's sys \<Rightarrow> OpenDBSC_Session \<Rightarrow> OpenDBSC_Session \<Rightarrow> bool" where
  "extended_from w w' s s' \<longleftrightarrow> s_id s' = s_id s \<and> s_user_id s' = s_user_id s \<and>
     s_created_at s' = s_created_at s \<and> s_state s' = s_state s \<and>
     s_public_key s' = s_public_key s \<and> s_algorithm s' = s_algorithm s \<and>
     ((\<exists>c. s_challenge s' = Some c \<and> fresh w w' c) \<or> starved w \<and> s_challenge s' = s_challenge s)"

lemma stands_trans:
  "stands view ok w evs m v \<Longrightarrow> stands view ok v evs' m' v' \<Longrightarrow>
   stands view ok w evs' m' v' \<and> clock_reads v \<le> clock_reads v' \<and> entropy_reads v \<le> entropy_reads v'"
  by (simp add: stands_def)

lemma stands_from: "stands view ok w evs m v \<Longrightarrow> stands view ok v evs m v"
  by (simp add: stands_def)

lemma stands_bound: "stands view ok w evs m v \<Longrightarrow> bound_from v v' s q s' \<Longrightarrow> bound_from w v' s q s'"
  and stands_extended: "stands view ok w evs m v \<Longrightarrow> extended_from v v' s s' \<Longrightarrow> extended_from w v' s s'"
  using stands_fresh [of view ok w evs m v] stands_starved [of view ok w evs m v]
  by (auto simp: bound_from_def extended_from_def)

lemma live_mono:
  "live_between w v s \<Longrightarrow> clock_reads v \<le> clock_reads v' \<Longrightarrow> live_between w v' s"
  unfolding live_between_def by (meson order_less_le_trans)

definition logged :: "'s OpenDBSC_Manager \<Rightarrow> string \<Rightarrow> string \<Rightarrow> event list \<Rightarrow> event list \<Rightarrow> bool" where
  "logged mg ty i evs evs' \<longleftrightarrow> (\<exists>e. ev_type e = ty \<and> ev_session e = Some i \<and>
     evs' = evs @ (if cfg_on_event (mgr_cfg mg) then [e] else []))"

section \<open>What a request may do\<close>

text \<open>
  The abstract specification of the manager: a state is the map of sessions and the event log, and
  the outcome of a request is its return code and response status. \<open>v\<close> is the world in which the
  request starts and \<open>v'\<close> the one in which it ends; they bound the clock readings.
\<close>

type_synonym ledger = "(string \<Rightarrow> OpenDBSC_Session option) \<times> event list"

definition registration_accepts :: "('j, 'b, 'k) externals \<Rightarrow> 's OpenDBSC_Manager \<Rightarrow> OpenDBSC_Session \<Rightarrow>
    string option \<Rightarrow> OpenDBSC_ProofJWT \<Rightarrow> OpenDBSC_ProofJWT \<Rightarrow> bool" where
  "registration_accepts E mg s hdr a q \<longleftrightarrow> nonempty hdr \<and>
     jwt_claims (ext_json E) (str_of hdr) = Some a \<and> partial_of q a \<and>
     registration_ok (ext_json E) (ext_ssl E) (str_of hdr) q \<and> p_challenge q = s_challenge s \<and>
     (cfg_authorization (mgr_cfg mg) = None \<or> p_authorization q = cfg_authorization (mgr_cfg mg))"

definition refresh_accepts :: "('j, 'b, 'k) externals \<Rightarrow> OpenDBSC_Session \<Rightarrow> string option \<Rightarrow>
    OpenDBSC_ProofJWT \<Rightarrow> OpenDBSC_ProofJWT \<Rightarrow> bool" where
  "refresh_accepts E s hdr a q \<longleftrightarrow> nonempty hdr \<and> s_public_key s \<noteq> None \<and>
     jwt_claims (ext_json E) (str_of hdr) = Some a \<and> partial_of q a \<and>
     refresh_ok (ext_json E) (ext_ssl E) (str_of hdr) (str_of (s_public_key s)) q \<and>
     p_challenge q = s_challenge s"

text \<open>An operation may fail for want of memory, and at any time when the store is flaky.\<close>

definition excused :: "bool \<Rightarrow> 'a world_scheme \<Rightarrow> bool" where
  "excused flaky w \<longleftrightarrow> flaky \<or> starved w"

lemma starved_excused [simp, intro]: "starved w \<Longrightarrow> excused flaky w"
  and excused_reliable [simp]: "excused False w = starved w"
  by (simp_all add: excused_def)

text \<open>No session \<open>i\<close> was found: there is none, it has expired, or the store has failed.\<close>

definition gone :: "bool \<Rightarrow> 's sys \<Rightarrow> 's sys \<Rightarrow> (string \<Rightarrow> OpenDBSC_Session option) \<Rightarrow> string \<Rightarrow>
    (string \<Rightarrow> OpenDBSC_Session option) \<Rightarrow> bool" where
  "gone flaky v v' m i m' \<longleftrightarrow>
     (m' = m \<or> m' = m(i := None) \<and> (\<exists>s. m i = Some s \<and> expired_between v v' s)) \<and>
     (m i = None \<or> excused flaky v \<or> (\<exists>s. m i = Some s \<and> expired_between v v' s))"

lemma gone_mono: "gone flaky v v1 m i m' \<Longrightarrow> clock_reads v1 \<le> clock_reads v' \<Longrightarrow> gone flaky v v' m i m'"
  unfolding gone_def expired_between_def by (meson order_less_le_trans)

text \<open>The response to a missing proof or a refused one: the stored challenge again.\<close>

definition asks_again :: "'s sys \<Rightarrow> OpenDBSC_Session \<Rightarrow> string \<Rightarrow> OpenDBSC_ManagerResponse \<Rightarrow> bool" where
  "asks_again v s i r \<longleftrightarrow> rs_status r = 403 \<and> offers v r (s_challenge s) i"

text \<open>The response to an accepted proof: the cookie and the session's new challenge.\<close>

definition grants :: "'s OpenDBSC_Manager \<Rightarrow> 's sys \<Rightarrow> OpenDBSC_Session \<Rightarrow> string \<Rightarrow>
    OpenDBSC_ManagerResponse \<Rightarrow> bool" where
  "grants mg v s' i r \<longleftrightarrow> rs_status r = 200 \<and> offers v r (s_challenge s') i \<and>
     got v (rs_set_cookie r) (cookie_text mg i (cfg_cookie_ttl (mgr_cfg mg)))"

inductive register_step :: "bool \<Rightarrow> ('j, 'b, 'k) externals \<Rightarrow> 's OpenDBSC_Manager \<Rightarrow> 's sys \<Rightarrow> 's sys \<Rightarrow>
    string option \<Rightarrow> string option \<Rightarrow> ledger \<Rightarrow> int \<Rightarrow> OpenDBSC_ManagerResponse \<Rightarrow> ledger \<Rightarrow> bool"
  for flaky E mg v v' ck hdr where
  no_cookie: "\<not> nonempty ck \<Longrightarrow> rs_status r = 401 \<Longrightarrow>
    register_step flaky E mg v v' ck hdr (m, evs) 0 r (m, evs)"
| unknown: "ck = Some i \<Longrightarrow> gone flaky v v' m i m' \<Longrightarrow> rs_status r = 401 \<Longrightarrow>
    register_step flaky E mg v v' ck hdr (m, evs) 0 r (m', evs)"
| wrong_state: "ck = Some i \<Longrightarrow> m i = Some s \<Longrightarrow> s_state s \<noteq> ACTIVE \<Longrightarrow> rs_status r = 400 \<Longrightarrow>
    register_step flaky E mg v v' ck hdr (m, evs) 0 r (m, evs)"
| challenged: "ck = Some i \<Longrightarrow> m i = Some s \<Longrightarrow> s_state s = ACTIVE \<Longrightarrow>
    starved v \<or> (\<forall>a. \<not> registration_accepts E mg s hdr a a) \<Longrightarrow> asks_again v s i r \<Longrightarrow>
    register_step flaky E mg v v' ck hdr (m, evs) 0 r (m, evs)"
| bound: "ck = Some i \<Longrightarrow> m i = Some s \<Longrightarrow> s_state s = ACTIVE \<Longrightarrow> live_between v v' s \<Longrightarrow>
    registration_accepts E mg s hdr a q \<Longrightarrow> starved v \<or> q = a \<Longrightarrow> bound_from v v' s q s' \<Longrightarrow>
    logged mg ''REGISTER'' i evs evs' \<Longrightarrow> grants mg v s' i r \<Longrightarrow>
    register_step flaky E mg v v' ck hdr (m, evs) 0 r (m(i \<mapsto> s'), evs')"
| failed: "ck = Some i \<Longrightarrow> excused flaky v \<Longrightarrow> m' = m \<or> m' = m(i := None) \<Longrightarrow> rs_status r = 0 \<Longrightarrow>
    register_step flaky E mg v v' ck hdr (m, evs) (-1) r (m', evs)"

inductive refresh_step :: "bool \<Rightarrow> ('j, 'b, 'k) externals \<Rightarrow> 's OpenDBSC_Manager \<Rightarrow> 's sys \<Rightarrow> 's sys \<Rightarrow>
    string option \<Rightarrow> string option \<Rightarrow> ledger \<Rightarrow> int \<Rightarrow> OpenDBSC_ManagerResponse \<Rightarrow> ledger \<Rightarrow> bool"
  for flaky E mg v v' ck hdr where
  no_id: "\<not> nonempty ck \<Longrightarrow> rs_status r = 400 \<Longrightarrow> refresh_step flaky E mg v v' ck hdr (m, evs) 0 r (m, evs)"
| unknown: "ck = Some i \<Longrightarrow> gone flaky v v' m i m' \<Longrightarrow> rs_status r = 401 \<Longrightarrow>
    refresh_step flaky E mg v v' ck hdr (m, evs) 0 r (m', evs)"
| wrong_state: "ck = Some i \<Longrightarrow> m i = Some s \<Longrightarrow> s_state s \<noteq> BOUND \<Longrightarrow> rs_status r = 400 \<Longrightarrow>
    refresh_step flaky E mg v v' ck hdr (m, evs) 0 r (m, evs)"
| challenged: "ck = Some i \<Longrightarrow> m i = Some s \<Longrightarrow> s_state s = BOUND \<Longrightarrow>
    starved v \<or> (\<forall>a. \<not> refresh_accepts E s hdr a a) \<Longrightarrow> asks_again v s i r \<Longrightarrow>
    refresh_step flaky E mg v v' ck hdr (m, evs) 0 r (m, evs)"
| extended: "ck = Some i \<Longrightarrow> m i = Some s \<Longrightarrow> s_state s = BOUND \<Longrightarrow> live_between v v' s \<Longrightarrow>
    refresh_accepts E s hdr a q \<Longrightarrow> starved v \<or> q = a \<Longrightarrow> extended_from v v' s s' \<Longrightarrow>
    logged mg ''REFRESH'' i evs evs' \<Longrightarrow> grants mg v s' i r \<Longrightarrow>
    refresh_step flaky E mg v v' ck hdr (m, evs) 0 r (m(i \<mapsto> s'), evs')"
| failed: "ck = Some i \<Longrightarrow> excused flaky v \<Longrightarrow> m' = m \<or> m' = m(i := None) \<Longrightarrow> rs_status r = 0 \<Longrightarrow>
    refresh_step flaky E mg v v' ck hdr (m, evs) (-1) r (m', evs)"

text \<open>A failed deletion is reported with the response already filled in.\<close>

inductive close_step :: "bool \<Rightarrow> 's OpenDBSC_Manager \<Rightarrow> 's sys \<Rightarrow> 's sys \<Rightarrow>
    string option \<Rightarrow> ledger \<Rightarrow> int \<Rightarrow> OpenDBSC_ManagerResponse \<Rightarrow> ledger \<Rightarrow> bool"
  for flaky mg v v' ck where
  no_id: "\<not> nonempty ck \<Longrightarrow> rs_status r = 400 \<Longrightarrow> close_step flaky mg v v' ck (m, evs) 0 r (m, evs)"
| unknown: "ck = Some i \<Longrightarrow> gone flaky v v' m i m' \<Longrightarrow> rs_status r = 401 \<Longrightarrow>
    close_step flaky mg v v' ck (m, evs) 0 r (m', evs)"
| closed: "ck = Some i \<Longrightarrow> m i \<noteq> None \<Longrightarrow> logged mg ''CLOSE'' i evs evs' \<Longrightarrow> rs_status r = 200 \<Longrightarrow>
    got v (rs_set_cookie r) (cookie_text mg i 0) \<Longrightarrow> close_step flaky mg v v' ck (m, evs) 0 r (m(i := None), evs')"
| failed: "ck = Some i \<Longrightarrow> excused flaky v \<Longrightarrow> m' = m \<or> m' = m(i := None) \<Longrightarrow> rs_status r \<in> {0, 200} \<Longrightarrow>
    close_step flaky mg v v' ck (m, evs) (-1) r (m', evs)"

text \<open>The session a successful login creates.\<close>

definition login_of :: "'s sys \<Rightarrow> 's sys \<Rightarrow> string \<Rightarrow> string \<Rightarrow> OpenDBSC_Session \<Rightarrow> bool" where
  "login_of v v' user i s \<longleftrightarrow> s_id s = Some i \<and> s_state s = ACTIVE \<and> s_public_key s = None \<and>
     s_algorithm s = None \<and> (s_user_id s = Some user \<or> starved v \<and> s_user_id s = None) \<and>
     ((\<exists>c. s_challenge s = Some c \<and> fresh v v' c) \<or> starved v \<and> s_challenge s = None)"

definition invites :: "'s OpenDBSC_Manager \<Rightarrow> 's sys \<Rightarrow> OpenDBSC_Session \<Rightarrow> string \<Rightarrow>
    OpenDBSC_ManagerResponse \<Rightarrow> bool" where
  "invites mg v s i r \<longleftrightarrow> rs_status r = 200 \<and>
     got v (rs_set_cookie r) (cookie_text mg i (cfg_cookie_ttl (mgr_cfg mg))) \<and>
     got v (rs_registration r) (registration_text [''ES256'', ''RS256''] (Some ''/dbsc/register'')
        (s_challenge s) (cfg_authorization (mgr_cfg mg)) None None None)"

text \<open>The clock, the entropy source or the UUID library can fail to give a new identifier.\<close>

definition new_id_fails :: "uuidv7_ops \<Rightarrow> 'a world_scheme \<Rightarrow> bool" where
  "new_id_fails U v \<longleftrightarrow> realtime v (realtime_reads v) = None \<or> entropy v (entropy_reads v) = None \<or>
     (\<exists>t bytes. fst (uuidv7_generate U t bytes) < 0)"

lemma session_new_id_fails:
  assumes "run_state (opendbsc_session_new_id U (Some 37)) v = ((rc, t), v')" and "rc \<noteq> 0"
  shows "new_id_fails U v"
  using assms
  by (auto simp: opendbsc_session_new_id_def run_state_bind clock_gettime_def getentropy_def new_id_fails_def
      split: option.splits prod.splits if_splits) (metis fst_conv)

inductive initiate_step :: "bool \<Rightarrow> ('j, 'b, 'k) externals \<Rightarrow> 's OpenDBSC_Manager \<Rightarrow> 's sys \<Rightarrow> 's sys \<Rightarrow>
    string \<Rightarrow> ledger \<Rightarrow> int \<Rightarrow> OpenDBSC_ManagerResponse \<Rightarrow> ledger \<Rightarrow> bool"
  for flaky E mg v v' user where
  created: "i = uuidv7_to_string (ext_uuid E) u \<Longrightarrow> login_of v v' user i s \<Longrightarrow>
    logged mg ''LOGIN'' i evs evs' \<Longrightarrow> invites mg v s i r \<Longrightarrow>
    initiate_step flaky E mg v v' user (m, evs) 0 r (m(i \<mapsto> s), evs')"
| no_identifier: "new_id_fails (ext_uuid E) v \<Longrightarrow> rs_status r = 0 \<Longrightarrow> initiate_step flaky E mg v v' user (m, evs) (-1) r (m, evs)"
| failed: "i = uuidv7_to_string (ext_uuid E) u \<Longrightarrow> excused flaky v \<Longrightarrow> m' = m \<or> m' = m(i := None) \<Longrightarrow>
    rs_status r = 0 \<Longrightarrow> initiate_step flaky E mg v v' user (m, evs) (-1) r (m', evs)"

inductive fetch_step :: "bool \<Rightarrow> 's sys \<Rightarrow> 's sys \<Rightarrow> string option \<Rightarrow> ledger \<Rightarrow> int \<Rightarrow>
    OpenDBSC_Session option \<Rightarrow> ledger \<Rightarrow> bool"
  for flaky v v' ck where
  no_id: "ck = None \<Longrightarrow> fetch_step flaky v v' ck (m, evs) (-1) None (m, evs)"
| found: "ck = Some i \<Longrightarrow> m i = Some s \<Longrightarrow> live_between v v' s \<Longrightarrow> fetch_step flaky v v' ck (m, evs) 0 (Some s) (m, evs)"
| unknown: "ck = Some i \<Longrightarrow> gone flaky v v' m i m' \<Longrightarrow> fetch_step flaky v v' ck (m, evs) (-1) None (m', evs)"

lemma stands_rebase:
  assumes "stands view ok w evs m u"
  shows "starved u = starved w" and "excused flaky u = excused flaky w" and "asks_again u s i r = asks_again w s i r"
    and "grants mg u s i r = grants mg w s i r" and "invites mg u s i r = invites mg w s i r"
  using stands_starved [OF assms] stands_got [OF assms] stands_offers [OF assms]
  by (simp_all add: asks_again_def grants_def invites_def excused_def)

text \<open>The copy of the new session for the caller, when it gives room for one.\<close>

definition handed_out :: "'s sys \<Rightarrow> OpenDBSC_Session option \<Rightarrow> OpenDBSC_Session \<Rightarrow> OpenDBSC_Session option \<Rightarrow> bool" where
  "handed_out w out0 s out \<longleftrightarrow> (out = None) = (out0 = None) \<and> (out0 \<noteq> None \<longrightarrow> out = Some s \<or> starved w)"

lemma handed_rebase: "stands view ok w evs m u \<Longrightarrow> handed_out u out0 s out = handed_out w out0 s out"
  by (simp add: handed_out_def stands_starved)

lemma attempts_copy_string: "attempts (copy_string u) u (\<lambda>x. x = None)"
  unfolding copy_string_def by (cases u) (simp_all add: attempts_return attempts_malloc_str)

section \<open>Stores the manager runs on\<close>

text \<open>
  \<open>fits\<close> are the times the store can hold. The clock keeps to them, also when the lifetime of a
  session is added.
\<close>

definition clock_fits :: "(int \<Rightarrow> bool) \<Rightarrow> int \<Rightarrow> 'a world_scheme \<Rightarrow> bool" where
  "clock_fits fits ttl w \<longleftrightarrow>
     (\<forall>n. fits (wall_clock w n) \<and> (ttl > 0 \<longrightarrow> fits (wall_clock w n + ttl)))"

lemma clock_fits_any [simp]: "clock_fits (\<lambda>_. True) ttl w"
  by (simp add: clock_fits_def)

lemma stands_fits: "stands view ok w evs m v \<Longrightarrow> clock_fits fits ttl v = clock_fits fits ttl w"
  by (simp add: clock_fits_def stands_def)

lemma wp_time_now_at:
  "wp time_now (\<lambda>t w'. frame w w' \<and> (\<exists>n. t = wall_clock w n)) w"
  by (auto simp: wps)

locale manager_store = session_store +
  fixes flaky :: bool and fits :: "int \<Rightarrow> bool"
  assumes create_avail:
      "inv (impl w) \<Longrightarrow> s_id s = Some i \<Longrightarrow> storable s \<Longrightarrow>
       run_state (st_create st (Some s)) w = (rc, w') \<Longrightarrow> rc \<noteq> 0 \<Longrightarrow> excused flaky w"
    and get_avail:
      "inv (impl w) \<Longrightarrow> view (impl w) i = Some s \<Longrightarrow>
       run_state (st_get st (Some i)) w = ((rc, out), w') \<Longrightarrow> rc \<noteq> 0 \<Longrightarrow>
       excused flaky w \<or> expired_between w w' s"
    and update_avail:
      "inv (impl w) \<Longrightarrow> s_id s = Some i \<Longrightarrow> storable s \<Longrightarrow> view (impl w) i = Some s0 \<Longrightarrow>
       s_created_at s0 = s_created_at s \<Longrightarrow>
       run_state (st_update st (Some s)) w = (rc, w') \<Longrightarrow> rc \<noteq> 0 \<Longrightarrow> excused flaky w"
    and delete_avail:
      "inv (impl w) \<Longrightarrow> run_state (st_delete st (Some i)) w = (rc, w') \<Longrightarrow> rc \<noteq> 0 \<Longrightarrow> excused flaky w"
    and create_anon: "s_id s = None \<Longrightarrow> run_state (st_create st (Some s)) w = (-1, w)"
    and storable_if: "fits (s_created_at s) \<Longrightarrow> fits (s_expires_at s) \<Longrightarrow>
       s_has_expires s = (s_expires_at s \<noteq> 0) \<Longrightarrow> storable s"
    and view_fits: "inv x \<Longrightarrow> view x i = Some s \<Longrightarrow> fits (s_created_at s)"
    and fits_zero: "fits 0"
begin

abbreviation at where
  "at \<equiv> stands view inv"

lemma wp_get:
  assumes "at w evs m v"
    and "\<And>v' s. at w evs m v' \<Longrightarrow> m i = Some s \<Longrightarrow> s_id s = Some i \<Longrightarrow> live_between w v' s \<Longrightarrow>
           Q (0, Some s) v'"
    and "\<And>v' m'. at w evs m' v' \<Longrightarrow>
           gone flaky w v' m i m' \<Longrightarrow> Q (-1, None) v'"
  shows "wp (st_get st (Some i)) Q v"
proof -
  obtain rc out v' where run: "run_state (st_get st (Some i)) v = ((rc, out), v')"
    by (metis prod.exhaust)
  from assms(1) have inv: "inv (impl v)" and m: "view (impl v) = m" by (simp_all add: stands_def)
  note law = get_law [OF inv run, unfolded m]
  have "Q (rc, out) v'"
  proof (cases "rc = 0")
    case True
    with law obtain s where "out = Some s" "m i = Some s" "view (impl v') = m" "live_between v v' s" by auto
    moreover have "s_id s = Some i" using view_id [OF inv] m \<open>m i = Some s\<close> by blast
    ultimately show ?thesis
      using assms(2) [OF stands_oframe [OF assms(1)]] stands_live [OF assms(1)] law True by blast
  next
    case False
    with law have rc: "rc = -1" "out = None" and o: "oframe v v'" "inv (impl v')" by auto
    have "view (impl v') = m \<or> view (impl v') = m(i := None) \<and> (\<exists>s. m i = Some s \<and> expired_between w v' s)"
      using law False by (auto dest: stands_expired [OF assms(1)])
    moreover have "m i = None \<or> excused flaky w \<or> (\<exists>s. m i = Some s \<and> expired_between w v' s)"
      using get_avail [OF inv _ run False, unfolded m] stands_rebase(2) [OF assms(1), of flaky]
      by (cases "m i") (auto dest: stands_expired [OF assms(1)])
    ultimately have "gone flaky w v' m i (view (impl v'))" by (simp add: gone_def)
    then have "Q (-1, None) v'"
      by (rule assms(3) [OF stands_oframe [OF assms(1) o refl]])
    with rc show ?thesis by simp
  qed
  with run show ?thesis by (simp add: wp_def)
qed

lemma wp_update:
  assumes "at w evs m v" and "s_id s = Some i" and "m i = Some s0" and "s_created_at s0 = s_created_at s"
    and "storable s"
    and "\<And>v'. at w evs (m(i \<mapsto> s)) v' \<Longrightarrow> Q 0 v'"
    and "\<And>v' m'. at w evs m' v' \<Longrightarrow> excused flaky w \<Longrightarrow> m' = m \<or> m' = m(i := None) \<Longrightarrow> Q (-1) v'"
  shows "wp (st_update st (Some s)) Q v"
proof -
  obtain rc v' where run: "run_state (st_update st (Some s)) v = (rc, v')" by fastforce
  from assms(1) have inv: "inv (impl v)" and m: "view (impl v) = m" by (simp_all add: stands_def)
  have m': "view (impl v) i = Some s0" using m assms(3) by simp
  note law = update_law [OF inv assms(2) assms(5) m' assms(4) run, unfolded m]
  have "Q rc v'"
  proof (cases "rc = 0")
    case True
    with law assms(6) [OF stands_oframe [OF assms(1)]] show ?thesis by auto
  next
    case False
    with update_avail [OF inv assms(2) assms(5) m' assms(4) run] stands_rebase(2) [OF assms(1), of flaky]
    have "excused flaky w" by simp
    with law False assms(7) [OF stands_oframe [OF assms(1)]] show ?thesis by auto
  qed
  with run show ?thesis by (simp add: wp_def)
qed

lemma wp_create:
  assumes "at w evs m v" and "s_id s = Some i" and "storable s"
    and "\<And>v'. at w evs (m(i \<mapsto> s)) v' \<Longrightarrow> Q 0 v'"
    and "\<And>v' m'. at w evs m' v' \<Longrightarrow> excused flaky w \<Longrightarrow> m' = m \<or> m' = m(i := None) \<Longrightarrow> Q (-1) v'"
  shows "wp (st_create st (Some s)) Q v"
proof -
  obtain rc v' where run: "run_state (st_create st (Some s)) v = (rc, v')" by fastforce
  from assms(1) have inv: "inv (impl v)" and m: "view (impl v) = m" by (simp_all add: stands_def)
  note law = create_law [OF inv assms(2) assms(3) run, unfolded m]
  have "Q rc v'"
  proof (cases "rc = 0")
    case True
    with law assms(4) [OF stands_oframe [OF assms(1)]] show ?thesis by auto
  next
    case False
    with create_avail [OF inv assms(2) assms(3) run] stands_rebase(2) [OF assms(1), of flaky]
    have "excused flaky w" by simp
    with law False assms(5) [OF stands_oframe [OF assms(1)]] show ?thesis by auto
  qed
  with run show ?thesis by (simp add: wp_def)
qed

lemma wp_delete:
  assumes "at w evs m v"
    and "\<And>v'. at w evs (m(i := None)) v' \<Longrightarrow> Q 0 v'"
    and "\<And>v' m'. at w evs m' v' \<Longrightarrow> excused flaky w \<Longrightarrow> m' = m \<or> m' = m(i := None) \<Longrightarrow> Q (-1) v'"
  shows "wp (st_delete st (Some i)) Q v"
proof -
  obtain rc v' where run: "run_state (st_delete st (Some i)) v = (rc, v')" by fastforce
  from assms(1) have inv: "inv (impl v)" and m: "view (impl v) = m" by (simp_all add: stands_def)
  note law = delete_law [OF inv run, unfolded m]
  have "Q rc v'"
  proof (cases "rc = 0")
    case True
    with law assms(2) [OF stands_oframe [OF assms(1)]] show ?thesis by auto
  next
    case False
    with delete_avail [OF inv run] stands_rebase(2) [OF assms(1), of flaky] have "excused flaky w" by simp
    with law False assms(3) [OF stands_oframe [OF assms(1)]] show ?thesis by auto
  qed
  with run show ?thesis by (simp add: wp_def)
qed

lemma wp_free: "wp (st_free_sessions st xs) Q v = Q () v"
  by (simp add: wp_def free_law)

lemma wp_challenge_again:
  assumes at: "at w evs m v" and i: "s_id s = Some i"
    and ok: "\<And>r v'. at w evs m v' \<Longrightarrow> asks_again w s i r \<Longrightarrow> Q (0, r) v'"
  shows "wp (challenge_again st resp s) Q v"
  unfolding challenge_again_def i
  by (rule wp_bindI, rule wp_mono [OF wp_set_challenge_response])
     (use ok [OF stands_frame [OF at]] in \<open>simp add: wp_bind wp_free wp_return asks_again_def stands_offers [OF at]\<close>)

lemma wp_answer_with:
  assumes "at w evs m v" and "\<And>r v'. at w evs m v' \<Longrightarrow> rs_status r = status \<Longrightarrow> Q (0, r) v'"
  shows "wp (answer_with resp status msg) Q v"
  by (rule wp_step [OF assms(1) framed_answer_with]) (use assms(2) in auto)

lemma wp_answer_gone:
  assumes at: "at w evs m' v1" and g: "gone flaky w v1 m i m'"
    and ok: "\<And>r v'. at w evs m' v' \<Longrightarrow> gone flaky w v' m i m' \<Longrightarrow> rs_status r = status \<Longrightarrow> Q (0, r) v'"
  shows "wp (answer_with resp status msg) Q v1"
  by (rule wp_answer_with [OF stands_from [OF at]])
     (use ok stands_trans [OF at] gone_mono [OF g] in blast)

text \<open>Setting the expiry and reading the clock keep to times that fit.\<close>

lemma wp_step_ttl:
  assumes at: "at w evs m v" and c: "clock_fits fits ttl w" and s: "fits (s_created_at s)"
    and Q: "\<And>s' v'. at w evs m v' \<Longrightarrow> same_but_expiry s s' \<Longrightarrow> storable s' \<Longrightarrow> Q s' v'"
  shows "wp (apply_session_ttl s ttl) Q v"
proof (cases "ttl > 0")
  case True
  have step: "Q (s\<lparr>s_expires_at := wall_clock v n + ttl, s_has_expires := wall_clock v n + ttl \<noteq> 0\<rparr>) v'"
    if "frame v v'" for n v'
  proof (rule Q [OF stands_frame [OF at that]])
    show "storable (s\<lparr>s_expires_at := wall_clock v n + ttl, s_has_expires := wall_clock v n + ttl \<noteq> 0\<rparr>)"
      using c True s stands_fits [OF at, of fits ttl] by (intro storable_if) (auto simp: clock_fits_def)
  qed (simp add: same_but_expiry_def)
  show ?thesis
    unfolding apply_session_ttl_def opendbsc_session_set_expires_at_def option.case
    by (simp add: True, rule wp_bindI, rule wp_mono [OF wp_time_now_at]) (use step in \<open>auto simp: wp_return\<close>)
next
  case False
  have "storable (s\<lparr>s_expires_at := 0, s_has_expires := False\<rparr>)"
    using s fits_zero by (intro storable_if) auto
  with False Q [OF at] show ?thesis
    by (simp add: apply_session_ttl_def wp_return same_but_expiry_def)
qed

lemma wp_step_time:
  assumes "at w evs m v" and "clock_fits fits ttl w"
    and "\<And>t v'. at w evs m v' \<Longrightarrow> fits t \<Longrightarrow> Q t v'"
  shows "wp time_now Q v"
  by (rule wp_mono [OF wp_time_now_at])
     (use stands_frame [OF assms(1)] stands_fits [OF assms(1), of fits ttl] assms(2,3) in
        \<open>auto simp: clock_fits_def\<close>)

text \<open>The storing tail that register and refresh share.\<close>

lemma wp_store_and_answer:
  assumes at: "at w evs m v" and mg: "mgr_ok mg" and i: "s_id s' = Some i" and s: "m i = Some s"
    and cr: "s_created_at s = s_created_at s'" and fit: "storable s'"
    and ok: "\<And>r v' evs'. at w evs' (m(i \<mapsto> s')) v' \<Longrightarrow> logged mg ty i evs evs' \<Longrightarrow> grants mg w s' i r \<Longrightarrow> Q (0, r) v'"
    and fail: "\<And>m' v'. at w evs m' v' \<Longrightarrow> excused flaky w \<Longrightarrow> m' = m \<or> m' = m(i := None) \<Longrightarrow> Q (-1, resp) v'"
  shows "wp (do {
       rc \<leftarrow> st_update st (Some s');
       if rc \<noteq> 0 then do { st_free_sessions st [s']; ret (-1, resp) }
       else do {
         emit_event mg ty user (s_id s') d;
         resp \<leftarrow> success_response E mg s' resp;
         st_free_sessions st [s'];
         ret (0, resp) } }) Q v"
proof (rule wp_bindI, rule wp_update [OF at i s cr fit])
  fix v1 assume v1: "at w evs (m(i \<mapsto> s')) v1"
  have "wp (do { emit_event mg ty user (s_id s') d;
         resp \<leftarrow> success_response E mg s' resp;
         st_free_sessions st [s'];
         ret (0, resp) }) Q v1"
  proof (rule wp_bindI, rule wp_emit [OF v1])
    fix v2 e
    assume v2: "at w (evs @ (if cfg_on_event (mgr_cfg mg) then [e] else [])) (m(i \<mapsto> s')) v2"
      and e: "ev_type e = ty" "ev_session e = s_id s'"
    have lg: "logged mg ty i evs (evs @ (if cfg_on_event (mgr_cfg mg) then [e] else []))"
      unfolding logged_def using e i by (intro exI [of _ e]) simp
    show "wp (do { resp \<leftarrow> success_response E mg s' resp; st_free_sessions st [s']; ret (0, resp) }) Q v2"
      by (rule wp_bindI, rule wp_mono [OF wp_success_response [OF mg i]])
         (use ok [OF stands_frame [OF v2] lg] in
            \<open>simp add: wp_bind wp_free wp_return grants_def stands_got [OF v2] stands_offers [OF v2]\<close>)
  qed
  then show "wp (if (0::int) \<noteq> 0 then do { st_free_sessions st [s']; ret (-1, resp) }
       else do { emit_event mg ty user (s_id s') d;
         resp \<leftarrow> success_response E mg s' resp;
         st_free_sessions st [s'];
         ret (0, resp) }) Q v1" by simp
next
  fix v1 m' assume "at w evs m' v1" "excused flaky w" "m' = m \<or> m' = m(i := None)"
  from fail [OF this] show "wp (if (-1::int) \<noteq> 0 then do { st_free_sessions st [s']; ret (-1, resp) }
       else do { emit_event mg ty user (s_id s') d;
         resp \<leftarrow> success_response E mg s' resp;
         st_free_sessions st [s'];
         ret (0, resp) }) Q v1"
    by (simp add: wp_bind wp_free wp_return)
qed

lemma register_bind_spec:
  assumes at: "at w evs m v" and mg: "mgr_ok mg" and i: "s_id s = Some i" and s: "m i = Some s"
    and clk: "clock_fits fits (cfg_session_ttl (mgr_cfg mg)) w"
    and alg: "p_algorithm q \<noteq> None"
    and ok: "\<And>r v' evs' s'. at w evs' (m(i \<mapsto> s')) v' \<Longrightarrow> bound_from w v' s q s' \<Longrightarrow>
      logged mg ''REGISTER'' i evs evs' \<Longrightarrow> grants mg w s' i r \<Longrightarrow> Q (0, r) v'"
    and fail: "\<And>m' v'. at w evs m' v' \<Longrightarrow> excused flaky w \<Longrightarrow> m' = m \<or> m' = m(i := None) \<Longrightarrow> Q (-1, resp) v'"
  shows "wp (register_bind E mg st resp s q) Q v"
  unfolding register_bind_def Let_def opendbsc_session_set_state_def option.case str_arg_ne [OF alg] bind_left_identity
proof (rule wp_bindI, rule wp_step_setter [OF at attempts_session_setters(3)], clarsimp simp only: prod.case,
    rule wp_bindI, rule wp_step_setter [OF _ attempts_session_setters(4)], assumption, simp only: prod.case,
    rule wp_bindI, rule wp_step_challenge, assumption, goal_cases)
  case (1 v1 rc s1 v2 rc2 s2 v3)
  then show ?case using fail [of m v3] by (simp add: wp_bind wp_free wp_return)
next
  case (2 v1 rc s1 v2 rc2 s2 c v3)
  note b = 2 and base = stands_from [OF 2(5)] and re = stands_rebase [OF 2(5)]
  have clk3: "clock_fits fits (cfg_session_ttl (mgr_cfg mg)) v3" using clk stands_fits [OF 2(5)] by simp
  have created: "fits (s_created_at s2)" using view_fits stands_view [OF at] s b(2,4) by fastforce
  show ?case
    apply (simp only: option.distinct if_False option.sel option.simps simp_thms)
    apply (rule wp_bindI, rule wp_step_setter [OF base attempts_session_setters(5)], simp only: prod.case option.sel)
    apply (rule wp_bindI, rule wp_step_ttl, assumption, rule clk3, force simp: created)
    subgoal premises h for v4 rc4 s4 s' v5
    proof -
      note e = same_but_expiry_sel [OF h(4)]
      have c: "s_challenge s4 = Some c \<or> starved w \<and> s_challenge s4 = s_challenge s2" "s_id s4 = s_id s2"
        "s_user_id s4 = s_user_id s2" "s_created_at s4 = s_created_at s2" "s_state s4 = s_state s2"
        "s_public_key s4 = s_public_key s2" "s_algorithm s4 = s_algorithm s2"
        using h(2) re(1) by auto
      have bound: "bound_from w v' s q s'" if "entropy_reads v3 \<le> entropy_reads v'" for v'
        using b(2,4) fresh_mono [OF b(6) that] c e unfolding bound_from_def by auto
      show ?thesis
      proof (rule wp_store_and_answer [OF h(3) mg _ s _ h(5)])
        show "s_id s' = Some i" "s_created_at s = s_created_at s'" using bound [of v3] i by (simp_all add: bound_from_def)
      next
        fix r v' evs' assume "at v3 evs' (m(i \<mapsto> s')) v'" "logged mg ''REGISTER'' i evs evs'" "grants mg v3 s' i r"
        then show "Q (0, r) v'" using ok stands_trans [OF b(5)] bound re(4) by blast
      qed (use fail stands_trans [OF b(5)] re(2) in blast)
    qed
    done
qed

lemma refresh_extend_spec:
  assumes at: "at w evs m v" and mg: "mgr_ok mg" and i: "s_id s = Some i" and s: "m i = Some s"
    and clk: "clock_fits fits (cfg_session_ttl (mgr_cfg mg)) w"
    and ok: "\<And>r v' evs' s'. at w evs' (m(i \<mapsto> s')) v' \<Longrightarrow> extended_from w v' s s' \<Longrightarrow>
      logged mg ''REFRESH'' i evs evs' \<Longrightarrow> grants mg w s' i r \<Longrightarrow> Q (0, r) v'"
    and fail: "\<And>m' v'. at w evs m' v' \<Longrightarrow> excused flaky w \<Longrightarrow> m' = m \<or> m' = m(i := None) \<Longrightarrow> Q (-1, resp) v'"
  shows "wp (refresh_extend E mg st resp s) Q v"
  unfolding refresh_extend_def
proof (rule wp_bindI, rule wp_step_challenge [OF at], goal_cases)
  case (1 v1)
  then show ?case using fail [of m v1] by (simp add: wp_bind wp_free wp_return)
next
  case b: (2 c v1)
  note base = stands_from [OF b(1)] and re = stands_rebase [OF b(1)]
  have clk1: "clock_fits fits (cfg_session_ttl (mgr_cfg mg)) v1" using clk stands_fits [OF b(1)] by simp
  have created: "fits (s_created_at s)" using view_fits stands_view [OF at] s by fastforce
  show ?case
    apply (simp only: option.distinct if_False simp_thms)
    apply (rule wp_bindI, rule wp_step_setter [OF base attempts_session_setters(5)], simp only: prod.case option.sel)
    apply (rule wp_bindI, rule wp_step_ttl, assumption, rule clk1, force simp: created)
    subgoal premises h for v2 rc s1 s' v3
    proof -
      have ext: "extended_from w v' s s'" if "entropy_reads v1 \<le> entropy_reads v'" for v'
        using h(2) fresh_mono [OF b(2) that] same_but_expiry_sel [OF h(4)] re(1)
        unfolding extended_from_def by auto
      show ?thesis
      proof (rule wp_store_and_answer [OF h(3) mg _ s _ h(5)])
        show "s_id s' = Some i" "s_created_at s = s_created_at s'" using ext [of v1] i by (simp_all add: extended_from_def)
      next
        fix r v' evs' assume "at v1 evs' (m(i \<mapsto> s')) v'" "logged mg ''REFRESH'' i evs evs'" "grants mg v1 s' i r"
        then show "Q (0, r) v'" using ok stands_trans [OF b(1)] ext re(4) by blast
      qed (use fail stands_trans [OF b(1)] re(2) in blast)
    qed
    done
qed

text \<open>
  The checks on a proof for a fetched session \<open>s\<close> whose challenge is \<open>c\<close>: either the challenge goes
  out again or the request is granted, or a failed allocation stopped it.
\<close>

lemma register_proof_spec:
  assumes at: "at w evs m v" and mg: "mgr_ok mg" and i: "s_id s = Some i" and s: "m i = Some s"
    and clk: "clock_fits fits (cfg_session_ttl (mgr_cfg mg)) w"
    and c: "s_challenge s = Some c"
    and again: "\<And>r v'. at w evs m v' \<Longrightarrow> starved w \<or> (\<forall>a. \<not> registration_accepts E mg s hdr a a) \<Longrightarrow>
      asks_again w s i r \<Longrightarrow> Q (0, r) v'"
    and ok: "\<And>r v' evs' s' a q. at w evs' (m(i \<mapsto> s')) v' \<Longrightarrow> registration_accepts E mg s hdr a q \<Longrightarrow>
      starved w \<or> q = a \<Longrightarrow> bound_from w v' s q s' \<Longrightarrow> logged mg ''REGISTER'' i evs evs' \<Longrightarrow>
      grants mg w s' i r \<Longrightarrow> Q (0, r) v'"
    and fail: "\<And>m' v'. at w evs m' v' \<Longrightarrow> excused flaky w \<Longrightarrow> m' = m \<or> m' = m(i := None) \<Longrightarrow> Q (-1, resp) v'"
  shows "wp (register_proof E mg st resp s hdr) Q v"
proof (cases "nonempty hdr")
  case False
  then show ?thesis
    unfolding register_proof_def
    by (simp, intro wp_challenge_again [OF at i] again) (auto simp: registration_accepts_def)
next
  case True
  then obtain t where t: "hdr = Some t" "t \<noteq> []" by (cases hdr) auto
  show ?thesis
    unfolding register_proof_def t(1)
  proof (simp only: t nonempty_simps not_not simp_thms if_False, rule wp_bindI,
      rule wp_step_register_proof [OF at], goal_cases)
    case (1 v2 q a)
    from jwt_claims_alg [OF 1(2)] 1(3) obtain d where d: "p_challenge q = Some d" and alg: "p_algorithm q \<noteq> None"
      by (auto simp: partial_of_def)
    have same: "(if p_challenge q = None then ret False
        else strcmp_eq (p_challenge q) (s_challenge s)) = (ret (d = c) :: ('a sys, bool) state)"
      by (simp add: c d)
    have auth: "(if cfg_authorization (mgr_cfg mg) = None then ret True
        else if p_authorization q = None then ret False
        else strcmp_eq (p_authorization q) (cfg_authorization (mgr_cfg mg))) =
        (ret (cfg_authorization (mgr_cfg mg) = None \<or> p_authorization q = cfg_authorization (mgr_cfg mg))
          :: ('a sys, bool) state)"
      by (cases "cfg_authorization (mgr_cfg mg)"; cases "p_authorization q") auto
    have acc: "registration_accepts E mg s hdr a q \<longleftrightarrow> d = c \<and>
        (cfg_authorization (mgr_cfg mg) = None \<or> p_authorization q = cfg_authorization (mgr_cfg mg))"
      using 1(2-4) t c d by (simp add: registration_accepts_def)
    have bind: "wp (register_bind E mg st resp s q) Q v2" if a: "registration_accepts E mg s hdr a q"
      by (rule register_bind_spec [OF 1(1) mg i s clk alg]) (use ok [OF _ a 1(5)] fail in blast)+
    have refuse: "wp (challenge_again st resp s) Q v2" if "\<not> registration_accepts E mg s hdr a q"
    proof -
      have "starved w \<or> (\<forall>b. \<not> registration_accepts E mg s hdr b b)"
        using that 1(2,5) t by (auto simp: registration_accepts_def)
      then show ?thesis by (intro wp_challenge_again [OF 1(1) i] again)
    qed
    show ?case
      using bind refuse unfolding prod.case option.case same auth acc by auto
  next
    case (2 v2 out)
    have no: "starved w \<or> (\<forall>b. \<not> registration_accepts E mg s hdr b b)"
      using 2(2) t by (auto simp: registration_accepts_def)
    have "wp (challenge_again st resp s) Q v2" by (intro wp_challenge_again [OF 2(1) i] again no)
    then show ?case by simp
  qed
qed

lemma refresh_proof_spec:
  assumes at: "at w evs m v" and mg: "mgr_ok mg" and i: "s_id s = Some i" and s: "m i = Some s"
    and clk: "clock_fits fits (cfg_session_ttl (mgr_cfg mg)) w"
    and c: "s_challenge s = Some c"
    and again: "\<And>r v'. at w evs m v' \<Longrightarrow> starved w \<or> (\<forall>a. \<not> refresh_accepts E s hdr a a) \<Longrightarrow>
      asks_again w s i r \<Longrightarrow> Q (0, r) v'"
    and ok: "\<And>r v' evs' s' a q. at w evs' (m(i \<mapsto> s')) v' \<Longrightarrow> refresh_accepts E s hdr a q \<Longrightarrow>
      starved w \<or> q = a \<Longrightarrow> extended_from w v' s s' \<Longrightarrow> logged mg ''REFRESH'' i evs evs' \<Longrightarrow>
      grants mg w s' i r \<Longrightarrow> Q (0, r) v'"
    and fail: "\<And>m' v'. at w evs m' v' \<Longrightarrow> excused flaky w \<Longrightarrow> m' = m \<or> m' = m(i := None) \<Longrightarrow> Q (-1, resp) v'"
  shows "wp (refresh_proof E mg st resp s hdr) Q v"
proof (cases "nonempty hdr \<and> s_public_key s \<noteq> None")
  case False
  then have "wp (challenge_again st resp s) Q v"
    by (intro wp_challenge_again [OF at i] again) (auto simp: refresh_accepts_def)
  with False show ?thesis
    unfolding refresh_proof_def by auto
next
  case True
  then obtain t kj where t: "hdr = Some t" "t \<noteq> []" and kj: "s_public_key s = Some kj" by (cases hdr) auto
  show ?thesis
    unfolding refresh_proof_def t(1) kj
  proof (simp only: t nonempty_simps not_not simp_thms if_False option.distinct, rule wp_bindI,
      rule wp_step_refresh_proof [OF at], goal_cases)
    case (1 v2 q a)
    from jwt_claims_alg [OF 1(2)] 1(3) obtain d where d: "p_challenge q = Some d"
      by (auto simp: partial_of_def)
    have same: "(if p_challenge q = None then ret False
        else strcmp_eq (p_challenge q) (s_challenge s)) = (ret (d = c) :: ('a sys, bool) state)"
      by (simp add: c d)
    have acc: "refresh_accepts E s hdr a q \<longleftrightarrow> d = c"
      using 1(2-4) t kj c d by (simp add: refresh_accepts_def)
    have extend: "wp (refresh_extend E mg st resp s) Q v2" if a: "refresh_accepts E s hdr a q"
      by (rule refresh_extend_spec [OF 1(1) mg i s clk]) (use ok [OF _ a 1(5)] fail in blast)+
    have refuse: "wp (challenge_again st resp s) Q v2" if "\<not> refresh_accepts E s hdr a q"
    proof -
      have "starved w \<or> (\<forall>b. \<not> refresh_accepts E s hdr b b)"
        using that 1(2,5) t by (auto simp: refresh_accepts_def)
      then show ?thesis by (intro wp_challenge_again [OF 1(1) i] again)
    qed
    show ?case
      using extend refuse unfolding prod.case option.case same acc by auto
  next
    case (2 v2 out)
    have no: "starved w \<or> (\<forall>b. \<not> refresh_accepts E s hdr b b)"
      using 2(2) t kj by (auto simp: refresh_accepts_def)
    have "wp (challenge_again st resp s) Q v2" by (intro wp_challenge_again [OF 2(1) i] again no)
    then show ?case by simp
  qed
qed

text \<open>The requests implement their specifications.\<close>

lemma wp_fetch:
  assumes at: "at w evs m w"
    and ok: "\<And>v s. at w evs m v \<Longrightarrow> at v evs m v \<Longrightarrow> m i = Some s \<Longrightarrow> s_id s = Some i \<Longrightarrow>
      live_between w v s \<Longrightarrow> wp (f s) Q v"
    and unknown: "\<And>r v m'. at w evs m' v \<Longrightarrow> gone flaky w v m i m' \<Longrightarrow> rs_status r = 401 \<Longrightarrow> Q (0, r) v"
  shows "wp (do {
      (rc, session) \<leftarrow> st_get st (Some i);
      if rc \<noteq> 0 then answer_with resp 401 ''invalid session''
      else (case session of None \<Rightarrow> ub (-1, resp) | Some s \<Rightarrow> f s) }) Q w"
proof (rule wp_bindI, rule wp_get [OF at], goal_cases)
  case (1 v s)
  then show ?case using ok [OF 1(1) stands_from [OF 1(1)] 1(2-4)] by simp
next
  case (2 v m')
  have "wp (answer_with resp 401 ''invalid session'') Q v"
    by (rule wp_answer_gone [OF 2]) (rule unknown)
  then show ?case by simp
qed

lemma response_start: "rs_status (the (opendbsc_manager_response_init (Some resp))) = 0"
  by (simp add: opendbsc_manager_response_init_def)

lemma register_proof_step:
  assumes u: "at w evs m u" "at u evs m u" "live_between w u s" and mg: "mgr_ok mg"
    and clk: "clock_fits fits (cfg_session_ttl (mgr_cfg mg)) w"
    and s: "m i = Some s" "s_id s = Some i" "s_challenge s = Some c" "s_state s = ACTIVE" and r0: "rs_status r0 = 0"
  shows "wp (register_proof E mg st r0 s hdr) (\<lambda>(rc, r) v'. \<exists>m' evs'. at w evs' m' v' \<and>
     register_step flaky E mg w v' (Some i) hdr (m, evs) rc r (m', evs')) u" (is "wp _ ?Q u")
proof (rule register_proof_spec [OF u(2) mg s(2,1) _ s(3)])
  show "clock_fits fits (cfg_session_ttl (mgr_cfg mg)) u" using clk stands_fits [OF u(1)] by simp
next
  fix r v'
  assume "at u evs m v'" "starved u \<or> (\<forall>a. \<not> registration_accepts E mg s hdr a a)" "asks_again u s i r"
  with stands_trans [OF u(1)] register_step.challenged [of "Some i" i m s, OF refl s(1,4)]
  show "?Q (0, r) v'" unfolding stands_rebase [OF u(1)] by blast
next
  fix r v' evs' s' a q
  assume v': "at u evs' (m(i \<mapsto> s')) v'" and acc: "registration_accepts E mg s hdr a q" "starved u \<or> q = a"
    and b: "bound_from u v' s q s'" "logged mg ''REGISTER'' i evs evs'" "grants mg u s' i r"
  from stands_trans [OF u(1) v'] live_mono [OF u(3)]
  have "at w evs' (m(i \<mapsto> s')) v'" "live_between w v' s" by auto
  with register_step.bound [of "Some i" i m s, OF refl s(1,4) _ acc [unfolded stands_rebase [OF u(1)]] _ b(2) b(3) [unfolded stands_rebase [OF u(1)]]]
    stands_bound [OF u(1) b(1)]
  show "?Q (0, r) v'" by blast
next
  fix m' v' assume "at u evs m' v'" "excused flaky u" "m' = m \<or> m' = m(i := None)"
  with stands_trans [OF u(1)] register_step.failed [of "Some i" i flaky w m' m, OF refl _ _ r0]
  show "?Q (-1, r0) v'" unfolding stands_rebase [OF u(1)] by blast
qed

lemma register_spec:
  assumes at: "at w evs m w" and mg: "mgr_ok mg" and st: "cfg_store (mgr_cfg mg) = Some st"
    and clk: "clock_fits fits (cfg_session_ttl (mgr_cfg mg)) w"
    and ch: "\<And>i s. m i = Some s \<Longrightarrow> s_challenge s \<noteq> None"
  shows "wp (opendbsc_manager_register E (Some mg) ck hdr resp) (\<lambda>(rc, r) v'. \<exists>m' evs'.
     at w evs' m' v' \<and> register_step flaky E mg w v' ck hdr (m, evs) rc r (m', evs')) w"
proof (cases "nonempty ck")
  case False
  then show ?thesis
    unfolding opendbsc_manager_register_def option.case Let_def
    by (simp, intro wp_answer_with [OF at]) (auto intro!: exI register_step.no_cookie)
next
  case True
  then obtain i where ck: "ck = Some i" by (cases ck) auto
  let ?Q = "\<lambda>(rc, r) v'. \<exists>m' evs'. at w evs' m' v' \<and>
     register_step flaky E mg w v' (Some i) hdr (m, evs) rc r (m', evs')"
  show ?thesis
    unfolding opendbsc_manager_register_def option.case Let_def with_store_def st
    apply (simp only: ck True [unfolded ck] not_True_eq_False if_False)
    apply (rule wp_fetch [OF at])
    subgoal premises h for u s
    proof (cases "s_state s = ACTIVE")
      case False
      have "wp (answer_with (the (opendbsc_manager_response_init (Some resp))) 400
          ''session is not in active state for registration'') ?Q u"
        by (rule wp_answer_with [OF h(1)])
          (use register_step.wrong_state [of "Some i" i m s, OF refl h(3) False] in blast)
      with False show ?thesis by (simp add: wp_bind wp_free)
    next
      case True
      from ch [OF h(3)] obtain c where "s_challenge s = Some c" by blast
      from register_proof_step [OF h(1,2,5) mg clk h(3,4) this True response_start] True show ?thesis by simp
    qed
    subgoal for r v m' using register_step.unknown [of "Some i" i, OF refl, where m' = m' and m = m] by blast
    done
qed

lemma refresh_proof_step:
  assumes u: "at w evs m u" "at u evs m u" "live_between w u s" and mg: "mgr_ok mg"
    and clk: "clock_fits fits (cfg_session_ttl (mgr_cfg mg)) w"
    and s: "m i = Some s" "s_id s = Some i" "s_challenge s = Some c" "s_state s = BOUND" and r0: "rs_status r0 = 0"
  shows "wp (refresh_proof E mg st r0 s hdr) (\<lambda>(rc, r) v'. \<exists>m' evs'. at w evs' m' v' \<and>
     refresh_step flaky E mg w v' (Some i) hdr (m, evs) rc r (m', evs')) u" (is "wp _ ?Q u")
proof (rule refresh_proof_spec [OF u(2) mg s(2,1) _ s(3)])
  show "clock_fits fits (cfg_session_ttl (mgr_cfg mg)) u" using clk stands_fits [OF u(1)] by simp
next
  fix r v'
  assume "at u evs m v'" "starved u \<or> (\<forall>a. \<not> refresh_accepts E s hdr a a)" "asks_again u s i r"
  with stands_trans [OF u(1)] refresh_step.challenged [of "Some i" i m s, OF refl s(1,4)]
  show "?Q (0, r) v'" unfolding stands_rebase [OF u(1)] by blast
next
  fix r v' evs' s' a q
  assume v': "at u evs' (m(i \<mapsto> s')) v'" and acc: "refresh_accepts E s hdr a q" "starved u \<or> q = a"
    and b: "extended_from u v' s s'" "logged mg ''REFRESH'' i evs evs'" "grants mg u s' i r"
  from stands_trans [OF u(1) v'] live_mono [OF u(3)]
  have "at w evs' (m(i \<mapsto> s')) v'" "live_between w v' s" by auto
  with refresh_step.extended [of "Some i" i m s, OF refl s(1,4) _ acc [unfolded stands_rebase [OF u(1)]] _ b(2) b(3) [unfolded stands_rebase [OF u(1)]]]
    stands_extended [OF u(1) b(1)]
  show "?Q (0, r) v'" by blast
next
  fix m' v' assume "at u evs m' v'" "excused flaky u" "m' = m \<or> m' = m(i := None)"
  with stands_trans [OF u(1)] refresh_step.failed [of "Some i" i flaky w m' m, OF refl _ _ r0]
  show "?Q (-1, r0) v'" unfolding stands_rebase [OF u(1)] by blast
qed

lemma refresh_spec:
  assumes at: "at w evs m w" and mg: "mgr_ok mg" and st: "cfg_store (mgr_cfg mg) = Some st"
    and clk: "clock_fits fits (cfg_session_ttl (mgr_cfg mg)) w"
    and ch: "\<And>i s. m i = Some s \<Longrightarrow> s_challenge s \<noteq> None"
  shows "wp (opendbsc_manager_refresh E (Some mg) ck hdr resp) (\<lambda>(rc, r) v'. \<exists>m' evs'.
     at w evs' m' v' \<and> refresh_step flaky E mg w v' ck hdr (m, evs) rc r (m', evs')) w"
proof (cases "nonempty ck")
  case False
  then show ?thesis
    unfolding opendbsc_manager_refresh_def option.case Let_def
    by (simp, intro wp_answer_with [OF at]) (auto intro!: exI refresh_step.no_id)
next
  case True
  then obtain i where ck: "ck = Some i" by (cases ck) auto
  let ?Q = "\<lambda>(rc, r) v'. \<exists>m' evs'. at w evs' m' v' \<and>
     refresh_step flaky E mg w v' (Some i) hdr (m, evs) rc r (m', evs')"
  show ?thesis
    unfolding opendbsc_manager_refresh_def option.case Let_def with_store_def st
    apply (simp only: ck True [unfolded ck] not_True_eq_False if_False)
    apply (rule wp_fetch [OF at])
    subgoal premises h for u s
    proof (cases "s_state s = BOUND")
      case False
      have "wp (answer_with (the (opendbsc_manager_response_init (Some resp))) 400
          ''session is not bound'') ?Q u"
        by (rule wp_answer_with [OF h(1)])
          (use refresh_step.wrong_state [of "Some i" i m s, OF refl h(3) False] in blast)
      with False show ?thesis by (simp add: wp_bind wp_free)
    next
      case True
      from ch [OF h(3)] obtain c where "s_challenge s = Some c" by blast
      from refresh_proof_step [OF h(1,2,5) mg clk h(3,4) this True response_start] True show ?thesis by simp
    qed
    subgoal for r v m' using refresh_step.unknown [of "Some i" i, OF refl, where m' = m' and m = m] by blast
    done
qed

lemma wp_give_up: "wp (do { st_free_sessions st xs; ret r }) Q v = Q r v"
  by (simp add: wp_bind wp_free wp_return)

lemma close_delete_spec:
  assumes at: "at w evs m u" and mg: "mgr_ok mg"
    and ok: "\<And>evs' r v'. at w evs' (m(i := None)) v' \<Longrightarrow> logged mg ''CLOSE'' i evs evs' \<Longrightarrow> rs_status r = 200 \<Longrightarrow>
      got w (rs_set_cookie r) (cookie_text mg i 0) \<Longrightarrow> Q (0, r) v'"
    and fail: "\<And>m' r v'. at w evs m' v' \<Longrightarrow> excused flaky w \<Longrightarrow> m' = m \<or> m' = m(i := None) \<Longrightarrow>
      rs_status r \<in> {0, 200} \<Longrightarrow> Q (-1, r) v'"
  shows "wp (do {
      cookie \<leftarrow> build_set_cookie_with_max_age mg (Some i) 0;
      rc \<leftarrow> st_delete st (Some i);
      if rc \<noteq> 0 then do { st_free_sessions st [s]; ret (-1, r0\<lparr>rs_set_cookie := cookie, rs_body := body, rs_status := 200\<rparr>) }
      else do {
        emit_event mg ''CLOSE'' user (Some i) ''session closed'';
        st_free_sessions st [s];
        ret (0, r0\<lparr>rs_set_cookie := cookie, rs_body := body, rs_status := 200\<rparr>) } }) Q u"
proof (rule wp_bindI, rule wp_attempts [OF attempts_cookie [OF mg]], goal_cases)
  case (1 cookie u1)
  note at1 = stands_frame [OF at 1(1)]
  have cookie: "got w cookie (cookie_text mg i 0)" using 1(2) stands_starved [OF at] by (auto simp: got_def)
  show ?case
  proof (rule wp_bindI, rule wp_delete [OF at1], goal_cases)
    case (1 u2)
    have "wp (do { emit_event mg ''CLOSE'' user (Some i) ''session closed'';
        st_free_sessions st [s];
        ret (0, r0\<lparr>rs_set_cookie := cookie, rs_body := body, rs_status := 200\<rparr>) }) Q u2"
    proof (rule wp_bindI, rule wp_emit [OF 1])
      fix v' e
      assume v': "at w (evs @ (if cfg_on_event (mgr_cfg mg) then [e] else [])) (m(i := None)) v'"
        and e: "ev_type e = ''CLOSE''" "ev_session e = Some i"
      have "logged mg ''CLOSE'' i evs (evs @ (if cfg_on_event (mgr_cfg mg) then [e] else []))"
        unfolding logged_def using e by (intro exI [of _ e]) simp
      from ok [OF v' this] cookie show "wp (do { st_free_sessions st [s];
        ret (0, r0\<lparr>rs_set_cookie := cookie, rs_body := body, rs_status := 200\<rparr>) }) Q v'"
        by (simp add: wp_give_up)
    qed
    then show ?case by simp
  next
    case (2 u2 m')
    then show ?case using fail [OF 2] by (simp add: wp_give_up)
  qed
qed

lemma close_session_spec:
  assumes at: "at w evs m u" and mg: "mgr_ok mg" and s: "m i = Some s" "s_id s = Some i" and r0: "rs_status r0 = 0"
    and ok: "\<And>evs' r v'. at w evs' (m(i := None)) v' \<Longrightarrow> logged mg ''CLOSE'' i evs evs' \<Longrightarrow> rs_status r = 200 \<Longrightarrow>
      got w (rs_set_cookie r) (cookie_text mg i 0) \<Longrightarrow> Q (0, r) v'"
    and fail: "\<And>m' r v'. at w evs m' v' \<Longrightarrow> excused flaky w \<Longrightarrow> m' = m \<or> m' = m(i := None) \<Longrightarrow>
      rs_status r \<in> {0, 200} \<Longrightarrow> Q (-1, r) v'"
  shows "wp (close_session E mg st r0 s (Some i)) Q u"
  unfolding close_session_def Let_def s(2)
proof (rule wp_bindI, rule wp_attempts [OF attempts_copy_string], goal_cases)
  case (1 user u1)
  note at1 = stands_frame [OF at 1(1)]
  have stop: "Q (-1, r0) v" if "at w evs m v" "starved w" for v
    using fail [OF that(1)] that(2) r0 by simp
  show ?case
  proof (cases "s_user_id s \<noteq> None \<and> user = None")
    case True
    then show ?thesis
      using stop [OF at1] 1(2) stands_starved [OF at] by (auto simp: wp_give_up)
  next
    case False
    show ?thesis
      unfolding if_not_P [OF False]
    proof (rule wp_bindI, rule wp_attempts [OF attempts_close_body], goal_cases)
      case (1 body u2)
      note at2 = stands_frame [OF at1 1(1)]
      show ?case
      proof (cases body)
        case None
        then show ?thesis using stop [OF at2] 1(2) stands_starved [OF at1] by (simp add: wp_give_up)
      next
        case (Some b)
        then show ?thesis using close_delete_spec [OF at2 mg ok fail] by simp
      qed
    qed
  qed
qed

lemma close_spec:
  assumes at: "at w evs m w" and mg: "mgr_ok mg" and st: "cfg_store (mgr_cfg mg) = Some st"
  shows "wp (opendbsc_manager_close E (Some mg) ck resp) (\<lambda>(rc, r) v'. \<exists>m' evs'.
     at w evs' m' v' \<and> close_step flaky mg w v' ck (m, evs) rc r (m', evs')) w"
proof (cases "nonempty ck")
  case False
  then show ?thesis
    unfolding opendbsc_manager_close_def option.case Let_def
    by (simp, intro wp_answer_with [OF at]) (auto intro!: exI close_step.no_id)
next
  case True
  then obtain i where ck: "ck = Some i" by (cases ck) auto
  let ?Q = "\<lambda>(rc, r) v'. \<exists>m' evs'. at w evs' m' v' \<and> close_step flaky mg w v' (Some i) (m, evs) rc r (m', evs')"
  show ?thesis
    unfolding opendbsc_manager_close_def option.case Let_def with_store_def st
    apply (simp only: ck True [unfolded ck] not_True_eq_False if_False)
    apply (rule wp_fetch [OF at])
    subgoal premises h for u s
    proof (rule close_session_spec [OF h(1) mg h(3,4) response_start])
      fix evs' v' and r :: OpenDBSC_ManagerResponse
      assume "at w evs' (m(i := None)) v'" "logged mg ''CLOSE'' i evs evs'" "rs_status r = 200"
        "got w (rs_set_cookie r) (cookie_text mg i 0)"
      with close_step.closed [of "Some i" i m mg evs evs' r w flaky v'] h(3) show "?Q (0, r) v'" by auto
    next
      fix m' v' and r :: OpenDBSC_ManagerResponse
      assume "at w evs m' v'" "excused flaky w" "m' = m \<or> m' = m(i := None)" "rs_status r \<in> {0, 200}"
      with close_step.failed [of "Some i" i flaky w m' m r mg v' evs] show "?Q (-1, r) v'" by blast
    qed
    subgoal for r v m' using close_step.unknown [of "Some i" i, OF refl, where m' = m' and m = m] by blast
    done
qed

lemma framed_copy_out:
  "framed (case out0 of None \<Rightarrow> ret None | Some o' \<Rightarrow> do {
     (rc, o') \<leftarrow> opendbsc_session_copy (Some o') (Some s); ret o' }) (\<lambda>out. (out = None) = (out0 = None))"
  by (cases out0) (auto intro!: framed_return framed_bind [OF framed_session_copy])

lemma returns_copy_out:
  "returns (case out0 of None \<Rightarrow> ret None | Some o' \<Rightarrow> do {
     (rc, o') \<leftarrow> opendbsc_session_copy (Some o') (Some s); ret o' }) (if out0 = None then None else Some s)"
  by (cases out0) (auto intro!: returns_returnI returns_bind [OF returns_session_copy])

lemma login_answer_spec:
  assumes at: "at w evs m u" and mg: "mgr_ok mg" and i: "s_id s = Some i"
    and ok: "\<And>out r v' evs'. at w evs' m v' \<Longrightarrow> logged mg ''LOGIN'' i evs evs' \<Longrightarrow> invites mg w s i r \<Longrightarrow>
      handed_out w out0 s out \<Longrightarrow> Q (0, out, r) v'"
  shows "wp (login_answer mg user out0 s r0) Q u"
proof -
  have two: "2 = length [''ES256'', ''RS256'']" "[Some ''ES256'', Some ''RS256''] = map Some [''ES256'', ''RS256'']"
    by simp_all
  show ?thesis
    unfolding login_answer_def Let_def build_set_cookie_def i
    apply (rule wp_bindI, rule wp_attempts [OF attempts_cookie [OF mg]])
    apply (subst two(1), subst two(2))
    apply (rule wp_bindI, rule wp_attempts [OF attempts_registration])
    apply (rule wp_bindI, rule wp_framed_avail [OF framed_copy_out returns_copy_out])
    subgoal premises h for cookie u1 header u2 out u3
    proof -
      have at3: "at w evs m u3"
        by (rule stands_frame [OF stands_frame [OF stands_frame [OF at h(1)] h(3)] h(5)])
      have inv: "invites mg w s i (r0\<lparr>rs_set_cookie := cookie, rs_registration := header, rs_status := 200\<rparr>)"
        using h(2,4) stands_starved [OF at] frame_starved [OF h(1)] by (auto simp: invites_def got_def)
      show ?thesis
      proof (rule wp_bindI, rule wp_emit [OF at3])
        fix v' e
        assume v': "at w (evs @ (if cfg_on_event (mgr_cfg mg) then [e] else [])) m v'"
          and e: "ev_type e = ''LOGIN''" "ev_session e = Some i"
        have "logged mg ''LOGIN'' i evs (evs @ (if cfg_on_event (mgr_cfg mg) then [e] else []))"
          unfolding logged_def using e by (intro exI [of _ e]) simp
        moreover have "handed_out w out0 s out"
          using h(6,7) stands_starved [OF at3] stands_starved [OF at] frame_starved [OF h(1)] frame_starved [OF h(3)]
          by (auto simp: handed_out_def)
        ultimately have "Q (0, out, r0\<lparr>rs_set_cookie := cookie, rs_registration := header, rs_status := 200\<rparr>) v'"
          by (intro ok [OF v' _ inv])
        then show "wp (ret (0, out, r0\<lparr>rs_set_cookie := cookie,
            rs_registration := header, rs_status := 200\<rparr>)) Q v'" by (simp add: wp_return)
      qed
    qed
    done
qed

lemma login_store_spec:
  assumes at: "at w evs m u" and mg: "mgr_ok mg" and st: "cfg_store (mgr_cfg mg) = Some st"
    and clk: "clock_fits fits (cfg_session_ttl (mgr_cfg mg)) w"
    and s: "s_id s = Some i \<or> s_id s = None \<and> starved w" "s_challenge s = None"
    "s_user_id s = Some user \<or> s_user_id s = None \<and> starved w" "s_state s = ACTIVE" "s_public_key s = None"
    "s_algorithm s = None"
    and ok: "\<And>out r v' evs' s'. at w evs' (m(i \<mapsto> s')) v' \<Longrightarrow> login_of w v' user i s' \<Longrightarrow>
      logged mg ''LOGIN'' i evs evs' \<Longrightarrow> invites mg w s' i r \<Longrightarrow>
      handed_out w out0 s' out \<Longrightarrow> Q (0, out, r) v'"
    and fail: "\<And>v' out m'. at w evs m' v' \<Longrightarrow> excused flaky w \<Longrightarrow> m' = m \<or> m' = m(i := None) \<Longrightarrow> Q (-1, out, r0) v'"
  shows "wp (login_store mg user out0 (Some s) r0) Q u"
  unfolding login_store_def
proof (rule wp_bindI, rule wp_step_challenge [OF at], goal_cases)
  case (1 v)
  then show ?case using fail [OF 1(1)] by (simp add: wp_return)
next
  case (2 c v)
  note base = stands_from [OF 2(1)] and re = stands_rebase [OF 2(1)]
  have clk1: "clock_fits fits (cfg_session_ttl (mgr_cfg mg)) v" using clk stands_fits [OF 2(1)] by simp
  show ?case
    unfolding with_store_def st option.case
    apply (simp only: option.distinct if_False simp_thms)
    apply (rule wp_bindI, rule wp_step_setter [OF base attempts_session_setters(5)], simp only: prod.case)
    apply (rule wp_bindI, rule wp_step_time [OF _ clk1], assumption)
    apply (simp only: Let_def, rule wp_bindI, rule wp_step_ttl [OF _ clk1], assumption,
        simp add: opendbsc_session_set_created_at_def)
    subgoal premises h for v1 rc s1 now v2 s' v3
    proof -
      have s': "s_id s' = s_id s" and login: "s_id s = Some i \<Longrightarrow> entropy_reads v \<le> entropy_reads v' \<Longrightarrow> login_of w v' user i s'" for v'
        using same_but_expiry_sel [OF h(6)] h(2) s fresh_mono [OF 2(2)] re(1)
        by (auto simp: opendbsc_session_set_created_at_def login_of_def)
      show ?thesis
      proof (cases "s_id s")
        case None
        then have "run_state (st_create st (Some s')) v3 = (-1, v3)" "starved w"
          using s' s(1) by (simp_all add: create_anon)
        then show ?thesis
          using fail [OF conjunct1 [OF stands_trans [OF 2(1) h(5)]]] by (simp add: wp_bind wp_return wp_def [of "st_create st (Some s')"])
      next
        case (Some j)
        with s(1) have j: "s_id s = Some i" by simp
        then have i': "s_id s' = Some i" using s' by simp
        show ?thesis
        proof (rule wp_bindI, rule wp_create [OF h(5) i' h(7)], goal_cases)
          case (1 v4)
          have "wp (login_answer mg user out0 s' r0) Q v4"
            by (rule login_answer_spec [OF 1 mg i']) (use ok stands_trans [OF 2(1)] login [OF j] re(5) handed_rebase [OF 2(1)] in blast)
          then show ?case by simp
        next
          case (2 v4 m')
          then have "Q (-1, out0, r0) v4" using fail stands_trans [OF \<open>at w evs m v\<close>] re(2) by blast
          then show ?case by (simp add: wp_return)
        qed
      qed
    qed
    done
qed

lemma wp_new_id:
  assumes "at w evs m w" and "\<And>u. length (uuidv7_to_string U u) = 36"
  shows "wp (opendbsc_session_new_id U (Some 37)) (\<lambda>(rc, t) v. at w evs m v \<and>
     (rc \<noteq> 0 \<and> new_id_fails U w \<or> rc = 0 \<and> (\<exists>u. t = uuidv7_to_string U u))) w"
proof -
  obtain rc t v where run: "run_state (opendbsc_session_new_id U (Some 37)) w = ((rc, t), v)" by (metis prod.exhaust)
  from framedD [OF framed_session_new_id [OF assms(2)] run] stands_frame [OF assms(1)] session_new_id_fails [OF run]
  show ?thesis by (auto simp: wp_def run)
qed

lemma initiate_spec:
  assumes at: "at w evs m w" and mg: "mgr_ok mg" and st: "cfg_store (mgr_cfg mg) = Some st"
    and clk: "clock_fits fits (cfg_session_ttl (mgr_cfg mg)) w"
    and len: "\<And>u. length (uuidv7_to_string (ext_uuid E) u) = 36"
  shows "wp (opendbsc_manager_initiate E (Some mg) (Some user) out resp) (\<lambda>(rc, out', r) v'. \<exists>m' evs'.
     at w evs' m' v' \<and> initiate_step flaky E mg w v' user (m, evs) rc r (m', evs') \<and>
     (rc = 0 \<longrightarrow> (\<exists>i s. s_id s = Some i \<and> m' i = Some s \<and> handed_out w out s out'))) w" (is "wp _ ?Q w")
  unfolding opendbsc_manager_initiate_def prod.case option.case Let_def
proof (rule wp_bindI, rule wp_mono [OF wp_new_id [OF at len]], clarsimp simp only: prod.case, goal_cases)
  case (1 rc sid v)
  let ?r0 = "the (opendbsc_manager_response_init (Some resp))"
  show ?case
  proof (cases "rc = 0")
    case False
    then show ?thesis
      using 1 initiate_step.no_identifier [OF _ response_start, of E w flaky mg v user m evs resp]
      by (auto simp: wp_return)
  next
    case True
    with 1(2) obtain u where u: "sid = uuidv7_to_string (ext_uuid E) u" by auto
    have store: "wp (login_store mg user out (Some s) ?r0) ?Q v2"
      if at2: "at w evs m v2" and s: "s_id s = Some sid \<or> s_id s = None \<and> starved w" "s_challenge s = None"
        "s_user_id s = Some user \<or> s_user_id s = None \<and> starved w" "s_state s = ACTIVE" "s_public_key s = None"
        "s_algorithm s = None" for s v2
    proof (rule login_store_spec [OF at2 mg st clk s])
      fix out' v' evs' s' and r :: OpenDBSC_ManagerResponse
      assume "at w evs' (m(sid \<mapsto> s')) v'" "login_of w v' user sid s'" "logged mg ''LOGIN'' sid evs evs'"
        "invites mg w s' sid r" "handed_out w out s' out'"
      moreover from this(2) have "s_id s' = Some sid" by (simp add: login_of_def)
      ultimately show "?Q (0, out', r) v'" using initiate_step.created [OF u] by fastforce
    next
      fix v' out' m' assume "at w evs m' v'" "excused flaky w" "m' = m \<or> m' = m(sid := None)"
      with initiate_step.failed [OF u _ _ response_start] show "?Q (-1, out', ?r0) v'" by fastforce
    qed
    show ?thesis
      unfolding True opendbsc_session_init_def option.case opendbsc_session_set_state_def
      apply (simp only: simp_thms if_False)
      apply (rule wp_bindI, rule wp_step_setter [OF 1(1) attempts_session_setters(1)], simp only: prod.case)
      apply (rule wp_bindI, rule wp_step_setter [OF _ attempts_session_setters(2)], assumption, simp only: prod.case option.case)
      apply (rule store, assumption)
           apply (auto simp: session_defaults_def)
      done
  qed
qed

lemma get_session_spec:
  assumes at: "at w evs m w" and st: "cfg_store (mgr_cfg mg) = Some st"
  shows "wp (opendbsc_manager_get_session (Some mg) ck) (\<lambda>(rc, out) v'. \<exists>m'.
     at w evs m' v' \<and> fetch_step flaky w v' ck (m, evs) rc out (m', evs)) w"
proof (cases ck)
  case None
  then show ?thesis using at
    by (auto simp: opendbsc_manager_get_session_def wp_return intro!: exI fetch_step.no_id)
next
  case (Some i)
  show ?thesis
    unfolding opendbsc_manager_get_session_def Some option.case with_store_def st
    by (simp, rule wp_get [OF at]) (auto intro: fetch_step.found fetch_step.unknown)
qed

end

end
