(* ===== verification/Manager_Runs.thy ===== *)
theory Manager_Runs
  imports Manager_Spec
begin

text \<open>
  Runs of the manager over any store: the machine whose steps are the manager's requests, the ledger
  of the sessions and the events, its invariants, and the proof that a challenge is used once. The
  locale \<open>manager_store\<close> says what the store must promise; \<open>Manager_Machine\<close> and \<open>Sql_Manager\<close> use the
  results for the stores of the program.
\<close>

section \<open>Requests\<close>

text \<open>A configured manager over the store \<open>st\<close>.\<close>

definition manages :: "'s OpenDBSC_Store \<Rightarrow> 's OpenDBSC_Manager \<Rightarrow> bool" where
  "manages st mg \<longleftrightarrow> mgr_ok mg \<and> cfg_store (mgr_cfg mg) = Some st"

abbreviation ttl_of :: "'s OpenDBSC_Manager \<Rightarrow> int" where
  "ttl_of mg \<equiv> cfg_session_ttl (mgr_cfg mg)"

abbreviation ledger_in :: "('s \<Rightarrow> string \<Rightarrow> OpenDBSC_Session option) \<Rightarrow> 's sys \<Rightarrow> ledger" where
  "ledger_in view w \<equiv> (view (impl w), events w)"

text \<open>The UUID library writes the 36 characters it documents.\<close>

definition uuid_text :: "('j, 'b, 'k) externals \<Rightarrow> bool" where
  "uuid_text E \<longleftrightarrow> (\<forall>u. length (uuidv7_to_string (ext_uuid E) u) = 36)"

text \<open>Every stored session has a challenge; only an allocation failure during a login breaks this.\<close>

definition challenged_in :: "('s \<Rightarrow> string \<Rightarrow> OpenDBSC_Session option) \<Rightarrow> 's sys \<Rightarrow> bool" where
  "challenged_in view w \<longleftrightarrow> (\<forall>i s. view (impl w) i = Some s \<longrightarrow> s_challenge s \<noteq> None)"

text \<open>What all requests keep.\<close>

definition kept_by :: "('s \<Rightarrow> bool) \<Rightarrow> 's sys \<Rightarrow> 's sys \<Rightarrow> bool" where
  "kept_by ok w w' \<longleftrightarrow> ok (impl w') \<and> undef w' = undef w \<and> mem_ok w' = mem_ok w \<and>
     entropy w' = entropy w \<and> wall_clock w' = wall_clock w \<and> entropy_reads w \<le> entropy_reads w'"

lemma kept_trans: "kept_by ok u v \<Longrightarrow> kept_by ok v w \<Longrightarrow> kept_by ok u w"
  by (simp add: kept_by_def)

lemma kept_starved: "kept_by ok w w' \<Longrightarrow> starved w' = starved w"
  by (simp add: kept_by_def starved_def)

lemma kept_fits: "kept_by ok w w' \<Longrightarrow> clock_fits fits ttl w' = clock_fits fits ttl w"
  by (simp add: kept_by_def clock_fits_def)

lemma kept_stands:
  "stands view ok w evs m v \<Longrightarrow> kept_by ok w v \<and> ledger_in view v = (m, evs)"
  by (simp add: stands_def kept_by_def)

section \<open>The machine\<close>

datatype mgr_call =
  Login string "OpenDBSC_Session option"
| Register "string option" "string option"
| Refresh "string option" "string option"
| Close "string option"
| Fetch "string option"

fun mgr_call_run :: "('j, 'b, 'k) externals \<Rightarrow> 's OpenDBSC_Manager \<Rightarrow> mgr_call \<Rightarrow>
    ('s sys, int \<times> OpenDBSC_ManagerResponse) state" where
  "mgr_call_run E mg (Login user out) = do {
     (rc, out', r) \<leftarrow> opendbsc_manager_initiate E (Some mg) (Some user) out empty_response; ret (rc, r) }"
| "mgr_call_run E mg (Register ck hdr) = opendbsc_manager_register E (Some mg) ck hdr empty_response"
| "mgr_call_run E mg (Refresh ck hdr) = opendbsc_manager_refresh E (Some mg) ck hdr empty_response"
| "mgr_call_run E mg (Close ck) = opendbsc_manager_close E (Some mg) ck empty_response"
| "mgr_call_run E mg (Fetch ck) = do {
     (rc, out) \<leftarrow> opendbsc_manager_get_session (Some mg) ck; ret (rc, empty_response) }"

fun call_step :: "bool \<Rightarrow> ('j, 'b, 'k) externals \<Rightarrow> 's OpenDBSC_Manager \<Rightarrow> 's sys \<Rightarrow> 's sys \<Rightarrow> mgr_call \<Rightarrow>
    ledger \<Rightarrow> int \<Rightarrow> OpenDBSC_ManagerResponse \<Rightarrow> ledger \<Rightarrow> bool" where
  "call_step flaky E mg v v' (Login user out) l rc r l' = initiate_step flaky E mg v v' user l rc r l'"
| "call_step flaky E mg v v' (Register ck hdr) l rc r l' = register_step flaky E mg v v' ck hdr l rc r l'"
| "call_step flaky E mg v v' (Refresh ck hdr) l rc r l' = refresh_step flaky E mg v v' ck hdr l rc r l'"
| "call_step flaky E mg v v' (Close ck) l rc r l' = close_step flaky mg v v' ck l rc r l'"
| "call_step flaky E mg v v' (Fetch ck) l rc r l' = (\<exists>out. fetch_step flaky v v' ck l rc out l' \<and> r = empty_response)"

text \<open>
  \<open>mgr_runs E mg w w'\<close>: a sequence of requests, with any arguments, leads from \<open>w\<close> to \<open>w'\<close>. In between
  the rest of the process may allocate, read the clock and draw from the entropy source, and report
  skipped sessions to the event callback, as the HTTP wrapper does. A run starts with an empty store
  and an empty event log.
\<close>

inductive mgr_runs :: "('j, 'b, 'k) externals \<Rightarrow> 's OpenDBSC_Manager \<Rightarrow> 's sys \<Rightarrow> 's sys \<Rightarrow> bool"
  for E mg w where
  refl: "mgr_runs E mg w w"
| call: "mgr_runs E mg w w1 \<Longrightarrow> run_state (mgr_call_run E mg c) w1 = ((rc, r), w2) \<Longrightarrow> mgr_runs E mg w w2"
| quiet: "mgr_runs E mg w w1 \<Longrightarrow> frame w1 w2 \<Longrightarrow> mgr_runs E mg w w2"
| notice: "mgr_runs E mg w w1 \<Longrightarrow> ev_type e = ''SESSION_SKIPPED'' \<Longrightarrow>
    mgr_runs E mg w (w1\<lparr>events := events w1 @ [e]\<rparr>)"

lemma mgr_runs_trans: "mgr_runs E mg v w \<Longrightarrow> mgr_runs E mg u v \<Longrightarrow> mgr_runs E mg u w"
  by (induction rule: mgr_runs.induct) (blast intro: mgr_runs.intros)+

definition blank :: "('s \<Rightarrow> string \<Rightarrow> OpenDBSC_Session option) \<Rightarrow> ('s \<Rightarrow> bool) \<Rightarrow> 's sys \<Rightarrow> bool" where
  "blank view ok w \<longleftrightarrow> ok (impl w) \<and> view (impl w) = (\<lambda>_. None) \<and> events w = []"

section \<open>The ledger of sessions\<close>

text \<open>
  With memory available a request does one of six things to the sessions and the log: nothing,
  drop a session that has expired, open one, bind an ACTIVE one, extend a BOUND one or close one. A
  flaky store may lose the session of a request it fails to carry out.
\<close>

inductive ledger_step :: "bool \<Rightarrow> ('j, 'b, 'k) externals \<Rightarrow> 's OpenDBSC_Manager \<Rightarrow> 's sys \<Rightarrow> 's sys \<Rightarrow> mgr_call \<Rightarrow>
    ledger \<Rightarrow> ledger \<Rightarrow> bool"
  for flaky E mg v v' c where
  idle: "ledger_step flaky E mg v v' c (m, evs) (m, evs)"
| expire: "m i = Some s \<Longrightarrow> expired_between v v' s \<Longrightarrow> ledger_step flaky E mg v v' c (m, evs) (m(i := None), evs)"
| lost: "flaky \<Longrightarrow> ledger_step flaky E mg v v' c (m, evs) (m(i := None), evs)"
| login: "c = Login user out \<Longrightarrow> login_of v v' user i s \<Longrightarrow> logged mg ''LOGIN'' i evs evs' \<Longrightarrow>
    ledger_step flaky E mg v v' c (m, evs) (m(i \<mapsto> s), evs')"
| bind: "c = Register (Some i) hdr \<Longrightarrow> m i = Some s \<Longrightarrow> s_state s = ACTIVE \<Longrightarrow>
    registration_accepts E mg s hdr q q \<Longrightarrow> bound_from v v' s q s' \<Longrightarrow> logged mg ''REGISTER'' i evs evs' \<Longrightarrow>
    ledger_step flaky E mg v v' c (m, evs) (m(i \<mapsto> s'), evs')"
| extend: "c = Refresh (Some i) hdr \<Longrightarrow> m i = Some s \<Longrightarrow> s_state s = BOUND \<Longrightarrow>
    refresh_accepts E s hdr q q \<Longrightarrow> extended_from v v' s s' \<Longrightarrow> logged mg ''REFRESH'' i evs evs' \<Longrightarrow>
    ledger_step flaky E mg v v' c (m, evs) (m(i \<mapsto> s'), evs')"
| close: "c = Close (Some i) \<Longrightarrow> m i = Some s \<Longrightarrow> logged mg ''CLOSE'' i evs evs' \<Longrightarrow>
    ledger_step flaky E mg v v' c (m, evs) (m(i := None), evs')"

lemma gone_ledger:
  "gone flaky v v' m i m' \<Longrightarrow> ledger_step flaky E mg v v' c (m, evs) (m', evs)"
  unfolding gone_def by (auto intro: ledger_step.idle ledger_step.expire)

lemma call_ledger:
  assumes "call_step flaky E mg v v' c l rc r l'" and "\<not> starved v"
  shows "ledger_step flaky E mg v v' c l l'"
proof (cases c)
  case (Login user out)
  with assms show ?thesis
    by (auto elim!: initiate_step.cases intro: ledger_step.intros simp: excused_def)
next
  case (Register ck hdr)
  with assms show ?thesis
    by (auto elim!: register_step.cases intro: ledger_step.intros gone_ledger simp: excused_def)
next
  case (Refresh ck hdr)
  with assms show ?thesis
    by (auto elim!: refresh_step.cases intro: ledger_step.intros gone_ledger simp: excused_def)
next
  case (Close ck)
  with assms show ?thesis
    by (auto elim!: close_step.cases intro: ledger_step.intros gone_ledger simp: excused_def)
next
  case (Fetch ck)
  with assms show ?thesis
    by (auto elim!: fetch_step.cases intro: ledger_step.intros gone_ledger simp: excused_def)
qed

text \<open>Events of one type that come after an event of another type for the same session.\<close>

definition has_event :: "string \<Rightarrow> string option \<Rightarrow> event list \<Rightarrow> bool" where
  "has_event ty sid evs \<longleftrightarrow> (\<exists>e \<in> set evs. ev_type e = ty \<and> ev_session e = sid)"

definition preceded :: "string \<Rightarrow> string \<Rightarrow> event list \<Rightarrow> bool" where
  "preceded ty before evs \<longleftrightarrow>
     (\<forall>n < length evs. ev_type (evs ! n) = ty \<longrightarrow> has_event before (ev_session (evs ! n)) (take n evs))"

lemma preceded_snoc:
  "preceded ty before (evs @ [e]) \<longleftrightarrow>
     preceded ty before evs \<and> (ev_type e = ty \<longrightarrow> has_event before (ev_session e) evs)"
  by (auto simp: preceded_def nth_append less_Suc_eq)

lemma has_event_snoc:
  "has_event ty sid (evs @ [e]) \<longleftrightarrow> has_event ty sid evs \<or> ev_type e = ty \<and> ev_session e = sid"
  by (auto simp: has_event_def)

text \<open>A session as the manager keeps it: \<open>w0\<close> is the start of the run and \<open>w\<close> the present.\<close>

definition session_ok :: "'s sys \<Rightarrow> 's sys \<Rightarrow> string \<Rightarrow> OpenDBSC_Session \<Rightarrow> bool" where
  "session_ok w0 w i s \<longleftrightarrow> s_id s = Some i \<and> s_user_id s \<noteq> None \<and>
     (\<exists>c. s_challenge s = Some c \<and> fresh w0 w c) \<and>
     (case s_state s of
        ACTIVE \<Rightarrow> s_public_key s = None \<and> s_algorithm s = None
      | BOUND \<Rightarrow> s_algorithm s \<noteq> None \<and> (s_public_key s = None \<longleftrightarrow> s_algorithm s = Some ''none''))"

definition logged_session :: "event list \<Rightarrow> string \<Rightarrow> OpenDBSC_Session \<Rightarrow> bool" where
  "logged_session evs i s \<longleftrightarrow> has_event ''LOGIN'' (Some i) evs \<and>
     (s_state s = BOUND \<longrightarrow> has_event ''REGISTER'' (Some i) evs)"

definition log_ok :: "event list \<Rightarrow> bool" where
  "log_ok evs \<longleftrightarrow> preceded ''REGISTER'' ''LOGIN'' evs \<and> preceded ''REFRESH'' ''REGISTER'' evs \<and>
     preceded ''CLOSE'' ''LOGIN'' evs"

fun ledger_ok :: "'s OpenDBSC_Manager \<Rightarrow> 's sys \<Rightarrow> 's sys \<Rightarrow> ledger \<Rightarrow> bool" where
  "ledger_ok mg w0 w (m, evs) \<longleftrightarrow> (\<forall>i s. m i = Some s \<longrightarrow> session_ok w0 w i s) \<and>
     (cfg_on_event (mgr_cfg mg) \<longrightarrow> log_ok evs \<and> (\<forall>i s. m i = Some s \<longrightarrow> logged_session evs i s))"

lemma session_ok_mono: "session_ok w0 w i s \<Longrightarrow> entropy_reads w \<le> entropy_reads w' \<Longrightarrow> session_ok w0 w' i s"
  unfolding session_ok_def by (blast intro: fresh_mono)

lemma fresh_later:
  "kept_by ok w0 w \<Longrightarrow> fresh w w' c \<Longrightarrow> fresh w0 w' c"
  unfolding fresh_def kept_by_def by (metis order_trans)

lemma login_ok: "login_of w w' user i s \<Longrightarrow> \<not> starved w \<Longrightarrow> kept_by ok w0 w \<Longrightarrow> session_ok w0 w' i s"
  by (auto simp: login_of_def session_ok_def dest: fresh_later)

lemma bound_ok:
  assumes "bound_from w w' s q s'" and "\<not> starved w" and "kept_by ok w0 w" and "session_ok w0 w i s"
    and "registration_accepts E mg s hdr q q"
  shows "session_ok w0 w' i s' \<and> s_state s' = BOUND"
  using assms by (auto simp: bound_from_def session_ok_def registration_accepts_def registration_ok_def
      dest: fresh_later jwt_claims_alg)

lemma extended_ok:
  assumes "extended_from w w' s s'" and "\<not> starved w" and "kept_by ok w0 w" and "session_ok w0 w i s"
  shows "session_ok w0 w' i s' \<and> s_state s' = s_state s"
  using assms by (auto simp: extended_from_def session_ok_def dest: fresh_later
      split: OpenDBSC_SessionState.splits)

lemma logged_session_snoc: "logged_session evs i s \<Longrightarrow> logged_session (evs @ [e]) i s"
  by (auto simp: logged_session_def has_event_snoc)

lemma loggedE:
  assumes "logged mg ty i evs evs'" and "cfg_on_event (mgr_cfg mg)"
  obtains e where "evs' = evs @ [e]" and "ev_type e = ty" and "ev_session e = Some i"
  using assms by (auto simp: logged_def)

lemma log_ok_snoc:
  "log_ok (evs @ [e]) \<longleftrightarrow> log_ok evs \<and>
     (ev_type e = ''REGISTER'' \<longrightarrow> has_event ''LOGIN'' (ev_session e) evs) \<and>
     (ev_type e = ''REFRESH'' \<longrightarrow> has_event ''REGISTER'' (ev_session e) evs) \<and>
     (ev_type e = ''CLOSE'' \<longrightarrow> has_event ''LOGIN'' (ev_session e) evs)"
  by (auto simp: log_ok_def preceded_snoc)

lemma ledger_step_ok:
  assumes "ledger_step flaky E mg w w' c l l'" and "ledger_ok mg w0 w l" and "\<not> starved w"
    and "kept_by ok w0 w" and "kept_by ok w w'"
  shows "ledger_ok mg w0 w' l'"
proof -
  have later: "entropy_reads w \<le> entropy_reads w'" using assms(5) by (simp add: kept_by_def)
  note mono = session_ok_mono [OF _ later]
  from assms(1,2) show ?thesis
  proof (cases rule: ledger_step.cases)
    case (login user out i s evs evs' m)
    with assms(2-4) login_ok [OF login(4)] show ?thesis
      by (auto simp: mono log_ok_snoc logged_session_def has_event_snoc login_of_def elim!: loggedE)
  next
    case (bind i hdr m s q s' evs evs')
    then have s: "session_ok w0 w i s" using assms(2) by simp
    from bound_ok [OF bind(7) assms(3,4) s bind(6)] bind assms(2) show ?thesis
      by (auto simp: mono log_ok_snoc logged_session_def has_event_snoc elim!: loggedE)
  next
    case (extend i hdr m s q s' evs evs')
    then have s: "session_ok w0 w i s" using assms(2) by simp
    from extended_ok [OF extend(7) assms(3,4) s] extend assms(2) show ?thesis
      by (auto simp: mono log_ok_snoc logged_session_def has_event_snoc elim!: loggedE)
  next
    case (close i m s evs evs')
    with assms(2) show ?thesis
      by (auto simp: mono log_ok_snoc logged_session_def has_event_snoc elim!: loggedE)
  qed (auto simp: mono)
qed

text \<open>No two draws of the entropy source made between \<open>w0\<close> and \<open>w\<close> have the same text.\<close>

definition distinct_draws :: "'s sys \<Rightarrow> 's sys \<Rightarrow> bool" where
  "distinct_draws w0 w \<longleftrightarrow> inj_on (\<lambda>n. challenge_of (entropy w0 n)) {entropy_reads w0..<entropy_reads w}"

lemma distinct_draws_before: "distinct_draws w0 w' \<Longrightarrow> kept_by ok w w' \<Longrightarrow> distinct_draws w0 w"
  unfolding distinct_draws_def kept_by_def by (erule inj_on_subset) auto

text \<open>A run from a fresh start, with memory available.\<close>

definition sound_run :: "'s OpenDBSC_Store \<Rightarrow> ('s \<Rightarrow> string \<Rightarrow> OpenDBSC_Session option) \<Rightarrow> ('s \<Rightarrow> bool) \<Rightarrow>
    (int \<Rightarrow> bool) \<Rightarrow> ('j, 'b, 'k) externals \<Rightarrow> 's OpenDBSC_Manager \<Rightarrow> 's sys \<Rightarrow> 's sys \<Rightarrow> bool" where
  "sound_run st view ok fits E mg w0 w \<longleftrightarrow> manages st mg \<and> uuid_text E \<and> clock_fits fits (ttl_of mg) w0 \<and>
     blank view ok w0 \<and> \<not> starved w0 \<and> mgr_runs E mg w0 w"

lemma ledger_ok_challenged: "ledger_ok mg w0 w (ledger_in view w) \<Longrightarrow> challenged_in view w"
  by (fastforce simp: challenged_in_def session_ok_def)

lemma kept_frame: "frame w w' \<Longrightarrow> ok (impl w) \<Longrightarrow> kept_by ok w w' \<and> ledger_in view w' = ledger_in view w"
  using frame_impl [of w w'] frame_events [of w w'] by (simp add: kept_by_def frame_def)

lemma ledger_ok_mono:
  "ledger_ok mg w0 w l \<Longrightarrow> entropy_reads w \<le> entropy_reads w' \<Longrightarrow> ledger_ok mg w0 w' l"
  by (cases l) (auto intro: session_ok_mono)

lemma session_ok_events: "session_ok w0 (w\<lparr>events := evs\<rparr>) i s = session_ok w0 w i s"
  by (simp add: session_ok_def fresh_def)

lemma ledger_ok_notice:
  "ledger_ok mg w0 w (m, evs) \<Longrightarrow> ev_type e = ''SESSION_SKIPPED'' \<Longrightarrow>
   ledger_ok mg w0 (w\<lparr>events := evs'\<rparr>) (m, evs @ [e])"
  by (auto simp: log_ok_snoc logged_session_snoc session_ok_events)

section \<open>Challenges are used once\<close>

text \<open>The proof header a request carries.\<close>

fun header_of :: "mgr_call \<Rightarrow> string option" where
  "header_of (Register ck hdr) = hdr"
| "header_of (Refresh ck hdr) = hdr"
| "header_of _ = None"

lemma accepted:
  assumes "call_step flaky E mg w w' c (m, evs) rc r (m', evs')" and "header_of c = Some h" and "rs_status r = 200"
    and "\<not> starved w"
  shows "\<exists>i s s' a. m i = Some s \<and> m' = m(i \<mapsto> s') \<and> jwt_claims (ext_json E) h = Some a \<and>
    p_challenge a = s_challenge s \<and> (\<exists>d. s_challenge s' = Some d \<and> fresh w w' d)"
proof (cases c)
  case (Register ck hdr)
  with assms have "register_step flaky E mg w w' ck (Some h) (m, evs) rc r (m', evs')" by simp
  then show ?thesis
    by cases (use assms(3,4) in \<open>auto simp: asks_again_def registration_accepts_def bound_from_def\<close>)
next
  case (Refresh ck hdr)
  with assms have "refresh_step flaky E mg w w' ck (Some h) (m, evs) rc r (m', evs')" by simp
  then show ?thesis
    by cases (use assms(3,4) in \<open>auto simp: asks_again_def refresh_accepts_def extended_from_def\<close>)
qed (use assms(2) in auto)

definition apart :: "(string \<Rightarrow> OpenDBSC_Session option) \<Rightarrow> bool" where
  "apart m \<longleftrightarrow> (\<forall>i j s t. m i = Some s \<and> m j = Some t \<and> s_challenge s = s_challenge t \<longrightarrow> i = j)"

definition retired_in :: "('s \<Rightarrow> string \<Rightarrow> OpenDBSC_Session option) \<Rightarrow> 's sys \<Rightarrow> 's sys \<Rightarrow> string \<Rightarrow> bool" where
  "retired_in view w0 w c \<longleftrightarrow> fresh w0 w c \<and> (\<forall>i s. view (impl w) i = Some s \<longrightarrow> s_challenge s \<noteq> Some c)"

lemma fresh_new:
  assumes "distinct_draws w0 w'" and "kept_by ok w0 w" and "kept_by ok w w'" and "fresh w0 w c" and "fresh w w' d"
  shows "c \<noteq> d"
proof
  assume "c = d"
  with assms obtain n k where n: "n < entropy_reads w" "entropy_reads w \<le> k"
    "challenge_of (entropy w0 n) = challenge_of (entropy w0 k)"
    and b: "entropy_reads w0 \<le> n" "k < entropy_reads w'" "entropy_reads w0 \<le> entropy_reads w"
    by (auto simp: fresh_def kept_by_def)
  then have "n \<in> {entropy_reads w0..<entropy_reads w'}" "k \<in> {entropy_reads w0..<entropy_reads w'}" by auto
  from inj_onD [OF assms(1) [unfolded distinct_draws_def] n(3) this] n show False by simp
qed

text \<open>What a request does to the challenges in the store.\<close>

lemma ledger_step_challenges:
  assumes "ledger_step flaky E mg w w' c (m, evs) (m', evs')" and "\<not> starved w" and "m' i = Some s'"
  shows "m i = Some s' \<or> (\<exists>d. s_challenge s' = Some d \<and> fresh w w' d \<and> (\<forall>j. j \<noteq> i \<longrightarrow> m' j = m j))"
  using assms
  by cases (auto simp: login_of_def bound_from_def extended_from_def split: if_splits)

lemma retired_step:
  assumes "ledger_step flaky E mg w w' c (ledger_in view w) (ledger_in view w')" and "\<not> starved w" and "kept_by ok w0 w"
    and "kept_by ok w w'" and "distinct_draws w0 w'" and "retired_in view w0 w d"
  shows "retired_in view w0 w' d"
proof -
  have d: "fresh w0 w d" using assms(6) by (simp add: retired_in_def)
  have "fresh w0 w' d" using fresh_mono [OF d] assms(4) by (simp add: kept_by_def)
  moreover have "s_challenge s' \<noteq> Some d" if "view (impl w') i = Some s'" for i s'
    using ledger_step_challenges [OF assms(1,2) that] assms(6) fresh_new [OF assms(5,3,4) d]
    by (fastforce simp: retired_in_def)
  ultimately show ?thesis by (simp add: retired_in_def)
qed

lemma apart_step:
  assumes step: "ledger_step flaky E mg w w' c (m, evs) (m', evs')" and "\<not> starved w" and "kept_by ok w0 w"
    and "kept_by ok w w'" and "distinct_draws w0 w'" and ok: "ledger_ok mg w0 w (m, evs)" and ap: "apart m"
  shows "apart m'"
  unfolding apart_def
proof (intro allI impI, elim conjE)
  fix i j s t
  assume s: "m' i = Some s" and t: "m' j = Some t" and eq: "s_challenge s = s_challenge t"
  have old: "\<exists>d. s_challenge u = Some d \<and> fresh w0 w d" if "m k = Some u" for k u
    using ok that by (fastforce simp: session_ok_def)
  note new = fresh_new [OF assms(5,3,4)]
  from ledger_step_challenges [OF step assms(2) s] ledger_step_challenges [OF step assms(2) t]
  show "i = j"
    using ap eq s t old new unfolding apart_def by (metis option.inject)
qed

lemma accepted_retires:
  assumes inv: "kept_by ok w0 w" "ledger_ok mg w0 w (ledger_in view w)" "apart (view (impl w))" "\<not> starved w"
    "distinct_draws w0 w'" and kept: "kept_by ok w w'"
    and step: "call_step flaky E mg w w' c (ledger_in view w) rc r (ledger_in view w')" "header_of c = Some h" "rs_status r = 200"
  shows "\<exists>a d. jwt_claims (ext_json E) h = Some a \<and> p_challenge a = Some d \<and> retired_in view w0 w' d"
proof -
  from accepted [OF step inv(4)] obtain i s s' a e where
    s: "view (impl w) i = Some s" "view (impl w') = (view (impl w))(i \<mapsto> s')"
      "jwt_claims (ext_json E) h = Some a" "p_challenge a = s_challenge s" "s_challenge s' = Some e" "fresh w w' e"
    by blast
  from inv(2) s(1) have "session_ok w0 w i s" by simp
  then obtain d where d: "s_challenge s = Some d" "fresh w0 w d" by (auto simp: session_ok_def)
  have "fresh w0 w' d" using fresh_mono [OF d(2)] kept by (simp add: kept_by_def)
  moreover have "s_challenge t \<noteq> Some d" if "view (impl w') j = Some t" for j t
    using that s(1,2,5) d fresh_new [OF inv(5,1) kept d(2) s(6)] inv(3)
    by (auto simp: apart_def split: if_splits)
  ultimately show ?thesis using s(3,4) d(1) by (auto simp: retired_in_def)
qed

section \<open>The manager over a store\<close>

context manager_store
begin

text \<open>One request, as the machine makes it.\<close>

lemma register_run:
  assumes clk: "clock_fits fits (ttl_of mg) w" and at: "inv (impl w)" and "manages st mg" and "challenged_in view w"
    and run: "run_state (opendbsc_manager_register E (Some mg) ck hdr resp) w = ((rc, r), w')"
  shows "kept_by inv w w' \<and> register_step flaky E mg w w' ck hdr (ledger_in view w) rc r (ledger_in view w')"
  using wpD [OF register_spec [OF stands_start [where ok = inv and view = view, OF at]] run] clk assms(3,4)
  by (auto simp: manages_def challenged_in_def dest!: kept_stands)

lemma refresh_run:
  assumes clk: "clock_fits fits (ttl_of mg) w" and at: "inv (impl w)" and "manages st mg" and "challenged_in view w"
    and run: "run_state (opendbsc_manager_refresh E (Some mg) ck hdr resp) w = ((rc, r), w')"
  shows "kept_by inv w w' \<and> refresh_step flaky E mg w w' ck hdr (ledger_in view w) rc r (ledger_in view w')"
  using wpD [OF refresh_spec [OF stands_start [where ok = inv and view = view, OF at]] run] clk assms(3,4)
  by (auto simp: manages_def challenged_in_def dest!: kept_stands)

lemma close_run:
  assumes "inv (impl w)" and "manages st mg"
    and run: "run_state (opendbsc_manager_close E (Some mg) ck resp) w = ((rc, r), w')"
  shows "kept_by inv w w' \<and> close_step flaky mg w w' ck (ledger_in view w) rc r (ledger_in view w')"
  using wpD [OF close_spec [OF stands_start [where ok = inv and view = view, OF assms(1)]] run] assms(2)
  by (auto simp: manages_def dest!: kept_stands)

lemma initiate_run:
  assumes clk: "clock_fits fits (ttl_of mg) w" and at: "inv (impl w)" and "manages st mg" and "uuid_text E"
    and run: "run_state (opendbsc_manager_initiate E (Some mg) (Some user) out resp) w = ((rc, out', r), w')"
  shows "kept_by inv w w' \<and> initiate_step flaky E mg w w' user (ledger_in view w) rc r (ledger_in view w') \<and>
    (rc = 0 \<longrightarrow> (\<exists>i s. s_id s = Some i \<and> view (impl w') i = Some s \<and> handed_out w out s out'))"
  using wpD [OF initiate_spec [OF stands_start [where ok = inv and view = view, OF at]] run] clk assms(3,4)
  by (auto simp: manages_def uuid_text_def dest!: kept_stands)

lemma fetch_run:
  assumes "inv (impl w)" and "manages st mg"
    and run: "run_state (opendbsc_manager_get_session (Some mg) ck) w = ((rc, out), w')"
  shows "kept_by inv w w' \<and> fetch_step flaky w w' ck (ledger_in view w) rc out (ledger_in view w')"
  using wpD [OF get_session_spec [OF stands_start [where ok = inv and view = view, OF assms(1)]] run] assms(2)
  by (auto simp: manages_def dest!: kept_stands)

lemma call_run:
  assumes clk: "clock_fits fits (ttl_of mg) w" and "inv (impl w)" and "manages st mg" and "uuid_text E" and "challenged_in view w"
    and run: "run_state (mgr_call_run E mg c) w = ((rc, r), w')"
  shows "kept_by inv w w' \<and> call_step flaky E mg w w' c (ledger_in view w) rc r (ledger_in view w')"
proof (cases c)
  case (Login user out)
  with run show ?thesis
    by (auto simp: run_state_bind dest!: initiate_run [OF assms(1-4)] split: prod.splits)
next
  case (Register ck hdr)
  with run show ?thesis using register_run [OF assms(1-3,5)] by simp
next
  case (Refresh ck hdr)
  with run show ?thesis using refresh_run [OF assms(1-3,5)] by simp
next
  case (Close ck)
  with run show ?thesis using close_run [OF assms(2,3)] by simp
next
  case (Fetch ck)
  with run show ?thesis
    by (auto simp: run_state_bind dest!: fetch_run [OF assms(2,3)] split: prod.splits)
qed

text \<open>One more request from a state that satisfies the invariant.\<close>

lemma run_call:
  assumes clk: "clock_fits fits (ttl_of mg) w0" and mg: "manages st mg" and "uuid_text E" and "\<not> starved w0"
    and inv: "inv (impl w)" "kept_by inv w0 w" "ledger_ok mg w0 w (ledger_in view w)"
    and run: "run_state (mgr_call_run E mg c) w = ((rc, r), w')"
  shows "kept_by inv w w' \<and> kept_by inv w0 w' \<and> ledger_step flaky E mg w w' c (ledger_in view w) (ledger_in view w') \<and>
    ledger_ok mg w0 w' (ledger_in view w') \<and> call_step flaky E mg w w' c (ledger_in view w) rc r (ledger_in view w')"
proof -
  have st: "\<not> starved w" using assms(4) kept_starved [OF inv(2)] by simp
  have clkw: "clock_fits fits (ttl_of mg) w" using clk kept_fits [OF inv(2), of fits "ttl_of mg"] by simp
  from call_run [OF clkw inv(1) mg assms(3) ledger_ok_challenged [where view = view, OF inv(3)] run]
  have k: "kept_by inv w w'" and s: "call_step flaky E mg w w' c (ledger_in view w) rc r (ledger_in view w')" by auto
  note l = call_ledger [OF s st]
  show ?thesis
    using k kept_trans [OF inv(2) k] l ledger_step_ok [OF l inv(3) st inv(2) k] s by blast
qed

lemma mgr_runs_inv:
  assumes "mgr_runs E mg w w'" and clk: "clock_fits fits (ttl_of mg) w0" and "manages st mg" and "uuid_text E" and "\<not> starved w0"
    and "inv (impl w)" and "kept_by inv w0 w" and "ledger_ok mg w0 w (ledger_in view w)"
  shows "kept_by inv w w' \<and> kept_by inv w0 w' \<and> inv (impl w') \<and> ledger_ok mg w0 w' (ledger_in view w')"
  using assms
proof (induction rule: mgr_runs.induct)
  case refl
  then show ?case by (simp add: kept_by_def)
next
  case (call w1 c rc r w2)
  then have "inv (impl w1)" "kept_by inv w w1" "kept_by inv w0 w1" "ledger_ok mg w0 w1 (ledger_in view w1)" by auto
  with run_call [OF call.prems(1-4) this(1,3,4) call.hyps(2)] show ?case
    by (auto simp: kept_by_def intro: order_trans)
next
  case (quiet w1 w2)
  then have "inv (impl w1)" "kept_by inv w w1" "kept_by inv w0 w1" "ledger_ok mg w0 w1 (ledger_in view w1)" by auto
  with kept_frame [where ok = inv and view = view, OF quiet.hyps(2) this(1)] ledger_ok_mono [OF this(4), of w2] show ?case
    by (auto simp: kept_by_def intro: order_trans)
next
  case (notice w1 e)
  then have "inv (impl w1)" "kept_by inv w w1" "kept_by inv w0 w1" "ledger_ok mg w0 w1 (ledger_in view w1)" by auto
  with ledger_ok_notice [OF this(4) notice.hyps(2)] show ?case by (simp add: kept_by_def)
qed

lemma sound_run_inv:
  assumes "sound_run st view inv fits E mg w0 w"
  shows "kept_by inv w0 w" and "inv (impl w)" and "ledger_ok mg w0 w (ledger_in view w)" and "\<not> starved w"
proof -
  from assms have g: "clock_fits fits (ttl_of mg) w0" "manages st mg" "uuid_text E" "\<not> starved w0"
    "mgr_runs E mg w0 w" "blank view inv w0"
    by (auto simp: sound_run_def)
  then have "inv (impl w0)" "kept_by inv w0 w0" "ledger_ok mg w0 w0 (ledger_in view w0)"
    by (simp_all add: blank_def kept_by_def log_ok_def preceded_def)
  from mgr_runs_inv [OF g(5,1-4) this] kept_starved g(4)
  show "kept_by inv w0 w" and "inv (impl w)" and "ledger_ok mg w0 w (ledger_in view w)" and "\<not> starved w" by auto
qed

text \<open>A challenge that has been used stays retired.\<close>

lemma run_apart:
  assumes run: "mgr_runs E mg w w'" and clk: "clock_fits fits (ttl_of mg) w0" and "manages st mg" and "uuid_text E" and "\<not> starved w0"
    and "inv (impl w)" and "kept_by inv w0 w" and "ledger_ok mg w0 w (ledger_in view w)"
  shows "distinct_draws w0 w' \<longrightarrow> (apart (view (impl w)) \<longrightarrow> apart (view (impl w'))) \<and>
    (\<forall>d. retired_in view w0 w d \<longrightarrow> retired_in view w0 w' d)"
  using run
proof (induction rule: mgr_runs.induct)
  case (call w1 c rc r w2)
  from mgr_runs_inv [OF call.hyps(1) assms(2-8)] have inv: "kept_by inv w0 w1" "inv (impl w1)"
    "ledger_ok mg w0 w1 (ledger_in view w1)" by auto
  have st: "\<not> starved w1" using kept_starved [OF inv(1)] assms(5) by simp
  from run_call [OF assms(2-5) inv(2,1,3) call.hyps(2)] have l: "kept_by inv w1 w2"
    "ledger_step flaky E mg w1 w2 c (ledger_in view w1) (ledger_in view w2)" by auto
  show ?case
    using call.IH apart_step [OF l(2) st inv(1) l(1) _ inv(3)] retired_step [OF l(2) st inv(1) l(1)]
      distinct_draws_before [OF _ l(1)] by blast
next
  case (quiet w1 w2)
  from mgr_runs_inv [OF quiet.hyps(1) assms(2-8)] have "inv (impl w1)" by auto
  from kept_frame [where ok = inv and view = view, OF quiet.hyps(2) this] have k: "kept_by inv w1 w2" "ledger_in view w2 = ledger_in view w1" by auto
  have "retired_in view w0 w1 d \<Longrightarrow> retired_in view w0 w2 d" for d
    using k fresh_mono [of w0 w1 d w2] by (simp add: retired_in_def kept_by_def)
  then show ?case using quiet.IH k distinct_draws_before [OF _ k(1)] by simp
next
  case (notice w1 e)
  then show ?case by (simp add: retired_in_def fresh_def distinct_draws_def)
qed simp

lemma sound_run_apart: "sound_run st view inv fits E mg w0 w \<Longrightarrow> distinct_draws w0 w \<Longrightarrow> apart (view (impl w))"
  using run_apart [of E mg w0 w w0]
  by (auto simp: sound_run_def blank_def kept_by_def apart_def log_ok_def preceded_def)

lemma replay_refused:
  assumes good: "sound_run st view inv fits E mg w0 w" and draws: "distinct_draws w0 w3"
    and first: "run_state (mgr_call_run E mg c) w = ((rc, r), w1)" "header_of c = Some h" "rs_status r = 200"
    and between: "mgr_runs E mg w1 w2"
    and second: "run_state (mgr_call_run E mg c') w2 = ((rc', r'), w3)" "header_of c' = Some h"
  shows "rs_status r' \<noteq> 200"
proof
  assume ok: "rs_status r' = 200"
  have g: "clock_fits fits (ttl_of mg) w0" "manages st mg" "uuid_text E" "\<not> starved w0" using good by (auto simp: sound_run_def)
  note inv = sound_run_inv [OF good]
  note c1 = run_call [OF g inv(2,1,3) first(1)]
  have wf1: "inv (impl w1)" using c1 by (simp add: kept_by_def)
  from c1 have k1: "kept_by inv w0 w1" and l1: "ledger_ok mg w0 w1 (ledger_in view w1)" by auto
  note i2 = mgr_runs_inv [OF between g wf1 k1 l1]
  have st2: "\<not> starved w2" using kept_starved [of inv w0 w2] i2 g(4) by simp
  have c2: "kept_by inv w2 w3" "call_step flaky E mg w2 w3 c' (ledger_in view w2) rc' r' (ledger_in view w3)"
    using run_call [OF g _ _ _ second(1)] i2 by auto
  have d2: "distinct_draws w0 w2" by (rule distinct_draws_before [OF draws c2(1)])
  have d1: "distinct_draws w0 w1" using distinct_draws_before [OF d2] i2 by blast
  have d0: "distinct_draws w0 w" using distinct_draws_before [OF d1] c1 by blast
  have "\<exists>a d. jwt_claims (ext_json E) h = Some a \<and> p_challenge a = Some d \<and> retired_in view w0 w1 d"
    by (rule accepted_retires [where view = view, OF inv(1,3) sound_run_apart [OF good d0] inv(4) d1 _ _ first(2,3)]) (use c1 in blast)+
  then obtain a d where a: "jwt_claims (ext_json E) h = Some a" "p_challenge a = Some d" "retired_in view w0 w1 d" by blast
  have "retired_in view w0 w2 d" using run_apart [OF between g wf1 k1 l1] d2 a(3) by blast
  with accepted [OF c2(2) second(2) ok st2] a(1,2) show False by (fastforce simp: retired_in_def)
qed

end

end
