(* ===== verification/Memory_Store.thy ===== *)
theory Memory_Store
  imports Store "HOL-Library.Multiset"
begin

text \<open>
  The in-memory store of \<^verbatim>\<open>src/store/memory.c\<close>. The array is a list of slots, one per allocated
  element, where \<open>None\<close> is memory \<^verbatim>\<open>realloc\<close> has handed out and nothing has written yet; reading
  such a slot, or any slot outside the allocation, is undefined behaviour. The mutex is a flag:
  taking a held one, or releasing a free one, is undefined behaviour too. \<^verbatim>\<open>(int)i\<close> is exact up to
  \<^verbatim>\<open>INT_MAX\<close> stored sessions.

  The lemmas show that the array stays well formed under every pattern of allocation failures,
  what every operation does to the map from identifiers to sessions, and that the operations
  satisfy the store contract.
\<close>

section \<open>State\<close>

record OpenDBSC_MemoryStore =
  m_sessions :: "OpenDBSC_Session option list"
  m_count :: nat
  m_capacity :: nat
  m_mutex :: bool

type_synonym 'b mem = "(OpenDBSC_MemoryStore sys, 'b) state"

definition OPENDBSC_MEMORY_STORE_INITIAL_CAPACITY :: nat where
  "OPENDBSC_MEMORY_STORE_INITIAL_CAPACITY = 8"

definition read_slot :: "nat \<Rightarrow> OpenDBSC_Session mem" where
  "read_slot i = do {
     ms \<leftarrow> get_impl;
     if i < length (m_sessions ms)
     then (case m_sessions ms ! i of Some s \<Rightarrow> ret s | None \<Rightarrow> ub session_defaults)
     else ub session_defaults }"

definition write_slot :: "nat \<Rightarrow> OpenDBSC_Session \<Rightarrow> unit mem" where
  "write_slot i s = do {
     ms \<leftarrow> get_impl;
     if i < length (m_sessions ms)
     then put_impl (ms\<lparr>m_sessions := (m_sessions ms)[i := Some s]\<rparr>)
     else ub () }"

definition mutex_lock :: "unit mem" where
  "mutex_lock = do {
     ms \<leftarrow> get_impl;
     if m_mutex ms then ub () else put_impl (ms\<lparr>m_mutex := True\<rparr>) }"

definition mutex_unlock :: "unit mem" where
  "mutex_unlock = do {
     ms \<leftarrow> get_impl;
     if m_mutex ms then put_impl (ms\<lparr>m_mutex := False\<rparr>) else ub () }"

section \<open>Internal helpers\<close>

definition memory_store_is_expired ::
  "OpenDBSC_Session option \<Rightarrow> ('a world_scheme, bool) state" where
  "memory_store_is_expired session =
     (case session of None \<Rightarrow> ret False
      | Some s \<Rightarrow> if \<not> s_has_expires s then ret False
                  else do { now \<leftarrow> time_now; ret (s_expires_at s < now) })"

definition memory_store_grow :: "int mem" where
  "memory_store_grow = do {
     ms \<leftarrow> get_impl;
     if m_count ms < m_capacity ms then ret 0
     else do {
       let new_capacity = (if m_capacity ms = 0 then OPENDBSC_MEMORY_STORE_INITIAL_CAPACITY
                           else m_capacity ms * 2);
       ok \<leftarrow> alloc;
       if \<not> ok then ret (-1)
       else do {
         put_impl (ms\<lparr>m_sessions := m_sessions ms @
                        replicate (new_capacity - length (m_sessions ms)) None,
                      m_capacity := new_capacity\<rparr>);
         ret 0 } } }"

text \<open>\<open>find_loop id i k\<close>: the loop at index \<open>i\<close> with \<open>k\<close> elements left.\<close>

fun find_loop :: "string \<Rightarrow> nat \<Rightarrow> nat \<Rightarrow> int mem" where
  "find_loop sid i 0 = ret (-1)"
| "find_loop sid i (Suc k) = do {
     s \<leftarrow> read_slot i;
     if s_id s = Some sid then ret (int i) else find_loop sid (Suc i) k }"

definition memory_store_find :: "string option \<Rightarrow> int mem" where
  "memory_store_find sid =
     (case sid of None \<Rightarrow> ret (-1)
      | Some i \<Rightarrow> do { ms \<leftarrow> get_impl; find_loop i 0 (m_count ms) })"

definition memory_store_remove_at :: "nat \<Rightarrow> unit mem" where
  "memory_store_remove_at idx = do {
     s \<leftarrow> read_slot idx;
     (case opendbsc_session_free (Some s) of Some s' \<Rightarrow> write_slot idx s' | None \<Rightarrow> ub ());
     ms \<leftarrow> get_impl;
     (if idx \<noteq> m_count ms - 1
      then do { l \<leftarrow> read_slot (m_count ms - 1); write_slot idx l }
      else ret ());
     ms \<leftarrow> get_impl;
     put_impl (ms\<lparr>m_count := m_count ms - 1\<rparr>) }"

text \<open>
  The two sweeping loops. Every turn either removes a session or advances the index, so a loop
  that starts at 0 turns \<open>count\<close> times; the first argument counts the turns left, and running
  out of them while the guard still holds is flagged as undefined behaviour, which the
  well-formedness lemmas exclude.
\<close>

fun expire_loop :: "nat \<Rightarrow> nat \<Rightarrow> unit mem" where
  "expire_loop 0 i = do { ms \<leftarrow> get_impl; if i < m_count ms then ub () else ret () }"
| "expire_loop (Suc k) i = do {
     ms \<leftarrow> get_impl;
     if i < m_count ms then do {
       s \<leftarrow> read_slot i;
       expired \<leftarrow> memory_store_is_expired (Some s);
       if expired then do { memory_store_remove_at i; expire_loop k i }
       else expire_loop k (Suc i) }
     else ret () }"

definition memory_store_expire :: "unit mem" where
  "memory_store_expire = do { ms \<leftarrow> get_impl; expire_loop (m_count ms) 0 }"

section \<open>Store operations\<close>

text \<open>
  The copy of a session into slot \<open>idx\<close>. On failure the code frees the slot, which resets it.
\<close>

definition copy_into_slot :: "nat \<Rightarrow> OpenDBSC_Session \<Rightarrow> int mem" where
  "copy_into_slot idx session = do {
     d \<leftarrow> read_slot idx;
     (rc, d') \<leftarrow> opendbsc_session_copy (Some d) (Some session);
     case d' of None \<Rightarrow> ub (-1)
     | Some d' \<Rightarrow> do { write_slot idx d'; ret rc } }"

definition free_slot :: "nat \<Rightarrow> unit mem" where
  "free_slot idx = do {
     d \<leftarrow> read_slot idx;
     case opendbsc_session_free (Some d) of Some d' \<Rightarrow> write_slot idx d' | None \<Rightarrow> ub () }"

definition init_slot :: "nat \<Rightarrow> unit mem" where
  "init_slot idx = write_slot idx session_defaults"

text \<open>The lines that replace the session in slot \<open>idx\<close>, the same in create and in update.\<close>

definition overwrite_slot :: "nat \<Rightarrow> OpenDBSC_Session \<Rightarrow> int mem" where
  "overwrite_slot idx session = do {
     free_slot idx;
     rc \<leftarrow> copy_into_slot idx session;
     if rc \<noteq> 0 then do {
       free_slot idx;
       init_slot idx;
       mutex_unlock;
       ret (-1) }
     else do { mutex_unlock; ret 0 } }"

text \<open>The lines of create that fill and count the slot after the live ones.\<close>

definition append_slot :: "OpenDBSC_Session \<Rightarrow> int mem" where
  "append_slot session = do {
     ms \<leftarrow> get_impl;
     init_slot (m_count ms);
     rc \<leftarrow> copy_into_slot (m_count ms) session;
     if rc \<noteq> 0 then do {
       free_slot (m_count ms);
       init_slot (m_count ms);
       mutex_unlock;
       ret (-1) }
     else do {
       ms \<leftarrow> get_impl;
       put_impl (ms\<lparr>m_count := m_count ms + 1\<rparr>);
       mutex_unlock;
       ret 0 } }"

definition opendbsc_memory_store_create_impl :: "OpenDBSC_Session option \<Rightarrow> int mem" where
  "opendbsc_memory_store_create_impl session =
     (case session of None \<Rightarrow> ret (-1)
      | Some s \<Rightarrow>
        if s_id s = None then ret (-1)
        else do {
          mutex_lock;
          idx \<leftarrow> memory_store_find (s_id s);
          if idx \<ge> 0 then overwrite_slot (nat idx) s
          else do {
            rc \<leftarrow> memory_store_grow;
            if rc \<noteq> 0 then do { mutex_unlock; ret (-1) }
            else append_slot s } })"

definition opendbsc_memory_store_get_impl ::
  "string option \<Rightarrow> (int \<times> OpenDBSC_Session option) mem" where
  "opendbsc_memory_store_get_impl sid =
     (if sid = None then ret (-1, None)
      else do {
        mutex_lock;
        idx \<leftarrow> memory_store_find sid;
        if idx < 0 then do { mutex_unlock; ret (-1, None) }
        else do {
          stored \<leftarrow> read_slot (nat idx);
          expired \<leftarrow> memory_store_is_expired (Some stored);
          if expired then do {
            memory_store_remove_at (nat idx);
            mutex_unlock;
            ret (-1, None) }
          else do {
            ok \<leftarrow> alloc;
            if \<not> ok then do { mutex_unlock; ret (-1, None) }
            else do {
              (rc, copy) \<leftarrow> opendbsc_session_copy (opendbsc_session_init (Some session_defaults))
                              (Some stored);
              if rc \<noteq> 0 then do { mutex_unlock; ret (-1, None) }
              else do { mutex_unlock; ret (0, copy) } } } } })"

definition opendbsc_memory_store_update_impl :: "OpenDBSC_Session option \<Rightarrow> int mem" where
  "opendbsc_memory_store_update_impl session =
     (case session of None \<Rightarrow> ret (-1)
      | Some s \<Rightarrow>
        if s_id s = None then ret (-1)
        else do {
          mutex_lock;
          idx \<leftarrow> memory_store_find (s_id s);
          if idx < 0 then do { mutex_unlock; ret (-1) }
          else overwrite_slot (nat idx) s })"

definition opendbsc_memory_store_delete_impl :: "string option \<Rightarrow> int mem" where
  "opendbsc_memory_store_delete_impl sid =
     (if sid = None then ret 0
      else do {
        mutex_lock;
        idx \<leftarrow> memory_store_find sid;
        (if idx \<ge> 0 then memory_store_remove_at (nat idx) else ret ());
        mutex_unlock;
        ret 0 })"

fun count_user_loop :: "string \<Rightarrow> nat \<Rightarrow> nat \<Rightarrow> nat mem" where
  "count_user_loop u i 0 = ret 0"
| "count_user_loop u i (Suc k) = do {
     s \<leftarrow> read_slot i;
     n \<leftarrow> count_user_loop u (Suc i) k;
     ret (if s_user_id s = Some u then Suc n else n) }"

text \<open>
  The copying loop fills an array of \<open>cap\<close> elements, \<open>done\<close> of them written so far; it
  answers \<open>None\<close> when a copy failed, after which the code releases the whole array.
\<close>

fun copy_user_loop ::
  "string \<Rightarrow> nat \<Rightarrow> nat \<Rightarrow> nat \<Rightarrow> OpenDBSC_Session list \<Rightarrow> OpenDBSC_Session list option mem" where
  "copy_user_loop u cap i 0 done = ret (Some done)"
| "copy_user_loop u cap i (Suc k) done = do {
     s \<leftarrow> read_slot i;
     if s_user_id s = Some u then do {
       d \<leftarrow> (if length done < cap then ret (opendbsc_session_init (Some session_defaults))
             else ub None);
       (rc, d') \<leftarrow> opendbsc_session_copy d (Some s);
       if rc \<noteq> 0 then ret None
       else (case d' of None \<Rightarrow> ub None | Some c \<Rightarrow> copy_user_loop u cap (Suc i) k (done @ [c])) }
     else copy_user_loop u cap (Suc i) k done }"

definition opendbsc_memory_store_get_by_user_id_impl ::
  "string option \<Rightarrow> (int \<times> OpenDBSC_Session list) mem" where
  "opendbsc_memory_store_get_by_user_id_impl user_id =
     (case user_id of None \<Rightarrow> ret (-1, [])
      | Some u \<Rightarrow> do {
          mutex_lock;
          memory_store_expire;
          ms \<leftarrow> get_impl;
          match_count \<leftarrow> count_user_loop u 0 (m_count ms);
          if match_count = 0 then do { mutex_unlock; ret (0, []) }
          else do {
            ok \<leftarrow> alloc;
            if \<not> ok then do { mutex_unlock; ret (-1, []) }
            else do {
              matches \<leftarrow> copy_user_loop u match_count 0 (m_count ms) [];
              case matches of
                None \<Rightarrow> do { mutex_unlock; ret (-1, []) }
              | Some xs \<Rightarrow> do { mutex_unlock; ret (0, xs) } } } })"

fun delete_user_loop :: "string \<Rightarrow> nat \<Rightarrow> nat \<Rightarrow> unit mem" where
  "delete_user_loop u 0 i = do { ms \<leftarrow> get_impl; if i < m_count ms then ub () else ret () }"
| "delete_user_loop u (Suc k) i = do {
     ms \<leftarrow> get_impl;
     if i < m_count ms then do {
       s \<leftarrow> read_slot i;
       if s_user_id s = Some u then do { memory_store_remove_at i; delete_user_loop u k i }
       else delete_user_loop u k (Suc i) }
     else ret () }"

definition opendbsc_memory_store_delete_by_user_id_impl :: "string option \<Rightarrow> int mem" where
  "opendbsc_memory_store_delete_by_user_id_impl user_id =
     (case user_id of None \<Rightarrow> ret 0
      | Some u \<Rightarrow> do {
          mutex_lock;
          ms \<leftarrow> get_impl;
          delete_user_loop u (m_count ms) 0;
          mutex_unlock;
          ret 0 })"

text \<open>Releasing returned sessions frees the caller's copies only.\<close>

definition opendbsc_memory_store_free_sessions_impl :: "OpenDBSC_Session list \<Rightarrow> unit mem" where
  "opendbsc_memory_store_free_sessions_impl xs = ret ()"

fun free_all_loop :: "nat \<Rightarrow> nat \<Rightarrow> unit mem" where
  "free_all_loop i 0 = ret ()"
| "free_all_loop i (Suc k) = do { free_slot i; free_all_loop (Suc i) k }"

definition opendbsc_memory_store_destroy_impl :: "unit mem" where
  "opendbsc_memory_store_destroy_impl = do {
     mutex_lock;
     ms \<leftarrow> get_impl;
     free_all_loop 0 (m_count ms);
     ms \<leftarrow> get_impl;
     put_impl (ms\<lparr>m_sessions := [], m_count := 0, m_capacity := 0\<rparr>);
     mutex_unlock }"

definition memory_store_vtable :: "OpenDBSC_MemoryStore OpenDBSC_Store" where
  "memory_store_vtable = \<lparr>
     st_create = opendbsc_memory_store_create_impl,
     st_get = opendbsc_memory_store_get_impl,
     st_update = opendbsc_memory_store_update_impl,
     st_delete = opendbsc_memory_store_delete_impl,
     st_get_by_user_id = opendbsc_memory_store_get_by_user_id_impl,
     st_delete_by_user_id = opendbsc_memory_store_delete_by_user_id_impl,
     st_free_sessions = opendbsc_memory_store_free_sessions_impl,
     st_destroy = opendbsc_memory_store_destroy_impl\<rparr>"

text \<open>
  The factory: the implementation's first state and the vtable, or NULL. \<open>mutex_ok\<close> is the
  answer of \<^verbatim>\<open>pthread_mutex_init\<close>.
\<close>

definition opendbsc_memory_store_create :: "bool \<Rightarrow>
    ('a world_scheme, (OpenDBSC_MemoryStore \<times> OpenDBSC_MemoryStore OpenDBSC_Store) option) state" where
  "opendbsc_memory_store_create mutex_ok = do {
     ok \<leftarrow> alloc;
     if \<not> ok then ret None
     else if \<not> mutex_ok then ret None
     else do {
       ok \<leftarrow> alloc;
       if \<not> ok then ret None
       else ret (Some (\<lparr>m_sessions = [], m_count = 0, m_capacity = 0, m_mutex = False\<rparr>,
                       memory_store_vtable)) } }"

section \<open>The live sessions\<close>

text \<open>\<open>mem_rep xs ms\<close>: the first \<open>count\<close> slots hold exactly the sessions \<open>xs\<close>.\<close>

definition mem_rep :: "OpenDBSC_Session list \<Rightarrow> OpenDBSC_MemoryStore \<Rightarrow> bool" where
  "mem_rep xs ms \<longleftrightarrow> take (m_count ms) (m_sessions ms) = map Some xs \<and>
     length (m_sessions ms) = m_capacity ms \<and> m_count ms \<le> m_capacity ms"

definition live :: "OpenDBSC_MemoryStore \<Rightarrow> OpenDBSC_Session list" where
  "live ms = map the (take (m_count ms) (m_sessions ms))"

definition set_slot :: "nat \<Rightarrow> OpenDBSC_Session \<Rightarrow> OpenDBSC_MemoryStore \<Rightarrow> OpenDBSC_MemoryStore" where
  "set_slot i s ms = ms\<lparr>m_sessions := (m_sessions ms)[i := Some s]\<rparr>"

definition swap_remove :: "nat \<Rightarrow> 'a list \<Rightarrow> 'a list" where
  "swap_remove i xs = take (length xs - 1) (xs[i := xs ! (length xs - 1)])"

lemma set_slot_simps [simp]:
  "m_count (set_slot i s ms) = m_count ms"
  "m_capacity (set_slot i s ms) = m_capacity ms"
  "m_mutex (set_slot i s ms) = m_mutex ms"
  "set_slot i s (set_slot i t ms) = set_slot i s ms"
  by (simp_all add: set_slot_def)

lemma set_slot_mutex [simp]:
  "set_slot i s (ms\<lparr>m_mutex := b\<rparr>) = (set_slot i s ms)\<lparr>m_mutex := b\<rparr>"
  by (simp add: set_slot_def)

lemma mem_rep_mutex [simp]: "mem_rep xs (ms\<lparr>m_mutex := b\<rparr>) = mem_rep xs ms"
  by (simp add: mem_rep_def)

lemma mem_rep_count: "mem_rep xs ms \<Longrightarrow> m_count ms = length xs"
  unfolding mem_rep_def by (metis length_map length_take min.absorb2)

lemma mem_rep_live: "mem_rep xs ms \<Longrightarrow> live ms = xs"
  by (simp add: mem_rep_def live_def)

lemma mem_rep_nth: "mem_rep xs ms \<Longrightarrow> i < length xs \<Longrightarrow>
  i < length (m_sessions ms) \<and> m_sessions ms ! i = Some (xs ! i)"
  unfolding mem_rep_def
  by (metis dual_order.strict_trans1 length_map length_take min.absorb2 nth_map nth_take)

lemma mem_rep_set_slot [simp]:
  "mem_rep xs ms \<Longrightarrow> mem_rep (xs[i := s]) (set_slot i s ms)"
  by (simp add: mem_rep_def set_slot_def take_update_swap map_update)

lemma mem_rep_shrink:
  assumes "mem_rep xs ms" and "xs \<noteq> []"
  shows "mem_rep (take (length xs - 1) xs) (ms\<lparr>m_count := m_count ms - 1\<rparr>)"
proof -
  have "take (m_count ms - 1) (m_sessions ms) = take (m_count ms - 1) (take (m_count ms) (m_sessions ms))"
    by (simp add: min_def)
  also have "\<dots> = map Some (take (length xs - 1) xs)"
    using assms(1) mem_rep_count [OF assms(1)] by (simp add: mem_rep_def take_map)
  finally show ?thesis using assms(1) by (auto simp: mem_rep_def)
qed

lemma mem_rep_extend:
  assumes "mem_rep xs ms" and "m_count ms < m_capacity ms"
  shows "mem_rep (xs @ [s]) ((set_slot (m_count ms) s ms)\<lparr>m_count := Suc (m_count ms)\<rparr>)"
  using assms by (simp add: mem_rep_def set_slot_def take_list_update_last)

section \<open>The primitive steps on represented stores\<close>

lemma wp_read_slot [wps]:
  "mem_rep xs (impl w) \<Longrightarrow> i < length xs \<Longrightarrow> wp (read_slot i) Q w = Q (xs ! i) w"
  using mem_rep_nth [of xs "impl w" i] by (simp add: read_slot_def wps)

lemma wp_write_slot [wps]:
  "i < length (m_sessions (impl w)) \<Longrightarrow>
   wp (write_slot i s) Q w = Q () (w\<lparr>impl := set_slot i s (impl w)\<rparr>)"
  by (simp add: write_slot_def wps set_slot_def)

lemma wp_mutex_lock [wps]:
  "\<not> m_mutex (impl w) \<Longrightarrow> wp mutex_lock Q w = Q () (w\<lparr>impl := (impl w)\<lparr>m_mutex := True\<rparr>\<rparr>)"
  by (simp add: mutex_lock_def wps)

lemma wp_mutex_unlock [wps]:
  "m_mutex (impl w) \<Longrightarrow> wp mutex_unlock Q w = Q () (w\<lparr>impl := (impl w)\<lparr>m_mutex := False\<rparr>\<rparr>)"
  by (simp add: mutex_unlock_def wps)

lemma mem_rep_lengthD: "mem_rep xs ms \<Longrightarrow> i < length xs \<Longrightarrow> i < length (m_sessions ms)"
  using mem_rep_nth by blast

lemma wp_free_slot:
  "mem_rep xs (impl w) \<Longrightarrow> i < length xs \<Longrightarrow>
   wp (free_slot i) Q w = Q () (w\<lparr>impl := set_slot i session_defaults (impl w)\<rparr>)"
  by (simp add: free_slot_def wps mem_rep_lengthD)

lemma find_loop_run:
  "mem_rep xs (impl w) \<Longrightarrow> i + k = length xs \<Longrightarrow>
   wp (find_loop sid i k) (\<lambda>r w'. w' = w \<and>
     (r = -1 \<and> (\<forall>j<length xs. i \<le> j \<longrightarrow> s_id (xs ! j) \<noteq> Some sid) \<or>
      (\<exists>j<length xs. i \<le> j \<and> r = int j \<and> s_id (xs ! j) = Some sid))) w"
proof (induction k arbitrary: i)
  case 0
  then show ?case by (simp add: wps)
next
  case (Suc k)
  then have "i < length xs" by simp
  moreover have "wp (find_loop sid (Suc i) k) (\<lambda>r w'. w' = w \<and>
     (r = -1 \<and> (\<forall>j<length xs. Suc i \<le> j \<longrightarrow> s_id (xs ! j) \<noteq> Some sid) \<or>
      (\<exists>j<length xs. Suc i \<le> j \<and> r = int j \<and> s_id (xs ! j) = Some sid))) w"
    using Suc by simp
  ultimately show ?case
    using Suc.prems
    by (auto simp: wps elim!: wp_mono)
       (metis Suc_leI le_neq_implies_less)+
qed

lemma wp_find:
  assumes "mem_rep xs (impl w)"
    and "(\<forall>s\<in>set xs. s_id s \<noteq> Some sid) \<Longrightarrow> Q (-1) w"
    and "\<And>k. k < length xs \<Longrightarrow> s_id (xs ! k) = Some sid \<Longrightarrow> Q (int k) w"
  shows "wp (memory_store_find (Some sid)) Q w"
proof -
  have none: "Q (-1) w" if "\<forall>j<length xs. s_id (xs ! j) \<noteq> Some sid"
    using that by (intro assms(2)) (auto simp: in_set_conv_nth)
  have "wp (find_loop sid 0 (m_count (impl w))) Q w"
    by (rule wp_mono [OF find_loop_run [OF assms(1)]])
       (use none assms(3) mem_rep_count [OF assms(1)] in auto)
  then show ?thesis by (simp add: memory_store_find_def wps)
qed

lemma framed_is_expired: "framed (memory_store_is_expired p) (\<lambda>_. True)"
  by (simp add: memory_store_is_expired_def framed_def wps split: option.splits)

lemma wp_is_expired:
  "wp (memory_store_is_expired (Some s)) Q w =
     (if s_has_expires s
      then Q (s_expires_at s < wall_clock w (clock_reads w))
             (w\<lparr>clock_reads := Suc (clock_reads w)\<rparr>)
      else Q False w)"
  by (simp add: memory_store_is_expired_def wps)

text \<open>Removing swaps the last live session into the hole.\<close>

definition removed :: "nat \<Rightarrow> OpenDBSC_MemoryStore \<Rightarrow> OpenDBSC_MemoryStore" where
  "removed i ms =
     (let ms1 = set_slot i session_defaults ms;
          ms2 = (if i \<noteq> m_count ms - 1
                 then set_slot i (live ms ! (m_count ms - 1)) ms1 else ms1)
      in ms2\<lparr>m_count := m_count ms - 1\<rparr>)"

lemma removed_mutex [simp]: "m_mutex (removed i ms) = m_mutex ms"
  by (simp add: removed_def Let_def)

lemma mem_rep_removed:
  assumes rep: "mem_rep xs ms" and i: "i < length xs"
  shows "mem_rep (swap_remove i xs) (removed i ms)"
proof (cases "i = length xs - 1")
  case True
  from i have ne: "xs \<noteq> []" by auto
  have "mem_rep (xs[i := session_defaults]) (set_slot i session_defaults ms)"
    using rep by simp
  from mem_rep_shrink [OF this] ne
  have "mem_rep (take (length xs - 1) (xs[i := session_defaults]))
          ((set_slot i session_defaults ms)\<lparr>m_count := m_count ms - 1\<rparr>)"
    by simp
  then show ?thesis
    using True i mem_rep_count [OF rep]
    by (simp add: removed_def Let_def swap_remove_def)
next
  case False
  let ?l = "xs ! (length xs - 1)"
  have "mem_rep (xs[i := session_defaults, i := ?l]) (set_slot i ?l (set_slot i session_defaults ms))"
    by (rule mem_rep_set_slot [OF mem_rep_set_slot [OF rep]])
  then have "mem_rep (xs[i := ?l]) (set_slot i ?l ms)"
    by simp
  moreover from i have "xs \<noteq> []" by auto
  ultimately
  have "mem_rep (take (length xs - 1) (xs[i := ?l])) ((set_slot i ?l ms)\<lparr>m_count := m_count ms - 1\<rparr>)"
    using mem_rep_shrink [of "xs[i := ?l]" "set_slot i ?l ms"] by simp
  then show ?thesis
    using False mem_rep_count [OF rep] mem_rep_live [OF rep]
    by (simp add: removed_def Let_def swap_remove_def)
qed

lemma wp_remove_at:
  assumes rep: "mem_rep xs (impl w)" and i: "i < length xs"
  shows "wp (memory_store_remove_at i) Q w = Q () (w\<lparr>impl := removed i (impl w)\<rparr>)"
proof -
  let ?w1 = "w\<lparr>impl := set_slot i session_defaults (impl w)\<rparr>"
  have rep1: "mem_rep (xs[i := session_defaults]) (impl ?w1)"
    using rep by simp
  have len: "i < length (m_sessions (impl w))" "i < length (m_sessions (impl ?w1))"
    using mem_rep_lengthD [OF rep i] mem_rep_lengthD [OF rep1] i by auto
  have last: "length xs - 1 < length xs" using i by simp
  show ?thesis
  proof (cases "i = length xs - 1")
    case True
    then show ?thesis
      using rep i len mem_rep_count [OF rep]
      by (simp add: memory_store_remove_at_def wps removed_def Let_def)
  next
    case False
    have rd: "wp (read_slot (length xs - 1)) R ?w1 = R (xs ! (length xs - 1)) ?w1" for R
      using wp_read_slot [OF rep1, of "length xs - 1"] last False by simp
    show ?thesis
      using False rep i len mem_rep_count [OF rep] mem_rep_live [OF rep] rd
      by (simp add: memory_store_remove_at_def wps removed_def Let_def)
  qed
qed

lemma wp_copy_into_slot:
  assumes rep: "mem_rep xs (impl w)" and i: "i < length xs"
    and ok: "\<And>w'. frame w w' \<Longrightarrow> Q 0 (w'\<lparr>impl := set_slot i s (impl w)\<rparr>)"
    and fail: "\<And>w' d. frame w w' \<Longrightarrow> starved w \<Longrightarrow> Q (-1) (w'\<lparr>impl := set_slot i d (impl w)\<rparr>)"
  shows "wp (copy_into_slot i s) Q w"
proof -
  have wr: "wp (write_slot i d) R w' = R () (w'\<lparr>impl := set_slot i d (impl w)\<rparr>)"
    if "frame w w'" for d R w'
    using mem_rep_lengthD [OF rep i] frame_impl [OF that] by (simp add: wps)
  show ?thesis
    unfolding copy_into_slot_def using rep i
    by (auto simp: wps wr ok fail split: option.splits
          intro!: wp_framed_avail [OF framed_session_copy returns_session_copy])
qed

lemma wp_grow:
  assumes rep: "mem_rep xs (impl w)"
    and ok: "\<And>w' ms. frame w w' \<Longrightarrow> mem_rep xs ms \<Longrightarrow> m_count ms < m_capacity ms \<Longrightarrow>
               m_mutex ms = m_mutex (impl w) \<Longrightarrow> Q 0 (w'\<lparr>impl := ms\<rparr>)"
    and fail: "\<And>w'. frame w w' \<Longrightarrow> starved w \<Longrightarrow> Q (-1) w'"
  shows "wp memory_store_grow Q w"
proof (cases "m_count (impl w) < m_capacity (impl w)")
  case True
  from ok [OF frame_refl rep True refl] have "Q 0 w" by simp
  with True show ?thesis by (simp add: memory_store_grow_def wps)
next
  case False
  let ?nc = "if m_capacity (impl w) = 0 then OPENDBSC_MEMORY_STORE_INITIAL_CAPACITY
             else m_capacity (impl w) * 2"
  let ?ms = "(impl w)\<lparr>m_sessions := m_sessions (impl w) @
               replicate (?nc - length (m_sessions (impl w))) None, m_capacity := ?nc\<rparr>"
  from rep False have cap: "m_count (impl w) = m_capacity (impl w)"
    and len: "length (m_sessions (impl w)) = m_capacity (impl w)"
    and lt: "m_capacity (impl w) < ?nc"
    by (auto simp: mem_rep_def OPENDBSC_MEMORY_STORE_INITIAL_CAPACITY_def)
  have "mem_rep xs ?ms" "m_count ?ms < m_capacity ?ms" "m_mutex ?ms = m_mutex (impl w)"
    using rep cap len lt by (auto simp: mem_rep_def)
  then have "Q 0 (w\<lparr>mallocs := Suc (mallocs w), impl := ?ms\<rparr>)"
    by (intro ok) simp_all
  moreover have "Q (-1) (w\<lparr>mallocs := Suc (mallocs w)\<rparr>)" if "\<not> mem_ok w (mallocs w)"
    by (rule fail) (simp_all add: starvedI [OF that])
  ultimately show ?thesis
    using False by (simp add: memory_store_grow_def wps Let_def)
qed

section \<open>Keyed lists of sessions\<close>

text \<open>
  The map a list of live sessions stands for: the first one with the identifier. Slots a failed
  copy has reset have no identifier and stand for nothing.
\<close>

definition lookup :: "OpenDBSC_Session list \<Rightarrow> string \<Rightarrow> OpenDBSC_Session option" where
  "lookup xs i = List.find (\<lambda>s. s_id s = Some i) xs"

definition uniq :: "OpenDBSC_Session list \<Rightarrow> bool" where
  "uniq xs \<longleftrightarrow> distinct (filter (\<lambda>i. i \<noteq> None) (map s_id xs))"

lemma uniq_iff: "uniq xs \<longleftrightarrow> (\<forall>i. count (image_mset s_id (mset xs)) (Some i) \<le> 1)"
proof -
  have "uniq xs \<longleftrightarrow> (\<forall>a. count (mset (filter (\<lambda>i. i \<noteq> None) (map s_id xs))) a \<le> 1)"
    unfolding uniq_def distinct_count_atmost_1
    by (metis count_mset_0_iff le_less_Suc_eq less_one nat_less_le not_le One_nat_def order_refl zero_le_one)
  also have "\<dots> \<longleftrightarrow> (\<forall>i. count (image_mset s_id (mset xs)) (Some i) \<le> 1)"
    by (auto simp: mset_filter)
  finally show ?thesis .
qed

lemma uniq_mset_cong: "mset xs = mset ys \<Longrightarrow> uniq xs \<longleftrightarrow> uniq ys"
  by (simp add: uniq_iff)

lemma uniq_member:
  assumes "uniq xs" and "s \<in> set xs" and "t \<in> set xs" and "s_id s = Some i" and "s_id t = Some i"
  shows "s = t"
proof (rule ccontr)
  assume "s \<noteq> t"
  from assms(2) have "s \<in># mset xs" by simp
  then obtain M where M: "mset xs = add_mset s M"
    by (blast dest: multi_member_split)
  from assms(3) have "t \<in># mset xs" by simp
  with M \<open>s \<noteq> t\<close> have "t \<in># M" by simp
  then obtain N where "M = add_mset t N"
    by (blast dest: multi_member_split)
  with M have "mset xs = add_mset s (add_mset t N)" by simp
  then have "count (image_mset s_id (mset xs)) (Some i) \<ge> 2"
    using assms(4,5) by simp
  with assms(1) show False
    by (auto simp: uniq_iff dest: spec [of _ i])
qed

lemma lookup_Some_iff:
  assumes "uniq xs"
  shows "lookup xs i = Some s \<longleftrightarrow> s \<in> set xs \<and> s_id s = Some i"
proof
  assume "lookup xs i = Some s"
  then show "s \<in> set xs \<and> s_id s = Some i"
    unfolding lookup_def by (auto simp: find_Some_iff)
next
  assume s: "s \<in> set xs \<and> s_id s = Some i"
  then obtain t where t: "lookup xs i = Some t"
    unfolding lookup_def by (cases "List.find (\<lambda>s. s_id s = Some i) xs") (auto simp: find_None_iff)
  then have "t \<in> set xs \<and> s_id t = Some i"
    unfolding lookup_def by (auto simp: find_Some_iff)
  with s uniq_member [OF assms] have "s = t" by blast
  with t show "lookup xs i = Some s" by simp
qed

lemma lookup_None_iff: "lookup xs i = None \<longleftrightarrow> (\<forall>s\<in>set xs. s_id s \<noteq> Some i)"
  unfolding lookup_def by (auto simp: find_None_iff)

lemma lookup_nth: "uniq xs \<Longrightarrow> k < length xs \<Longrightarrow> s_id (xs ! k) = Some i \<Longrightarrow> lookup xs i = Some (xs ! k)"
  by (simp add: lookup_Some_iff)

lemma lookup_eqI:
  assumes "uniq xs" and "\<And>i s. (s \<in> set xs \<and> s_id s = Some i) \<longleftrightarrow> m i = Some s"
  shows "lookup xs = m"
proof
  fix i
  show "lookup xs i = m i"
    using assms(2) [of _ i] lookup_Some_iff [OF assms(1), of i] by (metis option.exhaust)
qed

lemma mset_swap_remove:
  assumes "k < length xs"
  shows "mset (swap_remove k xs) = mset xs - {#xs ! k#}"
proof -
  from assms obtain ys z where xs: "xs = ys @ [z]"
    by (metis length_0_conv less_nat_zero_code rev_exhaust)
  show ?thesis
  proof (cases "k < length ys")
    case True
    then have "swap_remove k xs = ys[k := z]"
      by (simp add: swap_remove_def xs list_update_append1)
    with True show ?thesis
      by (simp add: xs mset_update nth_append)
  next
    case False
    with assms have "k = length ys" by (simp add: xs)
    then show ?thesis by (simp add: swap_remove_def xs)
  qed
qed

lemma mem_diff_uniq:
  assumes "uniq xs" and "k < length xs" and "s_id (xs ! k) = Some i"
  shows "s \<in># mset xs - {#xs ! k#} \<longleftrightarrow> s \<in> set xs \<and> s_id s \<noteq> Some i"
proof -
  obtain M where M: "mset xs = add_mset (xs ! k) M"
    using assms(2) by (metis in_multiset_in_set multi_member_split nth_mem)
  have "s_id t \<noteq> Some i" if "t \<in># M" for t
  proof
    assume "s_id t = Some i"
    moreover from that obtain N where "M = add_mset t N"
      by (metis multi_member_split)
    ultimately have "count (image_mset s_id (mset xs)) (Some i) \<ge> 2"
      using M assms(3) by simp
    with assms(1) show False by (auto simp: uniq_iff dest: spec [of _ i])
  qed
  moreover have "set xs = insert (xs ! k) (set_mset M)"
    using M by (metis set_mset_add_mset_insert set_mset_mset)
  ultimately show ?thesis using M assms(3) by auto
qed

lemma uniq_diff: "uniq xs \<Longrightarrow> mset ys = mset xs - {#x#} \<Longrightarrow> uniq ys"
  unfolding uniq_iff by (metis count_le_replicate_mset_subset_eq diff_subset_eq_self
    image_mset_subseteq_mono le_trans mset_subset_eq_count)

lemma swap_remove_lookup:
  assumes "uniq xs" and "k < length xs" and "s_id (xs ! k) = Some i"
  shows "uniq (swap_remove k xs)" and "lookup (swap_remove k xs) = (lookup xs)(i := None)"
proof -
  note ms = mset_swap_remove [OF assms(2)]
  show u: "uniq (swap_remove k xs)" by (rule uniq_diff [OF assms(1) ms])
  have "set (swap_remove k xs) = set_mset (mset xs - {#xs ! k#})"
    by (metis ms set_mset_mset)
  then show "lookup (swap_remove k xs) = (lookup xs)(i := None)"
    using assms by (intro lookup_eqI [OF u]) (auto simp: mem_diff_uniq lookup_Some_iff)
qed

lemma update_lookup:
  assumes "uniq xs" and "k < length xs" and "s_id (xs ! k) = Some i"
    and "s_id s = Some i \<or> s_id s = None"
  shows "uniq (xs[k := s])"
    and "lookup (xs[k := s]) = (lookup xs)(i := (if s_id s = None then None else Some s))"
proof -
  have ms: "mset (xs[k := s]) = add_mset s (mset xs - {#xs ! k#})"
    using assms(2) by (rule mset_update)
  have "count (image_mset s_id (mset (xs[k := s]))) (Some j) \<le>
        count (image_mset s_id (mset xs)) (Some j)" for j
  proof -
    obtain M where M: "mset xs = add_mset (xs ! k) M"
      using assms(2) by (metis in_multiset_in_set multi_member_split nth_mem)
    with ms assms(3,4) show ?thesis by auto
  qed
  then show u: "uniq (xs[k := s])"
    using assms(1) unfolding uniq_iff by (meson le_trans)
  have "set (xs[k := s]) = insert s (set_mset (mset xs - {#xs ! k#}))"
    by (metis ms set_mset_add_mset_insert set_mset_mset)
  then show "lookup (xs[k := s]) = (lookup xs)(i := (if s_id s = None then None else Some s))"
    using assms by (intro lookup_eqI [OF u]) (auto simp: mem_diff_uniq lookup_Some_iff)
qed

lemma append_lookup:
  assumes "uniq xs" and "lookup xs i = None" and "s_id s = Some i"
  shows "uniq (xs @ [s])" and "lookup (xs @ [s]) = (lookup xs)(i \<mapsto> s)"
proof -
  have "Some i \<notin># image_mset s_id (mset xs)"
    using assms(2) by (auto simp: lookup_None_iff)
  then have "count (image_mset s_id (mset xs)) (Some i) = 0"
    by (simp only: not_in_iff)
  then show u: "uniq (xs @ [s])"
    using assms(1,3) by (auto simp: uniq_iff)
  show "lookup (xs @ [s]) = (lookup xs)(i \<mapsto> s)"
    using assms by (intro lookup_eqI [OF u]) (auto simp: lookup_Some_iff lookup_None_iff)
qed

section \<open>Well-formed stores and what the operations do to them\<close>

definition mem_wf :: "OpenDBSC_MemoryStore \<Rightarrow> bool" where
  "mem_wf ms \<longleftrightarrow> mem_rep (live ms) ms \<and> uniq (live ms) \<and> \<not> m_mutex ms"

definition mem_view :: "OpenDBSC_MemoryStore \<Rightarrow> string \<Rightarrow> OpenDBSC_Session option" where
  "mem_view ms = lookup (live ms)"

text \<open>The state after an operation: same oracles, and a store with the given sessions.\<close>

definition mem_post ::
  "OpenDBSC_MemoryStore sys \<Rightarrow> bool \<Rightarrow> OpenDBSC_Session list \<Rightarrow> OpenDBSC_MemoryStore sys \<Rightarrow> bool" where
  "mem_post w held xs w' \<longleftrightarrow> oframe w w' \<and> mem_rep xs (impl w') \<and> m_mutex (impl w') = held"

lemma mem_postD:
  assumes "mem_post w False xs w'" and "uniq xs"
  shows "oframe w w'" and "mem_wf (impl w')" and "mem_view (impl w') = lookup xs"
  using assms mem_rep_live [of xs "impl w'"] by (auto simp: mem_post_def mem_wf_def mem_view_def)

lemma mem_wf_post: "mem_wf (impl w) \<Longrightarrow> mem_post w False (live (impl w)) w"
  by (simp add: mem_wf_def mem_post_def)

lemma mem_post_frame: "mem_post w held xs w' \<Longrightarrow> frame w' w'' \<Longrightarrow> mem_post w held xs w''"
  unfolding mem_post_def using frame_impl frame_oframe oframe_trans by metis

lemma mem_post_starved: "mem_post w held xs w' \<Longrightarrow> starved w' = starved w"
  by (simp add: mem_post_def oframe_starved)

lemma mem_post_clock:
  "mem_post w held xs w' \<Longrightarrow>
   mem_post w held xs (w'\<lparr>clock_reads := Suc (clock_reads w')\<rparr>)"
  by (simp add: mem_post_def)

lemma wp_lock_post:
  "mem_post w False xs w' \<Longrightarrow> (\<And>w''. mem_post w True xs w'' \<Longrightarrow> clock_reads w'' = clock_reads w' \<Longrightarrow> Q () w'') \<Longrightarrow>
   wp mutex_lock Q w'"
  by (simp add: wps mem_post_def)

lemma wp_unlock_post:
  "mem_post w True xs w' \<Longrightarrow> (\<And>w''. mem_post w False xs w'' \<Longrightarrow> clock_reads w'' = clock_reads w' \<Longrightarrow> Q () w'') \<Longrightarrow>
   wp mutex_unlock Q w'"
  by (simp add: wps mem_post_def)

lemma wp_unlock_ret:
  "mem_post w True xs w' \<Longrightarrow>
   (\<And>w''. mem_post w False xs w'' \<Longrightarrow> clock_reads w'' = clock_reads w' \<Longrightarrow> Q x w'') \<Longrightarrow>
   wp (do { mutex_unlock; ret x }) Q w'"
  by (simp add: wps mem_post_def)

lemma wp_find_post:
  assumes "mem_post w b xs w'"
    and "(\<forall>s\<in>set xs. s_id s \<noteq> Some sid) \<Longrightarrow> Q (-1) w'"
    and "\<And>k. k < length xs \<Longrightarrow> s_id (xs ! k) = Some sid \<Longrightarrow> Q (int k) w'"
  shows "wp (memory_store_find (Some sid)) Q w'"
  using assms by (intro wp_find [of xs]) (auto simp: mem_post_def)

lemma wp_free_slot_post:
  "mem_post w b xs w' \<Longrightarrow> k < length xs \<Longrightarrow>
   (\<And>w''. mem_post w b (xs[k := session_defaults]) w'' \<Longrightarrow> Q () w'') \<Longrightarrow> wp (free_slot k) Q w'"
  by (subst wp_free_slot [of xs]) (auto simp: mem_post_def)

lemma wp_init_slot_post:
  "mem_post w b xs w' \<Longrightarrow> k < length xs \<Longrightarrow>
   (\<And>w''. mem_post w b (xs[k := session_defaults]) w'' \<Longrightarrow> Q () w'') \<Longrightarrow> wp (init_slot k) Q w'"
  using mem_rep_lengthD [of xs "impl w'" k] by (simp add: init_slot_def wps mem_post_def)

lemma wp_copy_post:
  assumes "mem_post w b xs w'" and "k < length xs"
    and "\<And>w''. mem_post w b (xs[k := s]) w'' \<Longrightarrow> Q 0 w''"
    and "\<And>w'' d. mem_post w b (xs[k := d]) w'' \<Longrightarrow> starved w \<Longrightarrow> Q (-1) w''"
  shows "wp (copy_into_slot k s) Q w'"
proof (rule wp_copy_into_slot [of xs])
  have "mem_post w b (xs[k := d]) (w''\<lparr>impl := set_slot k d (impl w')\<rparr>)" if "frame w' w''" for w'' d
    using assms(1) frame_oframe [OF that] by (auto simp: mem_post_def intro: oframe_trans)
  then show "Q 0 (w''\<lparr>impl := set_slot k s (impl w')\<rparr>)"
    "starved w' \<Longrightarrow> Q (-1) (w''\<lparr>impl := set_slot k d (impl w')\<rparr>)" if "frame w' w''" for w'' d
    using that assms(3,4) mem_post_starved [OF assms(1)] by blast+
qed (use assms in \<open>simp_all add: mem_post_def\<close>)

lemma wp_remove_post:
  "mem_post w b xs w' \<Longrightarrow> k < length xs \<Longrightarrow>
   (\<And>w''. mem_post w b (swap_remove k xs) w'' \<Longrightarrow> clock_reads w'' = clock_reads w' \<Longrightarrow> Q () w'') \<Longrightarrow>
   wp (memory_store_remove_at k) Q w'"
  by (subst wp_remove_at [of xs]) (auto simp: mem_post_def mem_rep_removed)

text \<open>The overwriting tail that create and update share.\<close>

lemma wp_overwrite:
  assumes post: "mem_post w True xs w'" and k: "k < length xs"
    and ok: "\<And>w''. mem_post w False (xs[k := s]) w'' \<Longrightarrow> Q 0 w''"
    and fail: "\<And>w''. mem_post w False (xs[k := session_defaults]) w'' \<Longrightarrow> starved w \<Longrightarrow> Q (-1) w''"
  shows "wp (overwrite_slot k s) Q w'"
proof -
  have cleanup: "wp (do { free_slot k; init_slot k; mutex_unlock; ret (-1) }) Q v"
    if "mem_post w True (xs[k := d]) v" "starved w" for v d
    unfolding wp_bind
    by (rule wp_free_slot_post [OF that(1)]) (use k in simp, erule wp_init_slot_post, use k in simp,
        erule wp_unlock_post, simp add: wps fail that(2))
  show ?thesis
    unfolding overwrite_slot_def wp_bind
    by (rule wp_free_slot_post [OF post k], rule wp_copy_post, assumption, simp add: k)
       (auto simp: ok cleanup simp flip: wp_bind intro!: wp_unlock_ret)
qed

text \<open>The appending tail of create: the slot after the live ones is filled, then counted.\<close>

lemma wp_append:
  assumes post: "mem_post w True xs w'" and spare: "m_count (impl w') < m_capacity (impl w')"
    and ok: "\<And>w''. mem_post w False (xs @ [s]) w'' \<Longrightarrow> Q 0 w''"
    and fail: "\<And>w''. mem_post w False xs w'' \<Longrightarrow> starved w \<Longrightarrow> Q (-1) w''"
  shows "wp (append_slot s) Q w'"
proof -
  let ?n = "m_count (impl w')"
  from post have rep: "mem_rep xs (impl w')" and held: "m_mutex (impl w')" and o: "oframe w w'"
    by (simp_all add: mem_post_def)
  from rep spare have len: "?n < length (m_sessions (impl w'))" by (simp add: mem_rep_def)
  have keep: "mem_rep xs (set_slot ?n d (impl w'))" for d
    using rep by (simp add: mem_rep_def set_slot_def)
  have ext: "mem_rep (xs @ [s]) ((set_slot ?n s (impl w'))\<lparr>m_count := Suc ?n\<rparr>)"
    by (rule mem_rep_extend [OF rep spare])
  have rd: "wp (read_slot ?n) R (v\<lparr>impl := set_slot ?n d (impl w')\<rparr>) =
            R d (v\<lparr>impl := set_slot ?n d (impl w')\<rparr>)" for v :: "OpenDBSC_MemoryStore sys" and R d
    using len by (simp add: read_slot_def wps set_slot_def)
  have wr: "wp (write_slot ?n e) R (v\<lparr>impl := set_slot ?n d (impl w')\<rparr>) =
            R () (v\<lparr>impl := set_slot ?n e (impl w')\<rparr>)" for v :: "OpenDBSC_MemoryStore sys" and R d e
    using len by (subst wp_write_slot) (simp_all add: set_slot_def)
  have wr': "wp (write_slot ?n e) R v = R () (v\<lparr>impl := set_slot ?n e (impl w')\<rparr>)"
    if "frame (w'\<lparr>impl := set_slot ?n d (impl w')\<rparr>) v" for v R d e
    using frame_impl [OF that] len by (subst wp_write_slot) (simp_all add: set_slot_def)
  have o': "oframe w v" if "frame (w'\<lparr>impl := x\<rparr>) v" for v x
    using frame_oframe [OF that] o by (auto simp: oframe_def)
  have st: "starved (w'\<lparr>impl := x\<rparr>) \<longleftrightarrow> starved w" for x
    using oframe_starved [OF o] by (simp add: starved_def)
  show ?thesis
    using held len
    by (auto simp: append_slot_def wps wr wr' rd init_slot_def free_slot_def copy_into_slot_def wp_write_slot
          mem_post_def ext keep o' st split: option.splits
          intro!: wp_framed_avail [OF framed_session_copy returns_session_copy] ok fail)
qed

lemma mem_create_spec:
  assumes wf: "mem_wf (impl w)" and i: "s_id s = Some i"
  shows "wp (opendbsc_memory_store_create_impl (Some s)) (\<lambda>rc w'.
    oframe w w' \<and> mem_wf (impl w') \<and>
    (rc = 0 \<and> mem_view (impl w') = (mem_view (impl w))(i \<mapsto> s) \<or>
     rc = -1 \<and> starved w \<and> mem_view (impl w') = (mem_view (impl w))(i := None))) w"
    (is "wp _ ?Q w")
proof -
  define Q where "Q = ?Q"
  define xs where "xs = live (impl w)"
  have u: "uniq xs" and view: "mem_view (impl w) = lookup xs"
    using wf by (simp_all add: xs_def mem_wf_def mem_view_def)
  have post: "mem_post w False xs w" using mem_wf_post [OF wf] by (simp add: xs_def)
  have Qi: "Q rc v" if "mem_post w False ys v" "uniq ys"
    "rc = 0 \<and> lookup ys = (lookup xs)(i \<mapsto> s) \<or>
     rc = -1 \<and> starved w \<and> lookup ys = (lookup xs)(i := None)" for rc v ys
    using mem_postD [OF that(1,2)] that(3) view by (simp add: Q_def)
  have overwrite: "Q 0 v" if "k < length xs" "s_id (xs ! k) = Some i" "mem_post w False (xs[k := s]) v" for k v
    using update_lookup [OF u that(1,2), of s] i that(3) by (intro Qi) auto
  have lost: "Q (-1) v" if "k < length xs" "s_id (xs ! k) = Some i"
    "mem_post w False (xs[k := session_defaults]) v" "starved w" for k v
    using update_lookup [OF u that(1,2), of session_defaults] that(3,4) by (intro Qi) auto
  have added: "Q 0 v" if "\<forall>s\<in>set xs. s_id s \<noteq> Some i" "mem_post w False (xs @ [s]) v" for v
    using append_lookup [OF u _ i] that by (intro Qi) (auto simp: lookup_None_iff)
  have same: "Q (-1) v" if "\<forall>s\<in>set xs. s_id s \<noteq> Some i" "mem_post w False xs v" "starved w" for v
    using that u by (intro Qi) (auto simp: lookup_None_iff fun_eq_iff)
  have grow: "wp memory_store_grow R v"
    if "mem_post w True xs v" and "\<And>v'. mem_post w True xs v' \<Longrightarrow> starved w \<Longrightarrow> R (-1) v'"
      and "\<And>v'. mem_post w True xs v' \<Longrightarrow> m_count (impl v') < m_capacity (impl v') \<Longrightarrow> R 0 v'" for R v
  proof (rule wp_grow [of xs])
    show "mem_rep xs (impl v)" using that(1) by (simp add: mem_post_def)
    show "R (-1) v'" if "frame v v'" "starved v" for v'
      using that mem_post_frame [OF \<open>mem_post w True xs v\<close>] mem_post_starved [OF \<open>mem_post w True xs v\<close>]
        \<open>\<And>v'. mem_post w True xs v' \<Longrightarrow> starved w \<Longrightarrow> R (-1) v'\<close>
      by blast
    show "R 0 (v'\<lparr>impl := ms\<rparr>)" if "frame v v'" "mem_rep xs ms" "m_count ms < m_capacity ms"
      "m_mutex ms = m_mutex (impl v)" for v' ms
      using that \<open>mem_post w True xs v\<close> mem_post_frame [OF \<open>mem_post w True xs v\<close> that(1)]
        \<open>\<And>v'. mem_post w True xs v' \<Longrightarrow> m_count (impl v') < m_capacity (impl v') \<Longrightarrow> R 0 v'\<close>
      by (auto simp: mem_post_def)
  qed
  show ?thesis
    unfolding Q_def [symmetric] opendbsc_memory_store_create_impl_def option.case i
    apply simp
    apply (rule wp_bindI, rule wp_lock_post [OF post])
    apply (rule wp_bindI, rule wp_find_post, assumption)
    subgoal for w1
      apply simp
      apply (rule wp_bindI, rule grow, assumption)
      subgoal by simp (erule wp_unlock_ret, erule (2) same)
      subgoal by simp (rule wp_append, assumption+, erule (1) added, erule (2) same)
      done
    subgoal for w1 k
      by simp (rule wp_overwrite, assumption+, erule (2) overwrite, erule (3) lost)
    done
qed

lemma wp_read_post:
  "mem_post w b xs w' \<Longrightarrow> k < length xs \<Longrightarrow> wp (read_slot k) Q w' = Q (xs ! k) w'"
  by (rule wp_read_slot) (simp_all add: mem_post_def)

text \<open>The expiry test of a stored session, with the clock reading it used.\<close>

lemma wp_is_expired_post:
  assumes post: "mem_post w b xs w'"
    and yes: "\<And>v. mem_post w b xs v \<Longrightarrow> clock_reads v = Suc (clock_reads w') \<Longrightarrow>
                expired_between w v s \<Longrightarrow> Q True v"
    and no: "\<And>v. mem_post w b xs v \<Longrightarrow> clock_reads w' \<le> clock_reads v \<Longrightarrow>
               live_between w v s \<Longrightarrow> Q False v"
  shows "wp (memory_store_is_expired (Some s)) Q w'"
proof -
  from post have o: "clock_reads w \<le> clock_reads w'" "wall_clock w' = wall_clock w"
    by (auto simp: mem_post_def oframe_def)
  let ?v = "w'\<lparr>clock_reads := Suc (clock_reads w')\<rparr>"
  have "Q (s_expires_at s < wall_clock w' (clock_reads w')) ?v" if "s_has_expires s"
  proof (cases "s_expires_at s < wall_clock w' (clock_reads w')")
    case True
    then have "expired_between w ?v s"
      using that o by (auto simp: expired_between_def intro!: exI [of _ "clock_reads w'"])
    with True yes [OF mem_post_clock [OF post]] show ?thesis by simp
  next
    case False
    then have "live_between w ?v s"
      using that o by (auto simp: live_between_def intro!: exI [of _ "clock_reads w'"])
    with False no [OF mem_post_clock [OF post], simplified] show ?thesis by simp
  qed
  moreover have "Q False w'" if "\<not> s_has_expires s"
    using that by (intro no [OF post]) (simp_all add: live_between_def)
  ultimately show ?thesis by (simp add: wp_is_expired)
qed

lemma expired_between_mono:
  "expired_between w v s \<Longrightarrow> clock_reads v \<le> clock_reads v' \<Longrightarrow> expired_between w v' s"
  by (auto simp: expired_between_def)

lemma live_between_mono:
  "live_between w v s \<Longrightarrow> clock_reads v \<le> clock_reads v' \<Longrightarrow> live_between w v' s"
  by (auto simp: live_between_def)

lemma mem_get_spec:
  assumes wf: "mem_wf (impl w)"
  shows "wp (opendbsc_memory_store_get_impl (Some i)) (\<lambda>(rc, out) w'.
    oframe w w' \<and> mem_wf (impl w') \<and>
    (rc = 0 \<and> out \<noteq> None \<and> mem_view (impl w) i = out \<and> mem_view (impl w') = mem_view (impl w) \<and>
       live_between w w' (the out) \<or>
     rc = -1 \<and> out = None \<and>
       (mem_view (impl w') = mem_view (impl w) \<and> (mem_view (impl w) i = None \<or> starved w) \<or>
        (\<exists>s. mem_view (impl w) i = Some s \<and> expired_between w w' s \<and>
             mem_view (impl w') = (mem_view (impl w))(i := None))))) w"
    (is "wp _ ?Q w")
proof -
  define Q where "Q = ?Q"
  define xs where "xs = live (impl w)"
  have u: "uniq xs" and view: "mem_view (impl w) = lookup xs"
    using wf by (simp_all add: xs_def mem_wf_def mem_view_def)
  have post: "mem_post w False xs w" using mem_wf_post [OF wf] by (simp add: xs_def)
  have same: "Q (-1, None) v" if "mem_post w False xs v"
    "(\<forall>s\<in>set xs. s_id s \<noteq> Some i) \<or> starved w" for v
    using mem_postD [OF that(1) u] that(2) view by (auto simp: Q_def lookup_None_iff)
  have found: "Q (0, Some (xs ! k)) v" if "k < length xs" "s_id (xs ! k) = Some i"
    "mem_post w False xs v" "live_between w v (xs ! k)" for k v
    using mem_postD [OF that(3) u] view lookup_nth [OF u that(1,2)] that(4) by (simp add: Q_def)
  have gone: "Q (-1, None) v" if "k < length xs" "s_id (xs ! k) = Some i"
    "mem_post w False (swap_remove k xs) v" "expired_between w v (xs ! k)" for k v
    using mem_postD [OF that(3)] swap_remove_lookup [OF u that(1,2)] view
      lookup_nth [OF u that(1,2)] that(4) by (simp add: Q_def)
  have fetch: "wp (do { ok \<leftarrow> alloc;
      if \<not> ok then do { mutex_unlock; ret (-1, None) }
      else do { (rc, copy) \<leftarrow> opendbsc_session_copy (opendbsc_session_init (Some session_defaults)) (Some (xs ! k));
                if rc \<noteq> 0 then do { mutex_unlock; ret (-1, None) }
                else do { mutex_unlock; ret (0, copy) } } }) Q v"
    if k: "k < length xs" "s_id (xs ! k) = Some i" and v: "mem_post w True xs v" "live_between w v (xs ! k)" for k v
  proof (rule wp_bindI, rule wp_framed_avail [OF framed_alloc returns_alloc])
    fix ok v1
    assume f1: "frame v v1" and ok1: "ok \<noteq> True \<longrightarrow> starved v"
    from mem_post_frame [OF v(1) f1] have v1: "mem_post w True xs v1" .
    have l1: "live_between w v1 (xs ! k)"
      using live_between_mono [OF v(2) frame_clock_reads [OF f1]] .
    have "wp (opendbsc_session_copy (Some session_defaults) (Some (xs ! k)))
       (\<lambda>r. wp (if fst r \<noteq> 0 then do { mutex_unlock; ret (-1, None) }
                  else do { mutex_unlock; ret (0, snd r) }) Q) v1"
    proof (rule wp_framed_avail [OF framed_session_copy returns_session_copy])
      fix r :: "int \<times> OpenDBSC_Session option" and v2
      assume f2: "frame v1 v2" and st: "r \<noteq> (0, Some (xs ! k)) \<longrightarrow> starved v1" and
        r: "case r of (rc, p) \<Rightarrow> rc = 0 \<and> p = Some (xs ! k) \<or> rc = - 1 \<and> p \<noteq> None"
      have v2: "mem_post w True xs v2" by (rule mem_post_frame [OF v1 f2])
      have l2: "live_between w v2 (xs ! k)"
        using live_between_mono [OF l1 frame_clock_reads [OF f2]] .
      have ok: "wp (do { mutex_unlock; ret (0, Some (xs ! k)) }) Q v2"
        by (rule wp_unlock_ret [OF v2]) (rule found [OF k], assumption, rule live_between_mono [OF l2], simp)
      have err: "wp (do { mutex_unlock; ret (-1, None) }) Q v2" if "r \<noteq> (0, Some (xs ! k))"
        using that st mem_post_starved [OF v1] by (intro wp_unlock_ret [OF v2]) (auto intro!: same)
      show "wp (if fst r \<noteq> 0 then do { mutex_unlock; ret (-1, None) }
                else do { mutex_unlock; ret (0, snd r) }) Q v2"
      proof (cases "r = (0, Some (xs ! k))")
        case True
        with ok show ?thesis by simp
      next
        case False
        with r have "fst r = -1" by auto
        with err [OF False] show ?thesis by simp
      qed
    qed
    moreover have "wp (do { mutex_unlock; ret (-1, None) }) Q v1" if "\<not> ok"
      using that ok1 mem_post_starved [OF v(1)] by (intro wp_unlock_ret [OF v1]) (auto intro!: same)
    ultimately show "wp (if \<not> ok then do { mutex_unlock; ret (-1, None) }
      else do { (rc, copy) \<leftarrow> opendbsc_session_copy (opendbsc_session_init (Some session_defaults)) (Some (xs ! k));
                if rc \<noteq> 0 then do { mutex_unlock; ret (-1, None) }
                else do { mutex_unlock; ret (0, copy) } }) Q v1"
      by (cases ok) (simp_all add: wp_bind [of "opendbsc_session_copy _ _"] case_prod_beta)
  qed
  show ?thesis
    unfolding Q_def [symmetric] opendbsc_memory_store_get_impl_def
    apply simp
    apply (rule wp_bindI, rule wp_lock_post [OF post])
    apply (rule wp_bindI, rule wp_find_post, assumption)
    subgoal by simp (erule wp_unlock_ret, erule same, simp)
    subgoal for w1 k
      apply simp
      apply (rule wp_bindI, subst wp_read_post, assumption+)
      apply (rule wp_bindI, rule wp_is_expired_post, assumption)
      subgoal for v
        apply simp
        apply (rule wp_bindI, rule wp_remove_post, assumption+)
        apply (rule wp_unlock_ret, assumption)
        apply (rule gone, assumption+)
        apply (erule expired_between_mono, simp)
        done
      subgoal for v using fetch [of k v] by simp
      done
    done
qed

lemma mem_update_spec:
  assumes wf: "mem_wf (impl w)" and i: "s_id s = Some i"
  shows "wp (opendbsc_memory_store_update_impl (Some s)) (\<lambda>rc w'.
    oframe w w' \<and> mem_wf (impl w') \<and>
    (rc = 0 \<and> mem_view (impl w) i \<noteq> None \<and> mem_view (impl w') = (mem_view (impl w))(i \<mapsto> s) \<or>
     rc = -1 \<and> (mem_view (impl w) i = None \<or> starved w) \<and>
       mem_view (impl w') = (mem_view (impl w))(i := None))) w"
    (is "wp _ ?Q w")
proof -
  define Q where "Q = ?Q"
  define xs where "xs = live (impl w)"
  have u: "uniq xs" and view: "mem_view (impl w) = lookup xs"
    using wf by (simp_all add: xs_def mem_wf_def mem_view_def)
  have post: "mem_post w False xs w" using mem_wf_post [OF wf] by (simp add: xs_def)
  have same: "Q (-1) v" if "\<forall>s\<in>set xs. s_id s \<noteq> Some i" "mem_post w False xs v" for v
    using mem_postD [OF that(2) u] that(1) view by (auto simp: Q_def lookup_None_iff fun_eq_iff)
  have stored: "Q 0 v" if "k < length xs" "s_id (xs ! k) = Some i" "mem_post w False (xs[k := s]) v" for k v
    using mem_postD [OF that(3)] update_lookup [OF u that(1,2), of s] lookup_nth [OF u that(1,2)] i view
    by (simp add: Q_def)
  have lost: "Q (-1) v" if "k < length xs" "s_id (xs ! k) = Some i"
    "mem_post w False (xs[k := session_defaults]) v" "starved w" for k v
    using mem_postD [OF that(3)] update_lookup [OF u that(1,2), of session_defaults] that(4) view by (simp add: Q_def)
  show ?thesis
    unfolding Q_def [symmetric] opendbsc_memory_store_update_impl_def option.case i
    apply simp
    apply (rule wp_bindI, rule wp_lock_post [OF post])
    apply (rule wp_bindI, rule wp_find_post, assumption)
    subgoal by simp (erule wp_unlock_ret, erule (1) same)
    subgoal by simp (rule wp_overwrite, assumption+, erule (2) stored, erule (3) lost)
    done
qed

lemma mem_delete_spec:
  assumes wf: "mem_wf (impl w)"
  shows "wp (opendbsc_memory_store_delete_impl (Some i)) (\<lambda>rc w'.
    oframe w w' \<and> mem_wf (impl w') \<and> rc = 0 \<and>
    mem_view (impl w') = (mem_view (impl w))(i := None)) w"
    (is "wp _ ?Q w")
proof -
  define xs where "xs = live (impl w)"
  have u: "uniq xs" and view: "mem_view (impl w) = lookup xs"
    using wf by (simp_all add: xs_def mem_wf_def mem_view_def)
  have post: "mem_post w False xs w" using mem_wf_post [OF wf] by (simp add: xs_def)
  have absent: "?Q 0 v" if "\<forall>s\<in>set xs. s_id s \<noteq> Some i" "mem_post w False xs v" for v
    using mem_postD [OF that(2) u] that(1) view by (auto simp: lookup_None_iff fun_eq_iff)
  have gone: "?Q 0 v" if "k < length xs" "s_id (xs ! k) = Some i"
    "mem_post w False (swap_remove k xs) v" for k v
    using mem_postD [OF that(3)] swap_remove_lookup [OF u that(1,2)] view by simp
  show ?thesis
    unfolding opendbsc_memory_store_delete_impl_def
    apply simp
    apply (rule wp_bindI, rule wp_lock_post [OF post])
    apply (rule wp_bindI, rule wp_find_post, assumption)
    subgoal by simp (rule wp_unlock_ret, assumption, erule (1) absent)
    subgoal
      apply simp
      apply (rule wp_bindI, rule wp_remove_post, assumption+)
      apply (rule wp_unlock_ret, assumption, erule (2) gone)
      done
    done
qed

section \<open>The sweeping and copying loops\<close>

lemma take_swap_remove: "i < length xs \<Longrightarrow> take i (swap_remove i xs) = take i xs"
proof -
  assume "i < length xs"
  then have "i \<le> length xs - 1" by simp
  then show ?thesis by (simp add: swap_remove_def)
qed

lemma length_swap_remove [simp]: "i < length xs \<Longrightarrow> length (swap_remove i xs) = length xs - 1"
  by (simp add: swap_remove_def)

lemma mset_drop_swap_remove:
  assumes "i < length xs"
  shows "mset (drop i xs) = add_mset (xs ! i) (mset (drop i (swap_remove i xs)))"
proof -
  have split: "mset ys = mset (take i ys) + mset (drop i ys)" for ys :: "'a list"
    by (metis append_take_drop_id mset_append)
  have "xs ! i \<in># mset xs" using assms by simp
  with mset_swap_remove [OF assms] have "mset xs = add_mset (xs ! i) (mset (swap_remove i xs))"
    by simp
  then show ?thesis
    unfolding split [of xs] split [of "swap_remove i xs"] take_swap_remove [OF assms] by simp
qed

lemma drop_nth: "i < length xs \<Longrightarrow> drop i xs = xs ! i # drop (Suc i) xs"
  by (rule Cons_nth_drop_Suc [symmetric])

lemma take_Suc_nth: "i < length xs \<Longrightarrow> take (Suc i) xs = take i xs @ [xs ! i]"
  by (rule take_Suc_conv_app_nth)

text \<open>Deleting a user's sessions keeps exactly the others.\<close>

lemma wp_delete_user_loop:
  assumes "mem_post w True xs v" and "i + k = length xs"
  shows "wp (delete_user_loop u k i) (\<lambda>_ w'. \<exists>ys. mem_post w True ys w' \<and>
    mset ys = mset (take i xs) + filter_mset (\<lambda>s. s_user_id s \<noteq> Some u) (mset (drop i xs))) v"
  using assms
proof (induction k arbitrary: i xs v)
  case 0
  then show ?case by (auto simp: wps mem_post_def mem_rep_count)
next
  case (Suc k)
  then have i: "i < length xs" and cnt: "m_count (impl v) = length xs"
    by (auto simp: mem_post_def mem_rep_count)
  note post = Suc.prems(1)
  show ?case
  proof (cases "s_user_id (xs ! i) = Some u")
    case True
    have step: "wp (delete_user_loop u k i) (\<lambda>_ w'. \<exists>ys. mem_post w True ys w' \<and>
        mset ys = mset (take i xs) + filter_mset (\<lambda>s. s_user_id s \<noteq> Some u) (mset (drop i xs))) v1"
      if "mem_post w True (swap_remove i xs) v1" for v1
      using Suc.IH [OF that, of i] Suc.prems(2) i True
      by (simp add: take_swap_remove mset_drop_swap_remove)
    show ?thesis
      using True i cnt
      by (auto simp: wps wp_read_post [OF post i] intro!: wp_remove_post [OF post i] step)
  next
    case False
    have "wp (delete_user_loop u k (Suc i)) (\<lambda>_ w'. \<exists>ys. mem_post w True ys w' \<and>
        mset ys = mset (take i xs) + filter_mset (\<lambda>s. s_user_id s \<noteq> Some u) (mset (drop i xs))) v"
      using Suc.IH [OF post, of "Suc i"] Suc.prems(2) i False
      by (simp add: take_Suc_nth drop_nth [OF i])
    then show ?thesis
      using False i cnt by (simp add: wps wp_read_post [OF post i])
  qed
qed

text \<open>
  Expiry keeps the sessions seen alive and removes the ones seen expired; every kept session was
  looked at.
\<close>

definition swept ::
  "OpenDBSC_MemoryStore sys \<Rightarrow> OpenDBSC_MemoryStore sys \<Rightarrow> OpenDBSC_Session multiset \<Rightarrow>
   OpenDBSC_Session multiset \<Rightarrow> bool" where
  "swept w w' before after \<longleftrightarrow> (\<forall>s\<in>#after. live_between w w' s) \<and>
     (\<exists>E. before = after + E \<and> (\<forall>s\<in>#E. expired_between w w' s))"

lemma swept_empty [simp]: "swept w w' {#} {#}"
  by (simp add: swept_def)

lemma swept_drop: "swept w w' b a \<Longrightarrow> expired_between w w' s \<Longrightarrow> swept w w' (add_mset s b) a"
  unfolding swept_def
  by (elim conjE exE, intro conjI, assumption, rule_tac x = "add_mset s E" in exI) simp

lemma swept_keep: "swept w w' b a \<Longrightarrow> live_between w w' s \<Longrightarrow> swept w w' (add_mset s b) (add_mset s a)"
  unfolding swept_def by auto

lemma wp_expire_loop:
  assumes "mem_post w True xs v" and "i + k = length xs"
  shows "wp (expire_loop k i) (\<lambda>_ w'. clock_reads v \<le> clock_reads w' \<and>
    (\<exists>ys M. mem_post w True ys w' \<and> mset ys = mset (take i xs) + M \<and>
       swept w w' (mset (drop i xs)) M)) v"
  using assms
proof (induction k arbitrary: i xs v)
  case 0
  then show ?case by (auto simp: wps mem_post_def mem_rep_count intro!: exI [of _ xs])
next
  case (Suc k)
  then have i: "i < length xs" and cnt: "m_count (impl v) = length xs"
    by (auto simp: mem_post_def mem_rep_count)
  note post = Suc.prems(1)
  let ?Q = "\<lambda>_ w'. clock_reads v \<le> clock_reads w' \<and>
    (\<exists>ys M. mem_post w True ys w' \<and> mset ys = mset (take i xs) + M \<and>
       swept w w' (mset (drop i xs)) M)"
  have expired: "wp (expire_loop k i) ?Q v2"
    if "mem_post w True (swap_remove i xs) v2" "expired_between w v2 (xs ! i)"
      "clock_reads v \<le> clock_reads v2" for v2
  proof (rule wp_mono [OF Suc.IH [OF that(1), of i]])
    show "i + k = length (swap_remove i xs)" using Suc.prems(2) i by simp
    fix r w'
    assume "clock_reads v2 \<le> clock_reads w' \<and> (\<exists>ys M. mem_post w True ys w' \<and>
      mset ys = mset (take i (swap_remove i xs)) + M \<and> swept w w' (mset (drop i (swap_remove i xs))) M)"
    then show "?Q r w'"
      using that(2,3) i
      by (auto simp: take_swap_remove mset_drop_swap_remove
            intro: swept_drop expired_between_mono order_trans)
  qed
  have kept: "wp (expire_loop k (Suc i)) ?Q v2"
    if "mem_post w True xs v2" "live_between w v2 (xs ! i)" "clock_reads v \<le> clock_reads v2" for v2
  proof (rule wp_mono [OF Suc.IH [OF that(1), of "Suc i"]])
    show "Suc i + k = length xs" using Suc.prems(2) by simp
    fix r w'
    assume "clock_reads v2 \<le> clock_reads w' \<and> (\<exists>ys M. mem_post w True ys w' \<and>
      mset ys = mset (take (Suc i) xs) + M \<and> swept w w' (mset (drop (Suc i) xs)) M)"
    then obtain ys M where ys: "mem_post w True ys w'" "mset ys = mset (take i xs) + add_mset (xs ! i) M"
      and M: "swept w w' (mset (drop (Suc i) xs)) M" and le: "clock_reads v2 \<le> clock_reads w'"
      using i by (auto simp: take_Suc_nth)
    have "swept w w' (mset (drop i xs)) (add_mset (xs ! i) M)"
      unfolding drop_nth [OF i] mset.simps
      by (rule swept_keep [OF M live_between_mono [OF that(2) le]])
    with ys le that(3) show "?Q r w'" by (auto intro: order_trans)
  qed
  have sweep: "wp (do { memory_store_remove_at i; expire_loop k i }) ?Q v1"
    if "mem_post w True xs v1" "clock_reads v1 = Suc (clock_reads v)" "expired_between w v1 (xs ! i)" for v1
    by (rule wp_bindI, rule wp_remove_post [OF that(1) i], rule expired, assumption)
       (use that in \<open>auto elim: expired_between_mono\<close>)
  show ?case
    unfolding expire_loop.simps
    by (rule wp_bindI, subst wp_get_impl, subst cnt, subst if_P [OF i], rule wp_bindI, subst wp_read_post [OF post i],
        rule wp_bindI, rule wp_is_expired_post [OF post],
        unfold if_True if_False, (rule sweep kept, assumption+)+)
qed

lemma wp_expire_post:
  assumes "mem_post w True xs v"
    and "\<And>ys v'. mem_post w True ys v' \<Longrightarrow> swept w v' (mset xs) (mset ys) \<Longrightarrow> Q () v'"
  shows "wp memory_store_expire Q v"
proof -
  have cnt: "m_count (impl v) = length xs"
    using assms(1) by (simp add: mem_post_def mem_rep_count)
  have "wp (expire_loop (length xs) 0) Q v"
    by (rule wp_mono [OF wp_expire_loop [OF assms(1), of 0]]) (use assms(2) in auto)
  then show ?thesis by (simp add: memory_store_expire_def wps cnt)
qed

abbreviation of_user :: "string \<Rightarrow> OpenDBSC_Session list \<Rightarrow> OpenDBSC_Session list" where
  "of_user u xs \<equiv> filter (\<lambda>s. s_user_id s = Some u) xs"

lemma wp_count_user_loop:
  "mem_post w b xs v \<Longrightarrow> i + k = length xs \<Longrightarrow>
   wp (count_user_loop u i k) (\<lambda>n v'. n = length (of_user u (drop i xs)) \<and> v' = v) v"
proof (induction k arbitrary: i)
  case (Suc k)
  then have i: "i < length xs" by simp
  show ?case
    using Suc.IH [of "Suc i"] Suc.prems i
    by (auto simp: wps wp_read_post [OF Suc.prems(1) i] drop_nth [OF i] elim!: wp_mono)
qed (simp add: wps)

lemma wp_copy_user_loop:
  assumes "mem_post w b xs v" and "i + k = length xs"
    and "length acc + length (of_user u (drop i xs)) \<le> cap"
  shows "wp (copy_user_loop u cap i k acc) (\<lambda>r v'. mem_post w b xs v' \<and>
    clock_reads v \<le> clock_reads v' \<and> (r = None \<longrightarrow> starved w) \<and>
    (\<forall>ys. r = Some ys \<longrightarrow> ys = acc @ of_user u (drop i xs))) v"
  using assms
proof (induction k arbitrary: i acc v)
  case (Suc k)
  then have i: "i < length xs" by simp
  note post = Suc.prems(1)
  show ?case
  proof (cases "s_user_id (xs ! i) = Some u")
    case True
    have next': "wp (copy_user_loop u cap (Suc i) k (acc @ [xs ! i])) (\<lambda>r v'. mem_post w b xs v' \<and>
      clock_reads v \<le> clock_reads v' \<and> (r = None \<longrightarrow> starved w) \<and>
      (\<forall>ys. r = Some ys \<longrightarrow> ys = acc @ of_user u (drop i xs))) v1"
      if f: "frame v v1" for v1
      by (rule wp_mono [OF Suc.IH [OF mem_post_frame [OF post f], of "Suc i"]])
         (use Suc.prems i True frame_clock_reads [OF f] in \<open>auto simp: drop_nth [OF i]\<close>)
    have room: "length acc < cap"
      using Suc.prems(3) True by (simp add: drop_nth [OF i])
    show ?thesis
      using True room
      by (auto simp: wps wp_read_post [OF post i] mem_post_frame [OF post] frame_clock_reads
              mem_post_starved [OF post]
            intro!: wp_framed_avail [OF framed_session_copy returns_session_copy] wp_mono [OF next'] split: option.splits)
  next
    case False
    then show ?thesis
      using Suc.IH [OF post, of "Suc i" acc] Suc.prems i
      by (simp add: wps wp_read_post [OF post i] drop_nth [OF i])
  qed
qed (simp add: wps)

text \<open>The sessions of a user, after the expired ones were removed.\<close>

lemma uniq_sub: "uniq xs \<Longrightarrow> mset ys \<subseteq># mset xs \<Longrightarrow> uniq ys"
  unfolding uniq_iff by (meson image_mset_subseteq_mono le_trans mset_subset_eq_count)

lemma uniq_swept: "uniq xs \<Longrightarrow> swept w v (mset xs) (mset ys) \<Longrightarrow> uniq ys"
  by (erule uniq_sub) (auto simp: swept_def)

lemma swept_mono: "swept w v b a \<Longrightarrow> clock_reads v \<le> clock_reads v' \<Longrightarrow> swept w v' b a"
  unfolding swept_def by (blast intro: expired_between_mono live_between_mono)

lemma mem_get_by_user_spec:
  assumes wf: "mem_wf (impl w)"
  shows "wp (opendbsc_memory_store_get_by_user_id_impl (Some u)) (\<lambda>(rc, out) w'.
    oframe w w' \<and> mem_wf (impl w') \<and> swept w w' (mset (live (impl w))) (mset (live (impl w'))) \<and>
    (rc = 0 \<and> out = of_user u (live (impl w')) \<or> rc = -1 \<and> out = [] \<and> starved w)) w"
    (is "wp _ ?Q w")
proof -
  define Q where "Q = ?Q"
  define xs where "xs = live (impl w)"
  have u: "uniq xs" using wf by (simp add: xs_def mem_wf_def)
  have post: "mem_post w False xs w" using mem_wf_post [OF wf] by (simp add: xs_def)
  have fin: "wp (do { mutex_unlock; ret r }) Q v"
    if "mem_post w True ys v" "swept w v (mset xs) (mset ys)"
      "r = (0, of_user u ys) \<or> r = (-1, []) \<and> starved w" for ys v r
  proof (rule wp_unlock_ret [OF that(1)])
    fix v' assume v': "mem_post w False ys v'" and c: "clock_reads v' = clock_reads v"
    have "swept w v' (mset xs) (mset ys)" using swept_mono [OF that(2)] c by simp
    moreover have "live (impl v') = ys" using v' by (simp add: mem_post_def mem_rep_live)
    ultimately show "Q r v'"
      using mem_postD [OF v' uniq_swept [OF u that(2)]] that(3) by (auto simp: Q_def xs_def)
  qed
  have body: "wp (do { ms \<leftarrow> get_impl;
      match_count \<leftarrow> count_user_loop u 0 (m_count ms);
      if match_count = 0 then do { mutex_unlock; ret (0, []) }
      else do {
        ok \<leftarrow> alloc;
        if \<not> ok then do { mutex_unlock; ret (-1, []) }
        else do {
          matches \<leftarrow> copy_user_loop u match_count 0 (m_count ms) [];
          case matches of
            None \<Rightarrow> do { mutex_unlock; ret (-1, []) }
          | Some xs \<Rightarrow> do { mutex_unlock; ret (0, xs) } } } }) Q v"
    if ys: "mem_post w True ys v" and sw: "swept w v (mset xs) (mset ys)" for ys v
  proof -
    have cnt: "m_count (impl v) = length ys"
      using ys by (simp add: mem_post_def mem_rep_count)
    have mem: "mem_ok v = mem_ok w"
      using ys by (simp add: mem_post_def oframe_mem_ok)
    have copy: "wp (copy_user_loop u (length (of_user u ys)) 0 (length ys) [])
      (\<lambda>r. wp (case r of None \<Rightarrow> do { mutex_unlock; ret (-1, []) }
                 | Some xs \<Rightarrow> do { mutex_unlock; ret (0, xs) }) Q) v1" if f: "frame v v1" for v1
    proof (rule wp_mono [OF wp_copy_user_loop [OF mem_post_frame [OF ys f]]])
      fix r v2
      assume "mem_post w True ys v2 \<and> clock_reads v1 \<le> clock_reads v2 \<and>
        (r = None \<longrightarrow> starved w) \<and> (\<forall>zs. r = Some zs \<longrightarrow> zs = [] @ of_user u (drop 0 ys))"
      moreover from this have "swept w v2 (mset xs) (mset ys)"
        using swept_mono [OF sw] frame_clock_reads [OF f] by simp
      ultimately show "wp (case r of None \<Rightarrow> do { mutex_unlock; ret (-1, []) }
                 | Some xs \<Rightarrow> do { mutex_unlock; ret (0, xs) }) Q v2"
        by (cases r) (auto intro!: fin)
    qed simp_all
    have none: "wp (do { mutex_unlock; ret (0, []) }) Q v" if "of_user u ys = []"
      by (rule fin [OF ys sw]) (simp add: that)
    have oom: "wp (do { mutex_unlock; ret (-1, []) }) Q v1" if f: "frame v v1" and "starved w" for v1
      by (rule fin [OF mem_post_frame [OF ys f] swept_mono [OF sw frame_clock_reads [OF f]]]) (simp add: that)
    show ?thesis
      by (rule wp_bindI, subst wp_get_impl, subst cnt, rule wp_bindI,
          rule wp_mono [OF wp_count_user_loop [OF ys]], simp)
         (auto simp: none mem starved_def wp_bind [of alloc] wp_bind [of "copy_user_loop _ _ _ _ _"] wp_alloc cnt
            intro!: copy oom)
  qed
  show ?thesis
    unfolding Q_def [symmetric] opendbsc_memory_store_get_by_user_id_impl_def option.case
    by (rule wp_bindI, rule wp_lock_post [OF post], rule wp_bindI, rule wp_expire_post, assumption,
        rule body, assumption) (simp add: xs_def)
qed

lemma mem_delete_by_user_spec:
  assumes wf: "mem_wf (impl w)"
  shows "wp (opendbsc_memory_store_delete_by_user_id_impl (Some u)) (\<lambda>rc w'.
    oframe w w' \<and> mem_wf (impl w') \<and> rc = 0 \<and>
    mset (live (impl w')) = filter_mset (\<lambda>s. s_user_id s \<noteq> Some u) (mset (live (impl w)))) w"
proof -
  define xs where "xs = live (impl w)"
  have u: "uniq xs" using wf by (simp add: xs_def mem_wf_def)
  have post: "mem_post w False xs w" using mem_wf_post [OF wf] by (simp add: xs_def)
  have fin: "wp (do { mutex_unlock; ret 0 }) (\<lambda>(rc::int) w'. oframe w w' \<and> mem_wf (impl w') \<and> rc = 0 \<and>
    mset (live (impl w')) = filter_mset (\<lambda>s. s_user_id s \<noteq> Some u) (mset xs)) v"
    if "mem_post w True ys v" "mset ys = filter_mset (\<lambda>s. s_user_id s \<noteq> Some u) (mset xs)" for ys v
  proof (rule wp_unlock_ret [OF that(1)])
    fix v' assume v': "mem_post w False ys v'"
    have "uniq ys" by (rule uniq_sub [OF u]) (simp add: that(2))
    with mem_postD [OF v'] v' that(2) show "oframe w v' \<and> mem_wf (impl v') \<and> (0::int) = 0 \<and>
      mset (live (impl v')) = filter_mset (\<lambda>s. s_user_id s \<noteq> Some u) (mset xs)"
      by (auto simp: mem_post_def dest: mem_rep_live)
  qed
  have cnt: "m_count (impl v) = length xs" if "mem_post w True xs v" for v
    using that by (simp add: mem_post_def mem_rep_count)
  show ?thesis
    unfolding opendbsc_memory_store_delete_by_user_id_impl_def option.case xs_def [symmetric]
    by (rule wp_bindI, rule wp_lock_post [OF post], rule wp_bindI, subst wp_get_impl, subst cnt,
        assumption, rule wp_bindI, rule wp_mono [OF wp_delete_user_loop], assumption, simp)
       (auto intro!: fin)
qed

text \<open>Destroying empties the store and leaves the mutex free.\<close>

lemma wp_free_all_loop:
  "mem_post w b xs v \<Longrightarrow> i + k = length xs \<Longrightarrow>
   wp (free_all_loop i k) (\<lambda>_ v'. \<exists>ys. mem_post w b ys v' \<and> length ys = length xs) v"
proof (induction k arbitrary: i xs v)
  case (Suc k)
  show ?case
    unfolding free_all_loop.simps
    by (rule wp_bindI, rule wp_free_slot_post [OF Suc.prems(1)], use Suc.prems in simp,
        drule Suc.IH [of _ _ "Suc i"], use Suc.prems in simp, simp)
qed (auto simp: wps)

lemma destroy_spec:
  assumes wf: "mem_wf (impl w)"
  shows "wp opendbsc_memory_store_destroy_impl (\<lambda>_ w'.
    oframe w w' \<and> impl w' = \<lparr>m_sessions = [], m_count = 0, m_capacity = 0, m_mutex = False\<rparr>) w"
proof -
  have post: "mem_post w False (live (impl w)) w" by (rule mem_wf_post [OF wf])
  have cnt: "m_count (impl v) = length xs" if "mem_post w True xs v" for v xs
    using that by (simp add: mem_post_def mem_rep_count)
  show ?thesis
    unfolding opendbsc_memory_store_destroy_impl_def
    by (rule wp_bindI, rule wp_lock_post [OF post], rule wp_bindI, subst wp_get_impl, subst cnt,
        assumption, rule wp_bindI, rule wp_mono [OF wp_free_all_loop], assumption, simp)
       (auto simp: wps mem_post_def)
qed

section \<open>The store contract\<close>

lemma mem_view_id: "mem_wf x \<Longrightarrow> mem_view x i = Some s \<Longrightarrow> s_id s = Some i"
  by (simp add: mem_wf_def mem_view_def lookup_Some_iff)

interpretation mem_contract: session_store memory_store_vtable mem_view mem_wf "\<lambda>_. True"
proof
  fix x i s
  show "mem_wf x \<Longrightarrow> mem_view x i = Some s \<Longrightarrow> s_id s = Some i" by (rule mem_view_id)
next
  fix w w' :: "OpenDBSC_MemoryStore sys" and s i rc
  assume wf: "mem_wf (impl w)" and i: "s_id s = Some i"
    and run: "run_state (st_create memory_store_vtable (Some s)) w = (rc, w')"
  from wpD [OF mem_create_spec [OF wf i]] run
  show "oframe w w' \<and> mem_wf (impl w') \<and>
    (rc = 0 \<and> mem_view (impl w') = (mem_view (impl w))(i \<mapsto> s) \<or>
     rc = -1 \<and> (mem_view (impl w') = mem_view (impl w) \<or> mem_view (impl w') = (mem_view (impl w))(i := None)))"
    by (auto simp: memory_store_vtable_def)
next
  fix w w' :: "OpenDBSC_MemoryStore sys" and i rc out
  assume wf: "mem_wf (impl w)"
    and run: "run_state (st_get memory_store_vtable (Some i)) w = ((rc, out), w')"
  from wpD [OF mem_get_spec [OF wf], of i "(rc, out)" w'] run
  show "oframe w w' \<and> mem_wf (impl w') \<and>
    (rc = 0 \<and> out \<noteq> None \<and> mem_view (impl w) i = out \<and> mem_view (impl w') = mem_view (impl w) \<and>
       live_between w w' (the out) \<or>
     rc = -1 \<and> out = None \<and>
       (mem_view (impl w') = mem_view (impl w) \<or>
        (\<exists>s. mem_view (impl w) i = Some s \<and> expired_between w w' s \<and>
             mem_view (impl w') = (mem_view (impl w))(i := None))))"
    by (auto simp: memory_store_vtable_def)
next
  fix w w' :: "OpenDBSC_MemoryStore sys" and s i rc
  assume wf: "mem_wf (impl w)" and i: "s_id s = Some i"
    and run: "run_state (st_update memory_store_vtable (Some s)) w = (rc, w')"
  from wpD [OF mem_update_spec [OF wf i]] run
  show "oframe w w' \<and> mem_wf (impl w') \<and>
    (rc = 0 \<and> mem_view (impl w') = (mem_view (impl w))(i \<mapsto> s) \<or>
     rc = -1 \<and> (mem_view (impl w') = mem_view (impl w) \<or> mem_view (impl w') = (mem_view (impl w))(i := None)))"
    by (auto simp: memory_store_vtable_def)
next
  fix w w' :: "OpenDBSC_MemoryStore sys" and i rc
  assume wf: "mem_wf (impl w)"
    and run: "run_state (st_delete memory_store_vtable (Some i)) w = (rc, w')"
  from wpD [OF mem_delete_spec [OF wf]] run
  show "oframe w w' \<and> mem_wf (impl w') \<and>
    (rc = 0 \<and> mem_view (impl w') = (mem_view (impl w))(i := None) \<or>
     rc = -1 \<and> (mem_view (impl w') = mem_view (impl w) \<or> mem_view (impl w') = (mem_view (impl w))(i := None)))"
    by (auto simp: memory_store_vtable_def)
next
  fix w :: "OpenDBSC_MemoryStore sys" and xs
  show "run_state (st_free_sessions memory_store_vtable xs) w = ((), w)"
    by (simp add: memory_store_vtable_def opendbsc_memory_store_free_sessions_impl_def)
qed

interpretation mem: reliable_store memory_store_vtable mem_view mem_wf "\<lambda>_. True"
proof
  fix w w' :: "OpenDBSC_MemoryStore sys" and s i rc
  assume wf: "mem_wf (impl w)" and i: "s_id s = Some i"
    and run: "run_state (st_create memory_store_vtable (Some s)) w = (rc, w')" and "rc \<noteq> 0"
  with wpD [OF mem_create_spec [OF wf i], of rc w'] show "starved w"
    by (simp add: memory_store_vtable_def)
next
  fix w w' :: "OpenDBSC_MemoryStore sys" and s i rc out
  assume wf: "mem_wf (impl w)" and v: "mem_view (impl w) i = Some s"
    and run: "run_state (st_get memory_store_vtable (Some i)) w = ((rc, out), w')" and "rc \<noteq> 0"
  with wpD [OF mem_get_spec [OF wf], of i "(rc, out)" w'] show "starved w \<or> expired_between w w' s"
    by (auto simp: memory_store_vtable_def)
next
  fix w w' :: "OpenDBSC_MemoryStore sys" and s s0 i rc
  assume wf: "mem_wf (impl w)" and i: "s_id s = Some i" and v: "mem_view (impl w) i = Some s0"
    and run: "run_state (st_update memory_store_vtable (Some s)) w = (rc, w')" and "rc \<noteq> 0"
  with wpD [OF mem_update_spec [OF wf i], of rc w'] show "starved w"
    by (simp add: memory_store_vtable_def)
next
  fix w w' :: "OpenDBSC_MemoryStore sys" and i rc
  assume wf: "mem_wf (impl w)"
    and run: "run_state (st_delete memory_store_vtable (Some i)) w = (rc, w')" and "rc \<noteq> 0"
  with wpD [OF mem_delete_spec [OF wf]] show "starved w"
    by (simp add: memory_store_vtable_def)
qed

end
