(* ===== verification/Memory_Machine.thy ===== *)
theory Memory_Machine
  imports Memory_Store
begin

text \<open>
  The in-memory store as a state machine: the store a client holds after the factory and any
  sequence of calls through the vtable, with any arguments (NULL pointers included), any clock
  and any pattern of allocation failures. Every reachable store is well formed, no call has
  undefined behaviour, and each call implements a step of an abstract map from identifiers to
  sessions.
\<close>

section \<open>Calls and reachable stores\<close>

datatype store_call =
  Create "OpenDBSC_Session option"
| Get "string option"
| Update "OpenDBSC_Session option"
| Delete "string option"
| Get_By_User "string option"
| Delete_By_User "string option"
| Free_Sessions "OpenDBSC_Session list"

fun store_call_run :: "'s OpenDBSC_Store \<Rightarrow> store_call \<Rightarrow> ('s sys, int) state" where
  "store_call_run st (Create s) = st_create st s"
| "store_call_run st (Get i) = do { (rc, out) \<leftarrow> st_get st i; ret rc }"
| "store_call_run st (Update s) = st_update st s"
| "store_call_run st (Delete i) = st_delete st i"
| "store_call_run st (Get_By_User u) = do { (rc, out) \<leftarrow> st_get_by_user_id st u; ret rc }"
| "store_call_run st (Delete_By_User u) = st_delete_by_user_id st u"
| "store_call_run st (Free_Sessions xs) = do { st_free_sessions st xs; ret 0 }"

inductive mem_reach :: "OpenDBSC_MemoryStore sys \<Rightarrow> OpenDBSC_MemoryStore sys \<Rightarrow> bool" where
  start: "run_state (opendbsc_memory_store_create mutex_ok) w = (Some (ms, vt), w1) \<Longrightarrow>
    mem_reach w (w1\<lparr>impl := ms\<rparr>)"
| call: "mem_reach w w1 \<Longrightarrow> run_state (store_call_run memory_store_vtable c) w1 = (rc, w2) \<Longrightarrow>
    mem_reach w w2"

inductive_cases mem_reachE: "mem_reach w w'"

section \<open>The abstract store\<close>

text \<open>
  \<open>map_call oom c rc m m'\<close>: a call on the map \<open>m\<close> may answer \<open>rc\<close> and leave \<open>m'\<close>; \<open>oom\<close> says
  whether allocations can fail.
\<close>

fun map_call :: "bool \<Rightarrow> store_call \<Rightarrow> int \<Rightarrow> (string \<Rightarrow> OpenDBSC_Session option) \<Rightarrow>
    (string \<Rightarrow> OpenDBSC_Session option) \<Rightarrow> bool" where
  "map_call oom (Create p) rc m m' =
     (case p of None \<Rightarrow> rc = -1 \<and> m' = m
      | Some s \<Rightarrow> (case s_id s of None \<Rightarrow> rc = -1 \<and> m' = m
          | Some i \<Rightarrow> rc = 0 \<and> m' = m(i \<mapsto> s) \<or> rc = -1 \<and> oom \<and> m' = m(i := None)))"
| "map_call oom (Get p) rc m m' =
     (case p of None \<Rightarrow> rc = -1 \<and> m' = m
      | Some i \<Rightarrow> (case m i of None \<Rightarrow> rc = -1 \<and> m' = m
          | Some s \<Rightarrow> rc = 0 \<and> m' = m \<or> rc = -1 \<and> oom \<and> m' = m \<or>
                      rc = -1 \<and> s_has_expires s \<and> m' = m(i := None)))"
| "map_call oom (Update p) rc m m' =
     (case p of None \<Rightarrow> rc = -1 \<and> m' = m
      | Some s \<Rightarrow> (case s_id s of None \<Rightarrow> rc = -1 \<and> m' = m
          | Some i \<Rightarrow> (case m i of None \<Rightarrow> rc = -1 \<and> m' = m
              | Some t \<Rightarrow> rc = 0 \<and> m' = m(i \<mapsto> s) \<or>
                          rc = -1 \<and> oom \<and> m' = m(i := None))))"
| "map_call oom (Delete p) rc m m' =
     (rc = 0 \<and> m' = (case p of None \<Rightarrow> m | Some i \<Rightarrow> m(i := None)))"
| "map_call oom (Get_By_User p) rc m m' =
     (case p of None \<Rightarrow> rc = -1 \<and> m' = m
      | Some u \<Rightarrow> (rc = 0 \<or> rc = -1 \<and> oom) \<and>
          (\<forall>i. m' i = m i \<or> (\<exists>s. m i = Some s \<and> s_has_expires s \<and> m' i = None)))"
| "map_call oom (Delete_By_User p) rc m m' =
     (rc = 0 \<and> m' = (case p of None \<Rightarrow> m
      | Some u \<Rightarrow> (\<lambda>i. case m i of None \<Rightarrow> None
                   | Some s \<Rightarrow> if s_user_id s = Some u then None else Some s)))"
| "map_call oom (Free_Sessions xs) rc m m' = (rc = 0 \<and> m' = m)"

section \<open>Lists and maps\<close>

lemma lookup_filter:
  assumes "uniq xs" and "mset ys = filter_mset P (mset xs)"
  shows "lookup ys = (\<lambda>i. case lookup xs i of None \<Rightarrow> None | Some s \<Rightarrow> if P s then Some s else None)"
proof (rule lookup_eqI)
  show "uniq ys" by (rule uniq_sub [OF assms(1)]) (simp add: assms(2))
  have set: "set ys = {s \<in> set xs. P s}"
    by (metis assms(2) set_mset_filter set_mset_mset)
  show "(s \<in> set ys \<and> s_id s = Some i) =
    ((case lookup xs i of None \<Rightarrow> None | Some s \<Rightarrow> if P s then Some s else None) = Some s)" for i s
  proof (cases "lookup xs i")
    case None
    then have "\<forall>s\<in>set xs. s_id s \<noteq> Some i" by (simp add: lookup_None_iff)
    with None show ?thesis by (auto simp: set)
  next
    case (Some t)
    then have "s \<in> set xs \<and> s_id s = Some i \<longleftrightarrow> s = t"
      using lookup_Some_iff [OF assms(1), of i s] by auto
    with Some show ?thesis by (auto simp: set)
  qed
qed

lemma lookup_swept:
  assumes "uniq xs" and "swept w w' (mset xs) (mset ys)"
  shows "lookup ys i = lookup xs i \<or> (\<exists>s. lookup xs i = Some s \<and> s_has_expires s \<and> lookup ys i = None)"
proof (cases "lookup ys i")
  case None
  then show ?thesis
  proof (cases "lookup xs i")
    case (Some s)
    then have s: "s \<in> set xs" "s_id s = Some i" using assms(1) by (simp_all add: lookup_Some_iff)
    from assms(2) obtain E where E: "mset xs = mset ys + E" "\<forall>s\<in>#E. expired_between w w' s"
      by (auto simp: swept_def)
    have "s \<in># mset xs" using s by simp
    moreover have "s \<notin># mset ys" using None s by (auto simp: lookup_None_iff)
    ultimately have "s \<in># E" using E(1) by simp
    with E(2) have "s_has_expires s" by (simp add: expired_between_def)
    with Some None show ?thesis by simp
  qed simp
next
  case (Some s)
  have u: "uniq ys" by (rule uniq_swept [OF assms])
  from Some have "s \<in># mset ys" "s_id s = Some i" using u by (simp_all add: lookup_Some_iff)
  moreover from assms(2) obtain E where "mset xs = mset ys + E" by (auto simp: swept_def)
  ultimately have "s \<in># mset xs" by (metis union_iff)
  then have "lookup xs i = Some s" using \<open>s_id s = Some i\<close> assms(1) by (simp add: lookup_Some_iff)
  with Some show ?thesis by simp
qed

section \<open>Every call implements the abstract one\<close>

lemma mem_null_calls:
  "opendbsc_memory_store_create_impl None = ret (-1)"
  "s_id s = None \<Longrightarrow> opendbsc_memory_store_create_impl (Some s) = ret (-1)"
  "opendbsc_memory_store_get_impl None = ret (-1, None)"
  "opendbsc_memory_store_update_impl None = ret (-1)"
  "s_id s = None \<Longrightarrow> opendbsc_memory_store_update_impl (Some s) = ret (-1)"
  "opendbsc_memory_store_delete_impl None = ret 0"
  "opendbsc_memory_store_get_by_user_id_impl None = ret (-1, [])"
  "opendbsc_memory_store_delete_by_user_id_impl None = ret 0"
  by (simp_all add: opendbsc_memory_store_create_impl_def opendbsc_memory_store_get_impl_def
      opendbsc_memory_store_update_impl_def opendbsc_memory_store_delete_impl_def
      opendbsc_memory_store_get_by_user_id_impl_def opendbsc_memory_store_delete_by_user_id_impl_def)

lemma expired_has_expires: "expired_between w w' s \<Longrightarrow> s_has_expires s"
  by (simp add: expired_between_def)

lemmas vtable_sel = memory_store_vtable_def opendbsc_memory_store_free_sessions_impl_def

lemma mem_call_spec:
  assumes wf: "mem_wf (impl w)"
  shows "wp (store_call_run memory_store_vtable c) (\<lambda>rc w'. oframe w w' \<and> mem_wf (impl w') \<and>
    map_call (starved w) c rc (mem_view (impl w)) (mem_view (impl w'))) w"
proof (cases c)
  case (Create p)
  then show ?thesis using wf
    by (cases p; cases "s_id (the p)")
       (auto simp: vtable_sel mem_null_calls wps intro!: wp_mono [OF mem_create_spec [OF wf]])
next
  case (Get p)
  show ?thesis
  proof (cases p)
    case None
    with Get wf show ?thesis by (simp add: vtable_sel mem_null_calls wps)
  next
    case (Some i)
    then show ?thesis unfolding Get store_call_run.simps wp_bind
      by (simp add: vtable_sel del: fun_upd_apply)
         (rule wp_mono [OF mem_get_spec [OF wf, of i]],
          auto simp: wps simp del: fun_upd_apply split: option.splits dest: expired_has_expires)
  qed
next
  case (Update p)
  then show ?thesis using wf
    by (cases p; cases "s_id (the p)")
       (auto simp: vtable_sel mem_null_calls wps fun_eq_iff intro!: wp_mono [OF mem_update_spec [OF wf]]
          split: option.splits)
next
  case (Delete p)
  then show ?thesis using wf
    by (cases p) (auto simp: vtable_sel mem_null_calls wps intro!: wp_mono [OF mem_delete_spec [OF wf]])
next
  case (Get_By_User p)
  show ?thesis
  proof (cases p)
    case None
    with Get_By_User wf show ?thesis by (simp add: vtable_sel mem_null_calls wps)
  next
    case (Some u)
    have "uniq (live (impl w))" using wf by (simp add: mem_wf_def)
    note sw = lookup_swept [OF this]
    from Some show ?thesis unfolding Get_By_User store_call_run.simps wp_bind
      by (simp add: vtable_sel)
         (rule wp_mono [OF mem_get_by_user_spec [OF wf, of u]], auto simp: wps mem_view_def dest: sw)
  qed
next
  case (Delete_By_User p)
  show ?thesis
  proof (cases p)
    case None
    with Delete_By_User wf show ?thesis by (simp add: vtable_sel mem_null_calls wps)
  next
    case (Some u)
    have u: "uniq (live (impl w))" using wf by (simp add: mem_wf_def)
    from Some show ?thesis unfolding Delete_By_User store_call_run.simps
      by (simp add: vtable_sel)
         (rule wp_mono [OF mem_delete_by_user_spec [OF wf, of u]],
          auto simp: mem_view_def lookup_filter [OF u] split: option.splits)
  qed
next
  case (Free_Sessions xs)
  with wf show ?thesis by (simp add: vtable_sel wps)
qed

section \<open>Reachable stores\<close>

lemma factory_spec:
  "wp (opendbsc_memory_store_create mutex_ok) (\<lambda>r w'. frame w w' \<and>
     (\<forall>ms vt. r = Some (ms, vt) \<longrightarrow> mem_wf ms \<and> live ms = [] \<and> vt = memory_store_vtable) \<and>
     (r = None \<longrightarrow> starved w \<or> \<not> mutex_ok)) w"
  by (auto simp: opendbsc_memory_store_create_def wps mem_wf_def mem_rep_def live_def uniq_def
        starved_def)

lemma mem_reach_invariant: "mem_reach w0 w \<Longrightarrow> oframe w0 w \<and> mem_wf (impl w)"
proof (induction rule: mem_reach.induct)
  case (start mutex_ok w ms vt w1)
  from wpD [OF factory_spec start] have "frame w w1" "mem_wf ms" by auto
  then show ?case using frame_oframe by (simp add: oframe_def)
next
  case (call w w1 c rc w2)
  then have wf: "mem_wf (impl w1)" by simp
  from wpD [OF mem_call_spec [OF wf] call.hyps(2)] call.IH show ?case
    by (auto intro: oframe_trans)
qed

section \<open>Properties\<close>

text \<open>A world with plenty of memory, a store with one session in it, and that session.\<close>

definition plenty :: "'s \<Rightarrow> 's sys" where
  "plenty x = \<lparr>mem_ok = (\<lambda>_. True), mallocs = 0, wall_clock = (\<lambda>n. 100 + int n), clock_reads = 0,
     realtime = (\<lambda>_. Some (100, 0)), realtime_reads = 0, entropy = (\<lambda>_. Some (\<lambda>_. 7)),
     entropy_reads = 0, undef = False, impl = x, events = []\<rparr>"

definition fresh_memory_store :: OpenDBSC_MemoryStore where
  "fresh_memory_store = \<lparr>m_sessions = [], m_count = 0, m_capacity = 0, m_mutex = False\<rparr>"

definition demo_session :: OpenDBSC_Session where
  "demo_session = session_defaults\<lparr>s_id := Some ''s1'', s_user_id := Some ''alice'',
     s_challenge := Some ''c'', s_expires_at := 500, s_has_expires := True\<rparr>"

definition demo_store :: OpenDBSC_MemoryStore where
  "demo_store = \<lparr>m_sessions = [Some demo_session, None], m_count = 1, m_capacity = 2, m_mutex = False\<rparr>"

lemma plenty_sel [simp]:
  "impl (plenty x) = x" "\<not> starved (plenty x)" "\<not> undef (plenty x)" "events (plenty x) = []"
  by (simp_all add: plenty_def starved_def)

lemma demo_wf: "mem_wf fresh_memory_store" "mem_wf demo_store"
  by (simp_all add: mem_wf_def mem_rep_def live_def uniq_def fresh_memory_store_def demo_store_def)

lemma demo_reach: "\<exists>w. mem_reach (plenty demo_store) w \<and> \<not> starved w"
proof -
  obtain ms vt w1 where run:
    "run_state (opendbsc_memory_store_create True) (plenty demo_store) = (Some (ms, vt), w1)"
    by (simp add: opendbsc_memory_store_create_def plenty_def run_state_bind)
  have "starved w1 = starved (plenty demo_store)"
    using wpD [OF factory_spec run] frame_starved [of "plenty demo_store" w1] by simp
  with mem_reach.start [OF run] show ?thesis
    by (intro exI [of _ "w1\<lparr>impl := ms\<rparr>"]) (simp add: starved_def plenty_def)
qed

text \<open>
  C15: After the factory and any sequence of calls through the vtable of the in-memory store,
  whatever the arguments, the clock and the failing allocations, nothing undefined has happened
  (no access outside the array or to an unwritten slot, no double lock or unlock), the mutex is
  free, the array represents its live sessions and no two of them share an identifier.
\<close>

theorem mem_reachable_safe:
  "mem_reach w0 w \<Longrightarrow> undef w = undef w0 \<and> mem_wf (impl w)"
  using mem_reach_invariant [of w0 w] by (simp add: oframe_undef)

theorem mem_reachable_safe_witness:
  "\<exists>w. mem_reach (plenty demo_store) w \<and> \<not> undef w \<and> mem_wf (impl w)"
  using demo_reach mem_reachable_safe [of "plenty demo_store"] by auto

text \<open>
  C14: Refinement. Every call on a reachable in-memory store answers and changes the map from
  identifiers to sessions as the abstract store allows: create installs the session, update replaces a
  stored one and answers -1 for an unknown identifier; when an allocation fails they report -1, and a
  session of that identifier may be lost. Get removes a session only if it has an expiry, a query by
  user only sessions with an expiry, a deletion exactly the named session or exactly the user's
  sessions, and nothing else ever changes.
\<close>

theorem mem_call_refines_map:
  assumes "mem_reach w0 w" and "run_state (store_call_run memory_store_vtable c) w = (rc, w')"
  shows "map_call (starved w) c rc (mem_view (impl w)) (mem_view (impl w'))"
proof -
  from mem_reach_invariant [OF assms(1)] have "mem_wf (impl w)" by simp
  from wpD [OF mem_call_spec [OF this] assms(2)] show ?thesis by simp
qed

theorem mem_call_refines_map_witness:
  "\<exists>w rc w'. run_state (store_call_run memory_store_vtable (Create (Some demo_session))) w = (rc, w') \<and>
     rc = 0 \<and> mem_view (impl w') = (mem_view (impl w))(''s1'' \<mapsto> demo_session)"
proof -
  obtain w where w: "mem_reach (plenty demo_store) w" "\<not> starved w" using demo_reach by blast
  obtain rc w' where run:
    "run_state (store_call_run memory_store_vtable (Create (Some demo_session))) w = (rc, w')"
    by fastforce
  from mem_call_refines_map [OF w(1) run] w(2) run show ?thesis
    by (auto simp: demo_session_def)
qed

text \<open>
  Round trip. With memory available, a session that has an identifier is stored by create and
  the next get of that identifier returns an equal session, unless it has expired in the meantime.
\<close>

theorem mem_create_get_roundtrip:
  assumes wf: "mem_wf (impl w)" and mem: "\<not> starved w" and i: "s_id s = Some i"
    and c: "run_state (opendbsc_memory_store_create_impl (Some s)) w = (rc, w1)"
    and g: "run_state (opendbsc_memory_store_get_impl (Some i)) w1 = ((rc', out), w2)"
  shows "rc = 0 \<and> (rc' = 0 \<and> out = Some s \<or> rc' = -1 \<and> out = None \<and> expired_between w1 w2 s)"
proof -
  from wpD [OF mem_create_spec [OF wf i] c] mem
  have c': "rc = 0" "oframe w w1" "mem_wf (impl w1)" "mem_view (impl w1) i = Some s" by auto
  have "\<not> starved w1" using mem oframe_starved [OF c'(2)] by simp
  with wpD [OF mem_get_spec [OF c'(3)] g] c' show ?thesis by auto
qed

theorem mem_create_get_roundtrip_witness:
  "fst (run_state (opendbsc_memory_store_create_impl (Some demo_session)) (plenty fresh_memory_store)) = 0 \<and>
   fst (run_state (opendbsc_memory_store_get_impl (Some ''s1''))
     (snd (run_state (opendbsc_memory_store_create_impl (Some demo_session)) (plenty fresh_memory_store))))
   = (0, Some demo_session)"
proof -
  let ?c = "run_state (opendbsc_memory_store_create_impl (Some demo_session)) (plenty fresh_memory_store)"
  let ?g = "run_state (opendbsc_memory_store_get_impl (Some ''s1'')) (snd ?c)"
  have rc: "fst (fst ?g) = 0" by code_simp
  have "fst ?c = 0 \<and> (fst (fst ?g) = 0 \<and> snd (fst ?g) = Some demo_session \<or>
      fst (fst ?g) = -1 \<and> snd (fst ?g) = None \<and> expired_between (snd ?c) (snd ?g) demo_session)"
    by (rule mem_create_get_roundtrip [where w = "plenty fresh_memory_store" and i = "''s1''"])
       (simp_all add: demo_wf, simp add: demo_session_def)
  with rc show ?thesis by (auto simp: prod_eq_iff)
qed

text \<open>
  C16: An update that reports failure has destroyed the session: the slot is freed before the copy
  is attempted, so when the copy runs out of memory the old contents are gone. The call never
  leaves a half-copied session behind and no other session is touched.
\<close>

theorem mem_update_failure_loses_session:
  assumes "mem_wf (impl w)" and "s_id s = Some i"
    and "run_state (opendbsc_memory_store_update_impl (Some s)) w = (rc, w')" and "rc \<noteq> 0"
  shows "mem_view (impl w') = (mem_view (impl w))(i := None) \<and>
    (mem_view (impl w) i \<noteq> None \<longrightarrow> starved w)"
  using wpD [OF mem_update_spec [OF assms(1,2)] assms(3)] assms(4) by auto

theorem mem_update_failure_loses_session_witness:
  "let w = (plenty demo_store)\<lparr>mem_ok := \<lambda>_. False\<rparr>;
       (rc, w') = run_state (opendbsc_memory_store_update_impl (Some demo_session)) w
   in rc = -1 \<and> mem_view (impl w) ''s1'' = Some demo_session \<and> mem_view (impl w') ''s1'' = None"
proof -
  let ?w = "(plenty demo_store)\<lparr>mem_ok := \<lambda>_. False\<rparr>"
  let ?u = "run_state (opendbsc_memory_store_update_impl (Some demo_session)) ?w"
  have rc: "fst ?u = -1" by code_simp
  have "mem_view (impl (snd ?u)) = (mem_view (impl ?w))(''s1'' := None) \<and>
    (mem_view (impl ?w) ''s1'' \<noteq> None \<longrightarrow> starved ?w)"
    by (rule mem_update_failure_loses_session [where rc = "-1" and s = demo_session])
       (simp_all add: demo_wf rc prod_eq_iff, simp add: demo_session_def)
  moreover have "mem_view (impl ?w) ''s1'' = Some demo_session"
    by (simp add: mem_view_def live_def lookup_def demo_store_def demo_session_def)
  ultimately show ?thesis using rc by (simp add: case_prod_beta)
qed

text \<open>
  A query by user on a well-formed store answers the user's sessions in storage order, all of
  them and no others, or reports a failed allocation; every session it keeps was alive and every session it drops expired by a
  reading of the clock the call itself made.
\<close>

theorem mem_get_by_user_exact:
  assumes "mem_wf (impl w)"
    and "run_state (opendbsc_memory_store_get_by_user_id_impl (Some u)) w = ((rc, out), w')"
  shows "swept w w' (mset (live (impl w))) (mset (live (impl w'))) \<and>
    (rc = 0 \<and> out = of_user u (live (impl w')) \<or> rc = -1 \<and> out = [] \<and> starved w)"
  using wpD [OF mem_get_by_user_spec [OF assms(1)] assms(2)] by auto

theorem mem_get_by_user_exact_witness:
  "fst (run_state (opendbsc_memory_store_get_by_user_id_impl (Some ''alice'')) (plenty demo_store))
   = (0, of_user ''alice'' (live (impl (snd (run_state
       (opendbsc_memory_store_get_by_user_id_impl (Some ''alice'')) (plenty demo_store))))))"
proof -
  let ?g = "run_state (opendbsc_memory_store_get_by_user_id_impl (Some ''alice'')) (plenty demo_store)"
  have rc: "fst (fst ?g) = 0" by code_simp
  have "swept (plenty demo_store) (snd ?g) (mset (live (impl (plenty demo_store)))) (mset (live (impl (snd ?g)))) \<and>
    (fst (fst ?g) = 0 \<and> snd (fst ?g) = of_user ''alice'' (live (impl (snd ?g))) \<or>
     fst (fst ?g) = -1 \<and> snd (fst ?g) = [] \<and> starved (plenty demo_store))"
    by (rule mem_get_by_user_exact) (simp_all add: demo_wf)
  with rc show ?thesis by (auto simp: prod_eq_iff)
qed

text \<open>
  Deleting by user always succeeds and removes exactly the user's sessions: as a multiset the
  live sessions afterwards are the others, although removal swaps the last session into each hole.
\<close>

theorem mem_delete_by_user_exact:
  assumes "mem_wf (impl w)"
    and "run_state (opendbsc_memory_store_delete_by_user_id_impl (Some u)) w = (rc, w')"
  shows "rc = 0 \<and> mem_wf (impl w') \<and>
    mset (live (impl w')) = filter_mset (\<lambda>s. s_user_id s \<noteq> Some u) (mset (live (impl w)))"
  using wpD [OF mem_delete_by_user_spec [OF assms(1)] assms(2)] by simp

theorem mem_delete_by_user_exact_witness:
  "live (impl (snd (run_state (opendbsc_memory_store_delete_by_user_id_impl (Some ''alice''))
     (plenty demo_store)))) = []"
proof -
  let ?d = "run_state (opendbsc_memory_store_delete_by_user_id_impl (Some ''alice'')) (plenty demo_store)"
  have "fst ?d = 0 \<and> mem_wf (impl (snd ?d)) \<and> mset (live (impl (snd ?d))) =
      filter_mset (\<lambda>s. s_user_id s \<noteq> Some ''alice'') (mset (live (impl (plenty demo_store))))"
    by (rule mem_delete_by_user_exact) (simp_all add: demo_wf)
  then show ?thesis by (simp add: live_def demo_store_def demo_session_def)
qed

end
