(* ===== verification/Manager_Machine.thy ===== *)
theory Manager_Machine
  imports Manager_Runs Memory_Machine
begin

text \<open>
  The manager over the in-memory store: the interpretation of \<open>manager_store\<close>, with a store that
  fails only for want of memory and holds all times, and the runs of \<open>Manager_Runs\<close> on it. A request
  never leaves the specification of \<open>Manager_Spec\<close>, whatever its arguments, the clock and the failing
  allocations.
\<close>

interpretation mem_mgr: manager_store memory_store_vtable mem_view mem_wf "\<lambda>_. True" False "\<lambda>_. True"
  by unfold_locales
     (auto simp: memory_store_vtable_def mem_null_calls intro: mem.create_avail [unfolded memory_store_vtable_def]
        mem.update_avail [unfolded memory_store_vtable_def] mem.delete_avail [unfolded memory_store_vtable_def]
        dest: mem.get_avail [unfolded memory_store_vtable_def])

type_synonym msys = "OpenDBSC_MemoryStore sys"
type_synonym memory_manager = "OpenDBSC_MemoryStore OpenDBSC_Manager"

abbreviation ledger_of :: "msys \<Rightarrow> ledger" where
  "ledger_of w \<equiv> ledger_in mem_view w"

abbreviation memory_manager :: "memory_manager \<Rightarrow> bool" where
  "memory_manager \<equiv> manages memory_store_vtable"

abbreviation challenged :: "msys \<Rightarrow> bool" where
  "challenged \<equiv> challenged_in mem_view"

abbreviation kept :: "msys \<Rightarrow> msys \<Rightarrow> bool" where
  "kept \<equiv> kept_by mem_wf"

lemmas memory_manager_def = manages_def [of memory_store_vtable]
  and challenged_def = challenged_in_def [of mem_view]
  and kept_def = kept_by_def [of mem_wf]

text \<open>A run from an empty store and an empty log, with memory available.\<close>

definition fresh_start :: "msys \<Rightarrow> bool" where
  "fresh_start w \<longleftrightarrow> mem_wf (impl w) \<and> mem_view (impl w) = (\<lambda>_. None) \<and> events w = []"

definition good_run :: "('j, 'b, 'k) externals \<Rightarrow> memory_manager \<Rightarrow> msys \<Rightarrow> msys \<Rightarrow> bool" where
  "good_run E mg w0 w \<longleftrightarrow> memory_manager mg \<and> uuid_text E \<and> fresh_start w0 \<and> \<not> starved w0 \<and> mgr_runs E mg w0 w"

lemma good_run_sound:
  "good_run E mg w0 w \<Longrightarrow> sound_run memory_store_vtable mem_view mem_wf (\<lambda>_. True) E mg w0 w"
  by (simp add: good_run_def sound_run_def fresh_start_def blank_def)

lemmas mem_kept_frame = kept_frame [where ok = mem_wf and view = mem_view]
  and mem_kept_starved = kept_starved [of mem_wf]
  and mem_register_run = mem_mgr.register_run [OF clock_fits_any]
  and mem_refresh_run = mem_mgr.refresh_run [OF clock_fits_any]
  and mem_close_run = mem_mgr.close_run
  and mem_initiate_run = mem_mgr.initiate_run [OF clock_fits_any]
  and mem_fetch_run = mem_mgr.fetch_run
  and mem_call_run = mem_mgr.call_run [OF clock_fits_any]
  and mem_run_call = mem_mgr.run_call [OF clock_fits_any]
  and mem_runs_inv = mem_mgr.mgr_runs_inv [OF _ clock_fits_any]
  and good_run_inv = mem_mgr.sound_run_inv [OF good_run_sound]
  and mem_replay_refused = mem_mgr.replay_refused [OF good_run_sound]

end
