(* ===== verification/Manager_Properties.thy ===== *)
theory Manager_Properties
  imports Manager_Machine
begin

text \<open>
  The properties of the session manager over the in-memory store, each with an evaluated scenario
  in which its hypotheses hold.
\<close>

section \<open>A scenario\<close>

text \<open>
  A login, a registration and a refresh with the stand-ins of the theory \<open>JWT\<close> for the libraries:
  a JSON text is a single character, and draw \<open>n\<close> of the entropy source is the byte \<open>n\<close> repeated.
  The first draw makes the identifier, the others the challenges.
\<close>

definition demo_challenge :: "nat \<Rightarrow> string" where
  "demo_challenge n = concat (replicate 32 (print_hex2 (of_nat n)))"

definition demo_reader :: "demo_json cjson_reader" where
  "demo_reader = demo_cjson\<lparr>cj_parse := map_of (
     [(''1'', JObject [(''jti'', JString (demo_challenge 1))]),
      (''2'', JObject [(''jti'', JString (demo_challenge 2))])] @ demo_texts)\<rparr>"

fun demo_field :: "demo_json \<Rightarrow> string \<Rightarrow> demo_json \<Rightarrow> demo_json" where
  "demo_field (JObject fs) k v = JObject (fs @ [(k, v)])"
| "demo_field (JString s) k v = JString s"

definition demo_writer :: "demo_json cjson_writer" where
  "demo_writer = \<lparr>cj_object = JObject [], cj_array = JObject [], cj_str = JString,
     cj_bool = (\<lambda>b. JString (if b then ''true'' else ''false'')), cj_add = demo_field,
     cj_push = (\<lambda>a v. demo_field a [] v), cj_format = (\<lambda>_. ''J'')\<rparr>"

definition demo_uuid :: uuidv7_ops where
  "demo_uuid = \<lparr>uuidv7_generate = (\<lambda>t r. (0, r)), uuidv7_to_string = (\<lambda>u. replicate 36 CHR ''u'')\<rparr>"

definition demo_ext :: "(demo_json, byte list, byte list) externals" where
  "demo_ext = \<lparr>ext_json = demo_reader, ext_writer = demo_writer, ext_ssl = demo_openssl, ext_uuid = demo_uuid\<rparr>"

definition demo_manager :: memory_manager where
  "demo_manager = \<lparr>mgr_cfg = \<lparr>cfg_store = Some memory_store_vtable, cfg_cookie_name = Some ''sid'',
     cfg_cookie_path = Some ''/'', cfg_cookie_domain = None, cfg_secure = 1, cfg_same_site = Some ''Lax'',
     cfg_cookie_ttl = 60, cfg_session_ttl = 0, cfg_authorization = None, cfg_on_event = True\<rparr>\<rparr>"

definition demo_id :: string where
  "demo_id = replicate 36 CHR ''u''"

definition demo_start :: msys where
  "demo_start = (plenty fresh_memory_store)\<lparr>entropy := \<lambda>n. Some (\<lambda>_. of_nat n)\<rparr>"

type_synonym answered = "(int \<times> OpenDBSC_ManagerResponse) \<times> msys"

definition demo_call :: "mgr_call \<Rightarrow> msys \<Rightarrow> answered" where
  "demo_call c w = run_state (mgr_call_run demo_ext demo_manager c) w"

definition demo_register_call :: mgr_call where
  "demo_register_call = Register (Some demo_id) (Some ''Ug.MQ.AQI'')"

definition demo_refresh_call :: mgr_call where
  "demo_refresh_call = Refresh (Some demo_id) (Some ''Rg.Mg.AQI'')"

definition demo_trace :: "answered \<times> answered \<times> answered \<times> answered \<times> answered" where
  "demo_trace =
     (let l = demo_call (Login ''alice'' None) demo_start; b = demo_call demo_register_call (snd l);
          f = demo_call demo_refresh_call (snd b)
      in (l, b, f, demo_call (Close (Some demo_id)) (snd f), demo_call demo_register_call (snd b)))"

definition demo_login :: answered where
  "demo_login = fst demo_trace"

definition demo_register :: answered where
  "demo_register = fst (snd demo_trace)"

definition demo_refresh :: answered where
  "demo_refresh = fst (snd (snd demo_trace))"

definition demo_close :: answered where
  "demo_close = fst (snd (snd (snd demo_trace)))"

text \<open>The registration sent a second time.\<close>

definition demo_replay :: answered where
  "demo_replay = snd (snd (snd (snd demo_trace)))"

lemmas demo_defs = demo_trace_def demo_login_def demo_register_def demo_refresh_def demo_close_def demo_replay_def
  Let_def

lemma demo_runs:
  "demo_login = demo_call (Login ''alice'' None) demo_start"
  "demo_register = demo_call demo_register_call (snd demo_login)"
  "demo_refresh = demo_call demo_refresh_call (snd demo_register)"
  "demo_close = demo_call (Close (Some demo_id)) (snd demo_refresh)"
  "demo_replay = demo_call demo_register_call (snd demo_register)"
  by (simp_all add: demo_defs)

lemma demo_uuid_text: "uuid_text demo_ext"
  by (simp add: uuid_text_def demo_ext_def demo_uuid_def)

lemma demo_memory_manager: "memory_manager demo_manager"
  by (simp add: memory_manager_def mgr_ok_def demo_manager_def)

lemma demo_fresh_start: "fresh_start demo_start"
  using demo_wf(1)
  by (simp add: fresh_start_def demo_start_def mem_view_def live_def fresh_memory_store_def lookup_def fun_eq_iff)

lemma demo_plenty: "\<not> starved demo_start"
  by (simp add: demo_start_def starved_def plenty_def)

lemma demo_good_start: "good_run demo_ext demo_manager demo_start demo_start"
  by (simp add: good_run_def demo_uuid_text demo_memory_manager demo_fresh_start demo_plenty mgr_runs.refl)

lemma good_run_call:
  "good_run E mg w0 w \<Longrightarrow> good_run E mg w0 (snd (run_state (mgr_call_run E mg c) w))"
  unfolding good_run_def by (metis mgr_runs.call prod.collapse)

lemma demo_good: "good_run demo_ext demo_manager demo_start (snd demo_login)"
    "good_run demo_ext demo_manager demo_start (snd demo_register)"
    "good_run demo_ext demo_manager demo_start (snd demo_refresh)"
    "good_run demo_ext demo_manager demo_start (snd demo_close)"
  unfolding demo_runs demo_call_def by (intro good_run_call demo_good_start)+

definition status_and_session :: "answered \<Rightarrow> int \<times> int \<times> (OpenDBSC_SessionState \<times> string option \<times> string option) option" where
  "status_and_session x = (fst (fst x), rs_status (snd (fst x)),
     map_option (\<lambda>s. (s_state s, s_public_key s, s_algorithm s)) (mem_view (impl (snd x)) demo_id))"

definition session_challenge :: "answered \<Rightarrow> (string option \<times> bool) option" where
  "session_challenge x =
     map_option (\<lambda>s. (s_challenge s, s_has_expires s)) (mem_view (impl (snd x)) demo_id)"

lemma demo_observed:
  "(case demo_trace of (l, b, f, e, a) \<Rightarrow>
      (map status_and_session [l, b, f, e], entropy_reads (snd a), map session_challenge [l, b])) =
     ([(0, 200, Some (ACTIVE, None, None)), (0, 200, Some (BOUND, Some ''K'', Some ''RS256'')),
       (0, 200, Some (BOUND, Some ''K'', Some ''RS256'')), (0, 200, None)], 3,
      [Some (Some (demo_challenge 1), False), Some (Some (demo_challenge 2), False)])"
  by code_simp

lemma demo_values:
  "status_and_session demo_login = (0, 200, Some (ACTIVE, None, None))"
  "status_and_session demo_register = (0, 200, Some (BOUND, Some ''K'', Some ''RS256''))"
  "status_and_session demo_refresh = (0, 200, Some (BOUND, Some ''K'', Some ''RS256''))"
  "status_and_session demo_close = (0, 200, None)"
  "entropy_reads (snd demo_replay) = 3"
  "session_challenge demo_login = Some (Some (demo_challenge 1), False)"
  "session_challenge demo_register = Some (Some (demo_challenge 2), False)"
  using demo_observed by (simp_all add: demo_defs)

lemma demo_invariant:
  "good_run demo_ext demo_manager demo_start w \<Longrightarrow> mem_wf (impl w) \<and> challenged w \<and> \<not> starved w"
  using good_run_inv [of demo_ext demo_manager demo_start w] ledger_ok_challenged [of demo_manager demo_start w] by auto

lemmas demo_setting = demo_memory_manager demo_uuid_text demo_good demo_invariant [OF demo_good(1)]
  demo_invariant [OF demo_good(2)] demo_invariant [OF demo_good(3)]

lemma demo_claims:
  "map_option (\<lambda>c. (p_jwk c, p_challenge c, registration_ok demo_reader demo_openssl ''Ug.MQ.AQI'' c))
     (jwt_claims demo_reader ''Ug.MQ.AQI'') = Some (Some ''K'', Some (demo_challenge 1), True)"
  "map_option (\<lambda>c. (p_challenge c, refresh_ok demo_reader demo_openssl ''Rg.Mg.AQI'' ''K'' c))
     (jwt_claims demo_reader ''Rg.Mg.AQI'') = Some (Some (demo_challenge 2), True)"
  by code_simp+

lemma demo_accepts:
  assumes "mem_view (impl (snd demo_login)) demo_id = Some s"
  shows "\<exists>a. registration_accepts demo_ext demo_manager s (Some ''Ug.MQ.AQI'') a a \<and> p_jwk a = Some ''K''"
  using assms demo_values(6) demo_claims(1)
  by (auto simp: registration_accepts_def session_challenge_def demo_ext_def demo_manager_def)

lemma demo_accepts_refresh:
  assumes "mem_view (impl (snd demo_register)) demo_id = Some s"
  shows "\<exists>a. refresh_accepts demo_ext s (Some ''Rg.Mg.AQI'') a a"
  using assms demo_values(2,7) demo_claims(2)
  by (auto simp: refresh_accepts_def status_and_session_def session_challenge_def demo_ext_def)

lemma counted_draws:
  assumes "entropy w0 = (\<lambda>n. Some (\<lambda>_. of_nat n))" and "entropy_reads w \<le> 256"
  shows "distinct_draws w0 w"
  unfolding distinct_draws_def
proof (rule inj_onI)
  fix n k
  assume n: "n \<in> {entropy_reads w0..<entropy_reads w}" and k: "k \<in> {entropy_reads w0..<entropy_reads w}"
    and "challenge_of (entropy w0 n) = challenge_of (entropy w0 k)"
  then have "concat (map print_hex2 (map (\<lambda>_. of_nat n :: byte) [0..<32])) =
      concat (map print_hex2 (map (\<lambda>_. of_nat k) [0..<32]))"
    by (simp add: challenge_of_def assms(1))
  then have "map (\<lambda>_. of_nat n :: byte) [0..<32] = map (\<lambda>_. of_nat k) [0..<32]"
    by (rule concat_hex_inj) simp
  then have "(of_nat n :: byte) = of_nat k" by (simp add: map_replicate_const)
  then have "n mod 2 ^ 8 = k mod 2 ^ 8" by (simp add: word_of_nat_eq_iff take_bit_eq_mod)
  with n k assms(2) show "n = k" by simp
qed

lemma demo_draws: "entropy_reads w \<le> 256 \<Longrightarrow> distinct_draws demo_start w"
  by (rule counted_draws) (simp_all add: demo_start_def)

section \<open>Every request implements its specification\<close>

text \<open>
  C4: Registration. On a well-formed store whose sessions have challenges, for any cookie, header,
  clock and pattern of failing allocations, a registration has no undefined behaviour and answers
  as the specification \<open>register_step\<close> says. When no allocation can fail: 401 without a cookie or
  a live session, 400 for a session that is not ACTIVE, 403 with the stored challenge when the
  proof is missing or refused, 200 with the session BOUND to the key and algorithm of an accepted
  proof, its challenge replaced by a new draw, and the event logged; -1 is not answered. When
  allocations can fail it may also answer 401 for a live session, 403 for a good proof, and -1 with the
  session unchanged or lost; a 200 still needs an accepted proof, but the session, although BOUND, may
  keep its old key, algorithm or challenge, since the setters' results are not looked at.
\<close>

theorem register_refines:
  assumes "mem_wf (impl w)" and "memory_manager mg" and "challenged w"
    and "run_state (opendbsc_manager_register E (Some mg) ck hdr resp) w = ((rc, r), w')"
  shows "undef w' = undef w \<and> mem_wf (impl w') \<and>
    register_step False E mg w w' ck hdr (mem_view (impl w), events w) rc r (mem_view (impl w'), events w')"
  using mem_register_run [OF assms] by (simp add: kept_def)

theorem register_refines_witness:
  "\<exists>r w'. run_state (opendbsc_manager_register demo_ext (Some demo_manager) (Some demo_id) (Some ''Ug.MQ.AQI'')
       empty_response) (snd demo_login) = ((0, r), w') \<and> rs_status r = 200 \<and>
     register_step False demo_ext demo_manager (snd demo_login) w' (Some demo_id) (Some ''Ug.MQ.AQI'')
       (ledger_of (snd demo_login)) 0 r (ledger_of w')"
proof -
  obtain rc r w' where x: "demo_register = ((rc, r), w')" by (metis prod.exhaust)
  with demo_runs(2) have run: "run_state (opendbsc_manager_register demo_ext (Some demo_manager) (Some demo_id)
      (Some ''Ug.MQ.AQI'') empty_response) (snd demo_login) = ((rc, r), w')"
    by (simp add: demo_call_def demo_register_call_def)
  from demo_values(2) have "rc = 0" "rs_status r = 200" unfolding x by (simp_all add: status_and_session_def)
  with run register_refines [OF _ demo_memory_manager _ run] demo_setting show ?thesis by auto
qed

text \<open>
  C5: Refresh. On the same terms, a refresh answers as \<open>refresh_step\<close> says. When no allocation can fail:
  400 without an identifier or for a session that is not BOUND, 401 when it is unknown or expired, 403
  with the stored challenge when the proof is missing or refused, 200 with the challenge replaced by a
  new draw and everything else of the session but its expiry unchanged. When allocations can fail it
  may also answer 401 for a live session, 403 for a good proof, and -1 with the session unchanged
  or lost; a 200 still needs an accepted proof and keeps the key, but the old challenge may stay in
  force.
\<close>

theorem refresh_refines:
  assumes "mem_wf (impl w)" and "memory_manager mg" and "challenged w"
    and "run_state (opendbsc_manager_refresh E (Some mg) sid hdr resp) w = ((rc, r), w')"
  shows "undef w' = undef w \<and> mem_wf (impl w') \<and>
    refresh_step False E mg w w' sid hdr (mem_view (impl w), events w) rc r (mem_view (impl w'), events w')"
  using mem_refresh_run [OF assms] by (simp add: kept_def)

theorem refresh_refines_witness:
  "\<exists>r w'. run_state (opendbsc_manager_refresh demo_ext (Some demo_manager) (Some demo_id) (Some ''Rg.Mg.AQI'')
       empty_response) (snd demo_register) = ((0, r), w') \<and> rs_status r = 200 \<and>
     refresh_step False demo_ext demo_manager (snd demo_register) w' (Some demo_id) (Some ''Rg.Mg.AQI'')
       (ledger_of (snd demo_register)) 0 r (ledger_of w')"
proof -
  obtain rc r w' where x: "demo_refresh = ((rc, r), w')" by (metis prod.exhaust)
  with demo_runs(3) have run: "run_state (opendbsc_manager_refresh demo_ext (Some demo_manager) (Some demo_id)
      (Some ''Rg.Mg.AQI'') empty_response) (snd demo_register) = ((rc, r), w')"
    by (simp add: demo_call_def demo_refresh_call_def)
  from demo_values(3) have "rc = 0" "rs_status r = 200" unfolding x by (simp_all add: status_and_session_def)
  with run refresh_refines [OF _ demo_memory_manager _ run] demo_setting show ?thesis by auto
qed



text \<open>
  C7: Close. On a well-formed store, whatever allocations fail, a close has no undefined behaviour. An
  answer 200 with return code 0 means that exactly the named session is gone and the event logged. When
  no allocation can fail, 400 is answered without an identifier, 401 when there is no such
  session or it has expired, and -1 never. When allocations can fail, a live session may be answered
  with 401, and it stays; or -1 is returned, nothing is logged, the session is still there or gone, and
  the response may already say 200.
\<close>

theorem close_refines:
  assumes "mem_wf (impl w)" and "memory_manager mg"
    and "run_state (opendbsc_manager_close E (Some mg) sid resp) w = ((rc, r), w')"
  shows "undef w' = undef w \<and> mem_wf (impl w') \<and>
    close_step False mg w w' sid (mem_view (impl w), events w) rc r (mem_view (impl w'), events w')"
  using mem_close_run [OF assms] by (simp add: kept_def)

theorem close_refines_witness:
  "\<exists>r w'. run_state (opendbsc_manager_close demo_ext (Some demo_manager) (Some demo_id) empty_response)
       (snd demo_refresh) = ((0, r), w') \<and> rs_status r = 200 \<and>
     close_step False demo_manager (snd demo_refresh) w' (Some demo_id) (ledger_of (snd demo_refresh)) 0 r (ledger_of w')"
proof -
  obtain rc r w' where x: "demo_close = ((rc, r), w')" by (metis prod.exhaust)
  with demo_runs(4) have run: "run_state (opendbsc_manager_close demo_ext (Some demo_manager) (Some demo_id)
      empty_response) (snd demo_refresh) = ((rc, r), w')"
    by (simp add: demo_call_def)
  from demo_values(4) have "rc = 0" "rs_status r = 200" unfolding x by (simp_all add: status_and_session_def)
  with run close_refines [OF _ demo_memory_manager run] demo_setting show ?thesis by auto
qed

section \<open>Invariants of every run\<close>

text \<open>
  C8: After any sequence of logins, registrations, refreshes, closes and queries from an empty
  store and log, with any arguments and any clock, with memory available and a UUID library that writes
  36 characters, nothing undefined has happened, the store is well formed, and every stored session has
  its own identifier, a user and a challenge that is a draw of the entropy source made during the run;
  an ACTIVE session has no key, and a BOUND one has an algorithm, and a key exactly when that is not
  "none".
\<close>

theorem manager_invariant:
  assumes "good_run E mg w0 w"
  shows "undef w = undef w0 \<and> mem_wf (impl w) \<and>
    (\<forall>i s. mem_view (impl w) i = Some s \<longrightarrow> session_ok w0 w i s)"
  using good_run_inv [OF assms] by (simp add: kept_def)

theorem manager_invariant_witness:
  "\<exists>s. mem_view (impl (snd demo_refresh)) demo_id = Some s \<and> s_state s = BOUND \<and> s_public_key s = Some ''K'' \<and>
     session_ok demo_start (snd demo_refresh) demo_id s"
  using manager_invariant [OF demo_good(3)] demo_values(3) by (auto simp: status_and_session_def)

text \<open>
  C9: The event log is a faithful account. In a run of the manager from an empty store and an empty log,
  with memory available throughout, a UUID library that writes 36 characters and the callback set: every
  REGISTER event comes after a LOGIN of the same session, every REFRESH after a REGISTER and every
  CLOSE after a LOGIN; every session in the store has a LOGIN event and every BOUND one a REGISTER
  event.
\<close>

theorem manager_log_faithful:
  assumes "good_run E mg w0 w" and "cfg_on_event (mgr_cfg mg)"
  shows "log_ok (events w) \<and> (\<forall>i s. mem_view (impl w) i = Some s \<longrightarrow> logged_session (events w) i s)"
  using good_run_inv(3) [OF assms(1)] assms(2) by simp

theorem manager_log_faithful_witness:
  "log_ok (events (snd demo_refresh)) \<and> has_event ''REGISTER'' (Some demo_id) (events (snd demo_refresh))"
proof -
  obtain s where "mem_view (impl (snd demo_refresh)) demo_id = Some s" "s_state s = BOUND"
    using demo_values(3) by (auto simp: status_and_session_def)
  with manager_log_faithful [OF demo_good(3)] show ?thesis
    by (auto simp: demo_manager_def logged_session_def)
qed

text \<open>
  C10: A binding is final. In a run from an empty store and log, with memory available throughout and a
  UUID library that writes 36 characters, whatever request follows, a BOUND session either is no longer
  stored or is still BOUND with the same key, algorithm, user and creation time, unless the request is
  a login that draws the same identifier again, which leaves a new session without a key: no
  request replaces the key of a bound session.
\<close>

theorem manager_pins_key:
  assumes "good_run E mg w0 w" and "run_state (mgr_call_run E mg c) w = ((rc, r), w')"
    and "mem_view (impl w) i = Some s" and "s_state s = BOUND" and "mem_view (impl w') i = Some s'"
  shows "s_state s' = BOUND \<and> s_public_key s' = s_public_key s \<and> s_algorithm s' = s_algorithm s \<and>
      s_user_id s' = s_user_id s \<and> s_created_at s' = s_created_at s \<or>
    (\<exists>user out. c = Login user out \<and> s_user_id s' = Some user) \<and> s_state s' = ACTIVE \<and> s_public_key s' = None"
proof -
  from assms(1) have mg: "memory_manager mg" "uuid_text E" "\<not> starved w0" by (auto simp: good_run_def)
  from mem_run_call [OF mg good_run_inv(2,1,3) [OF assms(1)] assms(2)]
  have "ledger_step False E mg w w' c (mem_view (impl w), events w) (mem_view (impl w'), events w')" by simp
  then show ?thesis
    by cases (use assms(3-5) mg(3) mem_kept_starved [OF good_run_inv(1) [OF assms(1)]] in
      \<open>auto simp: extended_from_def login_of_def split: if_splits\<close>)
qed

theorem manager_pins_key_witness:
  "\<exists>s s'. mem_view (impl (snd demo_register)) demo_id = Some s \<and> mem_view (impl (snd demo_refresh)) demo_id = Some s' \<and>
     s_public_key s' = s_public_key s \<and> s_user_id s' = s_user_id s"
proof -
  obtain s where s: "mem_view (impl (snd demo_register)) demo_id = Some s" "s_state s = BOUND"
    using demo_values(2) by (auto simp: status_and_session_def)
  obtain s' where s': "mem_view (impl (snd demo_refresh)) demo_id = Some s'"
    using demo_values(3) by (auto simp: status_and_session_def)
  have run: "run_state (mgr_call_run demo_ext demo_manager demo_refresh_call) (snd demo_register) =
      ((fst (fst demo_refresh), snd (fst demo_refresh)), snd demo_refresh)"
    using demo_runs(3) by (simp add: demo_call_def)
  from manager_pins_key [OF demo_good(2) run s s'] s(1) s' show ?thesis by (auto simp: demo_refresh_call_def)
qed

text \<open>
  C1: No replay. In a run of the manager from an empty store and log, with memory available throughout
  and a UUID library that writes 36 characters: if the draws of the entropy source differ, a proof that
  was accepted once, by a registration or a refresh, is never accepted again. However many requests
  lie in between, no later request that carries the same header is answered with 200, for this or any
  other session. (Without memory the code can answer 200 and keep the old challenge.)
\<close>

theorem manager_no_replay:
  assumes good: "good_run E mg w0 w" and draws: "distinct_draws w0 w3"
    and first: "run_state (mgr_call_run E mg c) w = ((rc, r), w1)" "header_of c = Some h" "rs_status r = 200"
    and between: "mgr_runs E mg w1 w2"
    and second: "run_state (mgr_call_run E mg c') w2 = ((rc', r'), w3)" "header_of c' = Some h"
  shows "rs_status r' \<noteq> 200"
  by (rule mem_replay_refused [OF assms])

theorem manager_no_replay_witness:
  "header_of demo_register_call = Some ''Ug.MQ.AQI'' \<and> rs_status (snd (fst demo_register)) = 200 \<and>
   rs_status (snd (fst demo_replay)) \<noteq> 200"
proof -
  have run: "run_state (mgr_call_run demo_ext demo_manager demo_register_call) (snd demo_login) =
      ((fst (fst demo_register), snd (fst demo_register)), snd demo_register)"
    using demo_runs(2) by (simp add: demo_call_def)
  have again: "run_state (mgr_call_run demo_ext demo_manager demo_register_call) (snd demo_register) =
      ((fst (fst demo_replay), snd (fst demo_replay)), snd demo_replay)"
    using demo_runs(5) by (simp add: demo_call_def)
  have ok: "rs_status (snd (fst demo_register)) = 200"
    using demo_values(2) by (simp add: status_and_session_def)
  have hdr: "header_of demo_register_call = Some ''Ug.MQ.AQI''"
    by (simp add: demo_register_call_def)
  have draws: "distinct_draws demo_start (snd demo_replay)"
    by (rule demo_draws) (simp add: demo_values(5))
  show ?thesis
    using manager_no_replay [OF demo_good(1) draws run hdr ok mgr_runs.refl again hdr] hdr ok by simp
qed

section \<open>Acceptance\<close>

text \<open>
  C3: A refresh is only granted to the holder of the bound key. Whatever the clock and the failing
  allocations, an answer 200 means that the session was BOUND, that the header is a token whose
  third part is an ES256 or RS256 signature of the first two under the key stored for the session,
  and that the token's challenge is the one stored; in particular a session that was registered
  with algorithm "none", which stores no key, is never refreshed.
\<close>

theorem refresh_requires_signature:
  assumes "mem_wf (impl w)" and "memory_manager mg" and "challenged w"
    and "run_state (opendbsc_manager_refresh E (Some mg) sid hdr resp) w = ((rc, r), w')" and "rs_status r = 200"
  shows "\<exists>i s kj h pl sg alg a. sid = Some i \<and> mem_view (impl w) i = Some s \<and> s_state s = BOUND \<and>
    s_public_key s = Some kj \<and> hdr = Some (h @ ''.'' @ pl @ ''.'' @ sg) \<and> alg \<in> {''ES256'', ''RS256''} \<and>
    signed_by (ext_json E) (ext_ssl E) alg kj sg (h @ ''.'' @ pl) \<and>
    jwt_claims (ext_json E) (str_of hdr) = Some a \<and> p_challenge a = s_challenge s"
proof -
  from mem_refresh_run [OF assms(1-4)]
  have "refresh_step False E mg w w' sid hdr (ledger_of w) rc r (ledger_of w')" by simp
  then obtain i s a q where s: "sid = Some i" "mem_view (impl w) i = Some s" "s_state s = BOUND"
    and acc: "refresh_accepts E s hdr a q"
    by cases (use assms(5) in \<open>auto simp: asks_again_def\<close>)
  then obtain kj where kj: "s_public_key s = Some kj" and a: "jwt_claims (ext_json E) (str_of hdr) = Some a"
    and q: "partial_of q a" "refresh_ok (ext_json E) (ext_ssl E) (str_of hdr) kj q" "p_challenge q = s_challenge s"
    by (auto simp: refresh_accepts_def)
  from accepted_text [OF a] obtain h pl sg where t: "str_of hdr = h @ ''.'' @ pl @ ''.'' @ sg"
    "split_jwt (Some (str_of hdr)) = Some (h, pl, sg)" "p_signature a = Some sg" .
  have hdr: "hdr = Some (h @ ''.'' @ pl @ ''.'' @ sg)" using t(1) by (cases hdr) auto
  from q(2) have "signature_ok (ext_json E) (ext_ssl E) (str_of hdr) q (Some kj)" "p_algorithm q \<noteq> Some ''none''"
    by (simp_all add: refresh_ok_def)
  from signature_ok_signed [OF this t(2)] q(1) t(3) obtain alg where
    "alg \<in> {''ES256'', ''RS256''}" "signed_by (ext_json E) (ext_ssl E) alg kj sg (h @ ''.'' @ pl)"
    by (auto simp: partial_of_def)
  with s kj a q hdr show ?thesis by (auto simp: partial_of_def)
qed

theorem refresh_requires_signature_witness:
  "\<exists>s kj h pl sg alg. mem_view (impl (snd demo_register)) demo_id = Some s \<and> s_public_key s = Some kj \<and>
     ''Rg.Mg.AQI'' = h @ ''.'' @ pl @ ''.'' @ sg \<and> signed_by demo_reader demo_openssl alg kj sg (h @ ''.'' @ pl)"
proof -
  have run: "run_state (opendbsc_manager_refresh demo_ext (Some demo_manager) (Some demo_id) (Some ''Rg.Mg.AQI'')
      empty_response) (snd demo_register) = ((fst (fst demo_refresh), snd (fst demo_refresh)), snd demo_refresh)"
    using demo_runs(3) by (simp add: demo_call_def demo_refresh_call_def)
  have ok: "rs_status (snd (fst demo_refresh)) = 200"
    using demo_values(3) by (simp add: status_and_session_def)
  have wf: "mem_wf (impl (snd demo_register))" "challenged (snd demo_register)" using demo_setting by simp_all
  obtain i s kj h pl sg alg where "Some demo_id = Some i" "mem_view (impl (snd demo_register)) i = Some s"
      "s_public_key s = Some kj" "Some ''Rg.Mg.AQI'' = Some (h @ ''.'' @ pl @ ''.'' @ sg)"
      "signed_by (ext_json demo_ext) (ext_ssl demo_ext) alg kj sg (h @ ''.'' @ pl)"
    using refresh_requires_signature [OF wf(1) demo_memory_manager wf(2) run ok] by (elim exE conjE) (rule that)
  then show ?thesis by (intro exI [of _ s] exI [of _ kj] exI [of _ h] exI [of _ pl] exI [of _ sg] exI [of _ alg])
      (simp add: demo_ext_def)
qed

text \<open>
  C2: A registration is only granted for a proof of possession. An answer 200 means that the session
  was ACTIVE and not yet bound, that the token's challenge is the one stored for it and the
  configured authorization is repeated, and that either the algorithm is "none" and no key is
  bound, or the third part of the token is a signature of the first two under the key it embeds,
  and this is the key the session is bound to (unless an allocation failed).
\<close>

theorem register_requires_signature:
  assumes "mem_wf (impl w)" and "memory_manager mg" and "challenged w"
    and "run_state (opendbsc_manager_register E (Some mg) ck hdr resp) w = ((rc, r), w')" and "rs_status r = 200"
  shows "\<exists>i s s' h pl sg a. ck = Some i \<and> mem_view (impl w) i = Some s \<and> s_state s = ACTIVE \<and>
    mem_view (impl w') = (mem_view (impl w))(i \<mapsto> s') \<and> s_state s' = BOUND \<and>
    hdr = Some (h @ ''.'' @ pl @ ''.'' @ sg) \<and> jwt_claims (ext_json E) (str_of hdr) = Some a \<and>
    p_challenge a = s_challenge s \<and>
    (cfg_authorization (mgr_cfg mg) = None \<or> p_authorization a = cfg_authorization (mgr_cfg mg)) \<and>
    (p_algorithm a = Some ''none'' \<and> (starved w \<or> s_public_key s' = None) \<or>
     (\<exists>alg kj. alg \<in> {''ES256'', ''RS256''} \<and> p_jwk a = Some kj \<and>
        signed_by (ext_json E) (ext_ssl E) alg kj sg (h @ ''.'' @ pl) \<and>
        (starved w \<or> s_public_key s' = Some kj)))"
proof -
  from mem_register_run [OF assms(1-4)]
  have "register_step False E mg w w' ck hdr (ledger_of w) rc r (ledger_of w')" by simp
  then obtain i s s' a q where s: "ck = Some i" "mem_view (impl w) i = Some s" "s_state s = ACTIVE"
      "mem_view (impl w') = (mem_view (impl w))(i \<mapsto> s')"
    and acc: "registration_accepts E mg s hdr a q" and b: "bound_from w w' s q s'"
    by cases (use assms(5) in \<open>auto simp: asks_again_def\<close>)
  then have a: "jwt_claims (ext_json E) (str_of hdr) = Some a" and q: "partial_of q a"
      "registration_ok (ext_json E) (ext_ssl E) (str_of hdr) q" "p_challenge q = s_challenge s"
      "cfg_authorization (mgr_cfg mg) = None \<or> p_authorization q = cfg_authorization (mgr_cfg mg)"
    by (auto simp: registration_accepts_def)
  from accepted_text [OF a] obtain h pl sg where t: "str_of hdr = h @ ''.'' @ pl @ ''.'' @ sg"
    "split_jwt (Some (str_of hdr)) = Some (h, pl, sg)" "p_signature a = Some sg" .
  have hdr: "hdr = Some (h @ ''.'' @ pl @ ''.'' @ sg)" using t(1) by (cases hdr) auto
  have key: "p_algorithm a = Some ''none'' \<and> (starved w \<or> s_public_key s' = None) \<or>
     (\<exists>alg kj. alg \<in> {''ES256'', ''RS256''} \<and> p_jwk a = Some kj \<and>
        signed_by (ext_json E) (ext_ssl E) alg kj sg (h @ ''.'' @ pl) \<and> (starved w \<or> s_public_key s' = Some kj))"
  proof (cases "p_algorithm q = Some ''none''")
    case True
    with q b show ?thesis by (auto simp: partial_of_def registration_ok_def bound_from_def)
  next
    case False
    from q(2) have "signature_ok (ext_json E) (ext_ssl E) (str_of hdr) q (p_jwk q)" by (simp add: registration_ok_def)
    from signature_ok_signed [OF this False t(2)] q(1) t(3) obtain alg kj where
      k: "alg \<in> {''ES256'', ''RS256''}" "p_jwk q = Some kj"
        "signed_by (ext_json E) (ext_ssl E) alg kj sg (h @ ''.'' @ pl)"
      unfolding partial_of_def by metis
    have "p_jwk a = Some kj" using q(1) k(2) by (simp add: partial_of_def)
    moreover have "starved w \<or> s_public_key s' = Some kj" using b k(2) by (auto simp: bound_from_def)
    ultimately show ?thesis using k(1,3) by blast
  qed
  have auth: "cfg_authorization (mgr_cfg mg) = None \<or> p_authorization a = cfg_authorization (mgr_cfg mg)"
    using q(1,4) by (auto simp: partial_of_def)
  have "s_state s' = BOUND" "p_challenge a = s_challenge s" using b q by (auto simp: bound_from_def partial_of_def)
  with s a hdr key auth show ?thesis by blast
qed

theorem register_requires_signature_witness:
  "\<exists>s'. mem_view (impl (snd demo_register)) demo_id = Some s' \<and> s_state s' = BOUND"
proof -
  have run: "run_state (opendbsc_manager_register demo_ext (Some demo_manager) (Some demo_id) (Some ''Ug.MQ.AQI'')
      empty_response) (snd demo_login) = ((fst (fst demo_register), snd (fst demo_register)), snd demo_register)"
    using demo_runs(2) by (simp add: demo_call_def demo_register_call_def)
  have ok: "rs_status (snd (fst demo_register)) = 200"
    using demo_values(2) by (simp add: status_and_session_def)
  have wf: "mem_wf (impl (snd demo_login))" "challenged (snd demo_login)" using demo_setting by simp_all
  from register_requires_signature [OF wf(1) demo_memory_manager wf(2) run ok]
  have "\<exists>i s'. Some demo_id = Some i \<and> mem_view (impl (snd demo_register)) =
      (mem_view (impl (snd demo_login)))(i \<mapsto> s') \<and> s_state s' = BOUND"
    by (elim exE conjE) (intro exI conjI)
  then show ?thesis by auto
qed

text \<open>
  C11: Completeness of registration. With memory available, a valid proof for a live ACTIVE session,
  with the stored challenge and the configured authorization, is accepted: the answer is 200, the
  session is BOUND to the proof's key and algorithm, and the response offers the new challenge,
  which is the one now stored.
\<close>

theorem register_complete:
  assumes "mem_wf (impl w)" and "memory_manager mg" and "challenged w" and "\<not> starved w"
    and run: "run_state (opendbsc_manager_register E (Some mg) (Some i) hdr resp) w = ((rc, r), w')"
    and s: "mem_view (impl w) i = Some s" "s_state s = ACTIVE" "i \<noteq> []" "\<not> expired_between w w' s"
    and acc: "registration_accepts E mg s hdr a a"
  shows "rc = 0 \<and> rs_status r = 200 \<and> (\<exists>s' c. mem_view (impl w') = (mem_view (impl w))(i \<mapsto> s') \<and>
    s_state s' = BOUND \<and> s_public_key s' = p_jwk a \<and> s_algorithm s' = p_algorithm a \<and>
    s_challenge s' = Some c \<and> fresh w w' c \<and> rs_challenge r = Some (quoted c @ opt_param ''id'' (Some i)))"
proof -
  from mem_register_run [OF assms(1-3) run]
  have "register_step False E mg w w' (Some i) hdr (ledger_of w) rc r (ledger_of w')" by simp
  then show ?thesis
  proof cases
    case (unknown j)
    with s assms(4) show ?thesis by (auto simp: gone_def)
  next
    case (bound j s0 b q s')
    have "q = a" using bound(7,8) acc assms(4) by (auto simp: registration_accepts_def)
    with bound s(1) assms(4) show ?thesis
      by (auto simp: bound_from_def grants_def offers_def got_def)
  qed (use s acc assms(4) in auto)
qed

theorem register_complete_witness:
  "\<exists>s'. mem_view (impl (snd demo_register)) demo_id = Some s' \<and> s_public_key s' = Some ''K''"
proof -
  have run: "run_state (opendbsc_manager_register demo_ext (Some demo_manager) (Some demo_id) (Some ''Ug.MQ.AQI'')
      empty_response) (snd demo_login) = ((fst (fst demo_register), snd (fst demo_register)), snd demo_register)"
    using demo_runs(2) by (simp add: demo_call_def demo_register_call_def)
  obtain s where s: "mem_view (impl (snd demo_login)) demo_id = Some s" "s_state s = ACTIVE"
    using demo_values(1) by (auto simp: status_and_session_def)
  obtain a where a: "registration_accepts demo_ext demo_manager s (Some ''Ug.MQ.AQI'') a a" "p_jwk a = Some ''K''"
    using demo_accepts [OF s(1)] by blast
  have live: "\<not> expired_between (snd demo_login) (snd demo_register) s"
    using demo_values(6) s(1) by (auto simp: session_challenge_def expired_between_def)
  have wf: "mem_wf (impl (snd demo_login))" "challenged (snd demo_login)" "\<not> starved (snd demo_login)"
    using demo_setting by simp_all
  have "demo_id \<noteq> []" by (simp add: demo_id_def)
  from register_complete [OF wf(1) demo_memory_manager wf(2,3) run s this live a(1)] a(2) show ?thesis by auto
qed

text \<open>
  C12: Completeness of refresh. With memory available, a proof for a live BOUND session that is
  signed with its key and repeats its challenge is accepted: the answer is 200, the session keeps
  its key and gets a new challenge, which the response offers.
\<close>

theorem refresh_complete:
  assumes "mem_wf (impl w)" and "memory_manager mg" and "challenged w" and "\<not> starved w"
    and run: "run_state (opendbsc_manager_refresh E (Some mg) (Some i) hdr resp) w = ((rc, r), w')"
    and s: "mem_view (impl w) i = Some s" "s_state s = BOUND" "i \<noteq> []" "\<not> expired_between w w' s"
    and acc: "refresh_accepts E s hdr a a"
  shows "rc = 0 \<and> rs_status r = 200 \<and> (\<exists>s' c. mem_view (impl w') = (mem_view (impl w))(i \<mapsto> s') \<and>
    s_state s' = BOUND \<and> s_public_key s' = s_public_key s \<and>
    s_challenge s' = Some c \<and> fresh w w' c \<and> rs_challenge r = Some (quoted c @ opt_param ''id'' (Some i)))"
proof -
  from mem_refresh_run [OF assms(1-3) run]
  have "refresh_step False E mg w w' (Some i) hdr (ledger_of w) rc r (ledger_of w')" by simp
  then show ?thesis
  proof cases
    case (unknown j)
    with s assms(4) show ?thesis by (auto simp: gone_def)
  next
    case (extended j s0 b q s')
    with s(1,2) assms(4) show ?thesis
      by (auto simp: extended_from_def grants_def offers_def got_def)
  qed (use s acc assms(4) in auto)
qed

theorem refresh_complete_witness:
  "\<exists>s c. mem_view (impl (snd demo_refresh)) demo_id = Some s \<and> s_public_key s = Some ''K'' \<and>
     fresh (snd demo_register) (snd demo_refresh) c \<and> s_challenge s = Some c"
proof -
  have run: "run_state (opendbsc_manager_refresh demo_ext (Some demo_manager) (Some demo_id) (Some ''Rg.Mg.AQI'')
      empty_response) (snd demo_register) = ((fst (fst demo_refresh), snd (fst demo_refresh)), snd demo_refresh)"
    using demo_runs(3) by (simp add: demo_call_def demo_refresh_call_def)
  obtain s where s: "mem_view (impl (snd demo_register)) demo_id = Some s" "s_state s = BOUND"
    and k: "s_public_key s = Some ''K''"
    using demo_values(2) by (auto simp: status_and_session_def)
  obtain a where a: "refresh_accepts demo_ext s (Some ''Rg.Mg.AQI'') a a"
    using demo_accepts_refresh [OF s(1)] by blast
  have live: "\<not> expired_between (snd demo_register) (snd demo_refresh) s"
    using demo_values(7) s(1) by (auto simp: session_challenge_def expired_between_def)
  have wf: "mem_wf (impl (snd demo_register))" "challenged (snd demo_register)" "\<not> starved (snd demo_register)"
    using demo_setting by simp_all
  have "demo_id \<noteq> []" by (simp add: demo_id_def)
  from refresh_complete [OF wf(1) demo_memory_manager wf(2,3) run s this live a] k show ?thesis by auto
qed

text \<open>
  C13: A closed session is dead. With memory available, after a close answered with 200 exactly the
  named session has left the store, and a refresh of it, whatever header it carries, is answered
  with 401 and changes nothing.
\<close>

theorem close_is_final:
  assumes "mem_wf (impl w)" and "memory_manager mg" and "challenged w" and "\<not> starved w" and i: "i \<noteq> []"
    and close: "run_state (opendbsc_manager_close E (Some mg) (Some i) resp) w = ((rc, r), w1)" "rs_status r = 200"
    and refresh: "run_state (opendbsc_manager_refresh E (Some mg) (Some i) hdr resp') w1 = ((rc', r'), w2)"
  shows "mem_view (impl w1) = (mem_view (impl w))(i := None) \<and> rc' = 0 \<and> rs_status r' = 401 \<and>
    mem_view (impl w2) = mem_view (impl w1)"
proof -
  from mem_close_run [OF assms(1,2) close(1)] have k: "kept w w1"
    and c: "close_step False mg w w1 (Some i) (ledger_of w) rc r (ledger_of w1)" by auto
  from c have gone: "mem_view (impl w1) = (mem_view (impl w))(i := None)"
    by cases (use close(2) assms(4) in auto)
  have "challenged w1" using assms(3) gone by (auto simp: challenged_def)
  moreover have wf1: "mem_wf (impl w1)" "\<not> starved w1" using k assms(4) by (simp_all add: kept_def starved_def)
  ultimately have "refresh_step False E mg w1 w2 (Some i) hdr (ledger_of w1) rc' r' (ledger_of w2)"
    using mem_refresh_run [OF wf1(1) assms(2) _ refresh] by simp
  then show ?thesis
    by cases (use gone i wf1(2) in \<open>auto simp: gone_def\<close>)
qed

theorem close_is_final_witness:
  "rs_status (snd (fst (run_state (opendbsc_manager_refresh demo_ext (Some demo_manager) (Some demo_id)
     (Some ''Rg.Mg.AQI'') empty_response) (snd demo_close)))) = 401"
proof -
  let ?r = "run_state (opendbsc_manager_refresh demo_ext (Some demo_manager) (Some demo_id)
     (Some ''Rg.Mg.AQI'') empty_response) (snd demo_close)"
  have close: "run_state (opendbsc_manager_close demo_ext (Some demo_manager) (Some demo_id) empty_response)
      (snd demo_refresh) = ((fst (fst demo_close), snd (fst demo_close)), snd demo_close)"
    using demo_runs(4) by (simp add: demo_call_def)
  have ok: "rs_status (snd (fst demo_close)) = 200" using demo_values(4) by (simp add: status_and_session_def)
  have refresh: "?r = ((fst (fst ?r), snd (fst ?r)), snd ?r)" by simp
  have wf: "mem_wf (impl (snd demo_refresh))" "challenged (snd demo_refresh)" "\<not> starved (snd demo_refresh)"
    using demo_setting by simp_all
  have "demo_id \<noteq> []" by (simp add: demo_id_def)
  from close_is_final [OF wf(1) demo_memory_manager wf(2,3) this close ok refresh] show ?thesis by simp
qed

section \<open>A login that runs out of memory\<close>

text \<open>
  The setters' return codes are ignored: when the copy of the challenge fails, the login still
  answers 200 and stores a session without a challenge, and a registration with any well-formed
  proof then compares with a NULL pointer.
\<close>

definition oom_start :: msys where
  "oom_start = demo_start\<lparr>mem_ok := \<lambda>n. n \<noteq> 3\<rparr>"

lemma login_without_challenge:
  "(let l = demo_call (Login ''alice'' None) oom_start; b = demo_call demo_register_call (snd l)
    in (fst (fst l), rs_status (snd (fst l)), session_challenge l, undef (snd l), undef (snd b))) =
   (0, 200, Some (None, False), False, True)"
  by code_simp

end
