(* ===== verification/Rfc3339.thy ===== *)
theory Rfc3339
  imports Session
begin

text \<open>
  Timestamps as RFC 3339 text: \<^verbatim>\<open>format_rfc3339_utc\<close> and \<^verbatim>\<open>parse_rfc3339_utc\<close>, which
  \<^verbatim>\<open>src/store/sqlite.c\<close> and \<^verbatim>\<open>src/store/odbc.c\<close> hold with the same text, and what they use of the C
  library: \<^verbatim>\<open>gmtime_r\<close>, \<^verbatim>\<open>timegm\<close>, and \<^verbatim>\<open>strftime\<close> and \<^verbatim>\<open>strptime\<close> with the one format. The
  theorem says that every time from 1970 to the end of the year 9999 survives the round trip.
\<close>

section \<open>Broken-down time\<close>

text \<open>A \<^verbatim>\<open>struct tm\<close> with the year and the month as they are written, \<^verbatim>\<open>tm_year + 1900\<close> and \<^verbatim>\<open>tm_mon + 1\<close>.\<close>

record tm =
  tm_year :: int
  tm_mon :: int
  tm_mday :: int
  tm_hour :: int
  tm_min :: int
  tm_sec :: int

text \<open>
  The proleptic Gregorian calendar, in years that begin on the first of March: a day is counted from
  0000-03-01, a cycle of 400 years has 146097 days, its centuries have 36524 days and the last one a
  day more, and so on down to the year.
\<close>

definition day_of_year :: "int \<Rightarrow> int \<times> int" where
  "day_of_year z =
     (let era = z div 146097; doe = z mod 146097;
          c = min (doe div 36524) 3; r = doe - c * 36524;
          q = r div 1461; r = r - q * 1461;
          y = min (r div 365) 3
      in (era * 400 + c * 100 + q * 4 + y, r - y * 365))"

definition civil_of_days :: "int \<Rightarrow> int \<times> int \<times> int" where
  "civil_of_days z =
     (let (y, doy) = day_of_year z;
          mp = (5 * doy + 2) div 153
      in (if mp < 10 then y else y + 1, if mp < 10 then mp + 3 else mp - 9,
          doy - (153 * mp + 2) div 5 + 1))"

definition days_of_civil :: "int \<Rightarrow> int \<Rightarrow> int \<Rightarrow> int" where
  "days_of_civil y m d =
     (let y = (if m \<le> 2 then y - 1 else y);
          era = y div 400; yoe = y mod 400;
          mp = (if m > 2 then m - 3 else m + 9);
          doy = (153 * mp + 2) div 5 + d - 1
      in era * 146097 + yoe * 365 + yoe div 4 - yoe div 100 + doy)"

text \<open>1970-01-01 is day 719468.\<close>

definition gmtime :: "int \<Rightarrow> tm option" where
  "gmtime t =
     (let (y, m, d) = civil_of_days (t div 86400 + 719468); s = t mod 86400
      in if y - 1900 < - (2 ^ 31) \<or> y - 1900 \<ge> 2 ^ 31 then None
         else Some \<lparr>tm_year = y, tm_mon = m, tm_mday = d,
                    tm_hour = s div 3600, tm_min = s mod 3600 div 60, tm_sec = s mod 60\<rparr>)"

definition timegm :: "tm \<Rightarrow> int" where
  "timegm tm = (days_of_civil (tm_year tm) (tm_mon tm) (tm_mday tm) - 719468) * 86400 +
     tm_hour tm * 3600 + tm_min tm * 60 + tm_sec tm"

section \<open>Text\<close>

text \<open>\<^verbatim>\<open>strftime\<close> with \<^verbatim>\<open>%Y-%m-%dT%H:%M:%SZ\<close>; \<open>None\<close> when the text and its NUL do not fit.\<close>

definition strftime :: "nat \<Rightarrow> tm \<Rightarrow> string option" where
  "strftime buf_size tm =
     (let s = print_int (tm_year tm) @ ''-'' @ two_digits (tm_mon tm) @ ''-'' @ two_digits (tm_mday tm) @
              ''T'' @ two_digits (tm_hour tm) @ '':'' @ two_digits (tm_min tm) @ '':'' @
              two_digits (tm_sec tm) @ ''Z''
      in if length s < buf_size then Some s else None)"

definition is_digit :: "char \<Rightarrow> bool" where
  "is_digit c \<longleftrightarrow> 48 \<le> (of_char c :: nat) \<and> (of_char c :: nat) \<le> 57"

definition digit_val :: "char \<Rightarrow> int" where
  "digit_val c = int (of_char c :: nat) - 48"

text \<open>
  A number of \<^verbatim>\<open>strptime\<close>: spaces, then at most \<open>n\<close> digits, stopping early when another one would
  exceed the upper bound.
\<close>

fun more_digits :: "nat \<Rightarrow> int \<Rightarrow> int \<Rightarrow> string \<Rightarrow> int \<times> string" where
  "more_digits n hi v [] = (v, [])"
| "more_digits n hi v (c # s) =
     (if n > 0 \<and> v * 10 \<le> hi \<and> is_digit c then more_digits (n - 1) hi (v * 10 + digit_val c) s
      else (v, c # s))"

definition get_number :: "nat \<Rightarrow> int \<Rightarrow> int \<Rightarrow> string \<Rightarrow> (int \<times> string) option" where
  "get_number n lo hi s =
     (case dropWhile (\<lambda>c. c = CHR '' '') s of [] \<Rightarrow> None
      | c # s \<Rightarrow>
          if \<not> is_digit c then None
          else (let (v, rest) = more_digits (n - 1) hi (digit_val c) s
                in if v < lo \<or> v > hi then None else Some (v, rest)))"

definition literal :: "char \<Rightarrow> string \<Rightarrow> string option" where
  "literal c s = (case s of [] \<Rightarrow> None | d # s \<Rightarrow> if d = c then Some s else None)"

text \<open>\<^verbatim>\<open>strptime\<close> with \<^verbatim>\<open>%Y-%m-%dT%H:%M:%S\<close>; what follows the seconds is not looked at.\<close>

definition strptime :: "string \<Rightarrow> tm option" where
  "strptime s =
     Option.bind (get_number 4 0 9999 s) (\<lambda>(y, s).
     Option.bind (literal CHR ''-'' s) (\<lambda>s.
     Option.bind (get_number 2 1 12 s) (\<lambda>(mo, s).
     Option.bind (literal CHR ''-'' s) (\<lambda>s.
     Option.bind (get_number 2 1 31 s) (\<lambda>(d, s).
     Option.bind (literal CHR ''T'' s) (\<lambda>s.
     Option.bind (get_number 2 0 23 s) (\<lambda>(h, s).
     Option.bind (literal CHR '':'' s) (\<lambda>s.
     Option.bind (get_number 2 0 59 s) (\<lambda>(mi, s).
     Option.bind (literal CHR '':'' s) (\<lambda>s.
     Option.bind (get_number 2 0 61 s) (\<lambda>(sec, s).
       Some \<lparr>tm_year = y, tm_mon = mo, tm_mday = d, tm_hour = h, tm_min = mi, tm_sec = sec\<rparr>)))))))))))"

text \<open>The two routines of the stores: the text or \<open>None\<close> for -1, the time or \<open>None\<close> for -1.\<close>

definition format_rfc3339_utc :: "int \<Rightarrow> nat \<Rightarrow> string option" where
  "format_rfc3339_utc t buf_size =
     (case gmtime t of None \<Rightarrow> None | Some tm \<Rightarrow> strftime buf_size tm)"

definition parse_rfc3339_utc :: "string \<Rightarrow> int option" where
  "parse_rfc3339_utc s =
     (case strptime s of None \<Rightarrow> None
      | Some tm \<Rightarrow> if timegm tm = -1 then None else Some (timegm tm))"

section \<open>The calendar\<close>

text \<open>The number of days before the first of March that opens the year \<open>y\<close>.\<close>

definition year_start :: "int \<Rightarrow> int" where
  "year_start y = y div 400 * 146097 + y mod 400 * 365 + y mod 400 div 4 - y mod 400 div 100"

lemma day_of_year_start:
  assumes "day_of_year z = (y, doy)"
  shows "year_start y + doy = z" and "0 \<le> doy" and "doy \<le> 365"
proof -
  define era doe where "era = z div 146097" and "doe = z mod 146097"
  define c where "c = min (doe div 36524) 3"
  define q where "q = (doe - c * 36524) div 1461"
  define r where "r = doe - c * 36524 - q * 1461"
  define k where "k = min (r div 365) 3"
  from assms [unfolded day_of_year_def Let_def, folded era_def doe_def, folded c_def, folded q_def, folded r_def, folded k_def]
  have y: "y = era * 400 + (c * 100 + q * 4 + k)" and doy: "doy = r - k * 365"
    by simp_all
  have doe: "0 \<le> doe" "doe \<le> 146096" "z = era * 146097 + doe" by (simp_all add: doe_def era_def)
  have c: "0 \<le> c" "c \<le> 3" "0 \<le> doe - c * 36524" "doe - c * 36524 \<le> 36524"
    using doe unfolding c_def by linarith+
  have q: "0 \<le> q" "q \<le> 24" "0 \<le> r" "r \<le> 1460" using c unfolding q_def r_def by linarith+
  have k: "0 \<le> k" "k \<le> 3" "0 \<le> doy" "doy \<le> 365" using q unfolding k_def doy by linarith+
  have yoe: "0 \<le> c * 100 + q * 4 + k" "c * 100 + q * 4 + k < 400" using c q k by linarith+
  then have "y div 400 = era" "y mod 400 = c * 100 + q * 4 + k" unfolding y by simp_all
  moreover have "(c * 100 + q * 4 + k) div 4 = c * 25 + q" "(c * 100 + q * 4 + k) div 100 = c"
    using c q k by linarith+
  ultimately show "year_start y + doy = z" "0 \<le> doy" "doy \<le> 365"
    using doe k unfolding year_start_def doy r_def by simp_all
qed

lemma month_of_day:
  fixes doy :: int
  assumes "0 \<le> doy" and "doy \<le> 365"
  shows "0 \<le> (5 * doy + 2) div 153" and "(5 * doy + 2) div 153 \<le> 11"
    and "1 \<le> doy - (153 * ((5 * doy + 2) div 153) + 2) div 5 + 1"
    and "doy - (153 * ((5 * doy + 2) div 153) + 2) div 5 + 1 \<le> 31"
    and "doy < 306 \<longleftrightarrow> (5 * doy + 2) div 153 < 10"
  using assms by linarith+

lemma civil_days:
  assumes "civil_of_days z = (y, m, d)"
  shows "days_of_civil y m d = z" and "1 \<le> m" and "m \<le> 12" and "1 \<le> d" and "d \<le> 31"
    and "719468 \<le> z \<Longrightarrow> z < 3652365 \<Longrightarrow> 1970 \<le> y \<and> y \<le> 9999"
proof -
  obtain y' doy where yd: "day_of_year z = (y', doy)" by fastforce
  define mp where "mp = (5 * doy + 2) div 153"
  note start = day_of_year_start [OF yd]
  note mon = month_of_day [OF start(2,3), folded mp_def]
  from assms yd have y: "y = (if mp < 10 then y' else y' + 1)" and m: "m = (if mp < 10 then mp + 3 else mp - 9)"
    and d: "d = doy - (153 * mp + 2) div 5 + 1"
    by (simp_all add: civil_of_days_def mp_def Let_def split: if_splits)
  show "1 \<le> m" "m \<le> 12" "1 \<le> d" "d \<le> 31" using mon unfolding m d by auto
  have "(if m \<le> 2 then y - 1 else y) = y'" "(if m > 2 then m - 3 else m + 9) = mp"
    using mon(1,2) unfolding y m by auto
  then show "days_of_civil y m d = z"
    using start(1) unfolding days_of_civil_def year_start_def d by (simp add: Let_def)
  assume z: "719468 \<le> z" "z < 3652365"
  have yoe: "0 \<le> y' mod 400" "y' mod 400 < 400" "y' = y' div 400 * 400 + y' mod 400" by simp_all
  have "y' \<le> 9999" "1969 \<le> y'" using start z yoe unfolding year_start_def by linarith+
  moreover have "y' = 9999 \<Longrightarrow> doy < 306" "y' = 1969 \<Longrightarrow> 306 \<le> doy"
    using start(1) z by (auto simp: year_start_def)
  ultimately have "y' \<le> 9999 \<and> (y' = 9999 \<longrightarrow> doy < 306)" "1969 \<le> y' \<and> (y' = 1969 \<longrightarrow> 306 \<le> doy)" by auto
  then show "1970 \<le> y \<and> y \<le> 9999" using mon(5) unfolding y by auto
qed

section \<open>The text\<close>

lemma digit_char_simps [simp]:
  "n < 10 \<Longrightarrow> is_digit (digit_char n)" "n < 10 \<Longrightarrow> digit_val (digit_char n) = int n"
  "n < 10 \<Longrightarrow> digit_char n \<noteq> CHR '' ''"
  by (auto simp: is_digit_def digit_val_def digit_char_def
      dest!: arg_cong [where f = "of_char :: char \<Rightarrow> nat"])

lemma get_number_two:
  assumes "lo \<le> n" and "n \<le> hi" and "0 \<le> n" and "n < 100"
  shows "get_number 2 lo hi (two_digits n @ s) = Some (n, s)"
proof -
  have "nat n div 10 < 10" "nat n mod 10 < 10" using assms by auto
  moreover have "int (nat n div 10) * 10 \<le> hi" "int (nat n div 10) * 10 + int (nat n mod 10) = n"
    using assms by (simp_all add: zdiv_int zmod_int)
  ultimately show ?thesis
    using assms by (cases s) (simp_all add: get_number_def two_digits_def)
qed

lemma get_number_year:
  assumes "1000 \<le> y" and "y \<le> 9999"
  shows "get_number 4 0 9999 (print_int y @ CHR ''-'' # s) = Some (y, CHR ''-'' # s)"
    and "length (print_int y) = 4"
proof -
  define n where "n = nat y"
  have n: "1000 \<le> n" "n \<le> 9999" "y = int n" using assms by (simp_all add: n_def)
  have big: "\<not> n < 10" "\<not> n div 10 < 10" "\<not> n div 100 < 10" using n by linarith+
  have ds: "n div 1000 < 10" "n div 100 mod 10 < 10" "n div 10 mod 10 < 10" "n mod 10 < 10" using n by auto
  have digits: "print_int y = [digit_char (n div 1000), digit_char (n div 100 mod 10),
      digit_char (n div 10 mod 10), digit_char (n mod 10)]"
    using big ds by (simp add: print_int_def n(3) print_nat.simps [of n] print_nat.simps [of "n div 10"]
        print_nat.simps [of "n div 100"] print_nat.simps [of "n div 1000"] div_mult2_eq [symmetric])
  have p: "n div 1000 * 10 + n div 100 mod 10 = n div 100" "n div 100 * 10 + n div 10 mod 10 = n div 10"
    using div_mult_mod_eq [of "n div 100" 10] div_mult_mod_eq [of "n div 10" 10]
    by (simp_all add: div_mult2_eq [symmetric])
  have pref: "int (n div 1000) * 10 + int (n div 100 mod 10) = int (n div 100)"
    "int (n div 100) * 10 + int (n div 10 mod 10) = int (n div 10)" "int (n div 10) * 10 + int (n mod 10) = y"
    using p [THEN arg_cong, of int] div_mult_mod_eq [of n 10, THEN arg_cong, of int]
    by (simp_all only: of_nat_add of_nat_mult of_nat_numeral n(3))
  have "n div 1000 * 10 \<le> 9999" "n div 100 * 10 \<le> 9999" "n div 10 * 10 \<le> 9999" using n(2) by linarith+
  then have "int (n div 1000) * 10 \<le> 9999" "int (n div 100) * 10 \<le> 9999" "int (n div 10) * 10 \<le> 9999"
    by linarith+
  then show "get_number 4 0 9999 (print_int y @ CHR ''-'' # s) = Some (y, CHR ''-'' # s)"
    using ds n pref unfolding digits by (simp add: get_number_def)
  show "length (print_int y) = 4" unfolding digits by simp
qed

lemma strptime_strftime:
  assumes "1000 \<le> tm_year tm" "tm_year tm \<le> 9999" "1 \<le> tm_mon tm" "tm_mon tm \<le> 12"
    "1 \<le> tm_mday tm" "tm_mday tm \<le> 31" "0 \<le> tm_hour tm" "tm_hour tm \<le> 23" "0 \<le> tm_min tm" "tm_min tm \<le> 59"
    "0 \<le> tm_sec tm" "tm_sec tm \<le> 59" and "20 < n"
  obtains s where "strftime n tm = Some s" "strptime s = Some tm"
proof -
  let ?s = "print_int (tm_year tm) @ ''-'' @ two_digits (tm_mon tm) @ ''-'' @ two_digits (tm_mday tm) @
              ''T'' @ two_digits (tm_hour tm) @ '':'' @ two_digits (tm_min tm) @ '':'' @
              two_digits (tm_sec tm) @ ''Z''"
  have "strftime n tm = Some ?s"
    using assms by (simp add: strftime_def get_number_year two_digits_def)
  moreover have "strptime ?s = Some tm"
    using assms by (simp add: strptime_def get_number_year get_number_two literal_def)
  ultimately show ?thesis by (rule that)
qed

text \<open>The first second after the year 9999.\<close>

definition rfc3339_end :: int where
  "rfc3339_end = 253402300800"

lemma gmtime_in_range:
  assumes "0 \<le> t" and "t < rfc3339_end"
  obtains tm where "gmtime t = Some tm" "timegm tm = t"
    "1000 \<le> tm_year tm" "tm_year tm \<le> 9999" "1 \<le> tm_mon tm" "tm_mon tm \<le> 12" "1 \<le> tm_mday tm" "tm_mday tm \<le> 31"
    "0 \<le> tm_hour tm" "tm_hour tm \<le> 23" "0 \<le> tm_min tm" "tm_min tm \<le> 59" "0 \<le> tm_sec tm" "tm_sec tm \<le> 59"
proof -
  obtain y m d where c: "civil_of_days (t div 86400 + 719468) = (y, m, d)" by (metis prod_cases3)
  note civ = civil_days [OF c]
  have "719468 \<le> t div 86400 + 719468" "t div 86400 + 719468 < 3652365"
    using assms unfolding rfc3339_end_def by linarith+
  with civ(6) have y: "1970 \<le> y" "y \<le> 9999" by auto
  define s where "s = t mod 86400"
  have s: "0 \<le> s" "s < 86400" "t = t div 86400 * 86400 + s" by (simp_all add: s_def)
  have "s mod 60 = s mod 3600 mod 60" by (simp add: mod_mod_cancel)
  then have hms: "s div 3600 * 3600 + s mod 3600 div 60 * 60 + s mod 60 = s"
    using div_mult_mod_eq [of s 3600] div_mult_mod_eq [of "s mod 3600" 60] by linarith
  have bounds: "1000 \<le> y" "y \<le> 9999" using y by simp_all
  have hms_bounds: "0 \<le> s div 3600" "s div 3600 \<le> 23" "0 \<le> s mod 3600 div 60" "s mod 3600 div 60 \<le> 59"
    "0 \<le> s mod 60" "s mod 60 \<le> 59" using s by linarith+
  show ?thesis
  proof (rule that)
    show "gmtime t = Some \<lparr>tm_year = y, tm_mon = m, tm_mday = d,
        tm_hour = s div 3600, tm_min = s mod 3600 div 60, tm_sec = s mod 60\<rparr>"
      using c y by (simp add: gmtime_def s_def Let_def)
    show "timegm \<lparr>tm_year = y, tm_mon = m, tm_mday = d,
        tm_hour = s div 3600, tm_min = s mod 3600 div 60, tm_sec = s mod 60\<rparr> = t"
      using civ(1) hms s(3) by (simp add: timegm_def)
  qed (simp_all only: tm.simps civ(2-5) hms_bounds bounds)
qed

lemma time_survives:
  assumes "0 \<le> t" and "t < rfc3339_end"
  shows "\<exists>s. format_rfc3339_utc t 32 = Some s \<and> parse_rfc3339_utc s = Some t"
proof -
  obtain tm where tm: "gmtime t = Some tm" "timegm tm = t"
    and r: "1000 \<le> tm_year tm" "tm_year tm \<le> 9999" "1 \<le> tm_mon tm" "tm_mon tm \<le> 12" "1 \<le> tm_mday tm"
    "tm_mday tm \<le> 31" "0 \<le> tm_hour tm" "tm_hour tm \<le> 23" "0 \<le> tm_min tm" "tm_min tm \<le> 59"
    "0 \<le> tm_sec tm" "tm_sec tm \<le> 59" using gmtime_in_range [OF assms] .
  obtain s where "strftime 32 tm = Some s" "strptime s = Some tm" using strptime_strftime [OF r, of 32] by auto
  then show ?thesis
    using tm assms(1) by (simp add: format_rfc3339_utc_def parse_rfc3339_utc_def)
qed

text \<open>
  C26: Timestamps survive the database. Every time from 1970 to the end of the year 9999 is formatted
  into the 32 bytes the stores reserve, and reading the text back gives the same time.
\<close>

theorem rfc3339_roundtrip:
  assumes "0 \<le> t" and "t < rfc3339_end"
  shows "\<exists>s. format_rfc3339_utc t 32 = Some s \<and> parse_rfc3339_utc s = Some t"
  by (rule time_survives [OF assms])

theorem rfc3339_roundtrip_witness:
  "\<exists>s. format_rfc3339_utc 951782400 32 = Some s \<and> parse_rfc3339_utc s = Some 951782400"
  by (rule rfc3339_roundtrip) (simp_all add: rfc3339_end_def)

text \<open>The last second before 1970 is written like any other, but -1 is also what \<^verbatim>\<open>timegm\<close> reports as an error.\<close>

lemma rfc3339_minus_one:
  "format_rfc3339_utc (-1) 32 = Some ''1969-12-31T23:59:59Z''"
  "parse_rfc3339_utc ''1969-12-31T23:59:59Z'' = None"
  by code_simp+

end
