(* ===== verification/Sql_Rows.thy ===== *)
theory Sql_Rows
  imports Rfc3339 Store
begin

text \<open>
  What the SQLite store and the ODBC store share: a session as the eight text columns \<^verbatim>\<open>id\<close>,
  \<^verbatim>\<open>user_id\<close>, \<^verbatim>\<open>state\<close>, \<^verbatim>\<open>public_key\<close>, \<^verbatim>\<open>algorithm\<close>, \<^verbatim>\<open>challenge\<close>, \<^verbatim>\<open>expires_at\<close> and
  \<^verbatim>\<open>created_at\<close> of its row, and the code that fills a session from them, which both hold with the same
  text. The table a database engine keeps is a map from identifiers to rows; the effect of a statement
  on it is what the engine documents.
\<close>

section \<open>Rows to sessions\<close>

type_synonym columns = "string option list"

text \<open>A failure releases what the session holds.\<close>

definition free_failed :: "OpenDBSC_Session option \<Rightarrow> ('a world_scheme, int \<times> OpenDBSC_Session) state" where
  "free_failed p = ret (-1, the (opendbsc_session_free p))"

definition fill_times :: "string option \<Rightarrow> string \<Rightarrow> OpenDBSC_Session option \<Rightarrow>
    ('a world_scheme, int \<times> OpenDBSC_Session) state" where
  "fill_times expires_at created_at p =
     (case (case expires_at of None \<Rightarrow> Some p
            | Some e \<Rightarrow> map_option (opendbsc_session_set_expires_at p) (parse_rfc3339_utc e)) of
        None \<Rightarrow> free_failed p
      | Some p \<Rightarrow>
          (case parse_rfc3339_utc created_at of None \<Rightarrow> free_failed p
           | Some created \<Rightarrow> ret (0, the (opendbsc_session_set_created_at p created))))"

definition session_from_columns :: "columns \<Rightarrow> OpenDBSC_Session \<Rightarrow>
    ('a world_scheme, int \<times> OpenDBSC_Session) state" where
  "session_from_columns cols session =
     (case (cols ! 0, cols ! 1, cols ! 2, cols ! 7) of
        (Some id', Some user_id, Some st, Some created_at) \<Rightarrow> do {
          let p = opendbsc_session_init (Some session);
          (rc, p) \<leftarrow> opendbsc_session_set_id p (Some id');
          if rc \<noteq> 0 then free_failed p else do {
          (rc, p) \<leftarrow> opendbsc_session_set_user_id p (Some user_id);
          if rc \<noteq> 0 then free_failed p else do {
          let (rc, p) = opendbsc_session_set_state_str p (Some st);
          if rc \<noteq> 0 then free_failed p else do {
          (rc, p) \<leftarrow> opendbsc_session_set_public_key p (cols ! 3);
          if rc \<noteq> 0 then free_failed p else do {
          (rc, p) \<leftarrow> opendbsc_session_set_algorithm p (cols ! 4);
          if rc \<noteq> 0 then free_failed p else do {
          (rc, p) \<leftarrow> opendbsc_session_set_challenge p (cols ! 5);
          if rc \<noteq> 0 then free_failed p
          else fill_times (cols ! 6) created_at p } } } } } }
      | _ \<Rightarrow> ret (-1, session))"

section \<open>The session a row stands for\<close>

definition state_of_text :: "string \<Rightarrow> OpenDBSC_SessionState option" where
  "state_of_text t =
     (if t = OPENDBSC_STATE_ACTIVE_STR then Some ACTIVE
      else if t = OPENDBSC_STATE_BOUND_STR then Some BOUND else None)"

definition session_of_row :: "columns \<Rightarrow> OpenDBSC_Session option" where
  "session_of_row cols = do {
     i \<leftarrow> cols ! 0;
     u \<leftarrow> cols ! 1;
     st \<leftarrow> Option.bind (cols ! 2) state_of_text;
     expires \<leftarrow> (case cols ! 6 of None \<Rightarrow> Some 0 | Some e \<Rightarrow> parse_rfc3339_utc e);
     created \<leftarrow> Option.bind (cols ! 7) parse_rfc3339_utc;
     Some \<lparr>s_id = Some i, s_user_id = Some u, s_state = st, s_public_key = cols ! 3,
           s_algorithm = cols ! 4, s_challenge = cols ! 5, s_expires_at = expires,
           s_has_expires = (expires \<noteq> 0), s_created_at = created\<rparr> }"

definition row_of_session :: "OpenDBSC_Session \<Rightarrow> columns" where
  "row_of_session s =
     [s_id s, s_user_id s, opendbsc_session_state_str (Some s), s_public_key s, s_algorithm s, s_challenge s,
      if s_has_expires s then format_rfc3339_utc (s_expires_at s) 32 else None,
      format_rfc3339_utc (s_created_at s) 32]"

text \<open>
  The sessions a row can hold: a user, times between 1970 and the year 9999, and an expiry only where
  the flag says so.
\<close>

definition row_storable :: "OpenDBSC_Session \<Rightarrow> bool" where
  "row_storable s \<longleftrightarrow>
     (if s_has_expires s then 0 < s_expires_at s \<and> s_expires_at s < rfc3339_end else s_expires_at s = 0) \<and>
     0 \<le> s_created_at s \<and> s_created_at s < rfc3339_end"

lemma state_text_roundtrip [simp]:
  "Option.bind (opendbsc_session_state_str (Some s)) state_of_text = Some (s_state s)"
  by (cases "s_state s") (simp_all add: opendbsc_session_state_str_def state_of_text_def
      OPENDBSC_STATE_ACTIVE_STR_def OPENDBSC_STATE_BOUND_STR_def)

lemma time_text_roundtrip:
  "0 \<le> t \<Longrightarrow> t < rfc3339_end \<Longrightarrow>
   format_rfc3339_utc t 32 \<noteq> None \<and> Option.bind (format_rfc3339_utc t 32) parse_rfc3339_utc = Some t"
  using time_survives [of t] by auto

lemma row_roundtrip:
  assumes "row_storable s" and "s_id s \<noteq> None" and "s_user_id s \<noteq> None"
  shows "session_of_row (row_of_session s) = Some s"
proof (cases "s_has_expires s")
  case True
  then have e: "0 < s_expires_at s" "s_expires_at s < rfc3339_end" using assms(1) by (auto simp: row_storable_def)
  then obtain x where x: "format_rfc3339_utc (s_expires_at s) 32 = Some x" "parse_rfc3339_utc x = Some (s_expires_at s)"
    using time_survives [of "s_expires_at s"] by auto
  from assms(1) have c: "Option.bind (format_rfc3339_utc (s_created_at s) 32) parse_rfc3339_utc = Some (s_created_at s)"
    using time_text_roundtrip [of "s_created_at s"] by (auto simp: row_storable_def)
  then show ?thesis
    using True x e assms(2,3) by (simp add: session_of_row_def row_of_session_def) auto
next
  case False
  from assms(1) have c: "Option.bind (format_rfc3339_utc (s_created_at s) 32) parse_rfc3339_utc = Some (s_created_at s)"
    using time_text_roundtrip [of "s_created_at s"] by (auto simp: row_storable_def)
  then show ?thesis
    using False assms by (simp add: session_of_row_def row_of_session_def row_storable_def) auto
qed

lemma session_of_row_keys:
  "session_of_row r = Some s \<Longrightarrow> s_id s = r ! 0 \<and> s_user_id s = r ! 1"
  by (auto simp: session_of_row_def split: Option.bind_splits)

text \<open>The code computes it, or reports -1.\<close>

lemma session_of_row_cong:
  "(\<And>n. n < 8 \<Longrightarrow> c n = r ! n) \<Longrightarrow> session_of_row (map c [0..<8]) = session_of_row r"
  by (simp add: session_of_row_def numeral_2_eq_2)

text \<open>
  The columns of a row as the library delivers them: exactly, when it is \<open>ample\<close>; a library that runs
  out of memory while it converts a column may deliver NULL in its place.
\<close>

definition delivered :: "bool \<Rightarrow> columns \<Rightarrow> columns \<Rightarrow> bool" where
  "delivered ample r c \<longleftrightarrow> (\<forall>n < 8. c ! n = r ! n \<or> \<not> ample \<and> c ! n = None)"

definition reads_as :: "bool \<Rightarrow> columns \<Rightarrow> OpenDBSC_Session \<Rightarrow> bool" where
  "reads_as ample r s \<longleftrightarrow> (\<exists>c. delivered ample r c \<and> session_of_row c = Some s)"

lemma delivered_nth: "delivered ample r c \<Longrightarrow> n < 8 \<Longrightarrow> c ! n = r ! n \<or> c ! n = None"
  by (auto simp: delivered_def)

lemma delivered_exact: "delivered True r c \<Longrightarrow> session_of_row c = session_of_row r"
  by (simp add: delivered_def session_of_row_def numeral_2_eq_2)

lemma reads_as_exact [simp]: "reads_as True r s \<longleftrightarrow> session_of_row r = Some s"
proof
  assume "session_of_row r = Some s"
  then show "reads_as True r s" unfolding reads_as_def by (intro exI [of _ r]) (simp add: delivered_def)
qed (auto simp: reads_as_def delivered_exact)

lemma reads_as_keys:
  assumes "reads_as ample r s"
  shows "s_id s = r ! 0 \<and> s_id s \<noteq> None \<and> s_user_id s = r ! 1"
proof -
  from assms obtain c where c: "delivered ample r c" "session_of_row c = Some s" by (auto simp: reads_as_def)
  from c(2) have "c ! 0 \<noteq> None" "c ! 1 \<noteq> None" by (auto simp: session_of_row_def bind_eq_Some_conv)
  moreover have "c ! 0 = r ! 0 \<or> c ! 0 = None" "c ! 1 = r ! 1 \<or> c ! 1 = None"
    using delivered_nth [OF c(1), of 0] delivered_nth [OF c(1), of 1] by simp_all
  ultimately show ?thesis using session_of_row_keys [OF c(2)] by auto
qed

text \<open>An expiry that was read is the one of the row.\<close>

lemma reads_as_expiry:
  assumes "reads_as ample r s" and "s_has_expires s" and "session_of_row r = Some s0"
  shows "s_has_expires s0 \<and> s_expires_at s0 = s_expires_at s"
proof -
  from assms(1) obtain c where c: "delivered ample r c" "session_of_row c = Some s" by (auto simp: reads_as_def)
  from c(2) assms(2) have "c ! 6 \<noteq> None"
    by (auto simp: session_of_row_def bind_eq_Some_conv split: option.splits)
  moreover have "c ! 6 = r ! 6 \<or> c ! 6 = None" by (rule delivered_nth [OF c(1)]) simp
  ultimately show ?thesis
    using c(2) assms(2,3) by (auto simp: session_of_row_def bind_eq_Some_conv)
qed

lemma framed_free_failed: "(\<And>s. Q (-1, s)) \<Longrightarrow> framed (free_failed p) Q"
  by (simp add: free_failed_def framed_return)

lemma framed_setter_step:
  assumes "framed m (setter_result s s' v)" and "framed (f (0, Some s')) Q" and "framed (f (-1, Some s)) Q"
  shows "framed (State_Monad.bind m f) Q"
  by (rule framed_bind [OF assms(1)]) (use assms(2,3) in \<open>auto simp: setter_result_def\<close>)

lemma framed_fill_times:
  "framed (fill_times e c (Some s)) (\<lambda>(rc, p). rc = -1 \<or> rc = 0 \<and>
     (\<exists>v t. (case e of None \<Rightarrow> Some None | Some e \<Rightarrow> map_option Some (parse_rfc3339_utc e)) = Some v \<and>
        parse_rfc3339_utc c = Some t \<and>
        p = (case v of None \<Rightarrow> s | Some v \<Rightarrow> s\<lparr>s_expires_at := v, s_has_expires := (v \<noteq> 0)\<rparr>)
              \<lparr>s_created_at := t\<rparr>))"
  unfolding fill_times_def
  by (auto split: option.split intro!: framed_return framed_free_failed
      simp: opendbsc_session_set_expires_at_def opendbsc_session_set_created_at_def)

lemma set_state_text:
  "opendbsc_session_set_state_str (Some s) (Some t) =
     (case state_of_text t of None \<Rightarrow> (-1, Some s) | Some a \<Rightarrow> (0, Some (s\<lparr>s_state := a\<rparr>)))"
  by (simp add: opendbsc_session_set_state_str_def state_of_text_def)

lemma framed_session_from_columns:
  "framed (session_from_columns cols s0) (\<lambda>(rc, s). rc = -1 \<or> rc = 0 \<and> session_of_row cols = Some s)"
    (is "framed _ ?Q")
proof (cases "cols ! 0 \<noteq> None \<and> cols ! 1 \<noteq> None \<and> cols ! 2 \<noteq> None \<and> cols ! 7 \<noteq> None")
  case False
  then show ?thesis
    unfolding session_from_columns_def by (auto split: option.split intro!: framed_return)
next
  case True
  then obtain i u st c where cols: "cols ! 0 = Some i" "cols ! 1 = Some u" "cols ! 2 = Some st" "cols ! 7 = Some c" by auto
  have stop: "framed (if (-1::int) \<noteq> 0 then free_failed p else m) ?Q" for p and m
    by (simp add: framed_free_failed)
  have tail: "framed (fill_times (cols ! 6) c (Some (session_defaults\<lparr>s_id := Some i, s_user_id := Some u, s_state := a,
      s_public_key := cols ! 3, s_algorithm := cols ! 4, s_challenge := cols ! 5\<rparr>))) ?Q"
    if "state_of_text st = Some a" for a
    by (rule framed_weaken [OF framed_fill_times], cases "cols ! 6"; clarsimp simp: cols)
       (simp_all add: session_of_row_def session_defaults_def cols cols(2) [unfolded One_nat_def] that)
  show ?thesis
    unfolding session_from_columns_def cols prod.case option.case Let_def session_init_Some
    apply (rule framed_setter_step [OF framed_session_setters(1)], simp_all only: prod.case simp_thms if_False stop)
    apply (rule framed_setter_step [OF framed_session_setters(2)], simp_all only: prod.case simp_thms if_False stop)
    apply (cases "state_of_text st"; simp only: set_state_text option.case prod.case simp_thms if_False stop)
    apply (rule framed_setter_step [OF framed_session_setters(3)], simp_all only: prod.case simp_thms if_False stop)
    apply (rule framed_setter_step [OF framed_session_setters(4)], simp_all only: prod.case simp_thms if_False stop)
    apply (rule framed_setter_step [OF framed_session_setters(5)], simp_all only: prod.case simp_thms if_False stop)
    apply (rule tail, assumption)
    done
qed

lemma returns_session_from_columns:
  assumes "session_of_row cols = Some s"
  shows "returns (session_from_columns cols s0) (0, s)"
proof -
  from assms obtain i u st a v c t where cols: "cols ! 0 = Some i" "cols ! 1 = Some u" "cols ! 2 = Some st"
      "cols ! 7 = Some c" and a: "state_of_text st = Some a" "parse_rfc3339_utc c = Some t"
    and v: "(case cols ! 6 of None \<Rightarrow> Some 0 | Some e \<Rightarrow> parse_rfc3339_utc e) = Some v"
    and s: "s = \<lparr>s_id = Some i, s_user_id = Some u, s_state = a, s_public_key = cols ! 3,
           s_algorithm = cols ! 4, s_challenge = cols ! 5, s_expires_at = v,
           s_has_expires = (v \<noteq> 0), s_created_at = t\<rparr>"
    by (auto simp: session_of_row_def bind_eq_Some_conv)
  have tail: "returns (fill_times (cols ! 6) c (Some (session_defaults\<lparr>s_id := Some i, s_user_id := Some u, s_state := a,
      s_public_key := cols ! 3, s_algorithm := cols ! 4, s_challenge := cols ! 5\<rparr>))) (0, s)"
    using v a unfolding fill_times_def s
    by (auto split: option.splits intro!: returns_returnI
        simp: opendbsc_session_set_expires_at_def opendbsc_session_set_created_at_def session_defaults_def)
  show ?thesis
    unfolding session_from_columns_def cols prod.case option.case Let_def session_init_Some
    apply (rule returns_bind [OF returns_session_setters(1)], simp only: prod.case simp_thms if_False)
    apply (rule returns_bind [OF returns_session_setters(2)], simp only: prod.case simp_thms if_False)
    apply (simp only: set_state_text a option.case prod.case simp_thms if_False)
    apply (rule returns_bind [OF returns_session_setters(3)], simp only: prod.case simp_thms if_False)
    apply (rule returns_bind [OF returns_session_setters(4)], simp only: prod.case simp_thms if_False)
    apply (rule returns_bind [OF returns_session_setters(5)], simp only: prod.case simp_thms if_False)
    apply (rule tail)
    done
qed

section \<open>Tables\<close>

text \<open>A table: the row of every identifier it holds.\<close>

type_synonym table = "string \<Rightarrow> columns option"

definition table_ok :: "table \<Rightarrow> bool" where
  "table_ok T \<longleftrightarrow> (\<forall>i r. T i = Some r \<longrightarrow> r ! 0 = Some i)"

definition row_view :: "table \<Rightarrow> string \<Rightarrow> OpenDBSC_Session option" where
  "row_view T i = Option.bind (T i) session_of_row"

text \<open>
  The statements of the stores. \<open>effect\<close> is the table after a statement with the parameters
  \<open>p\<close> and the number of rows it changed, or \<open>None\<close> when it violates the primary key or a NOT NULL
  constraint; \<open>answers\<close> are the rows a query delivers, in some order. A parameter that was not bound
  is NULL, and a comparison with NULL matches no row.
\<close>

datatype sql_statement = Insert | Update | Delete_By_Id | Delete_By_User | Select_By_Id | Select_By_User

type_synonym params = "nat \<Rightarrow> string option"

definition insert_effect :: "params \<Rightarrow> table \<Rightarrow> (table \<times> nat) option" where
  "insert_effect p T =
     (case p 1 of None \<Rightarrow> None
      | Some i \<Rightarrow>
          if T i \<noteq> None \<or> p 2 = None \<or> p 3 = None \<or> p 8 = None then None
          else Some (T(i \<mapsto> [p 1, p 2, p 3, p 4, p 5, p 6, p 7, p 8]), 1))"

definition update_effect :: "params \<Rightarrow> table \<Rightarrow> (table \<times> nat) option" where
  "update_effect p T =
     (case p 7 of None \<Rightarrow> Some (T, 0)
      | Some i \<Rightarrow>
          (case T i of None \<Rightarrow> Some (T, 0)
           | Some r \<Rightarrow>
               if p 1 = None \<or> p 2 = None then None
               else Some (T(i \<mapsto> [r ! 0, p 1, p 2, p 3, p 4, p 5, p 6, r ! 7]), 1)))"

definition effect :: "sql_statement \<Rightarrow> params \<Rightarrow> table \<Rightarrow> (table \<times> nat) option" where
  "effect st p T =
     (case st of
        Insert \<Rightarrow> insert_effect p T
      | Update \<Rightarrow> update_effect p T
      | Delete_By_Id \<Rightarrow>
          (case p 1 of None \<Rightarrow> Some (T, 0)
           | Some i \<Rightarrow> Some (T(i := None), if T i = None then 0 else 1))
      | Delete_By_User \<Rightarrow>
          Some (\<lambda>i. case T i of None \<Rightarrow> None | Some r \<Rightarrow> if p 1 \<noteq> None \<and> r ! 1 = p 1 then None else Some r,
                card {i. \<exists>r. T i = Some r \<and> p 1 \<noteq> None \<and> r ! 1 = p 1})
      | _ \<Rightarrow> Some (T, 0))"

definition answers :: "sql_statement \<Rightarrow> params \<Rightarrow> table \<Rightarrow> columns list \<Rightarrow> bool" where
  "answers st p T rows \<longleftrightarrow> (\<exists>is. distinct is \<and> map Some rows = map T is \<and>
     set is = {i. \<exists>r. T i = Some r \<and>
       (case st of Select_By_Id \<Rightarrow> p 1 = Some i | Select_By_User \<Rightarrow> p 1 \<noteq> None \<and> r ! 1 = p 1 | _ \<Rightarrow> False)})"

text \<open>What the statements do to the sessions of a table.\<close>

lemma row_view_id: "table_ok T \<Longrightarrow> row_view T i = Some s \<Longrightarrow> s_id s = Some i"
  by (auto simp: table_ok_def row_view_def bind_eq_Some_conv dest: session_of_row_keys)

lemma row_view_upd: "row_view (T(i \<mapsto> r)) = (row_view T)(i := session_of_row r)"
  and row_view_del: "row_view (T(i := None)) = (row_view T)(i := None)"
  by (auto simp: row_view_def fun_eq_iff)

lemma table_ok_upd: "table_ok T \<Longrightarrow> r ! 0 = Some i \<Longrightarrow> table_ok (T(i \<mapsto> r))"
  and table_ok_del: "table_ok T \<Longrightarrow> table_ok (T(i := None))"
  by (auto simp: table_ok_def)

definition insert_params :: "OpenDBSC_Session \<Rightarrow> params" where
  "insert_params s n = (if 1 \<le> n \<and> n \<le> 8 then row_of_session s ! (n - 1) else None)"

definition update_params :: "OpenDBSC_Session \<Rightarrow> params" where
  "update_params s n = (if 1 \<le> n \<and> n \<le> 6 then row_of_session s ! n else if n = 7 then s_id s else None)"

lemma insert_session:
  assumes "table_ok T" and "s_id s = Some i" and "row_storable s"
    and "effect Insert (insert_params s) T = Some (T', n)"
  shows "table_ok T' \<and> row_view T' = (row_view T)(i \<mapsto> s)"
proof -
  have T': "T' = T(i \<mapsto> row_of_session s)" and u: "s_user_id s \<noteq> None"
    using assms(2,4)
    by (auto simp: effect_def insert_effect_def insert_params_def row_of_session_def split: if_splits)
  have "session_of_row (row_of_session s) = Some s"
    using row_roundtrip [OF assms(3)] assms(2) u by simp
  moreover have "row_of_session s ! 0 = Some i" using assms(2) by (simp add: row_of_session_def)
  ultimately show ?thesis using assms(1) unfolding T' by (simp add: row_view_upd table_ok_upd)
qed

text \<open>An update leaves the time of creation alone.\<close>

lemma update_session:
  assumes "table_ok T" and "s_id s = Some i" and "row_storable s" and "row_view T i = Some s0"
    and "effect Update (update_params s) T = Some (T', n)"
  shows "table_ok T' \<and> row_view T' = (row_view T)(i \<mapsto> s\<lparr>s_created_at := s_created_at s0\<rparr>) \<and> n = 1"
proof -
  from assms(4) obtain r where r: "T i = Some r" "session_of_row r = Some s0"
    by (auto simp: row_view_def bind_eq_Some_conv)
  define r' where "r' = [r ! 0, s_user_id s, opendbsc_session_state_str (Some s), s_public_key s,
    s_algorithm s, s_challenge s, if s_has_expires s then format_rfc3339_utc (s_expires_at s) 32 else None, r ! 7]"
  have T': "T' = T(i \<mapsto> r')" and u: "s_user_id s \<noteq> None" and n: "n = 1"
    using assms(2,5) r
    by (auto simp: effect_def update_effect_def update_params_def row_of_session_def r'_def split: if_splits)
  have r0: "r ! 0 = Some i" using assms(1) r(1) by (simp add: table_ok_def)
  have c: "Option.bind (r ! 7) parse_rfc3339_utc = Some (s_created_at s0)"
    using r(2) by (auto simp: session_of_row_def bind_eq_Some_conv)
  have created: "session_of_row r' = map_option (\<lambda>x. x\<lparr>s_created_at := s_created_at s0\<rparr>) (session_of_row (row_of_session s))"
    using r0 c assms(2) time_text_roundtrip [of "s_created_at s"] assms(3)
    by (auto simp: session_of_row_def r'_def row_of_session_def row_storable_def split: Option.bind_splits option.splits)
  have "session_of_row r' = Some (s\<lparr>s_created_at := s_created_at s0\<rparr>)"
    unfolding created using row_roundtrip [OF assms(3)] assms(2) u by simp
  moreover have "r' ! 0 = Some i" by (simp add: r'_def r0)
  ultimately show ?thesis using assms(1) n unfolding T' by (simp add: row_view_upd table_ok_upd)
qed

lemma delete_session:
  assumes "table_ok T" and "p 1 = Some i" and "effect Delete_By_Id p T = Some (T', n)"
  shows "table_ok T' \<and> row_view T' = (row_view T)(i := None)"
  using assms by (auto simp: effect_def row_view_del table_ok_del)

lemma select_session:
  assumes "p 1 = Some i" and "answers Select_By_Id p T (r # rs)"
  shows "T i = Some r" and "row_view T i = session_of_row r"
proof -
  from assms(2) obtain js where js: "map Some (r # rs) = map T js"
      "set js = {k. \<exists>r. T k = Some r \<and> p 1 = Some k}"
    unfolding answers_def sql_statement.case by blast
  then obtain j where "T j = Some r" "j \<in> set js" by (cases js) auto
  with js(2) assms(1) show "T i = Some r" and "row_view T i = session_of_row r" by (simp_all add: row_view_def)
qed

text \<open>The sessions of a user, when every row of the user is one.\<close>

definition user_sessions :: "table \<Rightarrow> string \<Rightarrow> OpenDBSC_Session set" where
  "user_sessions T u = {s. \<exists>i. row_view T i = Some s \<and> s_user_id s = Some u}"

lemma select_user_sessions:
  assumes "table_ok T" and "p 1 = Some u" and "answers Select_By_User p T rows"
    and "map session_of_row rows = map Some xs"
  shows "distinct xs" and "set xs = user_sessions T u" and "distinct (map s_id xs)"
proof -
  from assms(2,3) obtain js where js: "distinct js" "map Some rows = map T js"
      "set js = {i. \<exists>r. T i = Some r \<and> r ! 1 = Some u}"
    unfolding answers_def by auto
  have xs: "map Some xs = map (row_view T) js"
  proof -
    have "map Some xs = map (\<lambda>x. Option.bind x session_of_row) (map Some rows)"
      by (simp add: assms(4) [symmetric] comp_def)
    then show ?thesis unfolding js(2) by (simp add: row_view_def comp_def)
  qed
  have ids: "map s_id xs = map Some js"
  proof (rule nth_equalityI)
    show len: "length (map s_id xs) = length (map Some js)" using xs by (metis length_map)
    fix n assume n: "n < length (map s_id xs)"
    then have "row_view T (js ! n) = Some (xs ! n)" using xs len by (metis length_map nth_map)
    from row_view_id [OF assms(1) this] n len show "map s_id xs ! n = map Some js ! n" by simp
  qed
  then show d: "distinct (map s_id xs)" using js(1) by (simp add: distinct_map)
  then show "distinct xs" using distinct_map by blast
  have "Some ` set xs = row_view T ` set js" using xs by (metis list.set_map)
  then have "s \<in> set xs \<longleftrightarrow> (\<exists>i \<in> set js. row_view T i = Some s)" for s by (metis image_iff option.inject)
  moreover have "i \<in> set js \<longleftrightarrow> s_user_id s = Some u" if "row_view T i = Some s" for i s
    using that js(3) by (auto simp: row_view_def bind_eq_Some_conv dest: session_of_row_keys)
  ultimately show "set xs = user_sessions T u" by (auto simp: user_sessions_def)
qed

lemma delete_user_sessions:
  assumes "table_ok T" and "p 1 = Some u" and "effect Delete_By_User p T = Some (T', n)"
  shows "table_ok T' \<and> row_view T' = (\<lambda>i. case row_view T i of None \<Rightarrow> None
     | Some s \<Rightarrow> if s_user_id s = Some u then None else Some s)"
proof -
  have T': "T' = (\<lambda>i. case T i of None \<Rightarrow> None | Some r \<Rightarrow> if r ! 1 = Some u then None else Some r)"
    using assms(2,3) by (simp add: effect_def fun_eq_iff cong: option.case_cong)
  have "row_view T' i = (case row_view T i of None \<Rightarrow> None
     | Some s \<Rightarrow> if s_user_id s = Some u then None else Some s)" for i
    by (cases "T i"; cases "session_of_row (the (T i))") (auto simp: T' row_view_def dest: session_of_row_keys)
  then show ?thesis using assms(1) by (auto simp: table_ok_def T' split: option.splits if_splits)
qed

text \<open>Tables whose rows can all be read back as sessions.\<close>

definition table_wf :: "table \<Rightarrow> bool" where
  "table_wf T \<longleftrightarrow> table_ok T \<and> (\<forall>i. row_view T i = None \<longrightarrow> T i = None)"

lemma table_wf_row: "table_wf T \<Longrightarrow> row_view T i = None \<Longrightarrow> T i = None"
  by (simp add: table_wf_def)

lemma table_wf_upd: "table_wf T \<Longrightarrow> table_ok T' \<Longrightarrow> row_view T' = (row_view T)(i \<mapsto> s) \<Longrightarrow> T' = T(i \<mapsto> r) \<Longrightarrow> table_wf T'"
  by (auto simp: table_wf_def)

lemma insert_wf:
  assumes "table_wf T" and "s_id s = Some i" and "row_storable s"
    and e: "effect Insert (insert_params s) T = Some (T', n)"
  shows "table_wf T' \<and> row_view T' = (row_view T)(i \<mapsto> s)"
proof -
  have "T' = T(i \<mapsto> row_of_session s)"
    using assms(2) e by (auto simp: effect_def insert_effect_def insert_params_def row_of_session_def split: if_splits)
  with insert_session [OF _ assms(2,3) e] assms(1) show ?thesis by (auto simp: table_wf_def)
qed

lemma update_wf:
  assumes wf: "table_wf T" and "s_id s = Some i" and "row_storable s"
    and e: "effect Update (update_params s) T = Some (T', n)"
  shows "table_wf T' \<and> (case row_view T i of None \<Rightarrow> T' = T \<and> n = 0
    | Some s0 \<Rightarrow> row_view T' = (row_view T)(i \<mapsto> s\<lparr>s_created_at := s_created_at s0\<rparr>) \<and> n = 1)"
proof (cases "row_view T i")
  case None
  with table_wf_row [OF wf] have "T i = None" by simp
  then show ?thesis using wf e assms(2) None by (auto simp: effect_def update_effect_def update_params_def)
next
  case (Some s0)
  from wf have ok: "table_ok T" by (simp add: table_wf_def)
  note u = update_session [OF ok assms(2,3) Some e]
  have "\<exists>r. T' = T(i \<mapsto> r)" using e assms(2) Some
    by (auto simp: effect_def update_effect_def update_params_def row_view_def bind_eq_Some_conv split: if_splits)
  with u wf show ?thesis by (auto simp: table_wf_def Some)
qed

lemma delete_wf:
  assumes "table_wf T"
  shows "table_wf (T(i := None)) \<and> row_view (T(i := None)) = (row_view T)(i := None)"
  using assms by (auto simp: table_wf_def table_ok_del row_view_del)

lemma delete_user_wf:
  assumes wf: "table_wf T" and e: "effect Delete_By_User ((\<lambda>_. None)(1 := Some u)) T = Some (T', n)"
  shows "table_wf T' \<and> row_view T' = (\<lambda>i. case row_view T i of None \<Rightarrow> None
     | Some s \<Rightarrow> if s_user_id s = Some u then None else Some s)"
proof -
  from wf have ok: "table_ok T" by (simp add: table_wf_def)
  note d = delete_user_sessions [OF ok _ e, of u, simplified]
  have T': "T' = (\<lambda>i. case T i of None \<Rightarrow> None | Some r \<Rightarrow> if r ! 1 = Some u then None else Some r)"
    using e by (simp add: effect_def fun_eq_iff cong: option.case_cong)
  have "T' i = None" if "row_view T' i = None" for i
  proof (cases "T i")
    case (Some r)
    with table_wf_row [OF wf, of i] obtain s where s: "row_view T i = Some s" by fastforce
    then have "session_of_row r = Some s" using Some by (simp add: row_view_def)
    note s = s this
    with that d have "s_user_id s = Some u" by (auto split: if_splits)
    with session_of_row_keys [OF s(2)] have "r ! 1 = Some u" by simp
    with Some show ?thesis by (simp add: T')
  qed (simp add: T')
  with d show ?thesis by (simp add: table_wf_def)
qed

section \<open>The rows of a user\<close>

definition expired_at :: "int \<Rightarrow> OpenDBSC_Session \<Rightarrow> bool" where
  "expired_at now s \<longleftrightarrow> s_has_expires s \<and> s_expires_at s < now"

text \<open>
  The body of the loop that both stores run over the rows of a user, once the row is a session: an
  expired session is remembered by its identifier, another one joins the result. \<open>None\<close> is a failure.
\<close>

definition keep_row :: "int \<Rightarrow> OpenDBSC_Session \<Rightarrow> OpenDBSC_Session list \<Rightarrow> string list \<Rightarrow>
    ('a world_scheme, (OpenDBSC_Session list \<times> string list) option) state" where
  "keep_row now tmp sessions expired =
     (if s_has_expires tmp \<and> s_expires_at tmp < now then do {
        copy \<leftarrow> (case s_id tmp of None \<Rightarrow> ub None | Some i \<Rightarrow> strdup i);
        case copy of None \<Rightarrow> ret None
        | Some i \<Rightarrow> do {
            ok \<leftarrow> alloc;
            ret (if ok then Some (sessions, expired @ [i]) else None) } }
      else do {
        ok \<leftarrow> alloc;
        ret (if ok then Some (sessions @ [tmp], expired) else None) })"

lemma framed_keep_row:
  assumes "s_id tmp = Some i"
  shows "framed (keep_row now tmp ss es) (\<lambda>x. x = None \<or>
     x = Some (if expired_at now tmp then (ss, es @ [i]) else (ss @ [tmp], es)))"
  using assms unfolding keep_row_def expired_at_def [symmetric]
  by (auto intro!: framed_bind [OF framed_malloc_str] framed_bind [OF framed_alloc] framed_return)

text \<open>What the loop has gathered when it has gone through the rows.\<close>

definition gathered :: "int \<Rightarrow> columns list \<Rightarrow> OpenDBSC_Session list \<Rightarrow> string list \<Rightarrow>
    OpenDBSC_Session list \<Rightarrow> string list \<Rightarrow> bool" where
  "gathered now rows ss es ss' es' \<longleftrightarrow> (\<exists>xs. map session_of_row rows = map Some xs \<and>
     ss' = ss @ filter (\<lambda>s. \<not> expired_at now s) xs \<and>
     map Some es' = map Some es @ map s_id (filter (expired_at now) xs))"

lemma gathered_Nil: "gathered now [] ss es ss es"
  by (simp add: gathered_def)

lemma gathered_Cons:
  assumes "session_of_row r = Some s" and "s_id s = Some i"
    and "kept = (if expired_at now s then (ss, es @ [i]) else (ss @ [s], es))"
    and "gathered now rows (fst kept) (snd kept) ss' es'"
  shows "gathered now (r # rows) ss es ss' es'"
proof -
  from assms(4) obtain xs where "map session_of_row rows = map Some xs"
      "ss' = fst kept @ filter (\<lambda>s. \<not> expired_at now s) xs"
      "map Some es' = map Some (snd kept) @ map s_id (filter (expired_at now) xs)"
    unfolding gathered_def by blast
  with assms(1-3) show ?thesis
    unfolding gathered_def by (intro exI [of _ "s # xs"]) simp
qed

text \<open>The same over the rows as the library delivers them.\<close>

definition gathered_as :: "bool \<Rightarrow> int \<Rightarrow> columns list \<Rightarrow> OpenDBSC_Session list \<Rightarrow> string list \<Rightarrow>
    OpenDBSC_Session list \<Rightarrow> string list \<Rightarrow> bool" where
  "gathered_as ample now rows ss es ss' es' \<longleftrightarrow>
     (\<exists>cs. list_all2 (delivered ample) rows cs \<and> gathered now cs ss es ss' es')"

lemma gathered_as_Nil: "gathered_as ample now [] ss es ss es"
  by (simp add: gathered_as_def gathered_Nil)

lemma gathered_as_Cons:
  assumes "reads_as ample r s" and "s_id s = Some i"
    and "kept = (if expired_at now s then (ss, es @ [i]) else (ss @ [s], es))"
    and "gathered_as ample now rows (fst kept) (snd kept) ss' es'"
  shows "gathered_as ample now (r # rows) ss es ss' es'"
proof -
  from assms(1) obtain c where c: "delivered ample r c" "session_of_row c = Some s" by (auto simp: reads_as_def)
  from assms(4) obtain cs where cs: "list_all2 (delivered ample) rows cs"
    "gathered now cs (fst kept) (snd kept) ss' es'" by (auto simp: gathered_as_def)
  from gathered_Cons [OF c(2) assms(2,3) cs(2)] c(1) cs(1) show ?thesis
    unfolding gathered_as_def by (intro exI [of _ "c # cs"]) simp
qed

lemma gathered_as_exact: "gathered_as True now rows ss es ss' es' \<Longrightarrow> gathered now rows ss es ss' es'"
proof -
  assume "gathered_as True now rows ss es ss' es'"
  then obtain cs where cs: "list_all2 (delivered True) rows cs" "gathered now cs ss es ss' es'"
    by (auto simp: gathered_as_def)
  from cs(1) have "map session_of_row cs = map session_of_row rows"
    by (induction rule: list_all2_induct) (simp_all add: delivered_exact)
  with cs(2) show ?thesis by (simp add: gathered_def)
qed

text \<open>The identifiers gathered as expired are those of expired sessions of the user.\<close>

lemma gathered_as_expired:
  assumes wf: "table_wf T" and rows: "p 1 = Some u" "answers Select_By_User p T rows"
    and g: "gathered_as ample now rows [] [] out es" and i: "i \<in> set es"
  shows "\<exists>s. row_view T i = Some s \<and> s_user_id s = Some u \<and> expired_at now s"
proof -
  from g obtain cs xs where cs: "list_all2 (delivered ample) rows cs" "map session_of_row cs = map Some xs"
    and es: "map Some es = map s_id (filter (expired_at now) xs)" by (auto simp: gathered_as_def gathered_def)
  from i have "Some i \<in> set (map s_id (filter (expired_at now) xs))" by (simp add: es [symmetric])
  then obtain k where k: "k < length xs" "s_id (xs ! k) = Some i" "expired_at now (xs ! k)"
    by (auto simp: in_set_conv_nth)
  have len: "length rows = length cs" "length cs = length xs"
    using cs list_all2_lengthD map_eq_imp_length_eq by blast+
  have x: "reads_as ample (rows ! k) (xs ! k)"
    unfolding reads_as_def
    using k(1) len list_all2_nthD2 [OF cs(1), of k] arg_cong [OF cs(2), of "\<lambda>ys. ys ! k"]
    by (intro exI [of _ "cs ! k"]) simp
  from rows obtain js where js: "map Some rows = map T js" "set js = {j. \<exists>r. T j = Some r \<and> r ! 1 = Some u}"
    by (auto simp: answers_def)
  have lj: "length js = length rows" using js(1) map_eq_imp_length_eq by metis
  have T: "T (js ! k) = Some (rows ! k)"
    using arg_cong [OF js(1), of "\<lambda>ys. ys ! k"] k(1) len lj by simp
  have "js ! k \<in> set js" using k(1) len lj by simp
  then have u: "rows ! k ! 1 = Some u" using js(2) T by auto
  have "rows ! k ! 0 = Some (js ! k)" using wf T by (simp add: table_wf_def table_ok_def)
  with reads_as_keys [OF x] k(2) have j: "js ! k = i" by simp
  with wf T obtain s0 where s0: "row_view T i = Some s0" by (cases "row_view T i") (auto simp: table_wf_def)
  then have "session_of_row (rows ! k) = Some s0" using T j by (simp add: row_view_def)
  with reads_as_expiry [OF x _ this] k(3) session_of_row_keys [OF this] u s0 show ?thesis
    by (auto simp: expired_at_def)
qed

text \<open>Rows of a table may have gone, those of the identifiers \<open>A\<close>.\<close>

definition purged :: "table \<Rightarrow> string set \<Rightarrow> table \<Rightarrow> bool" where
  "purged T A T' \<longleftrightarrow> (\<forall>i. T' i = T i \<or> T' i = None \<and> i \<in> A)"

lemma purged_refl [simp]: "purged T A T"
  by (simp add: purged_def)

lemma purged_del: "purged T A T' \<Longrightarrow> i \<in> A \<Longrightarrow> purged T A (T'(i := None))"
  by (simp add: purged_def)

lemma purged_ok: "purged T A T' \<Longrightarrow> table_ok T \<Longrightarrow> table_ok T'"
  unfolding purged_def table_ok_def by (metis option.distinct(1))

lemma purged_view:
  "purged T A T' \<Longrightarrow> row_view T' i = row_view T i \<or> row_view T' i = None \<and> i \<in> A"
  unfolding purged_def row_view_def by (metis Option.bind.bind_lzero)

lemma purged_wf: "purged T A T' \<Longrightarrow> table_wf T \<Longrightarrow> table_wf T'"
  unfolding table_wf_def using purged_ok [of T A T'] purged_view [of T A T']
  by (metis Option.bind.bind_lzero purged_def row_view_def)

text \<open>The answer to a query by user, and what the removal of the expired rows leaves.\<close>

definition user_answer :: "table \<Rightarrow> string \<Rightarrow> int \<Rightarrow> OpenDBSC_Session list \<Rightarrow> table \<Rightarrow> bool" where
  "user_answer T u now out T' \<longleftrightarrow> distinct out \<and> set out = {s \<in> user_sessions T u. \<not> expired_at now s} \<and>
     (\<forall>i. row_view T' i = row_view T i \<or> row_view T' i = None \<and>
        (\<exists>s. row_view T i = Some s \<and> s_user_id s = Some u \<and> expired_at now s))"

lemma gathered_user_answer:
  assumes ok: "table_ok T" and rows: "p 1 = Some u" "answers Select_By_User p T rows"
    and g: "gathered now rows [] [] out es" and T': "purged T (set es) T'"
  shows "user_answer T u now out T'"
proof -
  from g obtain xs where xs: "map session_of_row rows = map Some xs" "out = filter (\<lambda>s. \<not> expired_at now s) xs"
    and es: "map Some es = map s_id (filter (expired_at now) xs)" by (auto simp: gathered_def)
  note sel = select_user_sessions [OF ok rows xs(1)]
  have "\<exists>s. row_view T i = Some s \<and> s_user_id s = Some u \<and> expired_at now s" if "i \<in> set es" for i
  proof -
    from that have "Some i \<in> set (map s_id (filter (expired_at now) xs))" by (simp add: es [symmetric])
    then obtain s where s: "s \<in> set xs" "s_id s = Some i" "expired_at now s" by auto
    with sel(2) obtain j where j: "row_view T j = Some s" "s_user_id s = Some u" by (auto simp: user_sessions_def)
    with row_view_id [OF ok j(1)] s show ?thesis by auto
  qed
  then show ?thesis
    using purged_view [OF T'] sel(1,2) unfolding user_answer_def xs(2) by fastforce
qed

end
