(* ===== verification/Sqlite_Store.thy ===== *)
theory Sqlite_Store
  imports Sql_Rows
begin

text \<open>
  The SQLite store, \<^verbatim>\<open>src/store/sqlite.c\<close>. The SQLite library is not part of the repository, so its
  calls are a parameter: functions of the connection, whose state is the store's implementation, and of
  the statement. The locale \<open>sqlite_engine\<close> says what the code relies on; any call may fail. The
  theorems: on every such engine the store satisfies the contract \<open>session_store\<close> of its clients, and
  the query by user returns exactly the live sessions of the user.
\<close>

section \<open>The library\<close>

definition SQLITE_OK :: int where
  "SQLITE_OK = 0"

definition SQLITE_ROW :: int where
  "SQLITE_ROW = 100"

definition SQLITE_DONE :: int where
  "SQLITE_DONE = 101"

text \<open>
  \<open>result_rows\<close> is not a call: it is at least the number of rows a query delivers, which bounds the
  loop that steps through them.
\<close>

record ('d, 'q) sqlite3 =
  sqlite3_open :: "string \<Rightarrow> int \<times> 'd"
  sqlite3_close :: "'d \<Rightarrow> unit \<times> 'd"
  sqlite3_exec :: "string \<Rightarrow> 'd \<Rightarrow> int \<times> 'd"
  sqlite3_prepare_v2 :: "string \<Rightarrow> 'd \<Rightarrow> (int \<times> 'q) \<times> 'd"
  sqlite3_bind_text :: "'q \<Rightarrow> nat \<Rightarrow> string \<Rightarrow> int \<times> 'q"
  sqlite3_bind_null :: "'q \<Rightarrow> nat \<Rightarrow> int \<times> 'q"
  sqlite3_step :: "'q \<Rightarrow> 'd \<Rightarrow> (int \<times> 'q) \<times> 'd"
  sqlite3_column_text :: "'q \<Rightarrow> nat \<Rightarrow> string option"
  sqlite3_changes :: "'d \<Rightarrow> int"
  sqlite3_finalize :: "'q \<Rightarrow> 'd \<Rightarrow> unit \<times> 'd"
  result_rows :: "'q \<Rightarrow> 'd \<Rightarrow> nat"

section \<open>The statements\<close>

definition OPENDBSC_SQLITE_SCHEMA :: string where
  "OPENDBSC_SQLITE_SCHEMA =
     ''CREATE TABLE IF NOT EXISTS sessions ('' @
     ''  id         TEXT PRIMARY KEY,'' @
     ''  user_id    TEXT NOT NULL,'' @
     ''  state      TEXT NOT NULL DEFAULT '' @ [CHR 0x27] @ ''active'' @ [CHR 0x27] @ '','' @
     ''  public_key TEXT,'' @
     ''  algorithm  TEXT,'' @
     ''  challenge  TEXT,'' @
     ''  expires_at DATETIME,'' @
     ''  created_at DATETIME NOT NULL'' @
     '');'' @
     ''CREATE INDEX IF NOT EXISTS idx_sessions_user_id ON sessions(user_id);'' @
     ''CREATE INDEX IF NOT EXISTS idx_sessions_expires_at ON sessions(expires_at);''"

definition insert_sql :: string where
  "insert_sql = ''INSERT INTO sessions (id, user_id, state, public_key, algorithm, '' @
     ''challenge, expires_at, created_at) '' @ ''VALUES (?, ?, ?, ?, ?, ?, ?, ?)''"

definition select_by_id_sql :: string where
  "select_by_id_sql = ''SELECT id, user_id, state, public_key, algorithm, challenge, '' @
     ''expires_at, created_at FROM sessions WHERE id = ?''"

definition update_sql :: string where
  "update_sql = ''UPDATE sessions SET user_id = ?, state = ?, public_key = ?, '' @
     ''algorithm = ?, challenge = ?, expires_at = ? WHERE id = ?''"

definition delete_sql :: string where
  "delete_sql = ''DELETE FROM sessions WHERE id = ?''"

definition select_by_user_sql :: string where
  "select_by_user_sql = ''SELECT id, user_id, state, public_key, algorithm, challenge, '' @
     ''expires_at, created_at FROM sessions WHERE user_id = ?''"

definition delete_by_user_sql :: string where
  "delete_by_user_sql = ''DELETE FROM sessions WHERE user_id = ?''"

section \<open>Operations\<close>

definition bind_text_or_null :: "('d, 'q) sqlite3 \<Rightarrow> 'q \<Rightarrow> nat \<Rightarrow> string option \<Rightarrow> int \<times> 'q" where
  "bind_text_or_null L stmt idx text' =
     (case (case text' of None \<Rightarrow> sqlite3_bind_null L stmt idx | Some t \<Rightarrow> sqlite3_bind_text L stmt idx t) of
        (rc, stmt) \<Rightarrow> (if rc = SQLITE_OK then 0 else -1, stmt))"

text \<open>Successive parameters from an index on, up to the first that fails.\<close>

fun bind_texts :: "('d, 'q) sqlite3 \<Rightarrow> nat \<Rightarrow> string option list \<Rightarrow> 'q \<Rightarrow> bool \<times> 'q" where
  "bind_texts L idx [] stmt = (True, stmt)"
| "bind_texts L idx (v # vs) stmt =
     (case bind_text_or_null L stmt idx v of (rc, stmt) \<Rightarrow>
        if rc \<noteq> 0 then (False, stmt) else bind_texts L (idx + 1) vs stmt)"

definition bind_time :: "('d, 'q) sqlite3 \<Rightarrow> nat \<Rightarrow> int \<Rightarrow> 'q \<Rightarrow> bool \<times> 'q" where
  "bind_time L idx t stmt =
     (case format_rfc3339_utc t 32 of None \<Rightarrow> (False, stmt) | Some b \<Rightarrow> bind_texts L idx [Some b] stmt)"

definition bind_expiry :: "('d, 'q) sqlite3 \<Rightarrow> nat \<Rightarrow> OpenDBSC_Session \<Rightarrow> 'q \<Rightarrow> bool \<times> 'q" where
  "bind_expiry L idx session stmt =
     (if s_has_expires session then bind_time L idx (s_expires_at session) stmt
      else bind_texts L idx [None] stmt)"

definition create_binds :: "('d, 'q) sqlite3 \<Rightarrow> OpenDBSC_Session \<Rightarrow> 'q \<Rightarrow> bool \<times> 'q" where
  "create_binds L session stmt =
     (case bind_texts L 1 [s_id session, s_user_id session, opendbsc_session_state_str (Some session),
             s_public_key session, s_algorithm session, s_challenge session] stmt of (ok, stmt) \<Rightarrow>
        if \<not> ok then (False, stmt)
        else (case bind_expiry L 7 session stmt of (ok, stmt) \<Rightarrow>
          if \<not> ok then (False, stmt) else bind_time L 8 (s_created_at session) stmt))"

definition update_binds :: "('d, 'q) sqlite3 \<Rightarrow> OpenDBSC_Session \<Rightarrow> 'q \<Rightarrow> bool \<times> 'q" where
  "update_binds L session stmt =
     (case bind_texts L 1 [s_user_id session, opendbsc_session_state_str (Some session),
             s_public_key session, s_algorithm session, s_challenge session] stmt of (ok, stmt) \<Rightarrow>
        if \<not> ok then (False, stmt)
        else (case bind_expiry L 6 session stmt of (ok, stmt) \<Rightarrow>
          if \<not> ok then (False, stmt) else bind_texts L 7 [s_id session] stmt))"

text \<open>The label \<^verbatim>\<open>done\<close>: the statement is released and the result returned.\<close>

definition finalize_with :: "('d, 'q) sqlite3 \<Rightarrow> 'q \<Rightarrow> 'r \<Rightarrow> ('d sys, 'r) state" where
  "finalize_with L stmt r = do { on_impl (sqlite3_finalize L stmt); ret r }"

definition session_from_stmt :: "('d, 'q) sqlite3 \<Rightarrow> 'q \<Rightarrow> OpenDBSC_Session \<Rightarrow>
    ('a world_scheme, int \<times> OpenDBSC_Session) state" where
  "session_from_stmt L stmt session = session_from_columns (map (sqlite3_column_text L stmt) [0..<8]) session"

definition sqlite_create :: "('d, 'q) sqlite3 \<Rightarrow> OpenDBSC_Session option \<Rightarrow> ('d sys, int) state" where
  "sqlite_create L session =
     (case session of None \<Rightarrow> ret (-1)
      | Some s \<Rightarrow>
          if s_id s = None then ret (-1)
          else do {
            (rc, stmt) \<leftarrow> on_impl (sqlite3_prepare_v2 L insert_sql);
            if rc \<noteq> SQLITE_OK then ret (-1)
            else (case create_binds L s stmt of (ok, stmt) \<Rightarrow>
              if \<not> ok then finalize_with L stmt (-1)
              else do {
                (rc, stmt) \<leftarrow> on_impl (sqlite3_step L stmt);
                finalize_with L stmt (if rc = SQLITE_DONE then 0 else -1) }) })"

text \<open>A statement with one text parameter and no result, as both deletions run it.\<close>

definition run_with_text :: "('d, 'q) sqlite3 \<Rightarrow> string \<Rightarrow> string \<Rightarrow> ('d sys, int) state" where
  "run_with_text L sql v = do {
     (rc, stmt) \<leftarrow> on_impl (sqlite3_prepare_v2 L sql);
     if rc \<noteq> SQLITE_OK then ret (-1)
     else (case sqlite3_bind_text L stmt 1 v of (rc, stmt) \<Rightarrow>
       if rc \<noteq> SQLITE_OK then finalize_with L stmt (-1)
       else do {
         (rc, stmt) \<leftarrow> on_impl (sqlite3_step L stmt);
         finalize_with L stmt (if rc = SQLITE_DONE then 0 else -1) }) }"

definition sqlite_delete :: "('d, 'q) sqlite3 \<Rightarrow> string option \<Rightarrow> ('d sys, int) state" where
  "sqlite_delete L sid = (case sid of None \<Rightarrow> ret (-1) | Some i \<Rightarrow> run_with_text L delete_sql i)"

definition sqlite_delete_by_user_id :: "('d, 'q) sqlite3 \<Rightarrow> string option \<Rightarrow> ('d sys, int) state" where
  "sqlite_delete_by_user_id L user_id =
     (case user_id of None \<Rightarrow> ret (-1) | Some u \<Rightarrow> run_with_text L delete_by_user_sql u)"

definition sqlite_get :: "('d, 'q) sqlite3 \<Rightarrow> string option \<Rightarrow>
    ('d sys, int \<times> OpenDBSC_Session option) state" where
  "sqlite_get L sid =
     (case sid of None \<Rightarrow> ret (-1, None)
      | Some i \<Rightarrow> do {
          (rc, stmt) \<leftarrow> on_impl (sqlite3_prepare_v2 L select_by_id_sql);
          if rc \<noteq> SQLITE_OK then ret (-1, None)
          else (case sqlite3_bind_text L stmt 1 i of (rc, stmt) \<Rightarrow>
            if rc \<noteq> SQLITE_OK then finalize_with L stmt (-1, None)
            else do {
              (step, stmt) \<leftarrow> on_impl (sqlite3_step L stmt);
              if step \<noteq> SQLITE_ROW then finalize_with L stmt (-1, None)
              else do {
                ok \<leftarrow> alloc;
                if \<not> ok then finalize_with L stmt (-1, None)
                else do {
                  (rc, session) \<leftarrow> session_from_stmt L stmt session_defaults;
                  if rc \<noteq> 0 then finalize_with L stmt (-1, None)
                  else do {
                    now \<leftarrow> time_now;
                    if s_has_expires session \<and> s_expires_at session < now then do {
                      _ \<leftarrow> sqlite_delete L (Some i);
                      finalize_with L stmt (-1, None) }
                    else finalize_with L stmt (0, Some session) } } } }) })"

definition sqlite_update :: "('d, 'q) sqlite3 \<Rightarrow> OpenDBSC_Session option \<Rightarrow> ('d sys, int) state" where
  "sqlite_update L session =
     (case session of None \<Rightarrow> ret (-1)
      | Some s \<Rightarrow>
          if s_id s = None then ret (-1)
          else do {
            (rc, stmt) \<leftarrow> on_impl (sqlite3_prepare_v2 L update_sql);
            if rc \<noteq> SQLITE_OK then ret (-1)
            else (case update_binds L s stmt of (ok, stmt) \<Rightarrow>
              if \<not> ok then finalize_with L stmt (-1)
              else do {
                (rc, stmt) \<leftarrow> on_impl (sqlite3_step L stmt);
                if rc \<noteq> SQLITE_DONE then finalize_with L stmt (-1)
                else do {
                  n \<leftarrow> on_impl (\<lambda>d. (sqlite3_changes L d, d));
                  finalize_with L stmt (if n > 0 then 0 else -1) } }) })"

text \<open>
  The loop over the rows of a user's query: whether it reached the end, the statement, the sessions and
  the identifiers of the expired ones. Running out of the bound stands for a loop that does not end.
\<close>

fun user_rows :: "('d, 'q) sqlite3 \<Rightarrow> nat \<Rightarrow> int \<Rightarrow> 'q \<Rightarrow> OpenDBSC_Session list \<Rightarrow> string list \<Rightarrow>
    ('d sys, bool \<times> 'q \<times> OpenDBSC_Session list \<times> string list) state" where
  "user_rows L 0 now stmt sessions expired = ub (False, stmt, [], expired)"
| "user_rows L (Suc fuel) now stmt sessions expired = do {
     (step, stmt) \<leftarrow> on_impl (sqlite3_step L stmt);
     if step \<noteq> SQLITE_ROW then
       ret (step = SQLITE_DONE, stmt, if step = SQLITE_DONE then sessions else [], expired)
     else do {
       (rc, tmp) \<leftarrow> session_from_stmt L stmt session_defaults;
       if rc \<noteq> 0 then ret (False, stmt, [], expired)
       else do {
         kept \<leftarrow> keep_row now tmp sessions expired;
         case kept of None \<Rightarrow> ret (False, stmt, [], expired)
         | Some (sessions, expired) \<Rightarrow> user_rows L fuel now stmt sessions expired } } }"

fun delete_expired :: "('d, 'q) sqlite3 \<Rightarrow> string list \<Rightarrow> ('d sys, unit) state" where
  "delete_expired L [] = ret ()"
| "delete_expired L (i # is) = do { _ \<leftarrow> sqlite_delete L (Some i); delete_expired L is }"

text \<open>
  The locals \<^verbatim>\<open>expired_ids\<close> and \<^verbatim>\<open>expired_count\<close> are initialised together: \<open>None\<close> stands for their
  indeterminate values before, \<open>Some is\<close> for the identifiers they hold. The loop that releases the
  identifiers compares its index with the count and is undefined when that is indeterminate.
\<close>

definition release_ids :: "string list option \<Rightarrow> ('a world_scheme, unit) state" where
  "release_ids expired = (case expired of None \<Rightarrow> ub () | Some is \<Rightarrow> ret ())"

text \<open>The label \<^verbatim>\<open>done\<close> of the query by user.\<close>

definition user_done :: "('d, 'q) sqlite3 \<Rightarrow> 'q \<Rightarrow> string list option \<Rightarrow>
    ('d sys, int \<times> OpenDBSC_Session list) state" where
  "user_done L stmt expired = do {
     on_impl (sqlite3_finalize L stmt);
     release_ids expired;
     ret (-1, []) }"

text \<open>A bind that fails jumps to \<^verbatim>\<open>done\<close> over the initialisation.\<close>

definition sqlite_get_by_user_id :: "('d, 'q) sqlite3 \<Rightarrow> string option \<Rightarrow>
    ('d sys, int \<times> OpenDBSC_Session list) state" where
  "sqlite_get_by_user_id L user_id =
     (case user_id of None \<Rightarrow> ret (-1, [])
      | Some u \<Rightarrow> do {
          (rc, stmt) \<leftarrow> on_impl (sqlite3_prepare_v2 L select_by_user_sql);
          if rc \<noteq> SQLITE_OK then ret (-1, [])
          else (case sqlite3_bind_text L stmt 1 u of (rc, stmt) \<Rightarrow>
            if rc \<noteq> SQLITE_OK then user_done L stmt None
            else do {
              now \<leftarrow> time_now;
              fuel \<leftarrow> on_impl (\<lambda>d. (Suc (result_rows L stmt d), d));
              (ok, stmt, sessions, expired) \<leftarrow> user_rows L fuel now stmt [] [];
              if \<not> ok then user_done L stmt (Some expired)
              else do {
                on_impl (sqlite3_finalize L stmt);
                delete_expired L expired;
                ret (0, sessions) } }) })"

definition sqlite_free_sessions :: "OpenDBSC_Session list \<Rightarrow> ('d sys, unit) state" where
  "sqlite_free_sessions sessions = ret ()"

definition sqlite_destroy :: "('d, 'q) sqlite3 \<Rightarrow> ('d sys, unit) state" where
  "sqlite_destroy L = on_impl (sqlite3_close L)"

definition sqlite_store_vtable :: "('d, 'q) sqlite3 \<Rightarrow> 'd OpenDBSC_Store" where
  "sqlite_store_vtable L = \<lparr>st_create = sqlite_create L, st_get = sqlite_get L, st_update = sqlite_update L,
     st_delete = sqlite_delete L, st_get_by_user_id = sqlite_get_by_user_id L,
     st_delete_by_user_id = sqlite_delete_by_user_id L, st_free_sessions = sqlite_free_sessions,
     st_destroy = sqlite_destroy L\<rparr>"

text \<open>The connections closed on the failing paths are not looked at again.\<close>

definition opendbsc_sqlite_store_create :: "('d, 'q) sqlite3 \<Rightarrow> string option \<Rightarrow>
    ('a world_scheme, ('d \<times> 'd OpenDBSC_Store) option) state" where
  "opendbsc_sqlite_store_create L path =
     (case sqlite3_open L (case path of None \<Rightarrow> '':memory:'' | Some p \<Rightarrow> p) of (rc, db) \<Rightarrow>
        if rc \<noteq> SQLITE_OK then ret None
        else (case sqlite3_exec L OPENDBSC_SQLITE_SCHEMA db of (rc, db) \<Rightarrow>
          if rc \<noteq> SQLITE_OK then ret None
          else do {
            ok \<leftarrow> alloc;
            if \<not> ok then ret None
            else do {
              ok \<leftarrow> alloc;
              if \<not> ok then ret None
              else ret (Some (db, sqlite_store_vtable L)) } }))"

definition opendbsc_sqlite_store_close :: "'d OpenDBSC_Store option \<Rightarrow> ('d sys, unit) state" where
  "opendbsc_sqlite_store_close store = (case store of None \<Rightarrow> ret () | Some st \<Rightarrow> st_destroy st)"

section \<open>What SQLite documents\<close>

text \<open>The query of a user, if it can be prepared on the connection \<open>d\<close>, takes its parameter.\<close>

definition query_binds :: "('d, 'q) sqlite3 \<Rightarrow> string \<Rightarrow> 'd \<Rightarrow> bool" where
  "query_binds L u d \<longleftrightarrow> (\<forall>q d'. sqlite3_prepare_v2 L select_by_user_sql d = ((SQLITE_OK, q), d') \<longrightarrow>
     fst (sqlite3_bind_text L q 1 u) = SQLITE_OK)"

definition sqlite_statement :: "string \<Rightarrow> sql_statement option" where
  "sqlite_statement sql =
     (if sql = insert_sql then Some Insert else if sql = update_sql then Some Update
      else if sql = delete_sql then Some Delete_By_Id else if sql = delete_by_user_sql then Some Delete_By_User
      else if sql = select_by_id_sql then Some Select_By_Id
      else if sql = select_by_user_sql then Some Select_By_User else None)"


lemma sqlite_statement_simps [simp]:
  "sqlite_statement insert_sql = Some Insert" "sqlite_statement update_sql = Some Update"
  "sqlite_statement delete_sql = Some Delete_By_Id" "sqlite_statement delete_by_user_sql = Some Delete_By_User"
  "sqlite_statement select_by_id_sql = Some Select_By_Id" "sqlite_statement select_by_user_sql = Some Select_By_User"
  by (simp_all add: sqlite_statement_def insert_sql_def update_sql_def delete_sql_def delete_by_user_sql_def
      select_by_id_sql_def select_by_user_sql_def)

text \<open>
  Where a statement stands: prepared and not stepped, on a row of a query over a table with the rows
  that follow, or neither.
\<close>

datatype progress = Prepared | On_Row table columns "columns list" | Finished

text \<open>
  \<open>ample\<close> says that the library always has the memory to hand out a column; otherwise
  \<^verbatim>\<open>sqlite3_column_text\<close> may answer NULL for a text. Any other call may fail at any time.
\<close>

locale sqlite_engine =
  fixes L :: "('d, 'q) sqlite3"
    and tbl :: "'d \<Rightarrow> table"
    and sql_text :: "'q \<Rightarrow> string"
    and bound :: "'q \<Rightarrow> params"
    and progress :: "'q \<Rightarrow> progress"
    and ample :: bool
  assumes prepare:
      "sqlite3_prepare_v2 L sql d = ((rc, q), d') \<Longrightarrow> tbl d' = tbl d \<and>
       (rc = SQLITE_OK \<longrightarrow> sql_text q = sql \<and> bound q = (\<lambda>_. None) \<and> progress q = Prepared)"
    and bind_text:
      "sqlite3_bind_text L q n t = (SQLITE_OK, q') \<Longrightarrow> progress q = Prepared \<Longrightarrow>
       sql_text q' = sql_text q \<and> bound q' = (bound q)(n := Some t) \<and> progress q' = Prepared"
    and bind_null:
      "sqlite3_bind_null L q n = (SQLITE_OK, q') \<Longrightarrow> progress q = Prepared \<Longrightarrow>
       sql_text q' = sql_text q \<and> bound q' = (bound q)(n := None) \<and> progress q' = Prepared"
    and step_change:
      "sqlite3_step L q d = ((rc, q'), d') \<Longrightarrow> progress q = Prepared \<Longrightarrow>
       sqlite_statement (sql_text q) = Some st \<Longrightarrow> st \<in> {Insert, Update, Delete_By_Id, Delete_By_User} \<Longrightarrow>
       st = Insert \<longrightarrow> bound q 1 \<noteq> None \<Longrightarrow>
       (if rc = SQLITE_DONE
        then \<exists>n. effect st (bound q) (tbl d) = Some (tbl d', n) \<and> sqlite3_changes L d' = int n
        else tbl d' = tbl d)"
    and first_row:
      "sqlite3_step L q d = ((rc, q'), d') \<Longrightarrow> progress q = Prepared \<Longrightarrow>
       sqlite_statement (sql_text q) = Some st \<Longrightarrow> st \<in> {Select_By_Id, Select_By_User} \<Longrightarrow>
       tbl d' = tbl d \<and>
       (rc = SQLITE_ROW \<longrightarrow> (\<exists>r rs. progress q' = On_Row (tbl d) r rs \<and> answers st (bound q) (tbl d) (r # rs))) \<and>
       (rc = SQLITE_DONE \<longrightarrow> answers st (bound q) (tbl d) [])"
    and next_row:
      "sqlite3_step L q d = ((rc, q'), d') \<Longrightarrow> progress q = On_Row (tbl d) r rs \<Longrightarrow>
       tbl d' = tbl d \<and>
       (rc = SQLITE_ROW \<longrightarrow> (\<exists>r' rs'. rs = r' # rs' \<and> progress q' = On_Row (tbl d) r' rs')) \<and>
       (rc = SQLITE_DONE \<longrightarrow> rs = [])"
    and column_text: "progress q = On_Row T r rs \<Longrightarrow> n < 8 \<Longrightarrow>
       sqlite3_column_text L q n = r ! n \<or> \<not> ample \<and> sqlite3_column_text L q n = None"
    and finalize: "sqlite3_finalize L q d = (u, d') \<Longrightarrow> tbl d' = tbl d"
    and result_rows:
      "progress q = Prepared \<Longrightarrow> sqlite_statement (sql_text q) = Some st \<Longrightarrow>
       answers st (bound q) (tbl d) rows \<Longrightarrow> length rows \<le> result_rows L q d"
begin

text \<open>The table at a point of a run that began in \<open>w\<close>.\<close>

definition at_table :: "'d sys \<Rightarrow> table \<Rightarrow> 'd sys \<Rightarrow> bool" where
  "at_table w T v \<longleftrightarrow> oframe w v \<and> tbl (impl v) = T"

definition prepared :: "'q \<Rightarrow> string \<Rightarrow> params \<Rightarrow> bool" where
  "prepared q sql p \<longleftrightarrow> sql_text q = sql \<and> bound q = p \<and> progress q = Prepared"

lemma at_table_frame: "at_table w T v \<Longrightarrow> frame v v' \<Longrightarrow> at_table w T v'"
  using frame_impl [of v v'] by (auto simp: at_table_def dest: frame_oframe intro: oframe_trans)

lemma at_table_start: "at_table w (tbl (impl w)) w"
  by (simp add: at_table_def)

lemma wp_prepare:
  assumes "at_table w T v"
    and "\<And>q v'. at_table w T v' \<Longrightarrow> prepared q sql (\<lambda>_. None) \<Longrightarrow> Q (SQLITE_OK, q) v'"
    and "\<And>rc q v'. rc \<noteq> SQLITE_OK \<Longrightarrow> at_table w T v' \<Longrightarrow> Q (rc, q) v'"
  shows "wp (on_impl (sqlite3_prepare_v2 L sql)) Q v"
proof -
  obtain rc q d where run: "sqlite3_prepare_v2 L sql (impl v) = ((rc, q), d)" by (metis prod.exhaust)
  from prepare [OF run] assms(1) have "at_table w T (v\<lparr>impl := d\<rparr>)" by (simp add: at_table_def)
  then have "Q (rc, q) (v\<lparr>impl := d\<rparr>)"
    using assms(2,3) prepare [OF run] by (cases "rc = SQLITE_OK") (auto simp: prepared_def)
  then show ?thesis by (simp add: wp_on_impl run)
qed

lemma wp_finalize_with: "at_table w T v \<Longrightarrow> (\<And>v'. at_table w T v' \<Longrightarrow> Q r v') \<Longrightarrow> wp (finalize_with L q r) Q v"
  by (cases "sqlite3_finalize L q (impl v)")
     (auto simp: finalize_with_def wp_bind wp_on_impl wp_return at_table_def dest: finalize)

lemma bind_texts_prepared:
  "prepared q sql p \<Longrightarrow> bind_texts L n vs q = (True, q') \<Longrightarrow>
   prepared q' sql (\<lambda>k. if n \<le> k \<and> k < n + length vs then vs ! (k - n) else p k)"
proof (induction vs arbitrary: n q p)
  case Nil
  then show ?case by (auto simp: prepared_def fun_eq_iff)
next
  case (Cons v vs)
  obtain rc q1 where b: "bind_text_or_null L q n v = (rc, q1)" by fastforce
  with Cons.prems(2) have rc: "rc = 0" and rest: "bind_texts L (n + 1) vs q1 = (True, q')" by (auto split: if_splits)
  have q1: "prepared q1 sql (p(n := v))"
    using b rc Cons.prems(1) bind_text [of q n _ q1] bind_null [of q n q1]
    by (auto simp: bind_text_or_null_def prepared_def split: option.splits prod.splits if_splits)
  have "(\<lambda>k. if n + 1 \<le> k \<and> k < n + 1 + length vs then vs ! (k - (n + 1)) else (p(n := v)) k) =
      (\<lambda>k. if n \<le> k \<and> k < n + length (v # vs) then (v # vs) ! (k - n) else p k)"
    by (auto simp: fun_eq_iff nth_Cons' Suc_diff_le)
  with Cons.IH [OF q1 rest] show ?case by simp
qed

text \<open>What has been bound when the parameters of a creation or an update are complete.\<close>

lemma bind_time_prepared:
  "prepared q sql p \<Longrightarrow> bind_time L n t q = (True, q') \<Longrightarrow> prepared q' sql (p(n := format_rfc3339_utc t 32))"
  using bind_texts_prepared [of q sql p n "[format_rfc3339_utc t 32]" q']
  by (auto simp: bind_time_def fun_upd_def prepared_def fun_eq_iff split: option.splits)

lemma bind_expiry_prepared:
  "prepared q sql p \<Longrightarrow> bind_expiry L n s q = (True, q') \<Longrightarrow>
   prepared q' sql (p(n := if s_has_expires s then format_rfc3339_utc (s_expires_at s) 32 else None))"
  using bind_texts_prepared [of q sql p n "[None]" q'] bind_time_prepared [of q sql p n "s_expires_at s" q']
  by (auto simp: bind_expiry_def fun_upd_def prepared_def fun_eq_iff split: if_splits)

lemma create_binds_prepared:
  assumes "prepared q sql (\<lambda>_. None)" and "create_binds L s q = (True, q')"
  shows "prepared q' sql (insert_params s)"
proof -
  from assms(2) obtain q1 q2 where
      b: "bind_texts L 1 [s_id s, s_user_id s, opendbsc_session_state_str (Some s),
             s_public_key s, s_algorithm s, s_challenge s] q = (True, q1)"
      "bind_expiry L 7 s q1 = (True, q2)" "bind_time L 8 (s_created_at s) q2 = (True, q')"
    by (auto simp: create_binds_def split: prod.splits if_splits)
  note bind_time_prepared [OF bind_expiry_prepared [OF bind_texts_prepared [OF assms(1) b(1)] b(2)] b(3)]
  moreover have "((\<lambda>k. if 1 \<le> k \<and> k < 1 + length [s_id s, s_user_id s, opendbsc_session_state_str (Some s),
             s_public_key s, s_algorithm s, s_challenge s] then [s_id s, s_user_id s, opendbsc_session_state_str (Some s),
             s_public_key s, s_algorithm s, s_challenge s] ! (k - 1) else None)
      (7 := if s_has_expires s then format_rfc3339_utc (s_expires_at s) 32 else None,
       8 := format_rfc3339_utc (s_created_at s) 32)) = insert_params s"
    by (auto simp: fun_eq_iff insert_params_def row_of_session_def nth_Cons')
  ultimately show ?thesis by simp
qed

lemma update_binds_prepared:
  assumes "prepared q sql (\<lambda>_. None)" and "update_binds L s q = (True, q')"
  shows "prepared q' sql (update_params s)"
proof -
  from assms(2) obtain q1 q2 where
      b: "bind_texts L 1 [s_user_id s, opendbsc_session_state_str (Some s),
             s_public_key s, s_algorithm s, s_challenge s] q = (True, q1)"
      "bind_expiry L 6 s q1 = (True, q2)" "bind_texts L 7 [s_id s] q2 = (True, q')"
    by (auto simp: update_binds_def split: prod.splits if_splits)
  note bind_texts_prepared [OF bind_expiry_prepared [OF bind_texts_prepared [OF assms(1) b(1)] b(2)] b(3)]
  moreover have "(\<lambda>k. if 7 \<le> k \<and> k < 7 + length [s_id s] then [s_id s] ! (k - 7) else
     ((\<lambda>k. if 1 \<le> k \<and> k < 1 + length [s_user_id s, opendbsc_session_state_str (Some s),
             s_public_key s, s_algorithm s, s_challenge s] then [s_user_id s, opendbsc_session_state_str (Some s),
             s_public_key s, s_algorithm s, s_challenge s] ! (k - 1) else None)
      (6 := if s_has_expires s then format_rfc3339_utc (s_expires_at s) 32 else None)) k) = update_params s"
    by (auto simp: fun_eq_iff update_params_def row_of_session_def nth_Cons')
  ultimately show ?thesis by simp
qed

lemma wp_step_change:
  assumes at: "at_table w T v" and q: "prepared q sql p" and st: "sqlite_statement sql = Some st"
    and ch: "st \<in> {Insert, Update, Delete_By_Id, Delete_By_User}" and i: "st = Insert \<longrightarrow> p 1 \<noteq> None"
    and ok: "\<And>q' v' T' n. effect st p T = Some (T', n) \<Longrightarrow> at_table w T' v' \<Longrightarrow>
      sqlite3_changes L (impl v') = int n \<Longrightarrow> Q (SQLITE_DONE, q') v'"
    and fail: "\<And>rc q' v'. rc \<noteq> SQLITE_DONE \<Longrightarrow> at_table w T v' \<Longrightarrow> Q (rc, q') v'"
  shows "wp (on_impl (sqlite3_step L q)) Q v"
proof -
  obtain rc q' d where run: "sqlite3_step L q (impl v) = ((rc, q'), d)" by (metis prod.exhaust)
  from q have "progress q = Prepared" "sqlite_statement (sql_text q) = Some st" "st = Insert \<longrightarrow> bound q 1 \<noteq> None"
    and p: "bound q = p" using st i by (simp_all add: prepared_def)
  note law = step_change [OF run this(1,2) ch this(3), unfolded p]
  have "Q (rc, q') (v\<lparr>impl := d\<rparr>)"
  proof (cases "rc = SQLITE_DONE")
    case True
    with law at obtain n where "effect st p T = Some (tbl d, n)" "sqlite3_changes L d = int n"
      by (auto simp: at_table_def)
    with ok [of "tbl d" n "v\<lparr>impl := d\<rparr>"] at True show ?thesis by (simp add: at_table_def)
  next
    case False
    with law fail [OF False, of "v\<lparr>impl := d\<rparr>"] at show ?thesis by (simp add: at_table_def)
  qed
  then show ?thesis by (simp add: wp_on_impl run)
qed

lemma prepared_text:
  "prepared q sql p \<Longrightarrow> sqlite3_bind_text L q n t = (SQLITE_OK, q') \<Longrightarrow> prepared q' sql (p(n := Some t))"
  by (auto simp: prepared_def dest: bind_text)

lemma run_with_text_spec:
  assumes at: "at_table w T v" and st: "sqlite_statement sql = Some st" "st \<in> {Delete_By_Id, Delete_By_User}"
    and ok: "\<And>v' T' n. effect st ((\<lambda>_. None)(1 := Some x)) T = Some (T', n) \<Longrightarrow> at_table w T' v' \<Longrightarrow> Q 0 v'"
    and fail: "\<And>v'. at_table w T v' \<Longrightarrow> Q (-1) v'"
  shows "wp (run_with_text L sql x) Q v"
  unfolding run_with_text_def
proof (rule wp_bindI, rule wp_prepare [OF at], goal_cases)
  case (1 q v1)
  obtain rc q' where b: "sqlite3_bind_text L q 1 x = (rc, q')" by fastforce
  show ?case
  proof (cases "rc = SQLITE_OK")
    case False
    then show ?thesis using b by (simp, intro wp_finalize_with [OF 1(1)] fail)
  next
    case True
    with b prepared_text [OF 1(2)] have q': "prepared q' sql ((\<lambda>_. None)(1 := Some x))" by blast
    have "wp (do { (rc, stmt) \<leftarrow> on_impl (sqlite3_step L q');
         finalize_with L stmt (if rc = SQLITE_DONE then 0 else -1) }) Q v1"
    proof (rule wp_bindI, rule wp_step_change [OF 1(1) q' st(1)], goal_cases)
      case (3 q2 v2 T' n)
      from 3(1) show ?case by (simp, intro wp_finalize_with [OF 3(2)] ok)
    next
      case (4 rc2 q2 v2)
      then show ?case by (simp, intro wp_finalize_with [OF 4(2)] fail)
    qed (use st in auto)
    with True b show ?thesis by simp
  qed
next
  case (2 rc q v1)
  then show ?case using fail by (simp add: wp_return)
qed

lemma create_spec:
  assumes i: "s_id s = Some i"
  shows "wp (sqlite_create L (Some s)) (\<lambda>rc v. oframe w v \<and>
     (rc = 0 \<and> (\<exists>n. effect Insert (insert_params s) (tbl (impl w)) = Some (tbl (impl v), n)) \<or>
      rc = -1 \<and> tbl (impl v) = tbl (impl w))) w" (is "wp _ ?Q w")
proof -
  have fail: "?Q (-1) v" if "at_table w (tbl (impl w)) v" for v using that by (simp add: at_table_def)
  show ?thesis
    unfolding sqlite_create_def option.case i
    apply (simp only: option.distinct if_False)
  proof (rule wp_bindI, rule wp_prepare [OF at_table_start], goal_cases)
    case (1 q v1)
    obtain ok q' where b: "create_binds L s q = (ok, q')" by fastforce
    show ?case
    proof (cases ok)
      case False
      then show ?thesis using b fail by (simp, intro wp_finalize_with [OF 1(1)]) blast
    next
      case True
      then have q': "prepared q' insert_sql (insert_params s)" using create_binds_prepared [OF 1(2)] b by simp
      have "wp (do { (rc, stmt) \<leftarrow> on_impl (sqlite3_step L q');
         finalize_with L stmt (if rc = SQLITE_DONE then 0 else -1) }) ?Q v1"
      proof (rule wp_bindI, rule wp_step_change [OF 1(1) q' sqlite_statement_simps(1)], goal_cases)
        case (3 q2 v2 T' n)
        have "?Q 0 v'" if "at_table w T' v'" for v' using that 3(1) by (auto simp: at_table_def)
        then show ?case by (simp, intro wp_finalize_with [OF 3(2)]) blast
      next
        case (4 rc2 q2 v2)
        then show ?case using fail by (simp, intro wp_finalize_with [OF 4(2)]) blast
      qed (use i in \<open>auto simp: insert_params_def row_of_session_def\<close>)
      with True b show ?thesis by simp
    qed
  next
    case (2 rc q v1)
    then show ?case using fail by (simp add: wp_return)
  qed
qed

lemma update_spec:
  assumes i: "s_id s = Some i"
  shows "wp (sqlite_update L (Some s)) (\<lambda>rc v. oframe w v \<and>
     (rc = 0 \<and> (\<exists>n. effect Update (update_params s) (tbl (impl w)) = Some (tbl (impl v), n) \<and> 0 < n) \<or>
      rc = -1 \<and> (tbl (impl v) = tbl (impl w) \<or>
        effect Update (update_params s) (tbl (impl w)) = Some (tbl (impl v), 0)))) w" (is "wp _ ?Q w")
proof -
  have fail: "?Q (-1) v" if "at_table w (tbl (impl w)) v" for v using that by (simp add: at_table_def)
  show ?thesis
    unfolding sqlite_update_def option.case i
    apply (simp only: option.distinct if_False)
  proof (rule wp_bindI, rule wp_prepare [OF at_table_start], goal_cases)
    case (1 q v1)
    obtain ok q' where b: "update_binds L s q = (ok, q')" by fastforce
    show ?case
    proof (cases ok)
      case False
      then show ?thesis using b fail by (simp, intro wp_finalize_with [OF 1(1)]) blast
    next
      case True
      then have q': "prepared q' update_sql (update_params s)" using update_binds_prepared [OF 1(2)] b by simp
      have "wp (do { (rc, stmt) \<leftarrow> on_impl (sqlite3_step L q');
         if rc \<noteq> SQLITE_DONE then finalize_with L stmt (-1)
         else do { n \<leftarrow> on_impl (\<lambda>d. (sqlite3_changes L d, d)); finalize_with L stmt (if n > 0 then 0 else -1) } }) ?Q v1"
      proof (rule wp_bindI, rule wp_step_change [OF 1(1) q' sqlite_statement_simps(2)], goal_cases)
        case (3 q2 v2 T' n)
        have "?Q (if n > 0 then 0 else -1) v'" if "at_table w T' v'" for v'
          using that 3(1) by (auto simp: at_table_def)
        then have "wp (finalize_with L q2 (if n > 0 then 0 else -1)) ?Q v2" by (intro wp_finalize_with [OF 3(2)]) blast
        then show ?case by (simp add: wp_bind wp_on_impl 3(3))
      next
        case (4 rc2 q2 v2)
        then show ?case using fail by (simp, intro wp_finalize_with [OF 4(2)]) blast
      qed auto
      with True b show ?thesis by simp
    qed
  next
    case (2 rc q v1)
    then show ?case using fail by (simp add: wp_return)
  qed
qed

lemma delete_spec:
  "wp (sqlite_delete L (Some i)) (\<lambda>rc v. oframe w v \<and> (rc = 0 \<and> tbl (impl v) = (tbl (impl w))(i := None) \<or>
     rc = -1 \<and> tbl (impl v) = tbl (impl w))) w"
  unfolding sqlite_delete_def option.case
  by (rule run_with_text_spec [OF at_table_start sqlite_statement_simps(3)]) (auto simp: at_table_def effect_def)

text \<open>A row of a query as a session.\<close>

lemma framed_session_from_stmt:
  assumes "progress q = On_Row T r rs"
  shows "framed (session_from_stmt L q s0) (\<lambda>(rc, s). rc = -1 \<or> rc = 0 \<and> reads_as ample r s)"
proof -
  have "delivered ample r (map (sqlite3_column_text L q) [0..<8])"
    using column_text [OF assms] by (simp add: delivered_def)
  then show ?thesis
    unfolding session_from_stmt_def
    by (intro framed_weaken [OF framed_session_from_columns]) (auto simp: reads_as_def)
qed

lemma wp_first_row:
  assumes at: "at_table w T v" and q: "prepared q sql p" and st: "sqlite_statement sql = Some st"
    and sel: "st \<in> {Select_By_Id, Select_By_User}"
    and row: "\<And>q' v' r rs. at_table w T v' \<Longrightarrow> progress q' = On_Row T r rs \<Longrightarrow> answers st p T (r # rs) \<Longrightarrow> Q (SQLITE_ROW, q') v'"
    and none: "\<And>rc q' v'. rc \<noteq> SQLITE_ROW \<Longrightarrow> at_table w T v' \<Longrightarrow> rc = SQLITE_DONE \<longrightarrow> answers st p T [] \<Longrightarrow> Q (rc, q') v'"
  shows "wp (on_impl (sqlite3_step L q)) Q v"
proof -
  obtain rc q' d where run: "sqlite3_step L q (impl v) = ((rc, q'), d)" by (metis prod.exhaust)
  from q have "progress q = Prepared" "sqlite_statement (sql_text q) = Some st" and p: "bound q = p"
    using st by (simp_all add: prepared_def)
  note law = first_row [OF run this(1,2) sel, unfolded p]
  have v': "at_table w T (v\<lparr>impl := d\<rparr>)" using law at by (simp add: at_table_def)
  have "Q (rc, q') (v\<lparr>impl := d\<rparr>)"
  proof (cases "rc = SQLITE_ROW")
    case True
    with law at obtain r rs where "progress q' = On_Row T r rs" "answers st p T (r # rs)" by (auto simp: at_table_def)
    with row [OF v'] True show ?thesis by blast
  next
    case False
    with none [OF False v'] law at show ?thesis by (auto simp: at_table_def)
  qed
  then show ?thesis by (simp add: wp_on_impl run)
qed

lemma get_spec:
  "wp (sqlite_get L (Some i)) (\<lambda>(rc, out) v. oframe w v \<and>
     (rc = 0 \<and> (\<exists>r s. out = Some s \<and> tbl (impl w) i = Some r \<and> reads_as ample r s \<and>
        tbl (impl v) = tbl (impl w) \<and> live_between w v s) \<or>
      rc = -1 \<and> out = None \<and> (tbl (impl v) = tbl (impl w) \<or>
        (\<exists>r s. tbl (impl w) i = Some r \<and> reads_as ample r s \<and> expired_between w v s \<and>
           tbl (impl v) = (tbl (impl w))(i := None))))) w" (is "wp _ ?Q w")
proof -
  let ?T = "tbl (impl w)"
  have fail: "?Q (-1, None) v" if "at_table w ?T v" for v using that by (simp add: at_table_def)
  have fin: "wp (finalize_with L q (-1, None)) ?Q v" if "at_table w ?T v" for q v
    by (rule wp_finalize_with [OF that]) (rule fail)
  have got: "wp (do {
      now \<leftarrow> time_now;
      if s_has_expires s \<and> s_expires_at s < now then do {
        _ \<leftarrow> sqlite_delete L (Some i);
        finalize_with L q (-1, None) }
      else finalize_with L q (0, Some s) }) ?Q v"
    if at: "at_table w ?T v" and r: "?T i = Some r" "reads_as ample r s" for q v r s
  proof -
    let ?now = "wall_clock v (clock_reads v)" and ?v = "v\<lparr>clock_reads := Suc (clock_reads v)\<rparr>"
    have at1: "at_table w ?T ?v" using at by (simp add: at_table_def oframe_def)
    have wc: "wall_clock v = wall_clock w" "clock_reads w \<le> clock_reads v" using at by (auto simp: at_table_def oframe_def)
    show ?thesis
    proof (cases "s_has_expires s \<and> s_expires_at s < ?now")
      case True
      have ex: "expired_between w v' s" if "oframe ?v v'" for v'
        using True wc oframe_clock_reads [OF that] unfolding expired_between_def
        by (intro conjI exI [of _ "clock_reads v"]) auto
      have "wp (do { _ \<leftarrow> sqlite_delete L (Some i); finalize_with L q (-1, None) }) ?Q ?v"
      proof (rule wp_bindI, rule wp_mono [OF delete_spec], goal_cases)
        case (1 rc v2)
        then have v2: "oframe w v2" "oframe ?v v2" using at1 by (auto simp: at_table_def intro: oframe_trans)
        obtain T' where T': "tbl (impl v2) = T'" "T' = ?T \<or> T' = ?T(i := None)" using 1 at1 by (auto simp: at_table_def)
        have at2: "at_table v2 T' v2" using T'(1) by (simp add: at_table_def)
        show ?case
          by (rule wp_finalize_with [OF at2])
             (use T'(2) v2 r ex in \<open>auto simp: at_table_def intro: oframe_trans\<close>)
      qed
      with True show ?thesis by (simp add: wp_bind wp_time_now)
    next
      case False
      have "live_between w v' s" if "oframe ?v v'" for v'
        using False wc oframe_clock_reads [OF that] unfolding live_between_def
        by (intro impI exI [of _ "clock_reads v"]) auto
      then have "wp (finalize_with L q (0, Some s)) ?Q ?v"
        by (intro wp_finalize_with [of ?v ?T ?v]) (use at1 r in \<open>auto simp: at_table_def intro: oframe_trans\<close>)
      with False show ?thesis by (auto simp: wp_bind wp_time_now)
    qed
  qed
  have row: "wp (do {
      ok \<leftarrow> alloc;
      if \<not> ok then finalize_with L q (-1, None)
      else do {
        (rc, session) \<leftarrow> session_from_stmt L q session_defaults;
        if rc \<noteq> 0 then finalize_with L q (-1, None)
        else do {
          now \<leftarrow> time_now;
          if s_has_expires session \<and> s_expires_at session < now then do {
            _ \<leftarrow> sqlite_delete L (Some i);
            finalize_with L q (-1, None) }
          else finalize_with L q (0, Some session) } } }) ?Q v"
    if at: "at_table w ?T v" and q: "progress q = On_Row ?T r rs" and r: "?T i = Some r" for q v r rs
  proof (rule wp_bindI, rule wp_framed [OF framed_alloc], goal_cases)
    case (1 ok v1)
    note at1 = at_table_frame [OF at 1(1)]
    have "wp (do {
        (rc, session) \<leftarrow> session_from_stmt L q session_defaults;
        if rc \<noteq> 0 then finalize_with L q (-1, None)
        else do {
          now \<leftarrow> time_now;
          if s_has_expires session \<and> s_expires_at session < now then do {
            _ \<leftarrow> sqlite_delete L (Some i);
            finalize_with L q (-1, None) }
          else finalize_with L q (0, Some session) } }) ?Q v1"
      by (rule wp_bindI, rule wp_framed [OF framed_session_from_stmt [OF q]])
         (use fin [OF at_table_frame [OF at1]] got [OF at_table_frame [OF at1] r] in auto)
    with fin [OF at1] show ?case by auto
  qed
  show ?thesis
    unfolding sqlite_get_def option.case
  proof (rule wp_bindI, rule wp_prepare [OF at_table_start], goal_cases)
    case (1 q v1)
    obtain rc q' where b: "sqlite3_bind_text L q 1 i = (rc, q')" by fastforce
    show ?case
    proof (cases "rc = SQLITE_OK")
      case False
      then show ?thesis using b fin [OF 1(1)] by simp
    next
      case True
      with b prepared_text [OF 1(2)] have q': "prepared q' select_by_id_sql ((\<lambda>_. None)(1 := Some i))" by blast
      show ?thesis
        unfolding b True prod.case
        apply (simp only: simp_thms if_False)
        apply (rule wp_bindI, rule wp_first_row [OF 1(1) q' sqlite_statement_simps(5)])
          apply simp
        subgoal premises h for q2 v2 r rs using row [OF h(1,2)] select_session(1) [OF _ h(3), of i] by simp
        subgoal premises h for rc2 q2 v2 using fin [OF h(2)] h(1) by simp
        done
    qed
  next
    case (2 rc q v1)
    then show ?case using fail by (simp add: wp_return)
  qed
qed

text \<open>
  The loop over a user's rows collects the session of every row, the expired ones by their identifier,
  or stops on a failure.
\<close>

definition collected :: "'d sys \<Rightarrow> table \<Rightarrow> int \<Rightarrow> columns list \<Rightarrow> OpenDBSC_Session list \<Rightarrow> string list \<Rightarrow>
    bool \<times> 'q \<times> OpenDBSC_Session list \<times> string list \<Rightarrow> 'd sys \<Rightarrow> bool" where
  "collected w T now rows ss es = (\<lambda>(ok, q, ss', es') v. at_table w T v \<and> (ok \<longrightarrow> gathered_as ample now rows ss es ss' es'))"

lemma user_row_turn:
  assumes at: "at_table w T v" and q: "progress q = On_Row T r rs"
    and IH: "\<And>ss es v'. at_table w T v' \<Longrightarrow> wp (user_rows L fuel now q ss es) (collected w T now rs ss es) v'"
  shows "wp (do {
       (rc, tmp) \<leftarrow> session_from_stmt L q session_defaults;
       if rc \<noteq> 0 then ret (False, q, [], es)
       else do {
         kept \<leftarrow> keep_row now tmp ss es;
         case kept of None \<Rightarrow> ret (False, q, [], es)
         | Some (ss, es) \<Rightarrow> user_rows L fuel now q ss es } }) (collected w T now (r # rs) ss es) v"
proof (rule wp_bindI, rule wp_framed [OF framed_session_from_stmt [OF q]], goal_cases)
  case (1 res v1)
  obtain rc tmp where res: "res = (rc, tmp)" by fastforce
  note at1 = at_table_frame [OF at 1(1)]
  have stop: "wp (ret (False, q, [], es)) (collected w T now (r # rs) ss es) v'" if "at_table w T v'" for v'
    using that by (simp add: wp_return collected_def)
  show ?case
  proof (cases "rc = 0")
    case False
    then show ?thesis using stop [OF at1] by (simp add: res)
  next
    case True
    with 1(2) res have s: "reads_as ample r tmp" by simp
    with reads_as_keys obtain i where i: "s_id tmp = Some i" by fastforce
    have "wp (do { kept \<leftarrow> keep_row now tmp ss es;
         case kept of None \<Rightarrow> ret (False, q, [], es)
         | Some (ss, es) \<Rightarrow> user_rows L fuel now q ss es }) (collected w T now (r # rs) ss es) v1"
    proof (rule wp_bindI, rule wp_framed [OF framed_keep_row [OF i]], goal_cases)
      case (1 kept v2)
      note at2 = at_table_frame [OF at1 1(1)]
      show ?case
      proof (cases kept)
        case None
        then show ?thesis using stop [OF at2] by simp
      next
        case (Some k)
        with 1(2) have k: "k = (if expired_at now tmp then (ss, es @ [i]) else (ss @ [tmp], es))" by simp
        have "wp (user_rows L fuel now q (fst k) (snd k)) (collected w T now (r # rs) ss es) v2"
          by (rule wp_mono [OF IH [OF at2]])
             (use gathered_as_Cons [OF s i k] in \<open>auto simp: collected_def\<close>)
        then show ?thesis by (simp add: Some case_prod_unfold)
      qed
    qed
    then show ?thesis by (simp add: res True)
  qed
qed

lemma wp_next_row:
  assumes at: "at_table w T v" and q: "progress q = On_Row T r rs"
    and row: "\<And>q' v' r' rs'. at_table w T v' \<Longrightarrow> rs = r' # rs' \<Longrightarrow> progress q' = On_Row T r' rs' \<Longrightarrow> Q (SQLITE_ROW, q') v'"
    and none: "\<And>rc q' v'. rc \<noteq> SQLITE_ROW \<Longrightarrow> at_table w T v' \<Longrightarrow> rc = SQLITE_DONE \<longrightarrow> rs = [] \<Longrightarrow> Q (rc, q') v'"
  shows "wp (on_impl (sqlite3_step L q)) Q v"
proof -
  obtain rc q' d where run: "sqlite3_step L q (impl v) = ((rc, q'), d)" by (metis prod.exhaust)
  from at q have "progress q = On_Row (tbl (impl v)) r rs" and T: "tbl (impl v) = T" by (simp_all add: at_table_def)
  note law = next_row [OF run this(1), unfolded T]
  have v': "at_table w T (v\<lparr>impl := d\<rparr>)" using law at by (simp add: at_table_def)
  have "Q (rc, q') (v\<lparr>impl := d\<rparr>)"
    using law row [OF v'] none [OF _ v'] by (cases "rc = SQLITE_ROW") auto
  then show ?thesis by (simp add: wp_on_impl run)
qed

lemma user_rows_on:
  "at_table w T v \<Longrightarrow> progress q = On_Row T r rs \<Longrightarrow> length rs < fuel \<Longrightarrow>
   wp (user_rows L fuel now q ss es) (collected w T now rs ss es) v"
proof (induction fuel arbitrary: v q r rs ss es)
  case (Suc fuel)
  show ?case
    unfolding user_rows.simps
  proof (rule wp_bindI, rule wp_next_row [OF Suc.prems(1,2)], goal_cases)
    case (1 q' v' r' rs')
    have "wp (user_rows L fuel now q' ss es) (collected w T now rs' ss es) v2" if "at_table w T v2" for ss es v2
      by (rule Suc.IH [OF that 1(3)]) (use 1(2) Suc.prems(3) in simp)
    from user_row_turn [OF 1(1,3) this] show ?case by (simp add: 1(2))
  next
    case (2 rc q' v')
    then show ?case by (auto simp: wp_return collected_def gathered_as_Nil)
  qed
qed simp

text \<open>From the start: the rows are those the engine answers with, and the bound is enough.\<close>

lemma user_rows_spec:
  assumes at: "at_table w T v" and q: "prepared q select_by_user_sql p"
    and ok: "\<And>rows x v'. answers Select_By_User p T rows \<Longrightarrow> collected w T now rows [] [] x v' \<Longrightarrow> Q x v'"
    and fail: "\<And>q' ss es v'. at_table w T v' \<Longrightarrow> Q (False, q', ss, es) v'"
  shows "wp (user_rows L (Suc (result_rows L q (impl v))) now q [] []) Q v"
proof -
  have bound: "length rows \<le> result_rows L q (impl v)" if "answers Select_By_User p T rows" for rows
    by (rule result_rows) (use q at that in \<open>auto simp: prepared_def at_table_def\<close>)
  show ?thesis
    unfolding user_rows.simps
  proof (rule wp_bindI, rule wp_first_row [OF at q sqlite_statement_simps(6)], goal_cases)
    case (2 q' v' r rs)
    have "wp (user_rows L (result_rows L q (impl v)) now q' ss es) (collected w T now rs ss es) v2"
      if "at_table w T v2" for ss es v2
      by (rule user_rows_on [OF that 2(2)]) (use bound [OF 2(3)] in simp)
    from wp_mono [OF user_row_turn [OF 2(1,2) this] ok [OF 2(3)]] show ?case by simp
  next
    case (3 rc q' v')
    then show ?case using ok [of "[]"] fail by (auto simp: wp_return collected_def gathered_as_Nil)
  qed simp
qed

lemma delete_expired_spec:
  "oframe w v \<Longrightarrow> purged T A (tbl (impl v)) \<Longrightarrow> set is \<subseteq> A \<Longrightarrow>
   wp (delete_expired L is) (\<lambda>_ v'. oframe w v' \<and> purged T A (tbl (impl v'))) v"
proof (induction "is" arbitrary: v)
  case (Cons i "is")
  show ?case
    unfolding delete_expired.simps
    by (rule wp_bindI, rule wp_mono [OF delete_spec], rule Cons.IH)
       (use Cons.prems oframe_trans purged_del [of T A "tbl (impl v)" i] in \<open>auto simp del: fun_upd_apply\<close>)
qed (simp add: wp_return)

lemma user_done_Some: "user_done L q (Some es) = finalize_with L q (-1, [])"
  by (simp add: user_done_def release_ids_def finalize_with_def)

lemma get_by_user_spec:
  assumes binds: "query_binds L u (impl w)"
  shows "wp (sqlite_get_by_user_id L (Some u)) (\<lambda>(rc, out) v. oframe w v \<and>
     (rc = -1 \<and> out = [] \<and> tbl (impl v) = tbl (impl w) \<or>
      rc = 0 \<and> (\<exists>n rows es. clock_reads w \<le> n \<and> n < clock_reads v \<and>
        answers Select_By_User ((\<lambda>_. None)(1 := Some u)) (tbl (impl w)) rows \<and>
        gathered_as ample (wall_clock w n) rows [] [] out es \<and> purged (tbl (impl w)) (set es) (tbl (impl v))))) w"
  (is "wp _ ?Q w")
proof -
  let ?T = "tbl (impl w)" and ?p = "(\<lambda>_. None)(1 := Some u)"
  have fail: "?Q (-1, []) v" if "at_table w ?T v" for v using that by (simp add: at_table_def)
  have fin: "wp (finalize_with L q (-1, [])) ?Q v" if "at_table w ?T v" for q v
    by (rule wp_finalize_with [OF that]) (rule fail)
  have tail: "wp (do { on_impl (sqlite3_finalize L q); delete_expired L es; ret (0, ss) }) ?Q v"
    if rows: "answers Select_By_User ?p ?T rows" and col: "collected w ?T (wall_clock w n) rows [] [] (True, q, ss, es) v"
      and n: "clock_reads w \<le> n" "n < clock_reads v" for rows q ss es v n
  proof -
    from col have at: "at_table w ?T v" and g: "gathered_as ample (wall_clock w n) rows [] [] ss es" by (auto simp: collected_def)
    have "wp (do { delete_expired L es; ret (0, ss) }) ?Q v1"
      if at1: "at_table w ?T v1" and c: "clock_reads v \<le> clock_reads v1" for v1
    proof (rule wp_bindI, rule wp_mono [OF delete_expired_spec [where w = v1 and T = ?T, OF oframe_refl _ subset_refl]], goal_cases)
      case (2 u2 v2)
      then have v2: "oframe w v2" "clock_reads v1 \<le> clock_reads v2"
        using at1 by (auto simp: at_table_def intro: oframe_trans oframe_clock_reads)
      have "?Q (0, ss) v2"
        using v2 2 rows g n c by (auto intro!: exI [of _ n] exI [of _ rows] exI [of _ es])
      then show ?case by (simp add: wp_return)
    qed (use at1 in \<open>auto simp: at_table_def\<close>)
    moreover define d where "d = snd (sqlite3_finalize L q (impl v))"
    then have fin: "sqlite3_finalize L q (impl v) = ((), d)" by (simp add: prod_eq_iff)
    moreover from finalize [OF fin] at have "at_table w ?T (v\<lparr>impl := d\<rparr>)" by (simp add: at_table_def)
    ultimately show ?thesis by (simp add: wp_bind [of "on_impl _"] wp_on_impl)
  qed
  have query: "wp (do {
      now \<leftarrow> time_now;
      fuel \<leftarrow> on_impl (\<lambda>d. (Suc (result_rows L q d), d));
      (ok, stmt, sessions, expired) \<leftarrow> user_rows L fuel now q [] [];
      if \<not> ok then user_done L stmt (Some expired)
      else do { on_impl (sqlite3_finalize L stmt); delete_expired L expired; ret (0, sessions) } }) ?Q v"
    if at: "at_table w ?T v" and q: "prepared q select_by_user_sql ?p" for q v
  proof -
    let ?n = "clock_reads v" and ?v = "v\<lparr>clock_reads := Suc (clock_reads v)\<rparr>"
    have at1: "at_table w ?T ?v" using at by (simp add: at_table_def oframe_def)
    have wc: "wall_clock v = wall_clock w" "clock_reads w \<le> ?n" using at by (auto simp: at_table_def oframe_def)
    have at2: "at_table ?v ?T ?v" using at by (simp add: at_table_def)
    have rejoin: "at_table w ?T v'" if "at_table ?v ?T v'" for v'
      using that at1 by (auto simp: at_table_def intro: oframe_trans)
    have "wp (user_rows L (Suc (result_rows L q (impl ?v))) (wall_clock w ?n) q [] [])
       (\<lambda>(ok, stmt, sessions, expired). wp (if \<not> ok then user_done L stmt (Some expired)
         else do { on_impl (sqlite3_finalize L stmt); delete_expired L expired; ret (0, sessions) }) ?Q) ?v"
    proof (rule user_rows_spec [OF at2 q], goal_cases)
      case (1 rows x v')
      obtain ok q' ss es where x: "x = (ok, q', ss, es)" by (metis prod.exhaust)
      have at': "at_table ?v ?T v'" using 1(2) x by (simp add: collected_def)
      then have "?n < clock_reads v'" using oframe_clock_reads [of ?v v'] by (auto simp: at_table_def)
      moreover have "collected w ?T (wall_clock w ?n) rows [] [] (ok, q', ss, es) v'"
        using 1(2) rejoin [OF at'] x by (simp add: collected_def)
      ultimately show ?case
        using tail [OF 1(1), of ?n q' ss es v'] fin [OF rejoin [OF at']] wc(2) by (auto simp: x user_done_Some)
    next
      case (2 q' ss es v')
      then show ?case using fin [OF rejoin] by (simp add: user_done_Some)
    qed
    then show ?thesis by (simp add: wp_bind wp_time_now wp_on_impl wc(1) case_prod_unfold)
  qed
  obtain rc q d where prep: "sqlite3_prepare_v2 L select_by_user_sql (impl w) = ((rc, q), d)" by (metis prod.exhaust)
  have at: "at_table w ?T (w\<lparr>impl := d\<rparr>)" using prepare [OF prep] by (simp add: at_table_def)
  show ?thesis
  proof (cases "rc = SQLITE_OK")
    case True
    obtain rc' q' where b: "sqlite3_bind_text L q 1 u = (rc', q')" by fastforce
    have rc': "rc' = SQLITE_OK" using binds prep b True by (simp add: query_binds_def)
    have "prepared q select_by_user_sql (\<lambda>_. None)" using prepare [OF prep] True by (simp add: prepared_def)
    with b rc' prepared_text have "prepared q' select_by_user_sql ?p" by blast
    from query [OF at this] b rc' True show ?thesis
      by (simp add: sqlite_get_by_user_id_def wp_bind [of "on_impl (sqlite3_prepare_v2 L select_by_user_sql)"] wp_on_impl prep)
  next
    case False
    with fail [OF at] show ?thesis
      by (simp add: sqlite_get_by_user_id_def wp_bind wp_on_impl prep wp_return)
  qed
qed

text \<open>Otherwise the release of the identifiers is undefined.\<close>

lemma get_by_user_unbound:
  assumes "\<not> query_binds L u (impl w)"
  shows "wp (sqlite_get_by_user_id L (Some u)) (\<lambda>_ v. undef v) w"
  using assms
  by (auto simp: query_binds_def sqlite_get_by_user_id_def user_done_def release_ids_def wp_bind wp_on_impl wps
      split: prod.splits)

lemma delete_by_user_spec:
  "wp (sqlite_delete_by_user_id L (Some u)) (\<lambda>rc v. oframe w v \<and>
     (rc = 0 \<and> (\<exists>n. effect Delete_By_User ((\<lambda>_. None)(1 := Some u)) (tbl (impl w)) = Some (tbl (impl v), n)) \<or>
      rc = -1 \<and> tbl (impl v) = tbl (impl w))) w"
  unfolding sqlite_delete_by_user_id_def option.case
  by (rule run_with_text_spec [OF at_table_start sqlite_statement_simps(4)]) (auto simp: at_table_def)

text \<open>The contract of the clients.\<close>

lemma contract:
  assumes ample
  shows "session_store (sqlite_store_vtable L) (\<lambda>d. row_view (tbl d)) (\<lambda>d. table_ok (tbl d)) row_storable"
proof
  fix x i s assume "table_ok (tbl x)" "row_view (tbl x) i = Some s"
  then show "s_id s = Some i" by (rule row_view_id)
next
  fix w w' s i rc
  assume ok: "table_ok (tbl (impl w))" and s: "s_id s = Some i" "row_storable s"
    and run: "run_state (st_create (sqlite_store_vtable L) (Some s)) w = (rc, w')"
  from run have "run_state (sqlite_create L (Some s)) w = (rc, w')" by (simp add: sqlite_store_vtable_def)
  from wpD [OF create_spec [OF s(1)] this] insert_session [OF ok s, of "tbl (impl w')"] ok
  show "oframe w w' \<and> table_ok (tbl (impl w')) \<and>
    (rc = 0 \<and> row_view (tbl (impl w')) = (row_view (tbl (impl w)))(i \<mapsto> s) \<or>
     rc = -1 \<and> (row_view (tbl (impl w')) = row_view (tbl (impl w)) \<or>
       row_view (tbl (impl w')) = (row_view (tbl (impl w)))(i := None)))"
    by (auto simp: sqlite_store_vtable_def)
next
  fix w w' i rc out
  assume ok: "table_ok (tbl (impl w))" and run: "run_state (st_get (sqlite_store_vtable L) (Some i)) w = ((rc, out), w')"
  from run have "run_state (sqlite_get L (Some i)) w = ((rc, out), w')" by (simp add: sqlite_store_vtable_def)
  from wpD [OF get_spec this] ok \<open>ample\<close>
  show "oframe w w' \<and> table_ok (tbl (impl w')) \<and>
    (rc = 0 \<and> out \<noteq> None \<and> row_view (tbl (impl w)) i = out \<and> row_view (tbl (impl w')) = row_view (tbl (impl w)) \<and>
       live_between w w' (the out) \<or>
     rc = -1 \<and> out = None \<and>
       (row_view (tbl (impl w')) = row_view (tbl (impl w)) \<or>
        (\<exists>s. row_view (tbl (impl w)) i = Some s \<and> expired_between w w' s \<and>
             row_view (tbl (impl w')) = (row_view (tbl (impl w)))(i := None))))"
    by (auto simp: sqlite_store_vtable_def row_view_def [of "tbl (impl w)" i] row_view_del table_ok_del)
next
  fix w w' s s0 i rc
  assume ok: "table_ok (tbl (impl w))" and s: "s_id s = Some i" "row_storable s"
    and s0: "row_view (tbl (impl w)) i = Some s0" "s_created_at s0 = s_created_at s"
    and run: "run_state (st_update (sqlite_store_vtable L) (Some s)) w = (rc, w')"
  from run have "run_state (sqlite_update L (Some s)) w = (rc, w')" by (simp add: sqlite_store_vtable_def)
  from wpD [OF update_spec [OF s(1)] this] update_session [OF ok s s0(1), of "tbl (impl w')"] s0(2) ok
  show "oframe w w' \<and> table_ok (tbl (impl w')) \<and>
    (rc = 0 \<and> row_view (tbl (impl w')) = (row_view (tbl (impl w)))(i \<mapsto> s) \<or>
     rc = -1 \<and> (row_view (tbl (impl w')) = row_view (tbl (impl w)) \<or>
       row_view (tbl (impl w')) = (row_view (tbl (impl w)))(i := None)))"
    by (auto simp: sqlite_store_vtable_def)
next
  fix w w' i rc
  assume ok: "table_ok (tbl (impl w))" and run: "run_state (st_delete (sqlite_store_vtable L) (Some i)) w = (rc, w')"
  from run have "run_state (sqlite_delete L (Some i)) w = (rc, w')" by (simp add: sqlite_store_vtable_def)
  from wpD [OF delete_spec this] ok
  show "oframe w w' \<and> table_ok (tbl (impl w')) \<and>
    (rc = 0 \<and> row_view (tbl (impl w')) = (row_view (tbl (impl w)))(i := None) \<or>
     rc = -1 \<and> (row_view (tbl (impl w')) = row_view (tbl (impl w)) \<or>
       row_view (tbl (impl w')) = (row_view (tbl (impl w)))(i := None)))"
    by (auto simp: sqlite_store_vtable_def row_view_del table_ok_del)
next
  fix w :: "'d sys" and xs
  show "run_state (st_free_sessions (sqlite_store_vtable L) xs) w = ((), w)"
    by (simp add: sqlite_store_vtable_def sqlite_free_sessions_def)
qed

lemma get_by_user_exact:
  assumes ok: "table_ok (tbl (impl w))" and ample
    and binds: "query_binds L u (impl w)"
    and run: "run_state (sqlite_get_by_user_id L (Some u)) w = ((rc, out), w')"
  shows "oframe w w' \<and> table_ok (tbl (impl w')) \<and>
    (rc = -1 \<and> out = [] \<and> tbl (impl w') = tbl (impl w) \<or>
     rc = 0 \<and> (\<exists>n. clock_reads w \<le> n \<and> n < clock_reads w' \<and>
        user_answer (tbl (impl w)) u (wall_clock w n) out (tbl (impl w'))))"
proof (cases "rc = 0")
  case False
  with wpD [OF get_by_user_spec [OF binds] run] ok show ?thesis by auto
next
  case True
  with wpD [OF get_by_user_spec [OF binds] run] obtain n rows es where o: "oframe w w'" and n: "clock_reads w \<le> n" "n < clock_reads w'"
    and rows: "answers Select_By_User ((\<lambda>_. None)(1 := Some u)) (tbl (impl w)) rows"
    and g: "gathered_as ample (wall_clock w n) rows [] [] out es" and T': "purged (tbl (impl w)) (set es) (tbl (impl w'))"
    by auto
  from g \<open>ample\<close> have g: "gathered (wall_clock w n) rows [] [] out es" by (simp add: gathered_as_exact)
  have "user_answer (tbl (impl w)) u (wall_clock w n) out (tbl (impl w'))"
    by (rule gathered_user_answer [OF ok _ rows g T']) simp
  with True o n purged_ok [OF T' ok] show ?thesis by blast
qed

end

text \<open>A library that never lacks the memory to hand out a column keeps the contract of the clients.\<close>

locale sqlite_ample = sqlite_engine L tbl sql_text bound progress True
  for L :: "('d, 'q) sqlite3" and tbl :: "'d \<Rightarrow> table" and sql_text bound progress

sublocale sqlite_ample \<subseteq> client: session_store "sqlite_store_vtable L"
    "\<lambda>d. row_view (tbl d)" "\<lambda>d. table_ok (tbl d)" row_storable
  by (rule contract) simp

end
