(* ===== verification/Odbc_Store.thy ===== *)
theory Odbc_Store
  imports Sql_Rows
begin

text \<open>
  The ODBC store, \<^verbatim>\<open>src/store/odbc.c\<close>. The driver manager and the drivers behind it are not part of
  the repository: their calls are a parameter, functions of the connection and of the statement handle,
  and the locale \<open>odbc_engine\<close> says what the code relies on. Any call may fail. The theorems: a column of
  any length is read completely, in chunks; and on every such driver, with a table name that fits the
  statement buffers, the store satisfies the contract \<open>session_store\<close> of its clients.
\<close>

section \<open>The driver manager\<close>

definition SQL_SUCCESS :: int where
  "SQL_SUCCESS = 0"

definition SQL_SUCCESS_WITH_INFO :: int where
  "SQL_SUCCESS_WITH_INFO = 1"

definition SQL_NO_DATA :: int where
  "SQL_NO_DATA = 100"

definition SQL_ERROR :: int where
  "SQL_ERROR = -1"

definition SQL_NULL_DATA :: int where
  "SQL_NULL_DATA = -1"

definition SQL_NO_TOTAL :: int where
  "SQL_NO_TOTAL = -4"

lemmas sql_codes = SQL_SUCCESS_def SQL_SUCCESS_WITH_INFO_def SQL_NO_DATA_def SQL_ERROR_def
  SQL_NULL_DATA_def SQL_NO_TOTAL_def

definition SQL_SUCCEEDED :: "int \<Rightarrow> bool" where
  "SQL_SUCCEEDED rc \<longleftrightarrow> rc = SQL_SUCCESS \<or> rc = SQL_SUCCESS_WITH_INFO"

text \<open>
  The calls. The four that set a connection up are their answers; \<open>SQLDriverConnect\<close> is given the login
  timeout that was set. \<open>SQLAllocStmt\<close> is \<^verbatim>\<open>SQLAllocHandle\<close> with \<^verbatim>\<open>SQL_HANDLE_STMT\<close>, a handle of
  \<open>None\<close> being \<^verbatim>\<open>SQL_NULL_HSTMT\<close>. \<open>SQLGetData\<close> answers with its code, the length indicator and the
  characters it has put into the buffer. The last two fields are not calls: they bound the number of rows
  that are still to be fetched and the length of the text that is still to be read.
\<close>

record ('d, 'q) odbc =
  SQLAllocEnv :: int
  SQLSetEnvAttr :: int
  SQLAllocDbc :: int
  SQLDriverConnect :: "int option \<Rightarrow> string \<Rightarrow> int \<times> 'd"
  SQLDisconnect :: "'d \<Rightarrow> unit \<times> 'd"
  SQLAllocStmt :: "'d \<Rightarrow> (int \<times> 'q option) \<times> 'd"
  SQLFreeStmt :: "'q \<Rightarrow> 'd \<Rightarrow> unit \<times> 'd"
  SQLPrepare :: "'q \<Rightarrow> string \<Rightarrow> 'd \<Rightarrow> (int \<times> 'q) \<times> 'd"
  SQLBindParameter :: "'q \<Rightarrow> nat \<Rightarrow> string option \<Rightarrow> int \<times> 'q"
  SQLExecute :: "'q \<Rightarrow> 'd \<Rightarrow> (int \<times> 'q) \<times> 'd"
  SQLExecDirect :: "'q \<Rightarrow> string \<Rightarrow> 'd \<Rightarrow> (int \<times> 'q) \<times> 'd"
  SQLFetch :: "'q \<Rightarrow> 'd \<Rightarrow> (int \<times> 'q) \<times> 'd"
  SQLGetData :: "'q \<Rightarrow> nat \<Rightarrow> nat \<Rightarrow> (int \<times> int \<times> string) \<times> 'q"
  SQLRowCount :: "'q \<Rightarrow> int \<times> int"
  rows_left :: "'q \<Rightarrow> nat"
  text_left :: "'q \<Rightarrow> nat"

section \<open>The context\<close>

record OpenDBSC_OdbcConfig =
  od_connection_string :: "string option"
  od_table_name :: "string option"
  od_auto_create_table :: int
  od_login_timeout_seconds :: int

record 'd opendbsc_odbc_ctx =
  oc_dbc :: 'd
  oc_mutex :: bool
  oc_table_name :: string

type_synonym ('d, 'r) odbc_op = "('d opendbsc_odbc_ctx sys, 'r) state"

definition on_dbc :: "('d \<Rightarrow> 'r \<times> 'd) \<Rightarrow> ('d, 'r) odbc_op" where
  "on_dbc f = on_impl (\<lambda>c. case f (oc_dbc c) of (r, d) \<Rightarrow> (r, c\<lparr>oc_dbc := d\<rparr>))"

definition table_name :: "('d, string) odbc_op" where
  "table_name = do { c \<leftarrow> get_impl; ret (oc_table_name c) }"

text \<open>Locking the mutex again before it is unlocked would block for ever, which counts as undefined.\<close>

definition ctx_lock :: "('d, unit) odbc_op" where
  "ctx_lock = do { c \<leftarrow> get_impl; if oc_mutex c then ub () else put_impl (c\<lparr>oc_mutex := True\<rparr>) }"

definition ctx_unlock :: "('d, unit) odbc_op" where
  "ctx_unlock = do { c \<leftarrow> get_impl; put_impl (c\<lparr>oc_mutex := False\<rparr>) }"

definition unlock_with :: "'r \<Rightarrow> ('d, 'r) odbc_op" where
  "unlock_with r = do { ctx_unlock; ret r }"

section \<open>Identifiers\<close>

definition identifier_char :: "char \<Rightarrow> bool" where
  "identifier_char c \<longleftrightarrow>
     (let n = of_char c :: nat
      in 97 \<le> n \<and> n \<le> 122 \<or> 65 \<le> n \<and> n \<le> 90 \<or> 48 \<le> n \<and> n \<le> 57 \<or> c = CHR ''_'')"

fun identifier_loop :: "string \<Rightarrow> int" where
  "identifier_loop [] = 1"
| "identifier_loop (c # p) = (if \<not> identifier_char c then 0 else identifier_loop p)"

definition is_valid_identifier :: "string option \<Rightarrow> int" where
  "is_valid_identifier name =
     (case name of None \<Rightarrow> 0 | Some s \<Rightarrow> if s = [] then 0 else identifier_loop s)"

section \<open>Statements\<close>

definition OPENDBSC_ODBC_MAX_PARAMS :: nat where
  "OPENDBSC_ODBC_MAX_PARAMS = 8"

text \<open>
  The wrapper is used only between a successful \<open>odbc_prepare\<close> and its close, where the handle is not
  NULL. The indicators it keeps say whether a parameter is NULL, which is part of the bound value here.
\<close>

record 'q odbc_stmt =
  os_stmt :: 'q
  os_nparams :: nat

definition odbc_stmt_close :: "('d, 'q) odbc \<Rightarrow> 'q odbc_stmt \<Rightarrow> ('d, unit) odbc_op" where
  "odbc_stmt_close L s = on_dbc (SQLFreeStmt L (os_stmt s))"

definition odbc_prepare :: "('d, 'q) odbc \<Rightarrow> string \<Rightarrow> ('d, 'q odbc_stmt option) odbc_op" where
  "odbc_prepare L sql = do {
     (rc, h) \<leftarrow> on_dbc (SQLAllocStmt L);
     case h of
       None \<Rightarrow> ret None
     | Some q \<Rightarrow>
         if rc \<noteq> SQL_SUCCESS then do { on_dbc (SQLFreeStmt L q); ret None }
         else do {
           (rc, q) \<leftarrow> on_dbc (SQLPrepare L q sql);
           if rc \<noteq> SQL_SUCCESS then do { on_dbc (SQLFreeStmt L q); ret None }
           else ret (Some \<lparr>os_stmt = q, os_nparams = 0\<rparr>) } }"

definition odbc_bind_text :: "('d, 'q) odbc \<Rightarrow> 'q odbc_stmt \<Rightarrow> string option \<Rightarrow> int \<times> 'q odbc_stmt" where
  "odbc_bind_text L s v =
     (if os_nparams s \<ge> OPENDBSC_ODBC_MAX_PARAMS then (-1, s)
      else (case SQLBindParameter L (os_stmt s) (os_nparams s + 1) v of (rc, q) \<Rightarrow>
        (if SQL_SUCCEEDED rc then 0 else -1, \<lparr>os_stmt = q, os_nparams = os_nparams s + 1\<rparr>)))"

text \<open>Successive parameters, up to the first that fails.\<close>

fun odbc_binds :: "('d, 'q) odbc \<Rightarrow> string option list \<Rightarrow> 'q odbc_stmt \<Rightarrow> bool \<times> 'q odbc_stmt" where
  "odbc_binds L [] s = (True, s)"
| "odbc_binds L (v # vs) s =
     (case odbc_bind_text L s v of (rc, s) \<Rightarrow> if rc \<noteq> 0 then (False, s) else odbc_binds L vs s)"

definition execute_stmt :: "('d, 'q) odbc \<Rightarrow> 'q odbc_stmt \<Rightarrow> ('d, int \<times> 'q odbc_stmt) odbc_op" where
  "execute_stmt L s = do {
     (rc, q) \<leftarrow> on_dbc (SQLExecute L (os_stmt s));
     ret (rc, s\<lparr>os_stmt := q\<rparr>) }"

definition fetch_stmt :: "('d, 'q) odbc \<Rightarrow> 'q odbc_stmt \<Rightarrow> ('d, int \<times> 'q odbc_stmt) odbc_op" where
  "fetch_stmt L s = do {
     (rc, q) \<leftarrow> on_dbc (SQLFetch L (os_stmt s));
     ret (rc, s\<lparr>os_stmt := q\<rparr>) }"

section \<open>Columns\<close>

text \<open>
  The chunk has 512 bytes, so 511 characters and a NUL. Copying more characters than the driver has put
  there would read uninitialised memory. Running out of the bound stands for a loop that does not end.
\<close>

fun get_text_loop :: "('d, 'q) odbc \<Rightarrow> nat \<Rightarrow> 'q \<Rightarrow> nat \<Rightarrow> string \<Rightarrow>
    ('a world_scheme, (int \<times> string option) \<times> 'q) state" where
  "get_text_loop L 0 q col buf = ub ((-1, None), q)"
| "get_text_loop L (Suc fuel) q col buf =
     (case SQLGetData L q col 512 of ((rc, ind, chunk), q) \<Rightarrow>
        if rc = SQL_ERROR then ret ((-1, None), q)
        else if ind = SQL_NULL_DATA then ret ((0, None), q)
        else do {
          let got = (if ind = SQL_NO_TOTAL \<or> ind < 0 \<or> ind > 511 then 511 else nat ind);
          ok \<leftarrow> alloc;
          if \<not> ok then ret ((-1, None), q)
          else do {
            piece \<leftarrow> (if got \<le> length chunk then ret (take got chunk) else ub chunk);
            let buf = buf @ piece;
            if rc \<noteq> SQL_SUCCESS_WITH_INFO then ret ((0, Some buf), q)
            else get_text_loop L fuel q col buf } })"

definition odbc_get_text :: "('d, 'q) odbc \<Rightarrow> 'q \<Rightarrow> nat \<Rightarrow>
    ('a world_scheme, (int \<times> string option) \<times> 'q) state" where
  "odbc_get_text L q col = get_text_loop L (Suc (text_left L q)) q col []"

text \<open>The columns of a row from an index on: \<open>None\<close> when one cannot be read.\<close>

fun row_columns :: "('d, 'q) odbc \<Rightarrow> nat list \<Rightarrow> 'q \<Rightarrow> ('a world_scheme, columns option \<times> 'q) state" where
  "row_columns L [] q = ret (Some [], q)"
| "row_columns L (i # is) q = do {
     ((rc, c), q) \<leftarrow> odbc_get_text L q (i + 1);
     if rc \<noteq> 0 then ret (None, q)
     else do {
       (cs, q) \<leftarrow> row_columns L is q;
       ret (map_option (\<lambda>cs. c # cs) cs, q) } }"

definition session_from_row :: "('d, 'q) odbc \<Rightarrow> 'q odbc_stmt \<Rightarrow> OpenDBSC_Session \<Rightarrow>
    ('a world_scheme, (int \<times> OpenDBSC_Session) \<times> 'q odbc_stmt) state" where
  "session_from_row L s session = do {
     (cols, q) \<leftarrow> row_columns L [0..<8] (os_stmt s);
     res \<leftarrow> (case cols of None \<Rightarrow> ret (-1, session) | Some cs \<Rightarrow> session_from_columns cs session);
     ret (res, s\<lparr>os_stmt := q\<rparr>) }"

section \<open>Operations\<close>

text \<open>\<^verbatim>\<open>snprintf\<close> into a buffer cuts the text off.\<close>

definition snprintf_buf :: "nat \<Rightarrow> string \<Rightarrow> string" where
  "snprintf_buf size' text' = take (size' - 1) text'"

definition odbc_insert_sql :: "string \<Rightarrow> string" where
  "odbc_insert_sql table = ''INSERT INTO '' @ table @ '' (id, user_id, state, public_key, algorithm, '' @
     ''challenge, expires_at, created_at) '' @ ''VALUES (?, ?, ?, ?, ?, ?, ?, ?)''"

definition odbc_update_sql :: "string \<Rightarrow> string" where
  "odbc_update_sql table = ''UPDATE '' @ table @ '' SET user_id = ?, state = ?, public_key = ?, '' @
     ''algorithm = ?, challenge = ?, expires_at = ? WHERE id = ?''"

definition odbc_select_sql :: "string \<Rightarrow> string \<Rightarrow> string" where
  "odbc_select_sql table where' = ''SELECT id, user_id, state, public_key, algorithm, challenge, '' @
     ''expires_at, created_at FROM '' @ table @ '' WHERE '' @ where'"

definition odbc_delete_sql :: "string \<Rightarrow> string \<Rightarrow> string" where
  "odbc_delete_sql table where' = ''DELETE FROM '' @ table @ '' WHERE '' @ where'"

definition build_select_sql :: "string \<Rightarrow> ('d, string) odbc_op" where
  "build_select_sql where' = do { t \<leftarrow> table_name; ret (snprintf_buf 512 (odbc_select_sql t where')) }"

definition close_and_unlock :: "('d, 'q) odbc \<Rightarrow> 'q odbc_stmt \<Rightarrow> 'r \<Rightarrow> ('d, 'r) odbc_op" where
  "close_and_unlock L s r = do { odbc_stmt_close L s; unlock_with r }"

text \<open>The deletion both removals share; its caller holds the mutex.\<close>

definition delete_where :: "('d, 'q) odbc \<Rightarrow> string \<Rightarrow> string \<Rightarrow> ('d, int) odbc_op" where
  "delete_where L where' v = do {
     t \<leftarrow> table_name;
     s \<leftarrow> odbc_prepare L (snprintf_buf 256 (odbc_delete_sql t where'));
     case s of None \<Rightarrow> ret (-1)
     | Some s \<Rightarrow>
         (case odbc_bind_text L s (Some v) of (rc, s) \<Rightarrow>
            if rc \<noteq> 0 then do { odbc_stmt_close L s; ret (-1) }
            else do {
              (rc, s) \<leftarrow> execute_stmt L s;
              odbc_stmt_close L s;
              ret (if SQL_SUCCEEDED rc then 0 else -1) }) }"

definition odbc_delete_unlocked :: "('d, 'q) odbc \<Rightarrow> string \<Rightarrow> ('d, int) odbc_op" where
  "odbc_delete_unlocked L sid = delete_where L ''id = ?'' sid"

definition odbc_delete :: "('d, 'q) odbc \<Rightarrow> string option \<Rightarrow> ('d, int) odbc_op" where
  "odbc_delete L sid =
     (case sid of None \<Rightarrow> ret (-1)
      | Some i \<Rightarrow> do { ctx_lock; rc \<leftarrow> odbc_delete_unlocked L i; unlock_with rc })"

definition odbc_delete_by_user_id :: "('d, 'q) odbc \<Rightarrow> string option \<Rightarrow> ('d, int) odbc_op" where
  "odbc_delete_by_user_id L user_id =
     (case user_id of None \<Rightarrow> ret (-1)
      | Some u \<Rightarrow> do { ctx_lock; rc \<leftarrow> delete_where L ''user_id = ?'' u; unlock_with rc })"

text \<open>The text of the expiry: \<open>None\<close> when it cannot be formatted, \<open>Some None\<close> when there is none.\<close>

definition expiry_text :: "OpenDBSC_Session \<Rightarrow> string option option" where
  "expiry_text session =
     (if s_has_expires session then map_option Some (format_rfc3339_utc (s_expires_at session) 32)
      else Some None)"

definition odbc_create :: "('d, 'q) odbc \<Rightarrow> OpenDBSC_Session option \<Rightarrow> ('d, int) odbc_op" where
  "odbc_create L session =
     (case session of None \<Rightarrow> ret (-1)
      | Some x \<Rightarrow>
          if s_id x = None then ret (-1)
          else (case (expiry_text x, format_rfc3339_utc (s_created_at x) 32) of
              (Some expires, Some created) \<Rightarrow> do {
                t \<leftarrow> table_name;
                ctx_lock;
                s \<leftarrow> odbc_prepare L (snprintf_buf 512 (odbc_insert_sql t));
                case s of None \<Rightarrow> unlock_with (-1)
                | Some s \<Rightarrow>
                    (case odbc_binds L [s_id x, s_user_id x, opendbsc_session_state_str (Some x), s_public_key x,
                             s_algorithm x, s_challenge x, expires, Some created] s of (ok, s) \<Rightarrow>
                       if \<not> ok then close_and_unlock L s (-1)
                       else do {
                         (rc, s) \<leftarrow> execute_stmt L s;
                         close_and_unlock L s (if SQL_SUCCEEDED rc then 0 else -1) }) }
            | _ \<Rightarrow> ret (-1)))"

definition odbc_update :: "('d, 'q) odbc \<Rightarrow> OpenDBSC_Session option \<Rightarrow> ('d, int) odbc_op" where
  "odbc_update L session =
     (case session of None \<Rightarrow> ret (-1)
      | Some x \<Rightarrow>
          if s_id x = None then ret (-1)
          else (case expiry_text x of
              Some expires \<Rightarrow> do {
                t \<leftarrow> table_name;
                ctx_lock;
                s \<leftarrow> odbc_prepare L (snprintf_buf 512 (odbc_update_sql t));
                case s of None \<Rightarrow> unlock_with (-1)
                | Some s \<Rightarrow>
                    (case odbc_binds L [s_user_id x, opendbsc_session_state_str (Some x), s_public_key x,
                             s_algorithm x, s_challenge x, expires, s_id x] s of (ok, s) \<Rightarrow>
                       if \<not> ok then close_and_unlock L s (-1)
                       else do {
                         (rc, s) \<leftarrow> execute_stmt L s;
                         if \<not> SQL_SUCCEEDED rc then close_and_unlock L s (-1)
                         else (case SQLRowCount L (os_stmt s) of (rc, affected) \<Rightarrow>
                           close_and_unlock L s (if \<not> SQL_SUCCEEDED rc \<or> affected \<le> 0 then -1 else 0)) }) }
            | None \<Rightarrow> ret (-1)))"

text \<open>A query with one text parameter, executed; \<open>None\<close> when it failed and was released.\<close>

definition open_query :: "('d, 'q) odbc \<Rightarrow> string \<Rightarrow> string \<Rightarrow> ('d, 'q odbc_stmt option) odbc_op" where
  "open_query L sql v = do {
     s \<leftarrow> odbc_prepare L sql;
     case s of None \<Rightarrow> ret None
     | Some s \<Rightarrow>
         (case odbc_bind_text L s (Some v) of (rc, s) \<Rightarrow>
            if rc \<noteq> 0 then do { odbc_stmt_close L s; ret None }
            else do {
              (rc, s) \<leftarrow> execute_stmt L s;
              if \<not> SQL_SUCCEEDED rc then do { odbc_stmt_close L s; ret None } else ret (Some s) }) }"

definition odbc_get :: "('d, 'q) odbc \<Rightarrow> string option \<Rightarrow> ('d, int \<times> OpenDBSC_Session option) odbc_op" where
  "odbc_get L sid =
     (case sid of None \<Rightarrow> ret (-1, None)
      | Some i \<Rightarrow> do {
          sql \<leftarrow> build_select_sql ''id = ?'';
          ctx_lock;
          s \<leftarrow> open_query L sql i;
          case s of None \<Rightarrow> unlock_with (-1, None)
          | Some s \<Rightarrow> do {
              (rc, s) \<leftarrow> fetch_stmt L s;
              if rc \<noteq> SQL_SUCCESS then close_and_unlock L s (-1, None)
              else do {
                ok \<leftarrow> alloc;
                if \<not> ok then close_and_unlock L s (-1, None)
                else do {
                  ((rc, session), s) \<leftarrow> session_from_row L s session_defaults;
                  if rc \<noteq> 0 then close_and_unlock L s (-1, None)
                  else do {
                    now \<leftarrow> time_now;
                    if s_has_expires session \<and> s_expires_at session < now then do {
                      odbc_stmt_close L s;
                      _ \<leftarrow> odbc_delete_unlocked L i;
                      unlock_with (-1, None) }
                    else close_and_unlock L s (0, Some session) } } } } })"

text \<open>The loop over the rows of a user's query, as in the SQLite store.\<close>

fun odbc_user_rows :: "('d, 'q) odbc \<Rightarrow> nat \<Rightarrow> int \<Rightarrow> 'q odbc_stmt \<Rightarrow> OpenDBSC_Session list \<Rightarrow> string list \<Rightarrow>
    ('d, bool \<times> 'q odbc_stmt \<times> OpenDBSC_Session list \<times> string list) odbc_op" where
  "odbc_user_rows L 0 now s sessions expired = ub (False, s, [], expired)"
| "odbc_user_rows L (Suc fuel) now s sessions expired = do {
     (rc, s) \<leftarrow> fetch_stmt L s;
     if rc \<noteq> SQL_SUCCESS then
       ret (rc = SQL_NO_DATA, s, if rc = SQL_NO_DATA then sessions else [], expired)
     else do {
       ((rc, tmp), s) \<leftarrow> session_from_row L s session_defaults;
       if rc \<noteq> 0 then ret (False, s, [], expired)
       else do {
         kept \<leftarrow> keep_row now tmp sessions expired;
         case kept of None \<Rightarrow> ret (False, s, [], expired)
         | Some (sessions, expired) \<Rightarrow> odbc_user_rows L fuel now s sessions expired } } }"

fun odbc_delete_expired :: "('d, 'q) odbc \<Rightarrow> string list \<Rightarrow> ('d, unit) odbc_op" where
  "odbc_delete_expired L [] = ret ()"
| "odbc_delete_expired L (i # is) = do { _ \<leftarrow> odbc_delete_unlocked L i; odbc_delete_expired L is }"

definition odbc_get_by_user_id :: "('d, 'q) odbc \<Rightarrow> string option \<Rightarrow> ('d, int \<times> OpenDBSC_Session list) odbc_op" where
  "odbc_get_by_user_id L user_id =
     (case user_id of None \<Rightarrow> ret (-1, [])
      | Some u \<Rightarrow> do {
          sql \<leftarrow> build_select_sql ''user_id = ?'';
          now \<leftarrow> time_now;
          ctx_lock;
          s \<leftarrow> open_query L sql u;
          case s of None \<Rightarrow> unlock_with (-1, [])
          | Some s \<Rightarrow> do {
              (ok, s, sessions, expired) \<leftarrow> odbc_user_rows L (Suc (rows_left L (os_stmt s))) now s [] [];
              if \<not> ok then close_and_unlock L s (-1, [])
              else do {
                odbc_stmt_close L s;
                odbc_delete_expired L expired;
                unlock_with (0, sessions) } } })"

definition odbc_free_sessions :: "OpenDBSC_Session list \<Rightarrow> ('d, unit) odbc_op" where
  "odbc_free_sessions sessions = ret ()"

definition odbc_destroy :: "('d, 'q) odbc \<Rightarrow> ('d, unit) odbc_op" where
  "odbc_destroy L = on_dbc (SQLDisconnect L)"

definition odbc_store_vtable :: "('d, 'q) odbc \<Rightarrow> 'd opendbsc_odbc_ctx OpenDBSC_Store" where
  "odbc_store_vtable L = \<lparr>st_create = odbc_create L, st_get = odbc_get L, st_update = odbc_update L,
     st_delete = odbc_delete L, st_get_by_user_id = odbc_get_by_user_id L,
     st_delete_by_user_id = odbc_delete_by_user_id L, st_free_sessions = odbc_free_sessions,
     st_destroy = odbc_destroy L\<rparr>"

section \<open>Opening a store\<close>

definition odbc_exec_ignore :: "('d, 'q) odbc \<Rightarrow> string \<Rightarrow> 'd \<Rightarrow> 'd" where
  "odbc_exec_ignore L sql d =
     (case SQLAllocStmt L d of ((rc, h), d) \<Rightarrow>
        if rc \<noteq> SQL_SUCCESS then d
        else (case h of None \<Rightarrow> d
          | Some q \<Rightarrow> (case SQLExecDirect L q sql d of ((rc, q), d) \<Rightarrow> snd (SQLFreeStmt L q d))))"

definition odbc_create_schema :: "('d, 'q) odbc \<Rightarrow> string \<Rightarrow> 'd \<Rightarrow> 'd" where
  "odbc_create_schema L table d =
     (let create = snprintf_buf 1024 (''CREATE TABLE '' @ table @ '' ('' @
            ''  id         VARCHAR(64) PRIMARY KEY,'' @
            ''  user_id    VARCHAR(255) NOT NULL,'' @
            ''  state      VARCHAR(16) NOT NULL DEFAULT '' @ [CHR 0x27] @ ''active'' @ [CHR 0x27] @ '','' @
            ''  public_key TEXT,'' @
            ''  algorithm  VARCHAR(64),'' @
            ''  challenge  TEXT,'' @
            ''  expires_at VARCHAR(32),'' @
            ''  created_at VARCHAR(32) NOT NULL'' @
            '')'');
          index = (\<lambda>col. snprintf_buf 1024 (''CREATE INDEX idx_'' @ table @ ''_'' @ col @ '' ON '' @ table @ ''('' @ col @ '')''))
      in odbc_exec_ignore L (index ''expires_at'') (odbc_exec_ignore L (index ''user_id'') (odbc_exec_ignore L create d)))"

text \<open>\<open>mutex_ok\<close> is the answer of \<^verbatim>\<open>pthread_mutex_init\<close>. What a failing path has opened is closed again.\<close>

definition opendbsc_odbc_store_create :: "('d, 'q) odbc \<Rightarrow> bool \<Rightarrow> OpenDBSC_OdbcConfig option \<Rightarrow>
    ('a world_scheme, ('d opendbsc_odbc_ctx \<times> 'd opendbsc_odbc_ctx OpenDBSC_Store) option) state" where
  "opendbsc_odbc_store_create L mutex_ok config =
     (case config of None \<Rightarrow> ret None
      | Some cfg \<Rightarrow>
          (case od_connection_string cfg of None \<Rightarrow> ret None
           | Some conn \<Rightarrow>
               let table = (case od_table_name cfg of None \<Rightarrow> ''sessions'' | Some t \<Rightarrow> t) in
               if is_valid_identifier (Some table) = 0 then ret None
               else do {
                 ok \<leftarrow> alloc;
                 if \<not> ok then ret None
                 else do {
                   name \<leftarrow> strdup table;
                   case name of None \<Rightarrow> ret None
                   | Some name \<Rightarrow>
                       if \<not> mutex_ok then ret None
                       else if SQLAllocEnv L \<noteq> SQL_SUCCESS \<or> SQLSetEnvAttr L \<noteq> SQL_SUCCESS \<or>
                               SQLAllocDbc L \<noteq> SQL_SUCCESS then ret None
                       else (case SQLDriverConnect L (if od_login_timeout_seconds cfg > 0
                               then Some (od_login_timeout_seconds cfg) else None) conn of (rc, dbc) \<Rightarrow>
                           if \<not> SQL_SUCCEEDED rc then ret None
                           else do {
                             let dbc = (if od_auto_create_table cfg \<noteq> 0 then odbc_create_schema L name dbc else dbc);
                             ok \<leftarrow> alloc;
                             if \<not> ok then ret None
                             else ret (Some (\<lparr>oc_dbc = dbc, oc_mutex = False, oc_table_name = name\<rparr>,
                                             odbc_store_vtable L)) }) } }))"

section \<open>What ODBC documents\<close>

definition odbc_statement :: "string \<Rightarrow> string \<Rightarrow> sql_statement option" where
  "odbc_statement tn sql =
     (if sql = odbc_insert_sql tn then Some Insert else if sql = odbc_update_sql tn then Some Update
      else if sql = odbc_delete_sql tn ''id = ?'' then Some Delete_By_Id
      else if sql = odbc_delete_sql tn ''user_id = ?'' then Some Delete_By_User
      else if sql = odbc_select_sql tn ''id = ?'' then Some Select_By_Id
      else if sql = odbc_select_sql tn ''user_id = ?'' then Some Select_By_User else None)"

lemma odbc_statement_simps [simp]:
  "odbc_statement tn (odbc_insert_sql tn) = Some Insert"
  "odbc_statement tn (odbc_update_sql tn) = Some Update"
  "odbc_statement tn (odbc_delete_sql tn ''id = ?'') = Some Delete_By_Id"
  "odbc_statement tn (odbc_delete_sql tn ''user_id = ?'') = Some Delete_By_User"
  "odbc_statement tn (odbc_select_sql tn ''id = ?'') = Some Select_By_Id"
  "odbc_statement tn (odbc_select_sql tn ''user_id = ?'') = Some Select_By_User"
  by (simp_all add: odbc_statement_def odbc_insert_sql_def odbc_update_sql_def odbc_delete_sql_def odbc_select_sql_def)

text \<open>The longest statement with 225 characters of a table name fills its buffer of 256 bytes.\<close>

lemma snprintf_buf_fits:
  assumes "length tn \<le> 225"
  shows "snprintf_buf 512 (odbc_insert_sql tn) = odbc_insert_sql tn"
    and "snprintf_buf 512 (odbc_update_sql tn) = odbc_update_sql tn"
    and "x \<in> {''id = ?'', ''user_id = ?''} \<Longrightarrow> snprintf_buf 256 (odbc_delete_sql tn x) = odbc_delete_sql tn x"
    and "x \<in> {''id = ?'', ''user_id = ?''} \<Longrightarrow> snprintf_buf 512 (odbc_select_sql tn x) = odbc_select_sql tn x"
  using assms by (auto simp: snprintf_buf_def odbc_insert_sql_def odbc_update_sql_def odbc_delete_sql_def odbc_select_sql_def)

text \<open>
  Where a statement stands: not executed, or an open cursor over a table with the rows still to be
  fetched and, on a row, what has not been read of each column, or neither.
\<close>

datatype cursor = Unexecuted | Cursor table "(nat \<Rightarrow> string option) option" "columns list" | Closed

definition params_of :: "string option list \<Rightarrow> params" where
  "params_of vs n = (if 1 \<le> n \<and> n \<le> length vs then vs ! (n - 1) else None)"

lemma params_of_snoc: "params_of (vs @ [v]) = (params_of vs)(length vs + 1 := v)"
  by (auto simp: params_of_def fun_eq_iff nth_append)

lemma params_of_Nil: "params_of [] = (\<lambda>_. None)"
  and params_of_single: "params_of [v] = (\<lambda>_. None)(1 := v)"
  by (auto simp: params_of_def fun_eq_iff)

lemma params_of_insert: "params_of (row_of_session s) = insert_params s"
  and params_of_update: "params_of (take 6 (drop 1 (row_of_session s)) @ [s_id s]) = update_params s"
  by (auto simp: params_of_def insert_params_def update_params_def row_of_session_def fun_eq_iff nth_append)
     (auto simp: nth_Cons' split: if_splits)

text \<open>What the driver reports of a statement that has changed \<open>n\<close> rows.\<close>

definition counted :: "('d, 'q) odbc \<Rightarrow> bool \<Rightarrow> nat \<Rightarrow> 'q \<Rightarrow> bool" where
  "counted L counts n q \<longleftrightarrow> (case SQLRowCount L q of (rc, k) \<Rightarrow>
     (SQL_SUCCEEDED rc \<longrightarrow> k = int n \<or> \<not> counts \<and> k = -1) \<and> (counts \<longrightarrow> SQL_SUCCEEDED rc))"

text \<open>
  \<open>counts\<close> says that the driver knows how many rows a statement has changed. ODBC lets a driver that
  does not answer -1 or fail. Any other call may fail at any time; a statement that fails has
  changed nothing.
\<close>

locale odbc_engine =
  fixes L :: "('d, 'q) odbc"
    and tbl :: "'d \<Rightarrow> table"
    and sql_text :: "'q \<Rightarrow> string"
    and bound :: "'q \<Rightarrow> params"
    and cursor :: "'q \<Rightarrow> cursor"
    and tn :: string
    and counts :: bool
  assumes fits: "length tn \<le> 225"
    and alloc_stmt: "SQLAllocStmt L d = (r, d') \<Longrightarrow> tbl d' = tbl d"
    and free_stmt: "SQLFreeStmt L q d = (u, d') \<Longrightarrow> tbl d' = tbl d"
    and prepare:
      "SQLPrepare L q sql d = ((rc, q'), d') \<Longrightarrow> tbl d' = tbl d \<and>
       (rc = SQL_SUCCESS \<longrightarrow> sql_text q' = sql \<and> bound q' = (\<lambda>_. None) \<and> cursor q' = Unexecuted)"
    and bind:
      "SQLBindParameter L q n v = (rc, q') \<Longrightarrow> SQL_SUCCEEDED rc \<Longrightarrow> cursor q = Unexecuted \<Longrightarrow>
       sql_text q' = sql_text q \<and> bound q' = (bound q)(n := v) \<and> cursor q' = Unexecuted"
    and execute_change:
      "SQLExecute L q d = ((rc, q'), d') \<Longrightarrow> cursor q = Unexecuted \<Longrightarrow>
       odbc_statement tn (sql_text q) = Some st \<Longrightarrow> st \<in> {Insert, Update, Delete_By_Id, Delete_By_User} \<Longrightarrow>
       st = Insert \<longrightarrow> bound q 1 \<noteq> None \<Longrightarrow>
       (if SQL_SUCCEEDED rc
        then \<exists>n. effect st (bound q) (tbl d) = Some (tbl d', n) \<and>
          (st = Update \<longrightarrow> counted L counts n q')
        else tbl d' = tbl d)"
    and execute_select:
      "SQLExecute L q d = ((rc, q'), d') \<Longrightarrow> cursor q = Unexecuted \<Longrightarrow>
       odbc_statement tn (sql_text q) = Some st \<Longrightarrow> st \<in> {Select_By_Id, Select_By_User} \<Longrightarrow>
       tbl d' = tbl d \<and>
       (SQL_SUCCEEDED rc \<longrightarrow> (\<exists>rows. cursor q' = Cursor (tbl d) None rows \<and> answers st (bound q) (tbl d) rows))"
    and fetch:
      "SQLFetch L q d = ((rc, q'), d') \<Longrightarrow> cursor q = Cursor (tbl d) cur rows \<Longrightarrow>
       tbl d' = tbl d \<and>
       (rc = SQL_SUCCESS \<longrightarrow>
          (\<exists>r rs c. rows = r # rs \<and> cursor q' = Cursor (tbl d) (Some c) rs \<and>
             (\<forall>n. 1 \<le> n \<longrightarrow> n \<le> 8 \<longrightarrow> c n = r ! (n - 1)))) \<and>
       (rc = SQL_NO_DATA \<longrightarrow> rows = [])"
    and get_data:
      "SQLGetData L q n size' = ((rc, ind, chunk), q') \<Longrightarrow> cursor q = Cursor T (Some c) rows \<Longrightarrow>
       1 \<le> n \<Longrightarrow> n \<le> 8 \<Longrightarrow> 0 < size' \<Longrightarrow> rc \<noteq> SQL_ERROR \<Longrightarrow>
       (case c n of
          None \<Rightarrow> ind = SQL_NULL_DATA \<and> cursor q' = cursor q
        | Some x \<Rightarrow>
            if length x < size'
            then rc = SQL_SUCCESS \<and> ind = int (length x) \<and> chunk = x \<and>
              (\<exists>y. cursor q' = Cursor T (Some (c(n := y))) rows)
            else rc = SQL_SUCCESS_WITH_INFO \<and> (ind = SQL_NO_TOTAL \<or> ind = int (length x)) \<and>
              chunk = take (size' - 1) x \<and>
              cursor q' = Cursor T (Some (c(n := Some (drop (size' - 1) x)))) rows)"
    and rows_left: "cursor q = Cursor T cur rows \<Longrightarrow> length rows \<le> rows_left L q"
    and text_left:
      "cursor q = Cursor T (Some c) rows \<Longrightarrow> 1 \<le> n \<Longrightarrow> n \<le> 8 \<Longrightarrow> c n = Some x \<Longrightarrow> length x \<le> text_left L q"
begin

subsection \<open>Columns\<close>

text \<open>The cursor is still on its row, and nothing but the column \<open>n\<close> has been read.\<close>

definition read_only :: "table \<Rightarrow> (nat \<Rightarrow> string option) \<Rightarrow> columns list \<Rightarrow> nat \<Rightarrow> 'q \<Rightarrow> bool" where
  "read_only T c rows n q \<longleftrightarrow> (\<exists>y. cursor q = Cursor T (Some (c(n := y))) rows)"

lemma read_only_same: "cursor q = Cursor T (Some c) rows \<Longrightarrow> read_only T c rows n q"
  unfolding read_only_def by (rule exI [of _ "c n"]) simp

lemma read_only_upd [simp]: "read_only T (c(n := y)) rows n q \<longleftrightarrow> read_only T c rows n q"
  unfolding read_only_def by (simp only: fun_upd_upd)

lemma get_text_loop_spec:
  "cursor q = Cursor T (Some c) rows \<Longrightarrow> 1 \<le> n \<Longrightarrow> n \<le> 8 \<Longrightarrow> (\<And>x. c n = Some x \<Longrightarrow> length x < fuel) \<Longrightarrow>
   buf = [] \<or> c n \<noteq> None \<Longrightarrow> 0 < fuel \<Longrightarrow>
   framed (get_text_loop L fuel q n buf) (\<lambda>((rc, out), q').
     rc = -1 \<and> out = None \<or> rc = 0 \<and> out = map_option (\<lambda>x. buf @ x) (c n) \<and> read_only T c rows n q')"
proof (induction fuel arbitrary: q c buf)
  case (Suc fuel)
  obtain rc ind chunk q' where run: "SQLGetData L q n 512 = ((rc, ind, chunk), q')" by (metis prod.exhaust)
  show ?case
  proof (cases "rc = SQL_ERROR")
    case True
    then show ?thesis by (simp add: run framed_return)
  next
    case False
    note law = get_data [OF run Suc.prems(1-3) _ False]
    show ?thesis
    proof (cases "c n")
      case None
      with law Suc.prems(1) have "ind = SQL_NULL_DATA" "cursor q' = Cursor T (Some c) rows" by simp_all
      with False None read_only_same [of q' T c rows n] show ?thesis by (simp add: run framed_return)
    next
      case (Some x)
      show ?thesis
      proof (cases "length x < 512")
        case True
        with law Some have r: "rc = SQL_SUCCESS" "ind = int (length x)" "chunk = x"
          and c: "read_only T c rows n q'" unfolding read_only_def by (auto simp del: fun_upd_apply)
        have got: "(if ind = SQL_NO_TOTAL \<or> ind < 0 \<or> ind > 511 then 511 else nat ind) = length x"
          "ind \<noteq> SQL_NULL_DATA" "rc \<noteq> SQL_SUCCESS_WITH_INFO"
          using True by (auto simp: r sql_codes)
        show ?thesis
          using c False got by (auto simp: run r(3) Some Let_def intro!: framed_bind [OF framed_alloc] framed_return)
      next
        case long: False
        with law Some have r: "rc = SQL_SUCCESS_WITH_INFO" "ind = SQL_NO_TOTAL \<or> ind = int (length x)"
          and chunk: "chunk = take 511 x" and c: "cursor q' = Cursor T (Some (c(n := Some (drop 511 x)))) rows" by auto
        have got: "(if ind = SQL_NO_TOTAL \<or> ind < 0 \<or> ind > 511 then 511 else nat ind) = 511"
          "ind \<noteq> SQL_NULL_DATA" "511 \<le> length chunk" "take 511 chunk = take 511 x"
          using r(2) long by (auto simp: sql_codes chunk)
        have len: "length x - 511 < fuel" using Suc.prems(4) [OF Some] long by simp
        show ?thesis
          using False got r(1) len
          by (auto simp: run Some Let_def
              intro!: framed_bind [OF framed_alloc] framed_return framed_weaken [OF Suc.IH [OF c Suc.prems(2,3)]])
      qed
    qed
  qed
qed simp

lemma get_text_spec:
  assumes "cursor q = Cursor T (Some c) rows" and "1 \<le> n" and "n \<le> 8"
  shows "framed (odbc_get_text L q n) (\<lambda>((rc, out), q').
     rc = -1 \<and> out = None \<or> rc = 0 \<and> out = c n \<and> read_only T c rows n q')"
  unfolding odbc_get_text_def
  by (rule framed_weaken [OF get_text_loop_spec [OF assms]])
     (use text_left [OF assms] in \<open>auto simp: less_Suc_eq_le option.map_ident\<close>)

lemma row_columns_spec:
  "cursor q = Cursor T (Some c) rows \<Longrightarrow> set is \<subseteq> {..<8} \<Longrightarrow> distinct is \<Longrightarrow>
   framed (row_columns L is q) (\<lambda>(cs, q'). cs = None \<or>
     cs = Some (map (\<lambda>i. c (i + 1)) is) \<and> (\<exists>c'. cursor q' = Cursor T (Some c') rows))"
proof (induction "is" arbitrary: q c)
  case Nil
  then show ?case by (simp add: framed_return)
next
  case (Cons i "is")
  show ?case
    unfolding row_columns.simps
  proof (rule framed_bind [OF get_text_spec [OF Cons.prems(1)]], goal_cases)
    case (3 r)
    obtain rc out q1 where r: "r = ((rc, out), q1)" by (metis prod.exhaust)
    show ?case
    proof (cases "rc = 0")
      case False
      then show ?thesis by (simp add: r framed_return)
    next
      case True
      with 3 r obtain y where out: "out = c (i + 1)" and q1: "cursor q1 = Cursor T (Some (c(i + 1 := y))) rows"
        by (auto simp: read_only_def simp del: fun_upd_apply)
      have same: "(c(Suc i := y)) (Suc k) = c (Suc k)" if "k \<in> set is" for k
        using Cons.prems(3) that by auto
      show ?thesis
        apply (simp only: r prod.case True simp_thms if_False)
        apply (rule framed_bind [OF Cons.IH [OF q1]])
          apply (use Cons.prems(2,3) in \<open>auto simp: same out intro!: framed_return simp del: fun_upd_apply\<close>)
        done
    qed
  qed (use Cons.prems in auto)
qed

subsection \<open>Runs on a connection\<close>

text \<open>The table, the mutex and the table name at a point of a run that began in \<open>w\<close>.\<close>

definition at_db :: "'d opendbsc_odbc_ctx sys \<Rightarrow> table \<Rightarrow> bool \<Rightarrow> 'd opendbsc_odbc_ctx sys \<Rightarrow> bool" where
  "at_db w T m v \<longleftrightarrow> oframe w v \<and> tbl (oc_dbc (impl v)) = T \<and> oc_mutex (impl v) = m \<and> oc_table_name (impl v) = tn"

definition ready :: "'q odbc_stmt \<Rightarrow> string \<Rightarrow> string option list \<Rightarrow> bool" where
  "ready s sql vs \<longleftrightarrow> sql_text (os_stmt s) = sql \<and> bound (os_stmt s) = params_of vs \<and>
     cursor (os_stmt s) = Unexecuted \<and> os_nparams s = length vs"

lemma at_db_frame: "at_db w T m v \<Longrightarrow> frame v v' \<Longrightarrow> at_db w T m v'"
  using frame_impl [of v v'] by (auto simp: at_db_def dest: frame_oframe intro: oframe_trans)

lemma wp_on_dbc:
  assumes "at_db w T m v" and "\<And>r d v'. f (oc_dbc (impl v)) = (r, d) \<Longrightarrow> at_db w (tbl d) m v' \<Longrightarrow> Q r v'"
  shows "wp (on_dbc f) Q v"
  using assms by (auto simp: on_dbc_def wp_on_impl at_db_def split: prod.split)

lemma wp_lock: "at_db w T False v \<Longrightarrow> (\<And>v'. at_db w T True v' \<Longrightarrow> Q () v') \<Longrightarrow> wp ctx_lock Q v"
  by (auto simp: ctx_lock_def wps at_db_def)

lemma wp_unlock: "at_db w T m v \<Longrightarrow> (\<And>v'. at_db w T False v' \<Longrightarrow> Q r v') \<Longrightarrow> wp (unlock_with r) Q v"
  by (auto simp: unlock_with_def ctx_unlock_def wps at_db_def)

lemma wp_table_name: "at_db w T m v \<Longrightarrow> Q tn v \<Longrightarrow> wp table_name Q v"
  by (auto simp: table_name_def wps at_db_def)

lemma wp_close:
  assumes "at_db w T m v" and "\<And>v'. at_db w T m v' \<Longrightarrow> Q () v'"
  shows "wp (odbc_stmt_close L s) Q v"
  unfolding odbc_stmt_close_def
  by (rule wp_on_dbc [OF assms(1)]) (use assms free_stmt in \<open>auto simp: at_db_def\<close>)

lemma wp_close_and_unlock:
  "at_db w T m v \<Longrightarrow> (\<And>v'. at_db w T False v' \<Longrightarrow> Q r v') \<Longrightarrow> wp (close_and_unlock L s r) Q v"
  unfolding close_and_unlock_def by (rule wp_bindI) (blast intro: wp_close wp_unlock)

lemma wp_close_ret:
  "at_db w T m v \<Longrightarrow> (\<And>v'. at_db w T m v' \<Longrightarrow> Q r v') \<Longrightarrow> wp (do { odbc_stmt_close L s; ret r }) Q v"
  by (rule wp_bindI) (auto intro: wp_close simp: wp_return)

lemma wp_odbc_prepare:
  assumes at: "at_db w T m v"
    and ok: "\<And>s v'. at_db w T m v' \<Longrightarrow> ready s sql [] \<Longrightarrow> Q (Some s) v'"
    and fail: "\<And>v'. at_db w T m v' \<Longrightarrow> Q None v'"
  shows "wp (odbc_prepare L sql) Q v"
proof -
  have T: "T = tbl (oc_dbc (impl u))" if "at_db w T m u" for u using that by (simp add: at_db_def)
  have free: "wp (do { on_dbc (SQLFreeStmt L q); ret None }) Q u" if "at_db w T m u" for q u
    by (rule wp_bindI, rule wp_on_dbc [OF that])
       (use fail free_stmt T [OF that] in \<open>auto simp: wp_return\<close>)
  show ?thesis
    unfolding odbc_prepare_def
  proof (rule wp_bindI, rule wp_on_dbc [OF at], goal_cases)
    case (1 r d v1)
    obtain rc h where r: "r = (rc, h)" by fastforce
    have at1: "at_db w T m v1" using 1 alloc_stmt T [OF at] by metis
    show ?case
    proof (cases h)
      case None
      then show ?thesis using fail [OF at1] by (simp add: r wp_return)
    next
      case (Some q)
      have "wp (do { (rc, q) \<leftarrow> on_dbc (SQLPrepare L q sql);
           if rc \<noteq> SQL_SUCCESS then do { on_dbc (SQLFreeStmt L q); ret None }
           else ret (Some \<lparr>os_stmt = q, os_nparams = 0\<rparr>) }) Q v1"
      proof (rule wp_bindI, rule wp_on_dbc [OF at1], goal_cases)
        case (1 r d v2)
        obtain rc q' where r: "r = (rc, q')" by fastforce
        note law = prepare [OF 1(1) [unfolded r]]
        have at2: "at_db w T m v2" using 1(2) law T [OF at1] by simp
        have "Q (Some \<lparr>os_stmt = q', os_nparams = 0\<rparr>) v2" if "rc = SQL_SUCCESS"
          using law that by (intro ok [OF at2]) (simp add: ready_def params_of_Nil)
        with free [OF at2] show ?case by (simp add: r wp_return)
      qed
      with Some free [OF at1] show ?thesis by (simp add: r)
    qed
  qed
qed

lemma ready_bind:
  "ready s sql vs \<Longrightarrow> odbc_bind_text L s v = (0, s') \<Longrightarrow> ready s' sql (vs @ [v])"
  by (auto simp: ready_def odbc_bind_text_def params_of_snoc dest: bind split: prod.splits if_splits)

lemma ready_binds:
  "ready s sql vs \<Longrightarrow> odbc_binds L us s = (True, s') \<Longrightarrow> ready s' sql (vs @ us)"
proof (induction us arbitrary: s vs)
  case (Cons u us)
  obtain rc s1 where b: "odbc_bind_text L s u = (rc, s1)" by fastforce
  with Cons.prems(2) have "rc = 0" "odbc_binds L us s1 = (True, s')" by (auto split: if_splits)
  with Cons.IH [OF ready_bind [OF Cons.prems(1)]] b show ?case by simp
qed simp

lemma wp_execute_change:
  assumes at: "at_db w T m v" and s: "ready s sql vs" and st: "odbc_statement tn sql = Some st"
    and ch: "st \<in> {Insert, Update, Delete_By_Id, Delete_By_User}" and i: "st = Insert \<longrightarrow> params_of vs 1 \<noteq> None"
    and ok: "\<And>rc s' v' T' n. SQL_SUCCEEDED rc \<Longrightarrow> effect st (params_of vs) T = Some (T', n) \<Longrightarrow> at_db w T' m v' \<Longrightarrow>
      st = Update \<longrightarrow> counted L counts n (os_stmt s') \<Longrightarrow>
      Q (rc, s') v'"
    and fail: "\<And>rc s' v'. \<not> SQL_SUCCEEDED rc \<Longrightarrow> at_db w T m v' \<Longrightarrow> Q (rc, s') v'"
  shows "wp (execute_stmt L s) Q v"
  unfolding execute_stmt_def
proof (rule wp_bindI, rule wp_on_dbc [OF at], goal_cases)
  case (1 r d v1)
  obtain rc q' where r: "r = (rc, q')" by fastforce
  have T: "tbl (oc_dbc (impl v)) = T" using at by (simp add: at_db_def)
  from s st i have "cursor (os_stmt s) = Unexecuted" "odbc_statement tn (sql_text (os_stmt s)) = Some st"
      "st = Insert \<longrightarrow> bound (os_stmt s) 1 \<noteq> None" and p: "bound (os_stmt s) = params_of vs"
    by (simp_all add: ready_def)
  note law = execute_change [OF 1(1) [unfolded r] this(1,2) ch this(3), unfolded p T]
  have "Q (rc, s\<lparr>os_stmt := q'\<rparr>) v1"
  proof (cases "SQL_SUCCEEDED rc")
    case True
    with law obtain n where n: "effect st (params_of vs) T = Some (tbl d, n)"
        "st = Update \<longrightarrow> counted L counts n q'" by auto
    show ?thesis by (rule ok [OF True n(1) 1(2)]) (use n(2) in simp)
  next
    case False
    with law 1(2) show ?thesis by (intro fail) simp_all
  qed
  then show ?case by (simp add: r wp_return)
qed

subsection \<open>Deletions\<close>

lemma delete_where_spec:
  assumes at: "at_db w T m v" and st: "odbc_statement tn (odbc_delete_sql tn x) = Some st" "st \<in> {Delete_By_Id, Delete_By_User}"
    and x: "x \<in> {''id = ?'', ''user_id = ?''}"
    and ok: "\<And>v' T' n. effect st ((\<lambda>_. None)(1 := Some y)) T = Some (T', n) \<Longrightarrow> at_db w T' m v' \<Longrightarrow> Q 0 v'"
    and fail: "\<And>v'. at_db w T m v' \<Longrightarrow> Q (-1) v'"
  shows "wp (delete_where L x y) Q v"
proof -
  have run: "wp (do { (rc, s) \<leftarrow> execute_stmt L s; odbc_stmt_close L s; ret (if SQL_SUCCEEDED rc then 0 else -1) }) Q v1"
    if at1: "at_db w T m v1" and s: "ready s (odbc_delete_sql tn x) [Some y]" for s v1
  proof (rule wp_bindI, rule wp_execute_change [OF at1 s st(1)], goal_cases)
    case (3 rc s' v' T' n)
    then show ?case by (simp, intro wp_close_ret [OF 3(3)] ok) (simp_all add: params_of_single)
  next
    case (4 rc s' v')
    then show ?case by (simp, intro wp_close_ret [OF 4(2)] fail)
  qed (use st in auto)
  show ?thesis
    unfolding delete_where_def
  proof (rule wp_bindI, rule wp_table_name [OF at], subst snprintf_buf_fits(3) [OF fits x],
      rule wp_bindI, rule wp_odbc_prepare [OF at], goal_cases)
    case (1 s v1)
    obtain rc s' where b: "odbc_bind_text L s (Some y) = (rc, s')" by fastforce
    show ?case
    proof (cases "rc = 0")
      case True
      then have "ready s' (odbc_delete_sql tn x) [Some y]" using ready_bind [OF 1(2)] b by fastforce
      from run [OF 1(1) this] True b show ?thesis by simp
    next
      case False
      with b show ?thesis by (simp, intro wp_close_ret [OF 1(1)] fail)
    qed
  next
    case (2 v1)
    then show ?case using fail by (simp add: wp_return)
  qed
qed

lemma delete_unlocked_spec:
  assumes at: "at_db w T m v"
    and Q: "\<And>rc T' v'. rc = 0 \<and> T' = T(i := None) \<or> rc = -1 \<and> T' = T \<Longrightarrow> at_db w T' m v' \<Longrightarrow> Q rc v'"
  shows "wp (odbc_delete_unlocked L i) Q v"
  unfolding odbc_delete_unlocked_def
  by (rule delete_where_spec [OF at odbc_statement_simps(3)]) (auto simp: effect_def intro!: Q)

subsection \<open>Creations and updates\<close>

text \<open>From the locked mutex on: prepare, bind, execute and what the operation makes of the outcome.\<close>

lemma wp_change:
  assumes at: "at_db w T True v" and st: "odbc_statement tn sql = Some st" "st \<in> {Insert, Update, Delete_By_Id, Delete_By_User}"
    and i: "st = Insert \<longrightarrow> params_of vs 1 \<noteq> None"
    and rest: "\<And>s v'. at_db w T True v' \<Longrightarrow> ready s sql vs \<Longrightarrow> wp (execute_stmt L s) (\<lambda>r. wp (k r) Q) v'"
    and fail: "\<And>v'. at_db w T False v' \<Longrightarrow> Q (-1) v'"
  shows "wp (do {
       s \<leftarrow> odbc_prepare L sql;
       case s of None \<Rightarrow> unlock_with (-1)
       | Some s \<Rightarrow>
           (case odbc_binds L vs s of (ok, s) \<Rightarrow>
              if \<not> ok then close_and_unlock L s (-1)
              else do { x \<leftarrow> execute_stmt L s; k x }) }) Q v"
proof (rule wp_bindI, rule wp_odbc_prepare [OF at], goal_cases)
  case (1 s v1)
  obtain ok s' where b: "odbc_binds L vs s = (ok, s')" by fastforce
  show ?case
  proof (cases ok)
    case True
    then have "ready s' sql vs" using ready_binds [OF 1(2)] b by fastforce
    from rest [OF 1(1) this] True b show ?thesis by (simp add: wp_bind)
  next
    case False
    with b show ?thesis by (simp, intro wp_close_and_unlock [OF 1(1)] fail)
  qed
next
  case (2 v1)
  then show ?case by (simp, intro wp_unlock [OF 2] fail)
qed

lemma create_spec:
  assumes i: "s_id x = Some i" and at: "at_db w T False w"
    and ok: "\<And>T' n v. effect Insert (insert_params x) T = Some (T', n) \<Longrightarrow> at_db w T' False v \<Longrightarrow> Q 0 v"
    and fail: "\<And>v. at_db w T False v \<Longrightarrow> Q (-1) v"
  shows "wp (odbc_create L (Some x)) Q w"
proof (cases "expiry_text x = None \<or> format_rfc3339_utc (s_created_at x) 32 = None")
  case True
  then show ?thesis
    using fail [OF at] unfolding odbc_create_def option.case i
    by (auto simp: wp_return split: option.splits)
next
  case False
  then obtain e c where t: "expiry_text x = Some e" "format_rfc3339_utc (s_created_at x) 32 = Some c" by auto
  let ?vs = "[s_id x, s_user_id x, opendbsc_session_state_str (Some x), s_public_key x,
    s_algorithm x, s_challenge x, e, Some c]"
  have row: "?vs = row_of_session x" using t by (auto simp: row_of_session_def expiry_text_def split: if_splits)
  have p: "params_of ?vs = insert_params x" by (simp only: row params_of_insert)
  show ?thesis
    unfolding odbc_create_def option.case t prod.case
    apply (simp only: i option.distinct if_False)
    apply (rule wp_bindI, rule wp_table_name [OF at])
    apply (rule wp_bindI, rule wp_lock [OF at])
    apply (subst snprintf_buf_fits(1) [OF fits])
    apply (subst i [symmetric])
    apply (rule wp_change [OF _ odbc_statement_simps(1)], assumption)
       apply (simp_all add: params_of_def i fail)
    subgoal premises h for v s v'
      apply (rule wp_execute_change [OF h(2), where vs = ?vs, OF _ odbc_statement_simps(1)])
      using h(3) apply (simp add: i)
         apply (simp_all add: params_of_def i)
      subgoal premises k using k ok [unfolded p [symmetric]] by (auto intro!: wp_close_and_unlock simp: i)
      subgoal premises k using k fail by (auto intro!: wp_close_and_unlock)
      done
    done
qed

lemma update_spec:
  assumes i: "s_id x = Some i" and at: "at_db w T False w"
    and ok: "\<And>T' n v. effect Update (update_params x) T = Some (T', n) \<Longrightarrow> 0 < n \<Longrightarrow> at_db w T' False v \<Longrightarrow> Q 0 v"
    and none: "\<And>T' n v. effect Update (update_params x) T = Some (T', n) \<Longrightarrow> n = 0 \<or> \<not> counts \<Longrightarrow>
      at_db w T' False v \<Longrightarrow> Q (-1) v"
    and fail: "\<And>v. at_db w T False v \<Longrightarrow> Q (-1) v"
  shows "wp (odbc_update L (Some x)) Q w"
proof (cases "expiry_text x")
  case None
  then show ?thesis using fail [OF at] unfolding odbc_update_def option.case i by (simp add: wp_return)
next
  case (Some e)
  let ?vs = "[s_user_id x, opendbsc_session_state_str (Some x), s_public_key x, s_algorithm x, s_challenge x, e, s_id x]"
  have row: "?vs = take 6 (drop 1 (row_of_session x)) @ [s_id x]"
    using Some by (auto simp: row_of_session_def expiry_text_def split: if_splits)
  have p: "params_of ?vs = update_params x" by (simp only: row params_of_update)
  show ?thesis
    unfolding odbc_update_def option.case Some
    apply (simp only: i option.distinct if_False)
    apply (rule wp_bindI, rule wp_table_name [OF at])
    apply (rule wp_bindI, rule wp_lock [OF at])
    apply (subst snprintf_buf_fits(2) [OF fits])
    apply (subst i [symmetric])
    apply (rule wp_change [OF _ odbc_statement_simps(2)], assumption)
       apply (simp_all add: fail)
    subgoal premises h for v s v'
      apply (rule wp_execute_change [OF h(2), where vs = ?vs, OF _ odbc_statement_simps(2)])
      using h(3) apply (simp add: i)
         apply simp_all
      subgoal premises k for rc s' v' T' n
        using k ok [unfolded p [symmetric]] none [unfolded p [symmetric]]
        by (auto intro!: wp_close_and_unlock simp: i counted_def split: prod.splits)
      subgoal premises k using k fail by (auto intro!: wp_close_and_unlock)
      done
    done
qed

subsection \<open>Queries\<close>

text \<open>Just fetched: no column of the row has been read.\<close>

definition on_row :: "table \<Rightarrow> columns \<Rightarrow> columns list \<Rightarrow> 'q odbc_stmt \<Rightarrow> bool" where
  "on_row T r rows s \<longleftrightarrow> (\<exists>c. cursor (os_stmt s) = Cursor T (Some c) rows \<and>
     (\<forall>n. 1 \<le> n \<longrightarrow> n \<le> 8 \<longrightarrow> c n = r ! (n - 1)))"

lemma framed_session_from_row:
  assumes "on_row T r rows s"
  shows "framed (session_from_row L s s0) (\<lambda>((rc, x), s'). rc = -1 \<or> rc = 0 \<and> session_of_row r = Some x \<and>
     (\<exists>cur. cursor (os_stmt s') = Cursor T cur rows))"
proof -
  from assms obtain c where row: "cursor (os_stmt s) = Cursor T (Some c) rows"
    and c: "\<And>n. 1 \<le> n \<Longrightarrow> n \<le> 8 \<Longrightarrow> c n = r ! (n - 1)" by (auto simp: on_row_def)
  show ?thesis
    unfolding session_from_row_def
  proof (rule framed_bind [OF row_columns_spec [OF row]], goal_cases)
    case (3 cq)
    obtain cols q where cq: "cq = (cols, q)" by fastforce
    show ?case
    proof (cases cols)
      case None
      then show ?thesis by (simp add: cq framed_return framed_bind [OF framed_return [of "\<lambda>r. r = (-1, s0)"]])
    next
      case (Some cs)
      with 3 cq have cs: "cs = map (\<lambda>i. c (i + 1)) [0..<8]" and cur: "\<exists>cur. cursor q = Cursor T cur rows" by auto
      have row: "session_of_row cs = session_of_row r" unfolding cs by (rule session_of_row_cong) (simp add: c)
      show ?thesis
        unfolding cq Some prod.case option.case
        by (rule framed_bind [OF framed_session_from_columns])
           (use cur row in \<open>auto intro!: framed_return\<close>)
    qed
  qed auto
qed

lemma wp_open_query:
  assumes at: "at_db w T m v" and st: "odbc_statement tn sql = Some st" "st \<in> {Select_By_Id, Select_By_User}"
    and ok: "\<And>s v' rows. at_db w T m v' \<Longrightarrow> cursor (os_stmt s) = Cursor T None rows \<Longrightarrow>
      answers st ((\<lambda>_. None)(1 := Some y)) T rows \<Longrightarrow> Q (Some s) v'"
    and fail: "\<And>v'. at_db w T m v' \<Longrightarrow> Q None v'"
  shows "wp (open_query L sql y) Q v"
proof -
  have run: "wp (do { (rc, s) \<leftarrow> execute_stmt L s;
       if \<not> SQL_SUCCEEDED rc then do { odbc_stmt_close L s; ret None } else ret (Some s) }) Q v1"
    if at1: "at_db w T m v1" and s: "ready s sql [Some y]" for s v1
    unfolding execute_stmt_def
  proof (rule wp_bindI, rule wp_bindI, rule wp_on_dbc [OF at1], goal_cases)
    case (1 r d v2)
    obtain rc q where r: "r = (rc, q)" by fastforce
    have T: "tbl (oc_dbc (impl v1)) = T" using at1 by (simp add: at_db_def)
    from s st(1) have "cursor (os_stmt s) = Unexecuted" "odbc_statement tn (sql_text (os_stmt s)) = Some st"
      and p: "bound (os_stmt s) = (\<lambda>_. None)(1 := Some y)" by (simp_all add: ready_def params_of_single)
    note law = execute_select [OF 1(1) [unfolded r] this(1,2) st(2), unfolded p T]
    have at2: "at_db w T m v2" using 1(2) law by simp
    show ?case
    proof (cases "SQL_SUCCEEDED rc")
      case True
      with law obtain rows where "cursor q = Cursor T None rows" "answers st ((\<lambda>_. None)(1 := Some y)) T rows" by auto
      with ok [OF at2, of "s\<lparr>os_stmt := q\<rparr>"] True show ?thesis by (simp add: r wp_return)
    next
      case False
      then show ?thesis by (simp add: r wp_return) (intro wp_close_ret [OF at2] fail)
    qed
  qed
  show ?thesis
    unfolding open_query_def
  proof (rule wp_bindI, rule wp_odbc_prepare [OF at], goal_cases)
    case (1 s v1)
    obtain rc s' where b: "odbc_bind_text L s (Some y) = (rc, s')" by fastforce
    show ?case
    proof (cases "rc = 0")
      case True
      then have "ready s' sql [Some y]" using ready_bind [OF 1(2)] b by fastforce
      from run [OF 1(1) this] True b show ?thesis by simp
    next
      case False
      with b show ?thesis by (simp, intro wp_close_ret [OF 1(1)] fail)
    qed
  next
    case (2 v1)
    then show ?case using fail by (simp add: wp_return)
  qed
qed

lemma wp_fetch_stmt:
  assumes at: "at_db w T m v" and s: "cursor (os_stmt s) = Cursor T cur rows"
    and row: "\<And>s' v' r rs. at_db w T m v' \<Longrightarrow> rows = r # rs \<Longrightarrow>
      on_row T r rs s' \<Longrightarrow> Q (SQL_SUCCESS, s') v'"
    and none: "\<And>rc s' v'. rc \<noteq> SQL_SUCCESS \<Longrightarrow> at_db w T m v' \<Longrightarrow> rc = SQL_NO_DATA \<longrightarrow> rows = [] \<Longrightarrow> Q (rc, s') v'"
  shows "wp (fetch_stmt L s) Q v"
  unfolding fetch_stmt_def
proof (rule wp_bindI, rule wp_on_dbc [OF at], goal_cases)
  case (1 r d v1)
  obtain rc q where r: "r = (rc, q)" by fastforce
  have T: "tbl (oc_dbc (impl v)) = T" using at by (simp add: at_db_def)
  note law = fetch [OF 1(1) [unfolded r], unfolded T, OF s]
  have at1: "at_db w T m v1" using 1(2) law by simp
  have "Q (rc, s\<lparr>os_stmt := q\<rparr>) v1"
  proof (cases "rc = SQL_SUCCESS")
    case True
    with law obtain r rs where "rows = r # rs" "on_row T r rs (s\<lparr>os_stmt := q\<rparr>)" by (auto simp: on_row_def)
    with row [OF at1, of r rs "s\<lparr>os_stmt := q\<rparr>"] True show ?thesis by simp
  next
    case False
    with none [OF False at1] law show ?thesis by auto
  qed
  then show ?case by (simp add: r wp_return)
qed

lemma at_db_oframe: "at_db w T m v \<Longrightarrow> oframe w v"
  by (simp add: at_db_def)

lemma at_db_tick:
  "at_db w T m v \<Longrightarrow> clock_reads v \<le> n \<Longrightarrow> at_db w T m (v\<lparr>clock_reads := n\<rparr>)"
  by (auto simp: at_db_def oframe_def)

lemma get_spec:
  assumes at: "at_db w T False w"
  shows "wp (odbc_get L (Some i)) (\<lambda>(rc, out) v. \<exists>T'. at_db w T' False v \<and>
     (rc = 0 \<and> (\<exists>r s. out = Some s \<and> T i = Some r \<and> session_of_row r = Some s \<and> T' = T \<and> live_between w v s) \<or>
      rc = -1 \<and> out = None \<and> (T' = T \<or>
        (\<exists>r s. T i = Some r \<and> session_of_row r = Some s \<and> expired_between w v s \<and> T' = T(i := None))))) w"
  (is "wp _ ?Q w")
proof -
  have fail: "?Q (-1, None) v" if "at_db w T False v" for v using that by auto
  have fin: "wp (close_and_unlock L s (-1, None)) ?Q v" if "at_db w T True v" for s v
    by (rule wp_close_and_unlock [OF that]) (rule fail)
  have got: "wp (do {
      now \<leftarrow> time_now;
      if s_has_expires x \<and> s_expires_at x < now then do {
        odbc_stmt_close L s;
        _ \<leftarrow> odbc_delete_unlocked L i;
        unlock_with (-1, None) }
      else close_and_unlock L s (0, Some x) }) ?Q v"
    if at: "at_db w T True v" and r: "T i = Some r" "session_of_row r = Some x" for s v r x
  proof -
    let ?now = "wall_clock v (clock_reads v)" and ?v = "v\<lparr>clock_reads := Suc (clock_reads v)\<rparr>"
    have at1: "at_db w T True ?v" using at_db_tick [OF at, of "Suc (clock_reads v)"] by simp
    have atv: "at_db ?v T True ?v" using at1 by (simp add: at_db_def)
    have wc: "wall_clock v = wall_clock w" "clock_reads w \<le> clock_reads v"
      using oframe_clock_reads [OF at_db_oframe [OF at]] at by (auto simp: at_db_def oframe_def)
    have join: "at_db w T' m v' \<and> oframe ?v v'" if "at_db ?v T' m v'" for T' m v'
      using that at1 by (auto simp: at_db_def intro: oframe_trans)
    show ?thesis
    proof (cases "s_has_expires x \<and> s_expires_at x < ?now")
      case True
      have ex: "expired_between w v' x" if "oframe ?v v'" for v'
        using True wc oframe_clock_reads [OF that] unfolding expired_between_def
        by (intro conjI exI [of _ "clock_reads v"]) auto
      have "wp (do { odbc_stmt_close L s; _ \<leftarrow> odbc_delete_unlocked L i; unlock_with (-1, None) }) ?Q ?v"
      proof (rule wp_bindI, rule wp_close [OF atv], rule wp_bindI, rule delete_unlocked_spec, assumption, goal_cases)
        case (1 u1 rc T' u2)
        show ?case
          by (rule wp_unlock [OF 1(3)]) (use 1(2) r join ex in \<open>fastforce simp del: fun_upd_apply\<close>)
      qed
      with True show ?thesis by (simp add: wp_bind [of time_now] wp_time_now)
    next
      case False
      have "live_between w v' x" if "oframe ?v v'" for v'
        using False wc oframe_clock_reads [OF that] unfolding live_between_def
        by (intro impI exI [of _ "clock_reads v"]) auto
      then have "wp (close_and_unlock L s (0, Some x)) ?Q ?v"
        by (intro wp_close_and_unlock [OF atv]) (use r join in fastforce)
      with False show ?thesis by (auto simp: wp_bind [of time_now] wp_time_now)
    qed
  qed
  have row: "wp (do {
      ok \<leftarrow> alloc;
      if \<not> ok then close_and_unlock L s (-1, None)
      else do {
        ((rc, x), s) \<leftarrow> session_from_row L s session_defaults;
        if rc \<noteq> 0 then close_and_unlock L s (-1, None)
        else do {
          now \<leftarrow> time_now;
          if s_has_expires x \<and> s_expires_at x < now then do {
            odbc_stmt_close L s;
            _ \<leftarrow> odbc_delete_unlocked L i;
            unlock_with (-1, None) }
          else close_and_unlock L s (0, Some x) } } }) ?Q v"
    if at: "at_db w T True v" and s: "on_row T r rows s" and r: "T i = Some r"
    for s v r rows
  proof (rule wp_bindI, rule wp_framed [OF framed_alloc], goal_cases)
    case (1 ok v1)
    note at1 = at_db_frame [OF at 1(1)]
    show ?case
    proof (cases ok)
      case True
      have "wp (do {
          ((rc, x), s) \<leftarrow> session_from_row L s session_defaults;
          if rc \<noteq> 0 then close_and_unlock L s (-1, None)
          else do {
            now \<leftarrow> time_now;
            if s_has_expires x \<and> s_expires_at x < now then do {
              odbc_stmt_close L s;
              _ \<leftarrow> odbc_delete_unlocked L i;
              unlock_with (-1, None) }
            else close_and_unlock L s (0, Some x) } }) ?Q v1"
      proof (rule wp_bindI, rule wp_framed [OF framed_session_from_row [OF s]], goal_cases)
        case (1 y v2)
        obtain rc x s' where y: "y = ((rc, x), s')" by (metis prod.exhaust)
        note at2 = at_db_frame [OF at1 1(1)]
        show ?case
        proof (cases "rc = 0")
          case True
          with 1(2) y have "session_of_row r = Some x" by simp
          from got [OF at2 r this, of s'] True show ?thesis unfolding y prod.case by (simp only: simp_thms if_False)
        next
          case False
          with fin [OF at2, of s'] show ?thesis unfolding y prod.case by simp
        qed
      qed
      with True show ?thesis by (simp only: simp_thms if_False)
    next
      case False
      with fin [OF at1, of s] show ?thesis by simp
    qed
  qed
  show ?thesis
    unfolding odbc_get_def option.case build_select_sql_def
    apply (rule wp_bindI, rule wp_bindI, rule wp_table_name [OF at])
    apply (subst snprintf_buf_fits(4) [OF fits], simp)
    apply (simp only: wp_return)
    apply (rule wp_bindI, rule wp_lock [OF at])
    apply (rule wp_bindI, rule wp_open_query [OF _ odbc_statement_simps(5)], assumption, simp)
    subgoal premises h for v s v' rows
      unfolding option.case
    proof (rule wp_bindI, rule wp_fetch_stmt [OF h(2,3)], goal_cases)
      case (1 s' v2 r rs)
      have "T i = Some r" using select_session(1) [OF _ h(4) [unfolded 1(2)], of i] by simp
      from row [OF 1(1,3) this] show ?case by (simp only: prod.case simp_thms if_False)
    next
      case (2 rc s' v2)
      then show ?case using fin [OF 2(2), of s'] by simp
    qed
    subgoal premises h for v v'
      unfolding option.case by (rule wp_unlock [OF h(2)]) (rule fail)
    done
qed

subsection \<open>The sessions of a user\<close>

definition collected :: "'d opendbsc_odbc_ctx sys \<Rightarrow> table \<Rightarrow> int \<Rightarrow> columns list \<Rightarrow> OpenDBSC_Session list \<Rightarrow>
    string list \<Rightarrow> bool \<times> 'q odbc_stmt \<times> OpenDBSC_Session list \<times> string list \<Rightarrow> 'd opendbsc_odbc_ctx sys \<Rightarrow> bool" where
  "collected w T now rows ss es =
     (\<lambda>(ok, s, ss', es') v. at_db w T True v \<and> (ok \<longrightarrow> gathered now rows ss es ss' es'))"

lemma user_rows_spec:
  "at_db w T True v \<Longrightarrow> cursor (os_stmt s) = Cursor T cur rows \<Longrightarrow> length rows < fuel \<Longrightarrow>
   wp (odbc_user_rows L fuel now s ss es) (collected w T now rows ss es) v"
proof (induction fuel arbitrary: v s cur rows ss es)
  case (Suc fuel)
  show ?case
    unfolding odbc_user_rows.simps
  proof (rule wp_bindI, rule wp_fetch_stmt [OF Suc.prems(1,2)], goal_cases)
    case (1 s' v1 r rs)
    have stop: "collected w T now rows ss es (False, x, [], es) u" if "at_db w T True u" for x u
      using that by (simp add: collected_def)
    have turn: "wp (do {
       ((rc, tmp), s) \<leftarrow> session_from_row L s' session_defaults;
       if rc \<noteq> 0 then ret (False, s, [], es)
       else do {
         kept \<leftarrow> keep_row now tmp ss es;
         case kept of None \<Rightarrow> ret (False, s, [], es)
         | Some (ss, es) \<Rightarrow> odbc_user_rows L fuel now s ss es } }) (collected w T now rows ss es) v1"
    proof (rule wp_bindI, rule wp_framed [OF framed_session_from_row [OF 1(3)]], goal_cases)
      case (1 y v2)
      obtain rc tmp s2 where y: "y = ((rc, tmp), s2)" by (metis prod.exhaust)
      note at2 = at_db_frame [OF \<open>at_db w T True v1\<close> 1(1)]
      show ?case
      proof (cases "rc = 0")
        case False
        then show ?thesis using stop [OF at2] by (simp add: y wp_return)
      next
        case True
        with 1(2) y have x: "session_of_row r = Some tmp" and c2: "\<exists>cur. cursor (os_stmt s2) = Cursor T cur rs" by auto
        then obtain i where i: "s_id tmp = Some i" by (auto simp: session_of_row_def bind_eq_Some_conv)
        have "wp (do { kept \<leftarrow> keep_row now tmp ss es;
             case kept of None \<Rightarrow> ret (False, s2, [], es)
             | Some (ss, es) \<Rightarrow> odbc_user_rows L fuel now s2 ss es }) (collected w T now rows ss es) v2"
        proof (rule wp_bindI, rule wp_framed [OF framed_keep_row [OF i]], goal_cases)
          case (1 kept v3)
          note at3 = at_db_frame [OF at2 1(1)]
          show ?case
          proof (cases kept)
            case None
            then show ?thesis using stop [OF at3] by (simp add: wp_return)
          next
            case (Some k)
            with 1(2) have k: "k = (if expired_at now tmp then (ss, es @ [i]) else (ss @ [tmp], es))" by simp
            from c2 obtain cur2 where "cursor (os_stmt s2) = Cursor T cur2 rs" ..
            from Suc.IH [OF at3 this, of "fst k" "snd k"] Suc.prems(3) \<open>rows = r # rs\<close>
            have "wp (odbc_user_rows L fuel now s2 (fst k) (snd k)) (collected w T now rs (fst k) (snd k)) v3" by simp
            then have "wp (odbc_user_rows L fuel now s2 (fst k) (snd k)) (collected w T now rows ss es) v3"
              by (rule wp_mono) (use gathered_Cons [OF x i k] \<open>rows = r # rs\<close> in \<open>auto simp: collected_def\<close>)
            then show ?thesis by (simp add: Some case_prod_unfold)
          qed
        qed
        then show ?thesis unfolding y prod.case True by (simp only: simp_thms if_False)
      qed
    qed
    then show ?case by (simp only: prod.case simp_thms if_False)
  next
    case (2 rc s' v1)
    then show ?case by (auto simp: wp_return collected_def gathered_Nil)
  qed
qed simp

lemma delete_expired_spec:
  "at_db w T' True v \<Longrightarrow> purged T A T' \<Longrightarrow> set is \<subseteq> A \<Longrightarrow>
   wp (odbc_delete_expired L is) (\<lambda>_ v'. \<exists>T''. at_db w T'' True v' \<and> purged T A T'') v"
proof (induction "is" arbitrary: v T')
  case (Cons i "is")
  show ?case
    unfolding odbc_delete_expired.simps
  proof (rule wp_bindI, rule delete_unlocked_spec [OF Cons.prems(1)], goal_cases)
    case (1 rc T2 v2)
    then have "purged T A T2" using Cons.prems(2,3) purged_del [of T A T' i] by (auto simp del: fun_upd_apply)
    from Cons.IH [OF 1(2) this] Cons.prems(3) show ?case by simp
  qed
qed (auto simp: wp_return)

lemma get_by_user_spec:
  assumes at: "at_db w T False w"
  shows "wp (odbc_get_by_user_id L (Some u)) (\<lambda>(rc, out) v. \<exists>T'. at_db w T' False v \<and>
     (rc = -1 \<and> out = [] \<and> T' = T \<or>
      rc = 0 \<and> (\<exists>n rows es. clock_reads w \<le> n \<and> n < clock_reads v \<and>
        answers Select_By_User ((\<lambda>_. None)(1 := Some u)) T rows \<and>
        gathered (wall_clock w n) rows [] [] out es \<and> purged T (set es) T'))) w"
  (is "wp _ ?Q w")
proof -
  let ?v = "w\<lparr>clock_reads := Suc (clock_reads w)\<rparr>" and ?now = "wall_clock w (clock_reads w)"
  have fail: "?Q (-1, []) v" if "at_db w T False v" for v using that by auto
  have at1: "at_db w T False ?v" using at_db_tick [OF at, of "Suc (clock_reads w)"] by simp
  have atv: "at_db ?v T False ?v" using at1 by (simp add: at_db_def)
  have join: "at_db w T' m v \<and> clock_reads w < clock_reads v" if "at_db ?v T' m v" for T' m v
    using that oframe_trans [OF at_db_oframe [OF at1], of v] oframe_clock_reads [of ?v v] by (auto simp: at_db_def)
  have tail: "wp (do { odbc_stmt_close L s; odbc_delete_expired L es; unlock_with (0, ss) }) ?Q v"
    if rows: "answers Select_By_User ((\<lambda>_. None)(1 := Some u)) T rows"
      and col: "collected ?v T ?now rows [] [] (True, s, ss, es) v" for rows s ss es v
  proof -
    from col have atc: "at_db ?v T True v" and g: "gathered ?now rows [] [] ss es" by (auto simp: collected_def)
    show ?thesis
    proof (rule wp_bindI, rule wp_close [OF atc], rule wp_bindI,
        rule wp_mono [OF delete_expired_spec [OF _ purged_refl subset_refl]], assumption, goal_cases)
      case (1 v1 x v2)
      then obtain T' where T': "at_db ?v T' True v2" "purged T (set es) T'" by blast
      show ?case
      proof (rule wp_unlock [OF T'(1)], goal_cases)
        case (1 v3)
        from join [OF 1] rows g T'(2) show ?case by (auto intro!: exI [of _ T'] exI [of _ "clock_reads w"])
      qed
    qed
  qed
  show ?thesis
    unfolding odbc_get_by_user_id_def option.case build_select_sql_def
    apply (rule wp_bindI, rule wp_bindI, rule wp_table_name [OF at])
    apply (subst snprintf_buf_fits(4) [OF fits], simp)
    apply (simp only: wp_return wp_bind [of time_now] wp_time_now)
    apply (rule wp_bindI, rule wp_lock [OF atv])
    apply (rule wp_bindI, rule wp_open_query [OF _ odbc_statement_simps(6)], assumption, simp)
    subgoal premises h for v s v' rows
      unfolding option.case
    proof (rule wp_bindI, rule wp_mono [OF user_rows_spec [OF h(2,3)]], goal_cases)
      case 1
      show ?case using rows_left [OF h(3)] by simp
    next
      case (2 x v2)
      obtain ok s' ss es where x: "x = (ok, s', ss, es)" by (metis prod.exhaust)
      show ?case
      proof (cases ok)
        case True
        with 2 x tail [OF h(4)] show ?thesis by (simp add: x)
      next
        case False
        have "at_db ?v T True v2" using 2 x by (simp add: collected_def)
        then have "at_db w T True v2" using join by blast
        then have "wp (close_and_unlock L s' (-1, [])) ?Q v2" by (rule wp_close_and_unlock) (rule fail)
        with False show ?thesis by (simp add: x)
      qed
    qed
    subgoal premises h for v v'
      unfolding option.case by (rule wp_unlock [OF h(2)]) (use join fail in blast)
    done
qed

lemma delete_by_user_spec:
  assumes at: "at_db w T False w"
    and ok: "\<And>v T' n. effect Delete_By_User ((\<lambda>_. None)(1 := Some u)) T = Some (T', n) \<Longrightarrow> at_db w T' False v \<Longrightarrow> Q 0 v"
    and fail: "\<And>v. at_db w T False v \<Longrightarrow> Q (-1) v"
  shows "wp (odbc_delete_by_user_id L (Some u)) Q w"
  unfolding odbc_delete_by_user_id_def option.case
  by (rule wp_bindI, rule wp_lock [OF at], rule wp_bindI, rule delete_where_spec [OF _ odbc_statement_simps(4)], assumption)
     (auto intro: wp_unlock ok [unfolded One_nat_def] fail)

subsection \<open>The contract of the clients\<close>

definition view :: "'d opendbsc_odbc_ctx \<Rightarrow> string \<Rightarrow> OpenDBSC_Session option" where
  "view c = row_view (tbl (oc_dbc c))"

definition inv :: "'d opendbsc_odbc_ctx \<Rightarrow> bool" where
  "inv c \<longleftrightarrow> table_ok (tbl (oc_dbc c)) \<and> \<not> oc_mutex c \<and> oc_table_name c = tn"

lemma at_start: "inv (impl w) \<Longrightarrow> at_db w (tbl (oc_dbc (impl w))) False w"
  by (simp add: at_db_def inv_def)

lemma at_inv: "at_db w T False v \<Longrightarrow> table_ok T \<Longrightarrow> oframe w v \<and> inv (impl v) \<and> view (impl v) = row_view T"
  by (auto simp: at_db_def inv_def view_def)

lemma contract:
  assumes counts
  shows "session_store (odbc_store_vtable L) view inv row_storable"
proof
  fix x i s assume "inv x" "view x i = Some s"
  then show "s_id s = Some i" by (auto simp: inv_def view_def dest: row_view_id)
next
  fix w w' s i rc
  assume w: "inv (impl w)" and s: "s_id s = Some i" "row_storable s"
    and run: "run_state (st_create (odbc_store_vtable L) (Some s)) w = (rc, w')"
  from w have ok: "table_ok (tbl (oc_dbc (impl w)))" by (simp add: inv_def)
  have "wp (odbc_create L (Some s)) (\<lambda>rc w'. oframe w w' \<and> inv (impl w') \<and>
    (rc = 0 \<and> view (impl w') = (view (impl w))(i \<mapsto> s) \<or> rc = -1 \<and> view (impl w') = view (impl w))) w"
    by (rule create_spec [OF s(1) at_start [OF w]])
       (use at_inv ok insert_session [OF ok s] in \<open>fastforce simp: view_def\<close>)+
  moreover from run have "run_state (odbc_create L (Some s)) w = (rc, w')" by (simp add: odbc_store_vtable_def)
  ultimately show "oframe w w' \<and> inv (impl w') \<and>
    (rc = 0 \<and> view (impl w') = (view (impl w))(i \<mapsto> s) \<or>
     rc = -1 \<and> (view (impl w') = view (impl w) \<or> view (impl w') = (view (impl w))(i := None)))"
    by (blast dest: wpD)
next
  fix w w' i rc out
  assume w: "inv (impl w)" and run: "run_state (st_get (odbc_store_vtable L) (Some i)) w = ((rc, out), w')"
  from w have ok: "table_ok (tbl (oc_dbc (impl w)))" by (simp add: inv_def)
  from run have "run_state (odbc_get L (Some i)) w = ((rc, out), w')" by (simp add: odbc_store_vtable_def)
  from wpD [OF get_spec [OF at_start [OF w]] this] ok
  show "oframe w w' \<and> inv (impl w') \<and>
    (rc = 0 \<and> out \<noteq> None \<and> view (impl w) i = out \<and> view (impl w') = view (impl w) \<and>
       live_between w w' (the out) \<or>
     rc = -1 \<and> out = None \<and>
       (view (impl w') = view (impl w) \<or>
        (\<exists>s. view (impl w) i = Some s \<and> expired_between w w' s \<and>
             view (impl w') = (view (impl w))(i := None))))"
    by (auto simp: view_def row_view_def [of "tbl (oc_dbc (impl w))" i] row_view_del table_ok_del at_inv dest!: at_inv)
next
  fix w w' s s0 i rc
  assume w: "inv (impl w)" and s: "s_id s = Some i" "row_storable s"
    and s0: "view (impl w) i = Some s0" "s_created_at s0 = s_created_at s"
    and run: "run_state (st_update (odbc_store_vtable L) (Some s)) w = (rc, w')"
  from w have ok: "table_ok (tbl (oc_dbc (impl w)))" by (simp add: inv_def)
  note upd = update_session [OF ok s s0(1) [unfolded view_def], unfolded s0(2)]
  have "wp (odbc_update L (Some s)) (\<lambda>rc w'. oframe w w' \<and> inv (impl w') \<and>
    (rc = 0 \<and> view (impl w') = (view (impl w))(i \<mapsto> s) \<or> rc = -1 \<and> view (impl w') = view (impl w))) w"
    by (rule update_spec [OF s(1) at_start [OF w]])
       (use at_inv ok upd \<open>counts\<close> in \<open>fastforce simp: view_def\<close>)+
  moreover from run have "run_state (odbc_update L (Some s)) w = (rc, w')" by (simp add: odbc_store_vtable_def)
  ultimately show "oframe w w' \<and> inv (impl w') \<and>
    (rc = 0 \<and> view (impl w') = (view (impl w))(i \<mapsto> s) \<or>
     rc = -1 \<and> (view (impl w') = view (impl w) \<or> view (impl w') = (view (impl w))(i := None)))"
    by (blast dest: wpD)
next
  fix w w' i rc
  assume w: "inv (impl w)" and run: "run_state (st_delete (odbc_store_vtable L) (Some i)) w = (rc, w')"
  from w have ok: "table_ok (tbl (oc_dbc (impl w)))" by (simp add: inv_def)
  have "wp (odbc_delete L (Some i)) (\<lambda>rc w'. oframe w w' \<and> inv (impl w') \<and>
    (rc = 0 \<and> view (impl w') = (view (impl w))(i := None) \<or> rc = -1 \<and> view (impl w') = view (impl w))) w"
    unfolding odbc_delete_def option.case
    by (rule wp_bindI, rule wp_lock [OF at_start [OF w]], rule wp_bindI, rule delete_unlocked_spec, assumption,
        rule wp_unlock, assumption)
       (use ok in \<open>auto simp: view_def row_view_del table_ok_del dest!: at_inv\<close>)
  moreover from run have "run_state (odbc_delete L (Some i)) w = (rc, w')" by (simp add: odbc_store_vtable_def)
  ultimately show "oframe w w' \<and> inv (impl w') \<and>
    (rc = 0 \<and> view (impl w') = (view (impl w))(i := None) \<or>
     rc = -1 \<and> (view (impl w') = view (impl w) \<or> view (impl w') = (view (impl w))(i := None)))"
    by (blast dest: wpD)
next
  fix w :: "'d opendbsc_odbc_ctx sys" and xs
  show "run_state (st_free_sessions (odbc_store_vtable L) xs) w = ((), w)"
    by (simp add: odbc_store_vtable_def odbc_free_sessions_def)
qed

lemma get_by_user_exact:
  assumes w: "inv (impl w)"
    and run: "run_state (odbc_get_by_user_id L (Some u)) w = ((rc, out), w')"
  shows "oframe w w' \<and> inv (impl w') \<and>
    (rc = -1 \<and> out = [] \<and> view (impl w') = view (impl w) \<or>
     rc = 0 \<and> (\<exists>n. clock_reads w \<le> n \<and> n < clock_reads w' \<and>
        user_answer (tbl (oc_dbc (impl w))) u (wall_clock w n) out (tbl (oc_dbc (impl w')))))"
proof -
  let ?T = "tbl (oc_dbc (impl w))"
  from w have ok: "table_ok ?T" by (simp add: inv_def)
  from wpD [OF get_by_user_spec [OF at_start [OF w]] run] obtain T' where at: "at_db w T' False w'"
    and cases: "rc = -1 \<and> out = [] \<and> T' = ?T \<or>
      rc = 0 \<and> (\<exists>n rows es. clock_reads w \<le> n \<and> n < clock_reads w' \<and>
        answers Select_By_User ((\<lambda>_. None)(1 := Some u)) ?T rows \<and>
        gathered (wall_clock w n) rows [] [] out es \<and> purged ?T (set es) T')" by auto
  from at have T': "tbl (oc_dbc (impl w')) = T'" by (simp add: at_db_def)
  from cases show ?thesis
  proof (elim disjE conjE exE)
    assume "rc = -1" "out = []" "T' = ?T"
    with at_inv [OF at] ok show ?thesis by (simp add: view_def)
  next
    fix n rows es
    assume h: "rc = 0" "clock_reads w \<le> n" "n < clock_reads w'"
      and rows: "answers Select_By_User ((\<lambda>_. None)(1 := Some u)) ?T rows"
      and g: "gathered (wall_clock w n) rows [] [] out es" and p: "purged ?T (set es) T'"
    have "user_answer ?T u (wall_clock w n) out T'" by (rule gathered_user_answer [OF ok _ rows g p]) simp
    with h at_inv [OF at purged_ok [OF p ok]] show ?thesis unfolding T' by blast
  qed
qed

end

text \<open>A driver that knows its row counts keeps the contract of the clients.\<close>

locale odbc_counting = odbc_engine L tbl sql_text bound cursor tn True
  for L :: "('d, 'q) odbc" and tbl :: "'d \<Rightarrow> table" and sql_text bound cursor tn

sublocale odbc_counting \<subseteq> client: session_store "odbc_store_vtable L" view inv row_storable
  by (rule contract) simp

section \<open>The factory\<close>

lemma identifier_loop_iff: "identifier_loop s = 1 \<longleftrightarrow> (\<forall>c \<in> set s. identifier_char c)"
  and identifier_loop_bool: "identifier_loop s \<noteq> 0 \<longleftrightarrow> identifier_loop s = 1"
  by (induction s) auto

lemma valid_identifier_iff:
  "is_valid_identifier (Some s) \<noteq> 0 \<longleftrightarrow> s \<noteq> [] \<and> (\<forall>c \<in> set s. identifier_char c)"
  by (simp add: is_valid_identifier_def identifier_loop_bool identifier_loop_iff)

text \<open>The table a configuration names.\<close>

definition config_table :: "OpenDBSC_OdbcConfig \<Rightarrow> string" where
  "config_table cfg = (case od_table_name cfg of None \<Rightarrow> ''sessions'' | Some t \<Rightarrow> t)"

lemma framed_store_create:
  "framed (opendbsc_odbc_store_create L mutex_ok (Some cfg)) (\<lambda>r. r = None \<or>
     (\<exists>conn dbc rc. od_connection_string cfg = Some conn \<and> is_valid_identifier (Some (config_table cfg)) \<noteq> 0 \<and>
        SQLDriverConnect L (if od_login_timeout_seconds cfg > 0 then Some (od_login_timeout_seconds cfg) else None) conn
          = (rc, dbc) \<and> SQL_SUCCEEDED rc \<and>
        r = Some (\<lparr>oc_dbc = if od_auto_create_table cfg \<noteq> 0 then odbc_create_schema L (config_table cfg) dbc else dbc,
               oc_mutex = False, oc_table_name = config_table cfg\<rparr>, odbc_store_vtable L)))"
  unfolding opendbsc_odbc_store_create_def option.case config_table_def [symmetric] Let_def
  by (cases "od_connection_string cfg")
     (auto intro!: framed_return framed_bind [OF framed_alloc] framed_bind [OF framed_malloc_str]
       split: prod.split)

end
