(* ===== verification/Sql_Reference.thy ===== *)
theory Sql_Reference
  imports Sqlite_Store Odbc_Store "HOL-Library.DAList"
begin

text \<open>
  A database engine to run the SQL stores on: one table, kept as an association list with distinct
  keys, whose statements do what \<open>effect\<close> and \<open>answers\<close> say. It interprets \<open>sqlite_engine\<close> and
  \<open>odbc_engine\<close>, so that their laws are consistent and the theorems of the stores hold of runs that can
  be evaluated. It is not a model of any real engine.
\<close>

section \<open>Statements on an association list\<close>

definition ref_change :: "sql_statement \<Rightarrow> params \<Rightarrow> (string, columns) alist \<Rightarrow> ((string, columns) alist \<times> nat) option" where
  "ref_change st p T =
     (case st of
        Insert \<Rightarrow>
          (case p 1 of None \<Rightarrow> None
           | Some i \<Rightarrow>
               if DAList.lookup T i \<noteq> None \<or> p 2 = None \<or> p 3 = None \<or> p 8 = None then None
               else Some (DAList.update i [p 1, p 2, p 3, p 4, p 5, p 6, p 7, p 8] T, 1))
      | Update \<Rightarrow>
          (case p 7 of None \<Rightarrow> Some (T, 0)
           | Some i \<Rightarrow>
               (case DAList.lookup T i of None \<Rightarrow> Some (T, 0)
                | Some r \<Rightarrow>
                    if p 1 = None \<or> p 2 = None then None
                    else Some (DAList.update i [r ! 0, p 1, p 2, p 3, p 4, p 5, p 6, r ! 7] T, 1)))
      | Delete_By_Id \<Rightarrow>
          (case p 1 of None \<Rightarrow> Some (T, 0)
           | Some i \<Rightarrow> Some (DAList.delete i T, if DAList.lookup T i = None then 0 else 1))
      | Delete_By_User \<Rightarrow>
          Some (DAList.filter (\<lambda>(i, r). \<not> (p 1 \<noteq> None \<and> r ! 1 = p 1)) T,
                length (filter (\<lambda>(i, r). p 1 \<noteq> None \<and> r ! 1 = p 1) (DAList.impl_of T)))
      | _ \<Rightarrow> Some (T, 0))"

definition ref_query :: "sql_statement \<Rightarrow> params \<Rightarrow> (string, columns) alist \<Rightarrow> columns list" where
  "ref_query st p T = map snd (filter (\<lambda>(i, r).
     case st of Select_By_Id \<Rightarrow> p 1 = Some i | Select_By_User \<Rightarrow> p 1 \<noteq> None \<and> r ! 1 = p 1 | _ \<Rightarrow> False)
     (DAList.impl_of T))"

lemma lookup_iff: "DAList.lookup T i = Some r \<longleftrightarrow> (i, r) \<in> set (DAList.impl_of T)"
  by (simp add: lookup.rep_eq)

lemma lookup_filter_iff:
  "DAList.lookup (DAList.filter P T) i = Some r \<longleftrightarrow> DAList.lookup T i = Some r \<and> P (i, r)"
  by (auto simp: lookup_iff filter.rep_eq)

lemma alist_lookup_filter: "DAList.lookup (DAList.filter P T) i =
    (case DAList.lookup T i of None \<Rightarrow> None | Some r \<Rightarrow> if P (i, r) then Some r else None)"
proof (cases "DAList.lookup (DAList.filter P T) i")
  case None
  then have "\<not> P (i, r)" if "DAList.lookup T i = Some r" for r using that lookup_filter_iff [of P T i r] by simp
  with None show ?thesis by (simp split: option.split)
next
  case (Some r)
  with lookup_filter_iff [of P T i r] show ?thesis by simp
qed

lemma lookup_upd: "DAList.lookup (DAList.update i r T) = (DAList.lookup T)(i \<mapsto> r)"
  by (simp add: lookup.rep_eq update.rep_eq update_conv')

lemma distinct_filter_keys: "distinct (map fst (filter P (DAList.impl_of T)))"
  by (rule distinct_map_fst_filter) simp

lemma card_keys: "card {i. \<exists>r. DAList.lookup T i = Some r \<and> P r} = length (filter (\<lambda>(i, r). P r) (DAList.impl_of T))"
proof -
  have "{i. \<exists>r. DAList.lookup T i = Some r \<and> P r} = set (map fst (filter (\<lambda>(i, r). P r) (DAList.impl_of T)))"
    by (force simp: lookup_iff)
  then show ?thesis using distinct_card [OF distinct_filter_keys] by (metis length_map)
qed

lemma ref_change_effect:
  "effect st p (DAList.lookup T) = map_option (\<lambda>(T', n). (DAList.lookup T', n)) (ref_change st p T)"
proof (cases st)
  case Delete_By_User
  have "(\<lambda>i. case DAList.lookup T i of None \<Rightarrow> None | Some r \<Rightarrow> if p 1 \<noteq> None \<and> r ! 1 = p 1 then None else Some r)
      = DAList.lookup (DAList.filter (\<lambda>(i, r). \<not> (p 1 \<noteq> None \<and> r ! 1 = p 1)) T)"
    by (auto simp: fun_eq_iff alist_lookup_filter split: option.splits)
  then show ?thesis
    using Delete_By_User card_keys [of T "\<lambda>r. p 1 \<noteq> None \<and> r ! 1 = p 1"]
    unfolding effect_def ref_change_def by simp
qed (auto simp: effect_def insert_effect_def update_effect_def ref_change_def lookup_upd
    split: option.splits)

lemma ref_query_answers:
  assumes "st \<in> {Select_By_Id, Select_By_User}"
  shows "answers st p (DAList.lookup T) (ref_query st p T)"
proof -
  let ?P = "\<lambda>(i, r). case st of Select_By_Id \<Rightarrow> p 1 = Some i | Select_By_User \<Rightarrow> p 1 \<noteq> None \<and> r ! 1 = p 1 | _ \<Rightarrow> False"
  let ?f = "filter ?P (DAList.impl_of T)"
  have "map Some (map snd ?f) = map (DAList.lookup T) (map fst ?f)"
    by (auto simp: lookup_iff [symmetric] eq_commute [of "Some _"])
  moreover have "set (map fst ?f) = {i. \<exists>r. DAList.lookup T i = Some r \<and>
       (case st of Select_By_Id \<Rightarrow> p 1 = Some i | Select_By_User \<Rightarrow> p 1 \<noteq> None \<and> r ! 1 = p 1 | _ \<Rightarrow> False)}"
    by (cases st) (force simp: lookup_iff)+
  ultimately show ?thesis
    unfolding answers_def ref_query_def using distinct_filter_keys [of ?P T] by blast
qed

lemma answers_length: "answers st p (DAList.lookup T) rows \<Longrightarrow> length rows \<le> length (DAList.impl_of T)"
proof -
  assume "answers st p (DAList.lookup T) rows"
  then obtain js where d: "distinct js" and rows: "map Some rows = map (DAList.lookup T) js"
    and sub: "set js \<subseteq> {i. \<exists>r. DAList.lookup T i = Some r}" unfolding answers_def by fastforce
  have "length rows = length js" using rows by (metis length_map)
  also have "\<dots> = card (set js)" using d by (simp add: distinct_card)
  also have "\<dots> \<le> card (set (map fst (DAList.impl_of T)))"
    by (rule card_mono) (use sub in \<open>force simp: lookup_iff\<close>)+
  also have "\<dots> \<le> length (DAList.impl_of T)" by (metis card_length length_map)
  finally show ?thesis .
qed

section \<open>As an SQLite library\<close>

record ref_db =
  rd_table :: "(string, columns) alist"
  rd_changes :: nat

datatype ref_cursor = Ref_Prepared | Ref_Row "(string, columns) alist" columns "columns list" | Ref_Finished

record ref_stmt =
  rs_sql :: string
  rs_params :: params
  rs_cursor :: ref_cursor

definition ref_step :: "ref_stmt \<Rightarrow> ref_db \<Rightarrow> (int \<times> ref_stmt) \<times> ref_db" where
  "ref_step q d =
     (case rs_cursor q of
        Ref_Prepared \<Rightarrow>
          (case sqlite_statement (rs_sql q) of
             None \<Rightarrow> ((1, q), d)
           | Some st \<Rightarrow>
               if st \<in> {Select_By_Id, Select_By_User} then
                 (case ref_query st (rs_params q) (rd_table d) of
                    [] \<Rightarrow> ((SQLITE_DONE, q\<lparr>rs_cursor := Ref_Finished\<rparr>), d)
                  | r # rs \<Rightarrow> ((SQLITE_ROW, q\<lparr>rs_cursor := Ref_Row (rd_table d) r rs\<rparr>), d))
               else
                 (case ref_change st (rs_params q) (rd_table d) of
                    None \<Rightarrow> ((19, q\<lparr>rs_cursor := Ref_Finished\<rparr>), d)
                  | Some (T, n) \<Rightarrow>
                      ((SQLITE_DONE, q\<lparr>rs_cursor := Ref_Finished\<rparr>), \<lparr>rd_table = T, rd_changes = n\<rparr>)))
      | Ref_Row T r [] \<Rightarrow> ((SQLITE_DONE, q\<lparr>rs_cursor := Ref_Finished\<rparr>), d)
      | Ref_Row T r (r' # rs) \<Rightarrow> ((SQLITE_ROW, q\<lparr>rs_cursor := Ref_Row T r' rs\<rparr>), d)
      | Ref_Finished \<Rightarrow> ((21, q), d))"

definition ref_empty :: ref_db where
  "ref_empty = \<lparr>rd_table = DAList.empty, rd_changes = 0\<rparr>"

definition sqlite_reference :: "(ref_db, ref_stmt) sqlite3" where
  "sqlite_reference = \<lparr>
     sqlite3_open = (\<lambda>path. (SQLITE_OK, ref_empty)),
     sqlite3_close = (\<lambda>d. ((), d)),
     sqlite3_exec = (\<lambda>sql d. (SQLITE_OK, d)),
     sqlite3_prepare_v2 = (\<lambda>sql d. ((SQLITE_OK, \<lparr>rs_sql = sql, rs_params = (\<lambda>_. None), rs_cursor = Ref_Prepared\<rparr>), d)),
     sqlite3_bind_text = (\<lambda>q n t. (SQLITE_OK, q\<lparr>rs_params := (rs_params q)(n := Some t)\<rparr>)),
     sqlite3_bind_null = (\<lambda>q n. (SQLITE_OK, q\<lparr>rs_params := (rs_params q)(n := None)\<rparr>)),
     sqlite3_step = ref_step,
     sqlite3_column_text = (\<lambda>q n. case rs_cursor q of Ref_Row T r rs \<Rightarrow> r ! n | _ \<Rightarrow> None),
     sqlite3_changes = (\<lambda>d. int (rd_changes d)),
     sqlite3_finalize = (\<lambda>q d. ((), d)),
     result_rows = (\<lambda>q d. length (DAList.impl_of (rd_table d)))\<rparr>"

definition ref_table :: "ref_db \<Rightarrow> table" where
  "ref_table d = DAList.lookup (rd_table d)"

definition ref_progress :: "ref_stmt \<Rightarrow> progress" where
  "ref_progress q = (case rs_cursor q of Ref_Prepared \<Rightarrow> Prepared
     | Ref_Row T r rs \<Rightarrow> On_Row (DAList.lookup T) r rs | Ref_Finished \<Rightarrow> Finished)"

lemma ref_progress_iff:
  "ref_progress q = Prepared \<longleftrightarrow> rs_cursor q = Ref_Prepared"
  "ref_progress q = On_Row T r rs \<longleftrightarrow> (\<exists>t. rs_cursor q = Ref_Row t r rs \<and> T = DAList.lookup t)"
  by (auto simp: ref_progress_def split: ref_cursor.splits)

lemma ref_step_change:
  assumes "rs_cursor q = Ref_Prepared" and "sqlite_statement (rs_sql q) = Some st"
    and "st \<in> {Insert, Update, Delete_By_Id, Delete_By_User}" and "ref_step q d = ((rc, q'), d')"
  shows "if rc = SQLITE_DONE
     then \<exists>n. effect st (rs_params q) (ref_table d) = Some (ref_table d', n) \<and> int (rd_changes d') = int n
     else ref_table d' = ref_table d"
proof -
  have "st \<notin> {Select_By_Id, Select_By_User}" using assms(3) by auto
  with assms show ?thesis
    by (auto simp: ref_step_def ref_table_def ref_change_effect SQLITE_DONE_def split: option.splits prod.splits)
qed

lemma ref_first_row:
  assumes "rs_cursor q = Ref_Prepared" and "sqlite_statement (rs_sql q) = Some st"
    and sel: "st \<in> {Select_By_Id, Select_By_User}" and "ref_step q d = ((rc, q'), d')"
  shows "d' = d" and "rc = SQLITE_ROW \<Longrightarrow> \<exists>r rs. rs_cursor q' = Ref_Row (rd_table d) r rs \<and>
      answers st (rs_params q) (ref_table d) (r # rs)"
    and "rc = SQLITE_DONE \<Longrightarrow> answers st (rs_params q) (ref_table d) []"
  using assms ref_query_answers [OF sel, of "rs_params q" "rd_table d"]
  by (auto simp: ref_step_def ref_table_def SQLITE_DONE_def SQLITE_ROW_def split: list.splits)

interpretation ref_sqlite: sqlite_ample sqlite_reference ref_table rs_sql rs_params ref_progress
proof
  fix sql d rc q d'
  assume "sqlite3_prepare_v2 sqlite_reference sql d = ((rc, q), d')"
  then show "ref_table d' = ref_table d \<and>
     (rc = SQLITE_OK \<longrightarrow> rs_sql q = sql \<and> rs_params q = (\<lambda>_. None) \<and> ref_progress q = Prepared)"
    by (auto simp: sqlite_reference_def ref_progress_iff)
next
  fix q n t q'
  assume "sqlite3_bind_text sqlite_reference q n t = (SQLITE_OK, q')" "ref_progress q = Prepared"
  then show "rs_sql q' = rs_sql q \<and> rs_params q' = (rs_params q)(n := Some t) \<and> ref_progress q' = Prepared"
    by (auto simp: sqlite_reference_def ref_progress_iff)
next
  fix q n q'
  assume "sqlite3_bind_null sqlite_reference q n = (SQLITE_OK, q')" "ref_progress q = Prepared"
  then show "rs_sql q' = rs_sql q \<and> rs_params q' = (rs_params q)(n := None) \<and> ref_progress q' = Prepared"
    by (auto simp: sqlite_reference_def ref_progress_iff)
next
  fix q d rc q' d' st
  assume "sqlite3_step sqlite_reference q d = ((rc, q'), d')" "ref_progress q = Prepared"
    "sqlite_statement (rs_sql q) = Some st" "st \<in> {Insert, Update, Delete_By_Id, Delete_By_User}"
  then show "if rc = SQLITE_DONE
     then \<exists>n. effect st (rs_params q) (ref_table d) = Some (ref_table d', n) \<and>
       sqlite3_changes sqlite_reference d' = int n
     else ref_table d' = ref_table d"
    using ref_step_change [of q st d rc q' d'] by (auto simp: sqlite_reference_def ref_progress_iff split: if_splits)
next
  fix q d rc q' d' st
  assume "sqlite3_step sqlite_reference q d = ((rc, q'), d')" "ref_progress q = Prepared"
    "sqlite_statement (rs_sql q) = Some st" "st \<in> {Select_By_Id, Select_By_User}"
  from ref_first_row [of q st d rc q' d'] this show "ref_table d' = ref_table d \<and>
     (rc = SQLITE_ROW \<longrightarrow> (\<exists>r rs. ref_progress q' = On_Row (ref_table d) r rs \<and>
        answers st (rs_params q) (ref_table d) (r # rs))) \<and>
     (rc = SQLITE_DONE \<longrightarrow> answers st (rs_params q) (ref_table d) [])"
    by (simp add: sqlite_reference_def ref_progress_iff) (metis ref_table_def)
next
  fix q d rc q' d' r rs
  assume "sqlite3_step sqlite_reference q d = ((rc, q'), d')" "ref_progress q = On_Row (ref_table d) r rs"
  then show "ref_table d' = ref_table d \<and>
     (rc = SQLITE_ROW \<longrightarrow> (\<exists>r' rs'. rs = r' # rs' \<and> ref_progress q' = On_Row (ref_table d) r' rs')) \<and>
     (rc = SQLITE_DONE \<longrightarrow> rs = [])"
    by (auto simp: sqlite_reference_def ref_progress_iff ref_step_def SQLITE_DONE_def SQLITE_ROW_def
        split: list.splits)
next
  fix q T r rs and n :: nat
  assume "ref_progress q = On_Row T r rs"
  then show "sqlite3_column_text sqlite_reference q n = r ! n \<or>
      \<not> True \<and> sqlite3_column_text sqlite_reference q n = None"
    by (auto simp: sqlite_reference_def ref_progress_iff)
next
  fix q d u d'
  assume "sqlite3_finalize sqlite_reference q d = (u, d')"
  then show "ref_table d' = ref_table d" by (simp add: sqlite_reference_def)
next
  fix q :: ref_stmt and st and d :: ref_db and rows
  assume "answers st (rs_params q) (ref_table d) rows"
  then show "length rows \<le> result_rows sqlite_reference q d"
    by (simp add: sqlite_reference_def ref_table_def answers_length)
qed

section \<open>As an ODBC driver\<close>

datatype ref_rows = Ref_Unexecuted
  | Ref_Open "(string, columns) alist" "(nat \<Rightarrow> string option) option" "columns list"
  | Ref_Closed

record ref_handle =
  rh_sql :: string
  rh_params :: params
  rh_rows :: ref_rows
  rh_count :: nat

text \<open>The table is called \<open>tn\<close>; other statements fail.\<close>

definition ref_execute :: "string \<Rightarrow> ref_handle \<Rightarrow> ref_db \<Rightarrow> (int \<times> ref_handle) \<times> ref_db" where
  "ref_execute tn q d =
     (case odbc_statement tn (rh_sql q) of
        None \<Rightarrow> ((SQL_ERROR, q), d)
      | Some st \<Rightarrow>
          if st \<in> {Select_By_Id, Select_By_User} then
            ((SQL_SUCCESS, q\<lparr>rh_rows := Ref_Open (rd_table d) None (ref_query st (rh_params q) (rd_table d))\<rparr>), d)
          else
            (case ref_change st (rh_params q) (rd_table d) of
               None \<Rightarrow> ((SQL_ERROR, q), d)
             | Some (T, n) \<Rightarrow>
                 if n = 0 then ((SQL_NO_DATA, q\<lparr>rh_rows := Ref_Closed, rh_count := 0\<rparr>), d)
                 else ((SQL_SUCCESS, q\<lparr>rh_rows := Ref_Closed, rh_count := n\<rparr>), \<lparr>rd_table = T, rd_changes = n\<rparr>)))"

definition ref_fetch :: "ref_handle \<Rightarrow> ref_db \<Rightarrow> (int \<times> ref_handle) \<times> ref_db" where
  "ref_fetch q d =
     (case rh_rows q of
        Ref_Open T c (r # rs) \<Rightarrow> ((SQL_SUCCESS, q\<lparr>rh_rows := Ref_Open T (Some (\<lambda>n. r ! (n - 1))) rs\<rparr>), d)
      | Ref_Open T c [] \<Rightarrow> ((SQL_NO_DATA, q\<lparr>rh_rows := Ref_Open T None []\<rparr>), d)
      | _ \<Rightarrow> ((SQL_ERROR, q), d))"

definition ref_get_data :: "ref_handle \<Rightarrow> nat \<Rightarrow> nat \<Rightarrow> (int \<times> int \<times> string) \<times> ref_handle" where
  "ref_get_data q n size' =
     (case rh_rows q of
        Ref_Open T (Some c) rs \<Rightarrow>
          (case c n of
             None \<Rightarrow> ((SQL_SUCCESS, SQL_NULL_DATA, []), q)
           | Some x \<Rightarrow>
               if length x < size'
               then ((SQL_SUCCESS, int (length x), x), q\<lparr>rh_rows := Ref_Open T (Some (c(n := Some []))) rs\<rparr>)
               else ((SQL_SUCCESS_WITH_INFO, int (length x), take (size' - 1) x),
                     q\<lparr>rh_rows := Ref_Open T (Some (c(n := Some (drop (size' - 1) x)))) rs\<rparr>))
      | _ \<Rightarrow> ((SQL_ERROR, 0, []), q))"

definition odbc_reference :: "string \<Rightarrow> (ref_db, ref_handle) odbc" where
  "odbc_reference tn = \<lparr>
     SQLAllocEnv = SQL_SUCCESS, SQLSetEnvAttr = SQL_SUCCESS, SQLAllocDbc = SQL_SUCCESS,
     SQLDriverConnect = (\<lambda>timeout conn. (SQL_SUCCESS, ref_empty)),
     SQLDisconnect = (\<lambda>d. ((), d)),
     SQLAllocStmt = (\<lambda>d. ((SQL_SUCCESS,
       Some \<lparr>rh_sql = [], rh_params = (\<lambda>_. None), rh_rows = Ref_Closed, rh_count = 0\<rparr>), d)),
     SQLFreeStmt = (\<lambda>q d. ((), d)),
     SQLPrepare = (\<lambda>q sql d. ((SQL_SUCCESS,
       \<lparr>rh_sql = sql, rh_params = (\<lambda>_. None), rh_rows = Ref_Unexecuted, rh_count = 0\<rparr>), d)),
     SQLBindParameter = (\<lambda>q n v. (SQL_SUCCESS, q\<lparr>rh_params := (rh_params q)(n := v)\<rparr>)),
     SQLExecute = ref_execute tn,
     SQLExecDirect = (\<lambda>q sql d. ((SQL_ERROR, q), d)),
     SQLFetch = ref_fetch,
     SQLGetData = ref_get_data,
     SQLRowCount = (\<lambda>q. (SQL_SUCCESS, int (rh_count q))),
     rows_left = (\<lambda>q. case rh_rows q of Ref_Open T c rs \<Rightarrow> length rs | _ \<Rightarrow> 0),
     text_left = (\<lambda>q. case rh_rows q of
       Ref_Open T (Some c) rs \<Rightarrow> sum_list (map (\<lambda>n. case c n of None \<Rightarrow> 0 | Some x \<Rightarrow> length x) [1..<9]) | _ \<Rightarrow> 0)\<rparr>"

definition ref_position :: "ref_handle \<Rightarrow> cursor" where
  "ref_position q = (case rh_rows q of Ref_Unexecuted \<Rightarrow> Unexecuted
     | Ref_Open T c rs \<Rightarrow> Cursor (DAList.lookup T) c rs | Ref_Closed \<Rightarrow> Closed)"

lemma ref_position_iff:
  "ref_position q = Unexecuted \<longleftrightarrow> rh_rows q = Ref_Unexecuted"
  "ref_position q = Cursor T c rs \<longleftrightarrow> (\<exists>t. rh_rows q = Ref_Open t c rs \<and> T = DAList.lookup t)"
  by (auto simp: ref_position_def split: ref_rows.splits)

lemma ref_execute_change:
  assumes "odbc_statement tn (rh_sql q) = Some st" and "st \<in> {Insert, Update, Delete_By_Id, Delete_By_User}"
    and "ref_execute tn q d = ((rc, q'), d')"
  shows "if SQL_SUCCEEDED rc
     then \<exists>n. effect st (rh_params q) (ref_table d) = Some (ref_table d', n) \<and> int (rh_count q') = int n
     else ref_table d' = ref_table d"
proof -
  have "st \<notin> {Select_By_Id, Select_By_User}" using assms(2) by auto
  with assms show ?thesis
    by (auto simp: ref_execute_def ref_table_def ref_change_effect sql_codes SQL_SUCCEEDED_def
        split: option.splits prod.splits if_splits)
qed

lemma text_left_bound:
  assumes "c n = Some x" and "1 \<le> n" and "n \<le> 8"
  shows "length x \<le> sum_list (map (\<lambda>n. case c n of None \<Rightarrow> 0 | Some x \<Rightarrow> length x) [1..<9])"
proof -
  have "(\<lambda>n. case c n of None \<Rightarrow> 0 | Some x \<Rightarrow> length x) n \<in> set (map (\<lambda>n. case c n of None \<Rightarrow> 0 | Some x \<Rightarrow> length x) [1..<9])"
    unfolding set_map by (rule imageI) (use assms(2,3) in auto)
  from member_le_sum_list [OF this] assms(1) show ?thesis by simp
qed

lemma ref_odbc_engine: "length tn \<le> 225 \<Longrightarrow> odbc_engine (odbc_reference tn) ref_table rh_sql rh_params ref_position tn True"
proof (unfold_locales, goal_cases)
  case (6 q d rc q' d' st)
  then show ?case using ref_execute_change [of tn q st d rc q' d']
    by (auto simp: odbc_reference_def counted_def sql_codes SQL_SUCCEEDED_def split: if_splits)
next
  case (7 q d rc q' d' st)
  then show ?case using ref_query_answers [of st "rh_params q" "rd_table d"]
    by (auto simp: odbc_reference_def ref_execute_def ref_table_def ref_position_iff split: if_splits)
next
  case (8 q d rc q' d' cur rows)
  then show ?case
    by (auto simp: odbc_reference_def ref_fetch_def ref_position_iff sql_codes split: list.splits)
next
  case (9 q n size' rc ind chunk q' T c rows)
  then show ?case
    by (auto simp: odbc_reference_def ref_get_data_def ref_position_iff simp del: fun_upd_apply
        intro!: exI [of _ "Some []"] split: option.splits if_splits)
next
  case (11 q T c rows n x)
  then show ?case
    using text_left_bound [of c n x] by (auto simp: odbc_reference_def ref_position_iff)
qed (auto simp: odbc_reference_def ref_position_iff)

interpretation ref_odbc: odbc_counting "odbc_reference ''sessions''" ref_table rh_sql rh_params ref_position "''sessions''"
  unfolding odbc_counting_def by (rule ref_odbc_engine) simp

section \<open>Libraries that fail\<close>

text \<open>
  The engine with its texts never bound, with its fourth column lost on the way out for want of
  memory, and with its row counts unknown: they keep the laws as well.
\<close>

definition unbinding :: "('d, 'q) sqlite3 \<Rightarrow> ('d, 'q) sqlite3" where
  "unbinding L = L\<lparr>sqlite3_bind_text := \<lambda>q n t. (7, q)\<rparr>"

definition forgetful :: "('d, 'q) sqlite3 \<Rightarrow> ('d, 'q) sqlite3" where
  "forgetful L = L\<lparr>sqlite3_column_text := \<lambda>q n. if n = 3 then None else sqlite3_column_text L q n\<rparr>"

definition uncounting :: "('d, 'q) odbc \<Rightarrow> ('d, 'q) odbc" where
  "uncounting L = L\<lparr>SQLRowCount := \<lambda>q. (SQL_SUCCESS, -1)\<rparr>"

context sqlite_engine
begin

lemma unbinding_engine: "sqlite_engine (unbinding L) tbl sql_text bound progress ample"
  using prepare bind_null step_change first_row next_row column_text finalize result_rows
  by unfold_locales (simp_all add: unbinding_def SQLITE_OK_def, (blast+)?)

lemma forgetful_engine: "sqlite_engine (forgetful L) tbl sql_text bound progress False"
proof (unfold_locales, goal_cases)
  case (7 q T r rs n)
  then show ?case using column_text [of q T r rs n] by (auto simp: forgetful_def)
qed (use prepare bind_text bind_null step_change first_row next_row finalize result_rows
  in \<open>simp_all add: forgetful_def, (blast+)?\<close>)

end

context odbc_engine
begin

lemma uncounting_engine: "odbc_engine (uncounting L) tbl sql_text bound cursor tn False"
proof (unfold_locales, goal_cases)
  case (6 q d rc q' d' st)
  then have "SQLExecute L q d = ((rc, q'), d')" by (simp add: uncounting_def)
  from execute_change [OF this 6(2-5)] show ?case by (auto simp: uncounting_def counted_def split: if_splits)
next
  case (9 q n size' rc ind chunk q' T c rows)
  then have "SQLGetData L q n size' = ((rc, ind, chunk), q')" by (simp add: uncounting_def)
  from get_data [OF this 9(2-6)] show ?case by simp
qed (use fits alloc_stmt free_stmt prepare bind execute_select fetch rows_left text_left
  in \<open>simp_all add: uncounting_def, (blast+)?\<close>)

end

end
