(* ===== verification/Sql_Properties.thy ===== *)
theory Sql_Properties
  imports Sql_Reference Memory_Machine
begin

text \<open>
  The properties of the two SQL stores, over any engine that satisfies \<open>sqlite_engine\<close> or
  \<open>odbc_engine\<close>, with witnesses on the reference engine: every call implements a step of an abstract map,
  the queries by user are exact, columns of any length are read completely, and a store that the
  ODBC factory opens has a table name of letters, digits and underscores.
\<close>

section \<open>The abstract store\<close>

text \<open>
  \<open>sql_call counts c rc m m'\<close>: a call on the map \<open>m\<close> may answer \<open>rc\<close> and leave \<open>m'\<close>. Any call may fail,
  and then the map is as before, apart from a session that a get has found expired. A creation does
  not replace a session, and an update keeps the time of creation. Without \<open>counts\<close> the library may not
  know how many rows an update has changed, and then an update that is done may be reported as failed.
\<close>

fun sql_call :: "bool \<Rightarrow> store_call \<Rightarrow> int \<Rightarrow> (string \<Rightarrow> OpenDBSC_Session option) \<Rightarrow>
    (string \<Rightarrow> OpenDBSC_Session option) \<Rightarrow> bool" where
  "sql_call counts (Create p) rc m m' =
     (rc = -1 \<and> m' = m \<or>
      rc = 0 \<and> (\<exists>s i. p = Some s \<and> s_id s = Some i \<and> m i = None \<and> m' = m(i \<mapsto> s)))"
| "sql_call counts (Get p) rc m m' =
     (rc = -1 \<and> m' = m \<or>
      (\<exists>i s. p = Some i \<and> m i = Some s \<and> (rc = 0 \<and> m' = m \<or> rc = -1 \<and> s_has_expires s \<and> m' = m(i := None))))"
| "sql_call counts (Update p) rc m m' =
     (rc = -1 \<and> m' = m \<or>
      (rc = 0 \<or> \<not> counts \<and> rc = -1) \<and> (\<exists>s i s0. p = Some s \<and> s_id s = Some i \<and> m i = Some s0 \<and>
        m' = m(i \<mapsto> s\<lparr>s_created_at := s_created_at s0\<rparr>)))"
| "sql_call counts (Delete p) rc m m' =
     (rc = -1 \<and> m' = m \<or> rc = 0 \<and> (\<exists>i. p = Some i \<and> m' = m(i := None)))"
| "sql_call counts (Get_By_User p) rc m m' =
     (rc = -1 \<and> m' = m \<or>
      rc = 0 \<and> (\<exists>u. p = Some u \<and> (\<forall>i. m' i = m i \<or>
        m' i = None \<and> (\<exists>s. m i = Some s \<and> s_user_id s = Some u \<and> s_has_expires s))))"
| "sql_call counts (Delete_By_User p) rc m m' =
     (rc = -1 \<and> m' = m \<or>
      rc = 0 \<and> (\<exists>u. p = Some u \<and> m' = (\<lambda>i. case m i of None \<Rightarrow> None
        | Some s \<Rightarrow> if s_user_id s = Some u then None else Some s)))"
| "sql_call counts (Free_Sessions xs) rc m m' = (rc = 0 \<and> m' = m)"

text \<open>The sessions a client hands to the store can be written to a row.\<close>

fun call_storable :: "store_call \<Rightarrow> bool" where
  "call_storable (Create (Some s)) = row_storable s"
| "call_storable (Update (Some s)) = row_storable s"
| "call_storable _ = True"

lemma sql_fail [simp]: "\<not> (\<exists>xs. c = Free_Sessions xs) \<Longrightarrow> sql_call counts c (-1) m m"
  by (cases c) auto

lemma insert_free:
  "effect Insert (insert_params s) T = Some (T', n) \<Longrightarrow> s_id s = Some i \<Longrightarrow> row_view T i = None"
  by (auto simp: effect_def insert_effect_def insert_params_def row_of_session_def row_view_def split: if_splits)

lemma user_answer_sql_call:
  assumes "user_answer T u now out T'"
  shows "sql_call counts (Get_By_User (Some u)) 0 (row_view T) (row_view T')"
  using assms unfolding user_answer_def expired_at_def by auto

text \<open>The removal of the expired rows, also when some columns could not be handed out.\<close>

lemma gathered_sql_call:
  assumes wf: "table_wf T" and rows: "answers Select_By_User ((\<lambda>_. None)(1 := Some u)) T rows"
    and g: "gathered_as ample now rows [] [] out es" and T': "purged T (set es) T'"
  shows "sql_call counts (Get_By_User (Some u)) 0 (row_view T) (row_view T')"
proof -
  have "row_view T' i = row_view T i \<or>
      row_view T' i = None \<and> (\<exists>s. row_view T i = Some s \<and> s_user_id s = Some u \<and> s_has_expires s)" for i
    using purged_view [OF T', of i] gathered_as_expired [OF wf _ rows g, of u i] by (auto simp: expired_at_def)
  then show ?thesis by simp
qed

lemma table_wf_view: "table_wf T \<Longrightarrow> T i = Some r \<Longrightarrow> \<exists>s. row_view T i = Some s"
  using table_wf_row [of T i] by (cases "row_view T i") auto

lemma reads_as_expired:
  assumes "table_wf T" and "T i = Some r" and "reads_as ample r s" and "s_has_expires s"
  shows "\<exists>s0. row_view T i = Some s0 \<and> s_has_expires s0"
proof -
  from table_wf_view [OF assms(1,2)] obtain s0 where "row_view T i = Some s0" ..
  moreover from this assms(2) have "session_of_row r = Some s0" by (simp add: row_view_def)
  ultimately show ?thesis using reads_as_expiry [OF assms(3,4)] by blast
qed

section \<open>SQLite\<close>

lemma sqlite_null_calls:
  "sqlite_create L None = ret (-1)" "s_id s = None \<Longrightarrow> sqlite_create L (Some s) = ret (-1)"
  "sqlite_update L None = ret (-1)" "s_id s = None \<Longrightarrow> sqlite_update L (Some s) = ret (-1)"
  "sqlite_get L None = ret (-1, None)" "sqlite_delete L None = ret (-1)"
  "sqlite_get_by_user_id L None = ret (-1, [])" "sqlite_delete_by_user_id L None = ret (-1)"
  by (simp_all add: sqlite_create_def sqlite_update_def sqlite_get_def sqlite_delete_def
      sqlite_get_by_user_id_def sqlite_delete_by_user_id_def)

context sqlite_engine
begin

lemma call_spec:
  assumes wf: "table_wf (tbl (impl w))" and c: "call_storable c"
    and binds: "\<And>u. c = Get_By_User (Some u) \<Longrightarrow> query_binds L u (impl w)"
  shows "wp (store_call_run (sqlite_store_vtable L) c) (\<lambda>rc v. oframe w v \<and> table_wf (tbl (impl v)) \<and>
     sql_call True c rc (row_view (tbl (impl w))) (row_view (tbl (impl v)))) w"
proof (cases c)
  case (Create p)
  show ?thesis
  proof (cases "p = None \<or> s_id (the p) = None")
    case True
    with wf show ?thesis
      by (cases p) (auto simp: Create sqlite_store_vtable_def sqlite_null_calls wp_return)
  next
    case False
    then obtain s i where p: "p = Some s" "s_id s = Some i" by auto
    with c Create have s: "row_storable s" by simp
    show ?thesis
      unfolding Create p(1) store_call_run.simps sqlite_store_vtable_def OpenDBSC_Store.simps
      by (rule wp_mono [OF create_spec [OF p(2)]])
         (use wf insert_wf [OF wf p(2) s] insert_free [OF _ p(2)] in \<open>auto simp: p(2)\<close>)
  qed
next
  case (Get p)
  show ?thesis
  proof (cases p)
    case None
    with wf show ?thesis by (simp add: Get sqlite_store_vtable_def sqlite_null_calls wps)
  next
    case (Some i)
    show ?thesis
      unfolding Get Some store_call_run.simps sqlite_store_vtable_def OpenDBSC_Store.simps
      by (rule wp_bindI, rule wp_mono [OF get_spec])
         (use wf delete_wf [OF wf, of i] in
            \<open>auto simp: wp_return expired_between_def dest: reads_as_expired [OF wf] table_wf_view [OF wf]\<close>)
  qed
next
  case (Update p)
  show ?thesis
  proof (cases "p = None \<or> s_id (the p) = None")
    case True
    with wf show ?thesis
      by (cases p) (auto simp: Update sqlite_store_vtable_def sqlite_null_calls wp_return)
  next
    case False
    then obtain s i where p: "p = Some s" "s_id s = Some i" by auto
    with c Update have s: "row_storable s" by simp
    show ?thesis
      unfolding Update p(1) store_call_run.simps sqlite_store_vtable_def OpenDBSC_Store.simps
      by (rule wp_mono [OF update_spec [OF p(2)]])
         (use wf in \<open>auto simp: p(2) dest!: update_wf [OF wf p(2) s] split: option.splits\<close>)
  qed
next
  case (Delete p)
  show ?thesis
  proof (cases p)
    case None
    with wf show ?thesis by (simp add: Delete sqlite_store_vtable_def sqlite_null_calls wps)
  next
    case (Some i)
    show ?thesis
      unfolding Delete Some store_call_run.simps sqlite_store_vtable_def OpenDBSC_Store.simps
      by (rule wp_mono [OF delete_spec]) (use wf delete_wf [OF wf, of i] in auto)
  qed
next
  case (Get_By_User p)
  show ?thesis
  proof (cases p)
    case None
    with wf show ?thesis by (simp add: Get_By_User sqlite_store_vtable_def sqlite_null_calls wps)
  next
    case (Some u)
    with Get_By_User have "query_binds L u (impl w)" by (simp add: binds)
    from get_by_user_spec [OF this] show ?thesis
      unfolding Get_By_User Some store_call_run.simps sqlite_store_vtable_def OpenDBSC_Store.simps
      by (intro wp_bindI, elim wp_mono)
         (use wf purged_wf [OF _ wf] gathered_sql_call [OF wf] in \<open>auto simp: wp_return simp del: sql_call.simps\<close>)
  qed
next
  case (Delete_By_User p)
  show ?thesis
  proof (cases p)
    case None
    with wf show ?thesis by (simp add: Delete_By_User sqlite_store_vtable_def sqlite_null_calls wps)
  next
    case (Some u)
    show ?thesis
      unfolding Delete_By_User Some store_call_run.simps sqlite_store_vtable_def OpenDBSC_Store.simps
      by (rule wp_mono [OF delete_by_user_spec])
         (use wf in \<open>auto dest!: delete_user_wf [OF wf, unfolded One_nat_def]\<close>)
  qed
next
  case (Free_Sessions xs)
  with wf show ?thesis by (simp add: sqlite_store_vtable_def sqlite_free_sessions_def wps)
qed

end

section \<open>ODBC\<close>

lemma odbc_null_calls:
  "odbc_create L None = ret (-1)" "s_id s = None \<Longrightarrow> odbc_create L (Some s) = ret (-1)"
  "odbc_update L None = ret (-1)" "s_id s = None \<Longrightarrow> odbc_update L (Some s) = ret (-1)"
  "odbc_get L None = ret (-1, None)" "odbc_delete L None = ret (-1)"
  "odbc_get_by_user_id L None = ret (-1, [])" "odbc_delete_by_user_id L None = ret (-1)"
  by (simp_all add: odbc_create_def odbc_update_def odbc_get_def odbc_delete_def
      odbc_get_by_user_id_def odbc_delete_by_user_id_def)

context odbc_engine
begin

definition call_ok :: "store_call \<Rightarrow> table \<Rightarrow> 'd opendbsc_odbc_ctx sys \<Rightarrow> int \<Rightarrow> 'd opendbsc_odbc_ctx sys \<Rightarrow> bool" where
  "call_ok c T w rc v \<longleftrightarrow> (\<exists>T'. at_db w T' False v \<and> table_wf T' \<and> sql_call counts c rc (row_view T) (row_view T'))"

lemma call_okI: "at_db w T' False v \<Longrightarrow> table_wf T' \<Longrightarrow> sql_call counts c rc (row_view T) (row_view T') \<Longrightarrow> call_ok c T w rc v"
  unfolding call_ok_def by blast

lemma call_spec:
  assumes at: "at_db w T False w" and wf: "table_wf T" and c: "call_storable c"
  shows "wp (store_call_run (odbc_store_vtable L) c) (call_ok c T w) w"
proof (cases c)
  case (Create p)
  show ?thesis
  proof (cases "p = None \<or> s_id (the p) = None")
    case True
    with wf at show ?thesis
      by (cases p) (auto simp: Create odbc_store_vtable_def odbc_null_calls wp_return intro: call_okI)
  next
    case False
    then obtain s i where p: "p = Some s" "s_id s = Some i" by auto
    with c Create have s: "row_storable s" by simp
    show ?thesis
      unfolding Create p(1) store_call_run.simps odbc_store_vtable_def OpenDBSC_Store.simps
      by (rule create_spec [OF p(2) at], rule call_okI, assumption)
         (use wf insert_wf [OF wf p(2) s] insert_free [OF _ p(2)] in \<open>auto simp: p(2) intro: call_okI\<close>)
  qed
next
  case (Get p)
  show ?thesis
  proof (cases p)
    case None
    with wf at show ?thesis by (auto simp: Get odbc_store_vtable_def odbc_null_calls wps intro: call_okI)
  next
    case (Some i)
    show ?thesis
      unfolding Get Some store_call_run.simps odbc_store_vtable_def OpenDBSC_Store.simps
      by (rule wp_bindI, rule wp_mono [OF get_spec [OF at]])
         (use wf delete_wf [OF wf, of i] in
            \<open>auto simp: wp_return expired_between_def row_view_def [of T i] intro!: call_okI\<close>)
  qed
next
  case (Update p)
  show ?thesis
  proof (cases "p = None \<or> s_id (the p) = None")
    case True
    with wf at show ?thesis
      by (cases p) (auto simp: Update odbc_store_vtable_def odbc_null_calls wp_return intro: call_okI)
  next
    case False
    then obtain s i where p: "p = Some s" "s_id s = Some i" by auto
    with c Update have s: "row_storable s" by simp
    show ?thesis
      unfolding Update p(1) store_call_run.simps odbc_store_vtable_def OpenDBSC_Store.simps
      by (rule update_spec [OF p(2) at], rule call_okI, assumption)
         (use wf in \<open>auto simp: p(2) dest!: update_wf [OF wf p(2) s] intro: call_okI split: option.splits\<close>)
  qed
next
  case (Delete p)
  show ?thesis
  proof (cases p)
    case None
    with wf at show ?thesis by (auto simp: Delete odbc_store_vtable_def odbc_null_calls wps intro: call_okI)
  next
    case (Some i)
    show ?thesis
      unfolding Delete Some store_call_run.simps odbc_store_vtable_def OpenDBSC_Store.simps odbc_delete_def option.case
      by (rule wp_bindI, rule wp_lock [OF at], rule wp_bindI, rule delete_unlocked_spec, assumption,
          rule wp_unlock, assumption, rule call_okI, assumption)
         (use wf delete_wf [OF wf, of i] in auto)
  qed
next
  case (Get_By_User p)
  show ?thesis
  proof (cases p)
    case None
    with wf at show ?thesis by (auto simp: Get_By_User odbc_store_vtable_def odbc_null_calls wps intro: call_okI)
  next
    case (Some u)
    from wf have ok: "table_ok T" by (simp add: table_wf_def)
    note ans = gathered_user_answer [OF ok, of "(\<lambda>_. None)(1 := Some u)" u, THEN user_answer_sql_call]
    show ?thesis
      unfolding Get_By_User Some store_call_run.simps odbc_store_vtable_def OpenDBSC_Store.simps
      by (rule wp_bindI, rule wp_mono [OF get_by_user_spec [OF at]])
         (use wf purged_wf [OF _ wf] ans in \<open>auto simp: wp_return simp del: sql_call.simps intro!: call_okI\<close>)
  qed
next
  case (Delete_By_User p)
  show ?thesis
  proof (cases p)
    case None
    with wf at show ?thesis by (auto simp: Delete_By_User odbc_store_vtable_def odbc_null_calls wps intro: call_okI)
  next
    case (Some u)
    show ?thesis
      unfolding Delete_By_User Some store_call_run.simps odbc_store_vtable_def OpenDBSC_Store.simps
      by (rule delete_by_user_spec [OF at], rule call_okI, assumption)
         (use wf in \<open>auto dest!: delete_user_wf [OF wf, unfolded One_nat_def] intro: call_okI\<close>)
  qed
next
  case (Free_Sessions xs)
  with wf at show ?thesis by (auto simp: odbc_store_vtable_def odbc_free_sessions_def wps intro: call_okI)
qed

lemma call_exact:
  assumes "\<not> oc_mutex (impl w)" and "oc_table_name (impl w) = tn"
    and "table_wf (tbl (oc_dbc (impl w)))" and "call_storable c"
    and "run_state (store_call_run (odbc_store_vtable L) c) w = (rc, w')"
  shows "undef w' = undef w \<and> \<not> oc_mutex (impl w') \<and> oc_table_name (impl w') = tn \<and>
    table_wf (tbl (oc_dbc (impl w'))) \<and>
    sql_call counts c rc (row_view (tbl (oc_dbc (impl w)))) (row_view (tbl (oc_dbc (impl w'))))"
proof -
  have "at_db w (tbl (oc_dbc (impl w))) False w" using assms(1,2) by (simp add: at_db_def)
  from wpD [OF call_spec [OF this assms(3,4)] assms(5)] show ?thesis
    by (auto simp: call_ok_def at_db_def oframe_undef)
qed

text \<open>Without failures of the driver or the allocator the column is delivered.\<close>

lemma returns_get_text_loop:
  assumes never: "\<And>q n z. fst (fst (SQLGetData L q n z)) \<noteq> SQL_ERROR"
  shows "cursor q = Cursor T (Some c) rows \<Longrightarrow> 1 \<le> n \<Longrightarrow> n \<le> 8 \<Longrightarrow> (\<And>x. c n = Some x \<Longrightarrow> length x < fuel) \<Longrightarrow>
   buf = [] \<or> c n \<noteq> None \<Longrightarrow> 0 < fuel \<Longrightarrow>
   \<exists>q'. returns (get_text_loop L fuel q n buf :: ('w world_scheme, _) state) ((0, map_option (\<lambda>x. buf @ x) (c n)), q')"
proof (induction fuel arbitrary: q c buf)
  case (Suc fuel)
  obtain rc ind chunk q' where run: "SQLGetData L q n 512 = ((rc, ind, chunk), q')" by (metis prod.exhaust)
  have ne: "rc \<noteq> SQL_ERROR" using never [of q n 512] by (simp add: run)
  note law = get_data [OF run Suc.prems(1-3) _ ne]
  show ?case
  proof (cases "c n")
    case None
    with law have "ind = SQL_NULL_DATA" by simp
    with ne None show ?thesis by (auto simp: run intro!: returns_returnI)
  next
    case (Some x)
    show ?thesis
    proof (cases "length x < 512")
      case True
      with law Some have r: "rc = SQL_SUCCESS" "ind = int (length x)" "chunk = x" by auto
      have got: "(if ind = SQL_NO_TOTAL \<or> ind < 0 \<or> ind > 511 then 511 else nat ind) = length x"
        "ind \<noteq> SQL_NULL_DATA" "rc \<noteq> SQL_SUCCESS_WITH_INFO"
        using True by (auto simp: r sql_codes)
      show ?thesis
        using ne got
        by (auto simp: run r(3) Some Let_def intro!: exI [of _ q'] returns_bind [OF returns_alloc] returns_returnI)
    next
      case long: False
      with law Some have r: "rc = SQL_SUCCESS_WITH_INFO" "ind = SQL_NO_TOTAL \<or> ind = int (length x)"
        and chunk: "chunk = take 511 x" and c: "cursor q' = Cursor T (Some (c(n := Some (drop 511 x)))) rows" by auto
      have got: "(if ind = SQL_NO_TOTAL \<or> ind < 0 \<or> ind > 511 then 511 else nat ind) = 511"
        "ind \<noteq> SQL_NULL_DATA" "511 \<le> length chunk" "take 511 chunk = take 511 x"
        using r(2) long by (auto simp: sql_codes chunk)
      have len: "length x - 511 < fuel" using Suc.prems(4) [OF Some] long by simp
      then have "\<exists>q2. returns (get_text_loop L fuel q' n (buf @ take 511 x) :: ('w world_scheme, _) state)
          ((0, map_option (\<lambda>y. (buf @ take 511 x) @ y) ((c(n := Some (drop 511 x))) n)), q2)"
        by (intro Suc.IH [OF c Suc.prems(2,3)]) auto
      then obtain q2 where q2: "returns (get_text_loop L fuel q' n (buf @ take 511 x) :: ('w world_scheme, _) state)
          ((0, Some (buf @ x)), q2)" by auto
      show ?thesis
        using ne got r(1) q2
        by (intro exI [of _ q2]) (auto simp: run Some Let_def intro!: returns_bind [OF returns_alloc])
    qed
  qed
qed simp

lemma get_text_complete:
  assumes "\<And>q n z. fst (fst (SQLGetData L q n z)) \<noteq> SQL_ERROR"
    and q: "cursor q = Cursor T (Some c) rows" "1 \<le> n" "n \<le> 8"
  shows "\<exists>q'. returns (odbc_get_text L q n :: ('w world_scheme, _) state) ((0, c n), q')"
  unfolding odbc_get_text_def
  using returns_get_text_loop [OF assms, of "Suc (text_left L q)" "[]"] text_left [OF q]
  by (auto simp: less_Suc_eq_le option.map_ident)

lemma get_text_exact:
  fixes w :: "'w world_scheme"
  assumes q: "cursor q = Cursor T (Some c) rows" "1 \<le> n" "n \<le> 8"
    and run: "run_state (odbc_get_text L q n) w = (((rc, out), q'), w')"
  shows "frame w w' \<and> (rc = 0 \<and> out = c n \<or> rc = -1 \<and> out = None \<and>
    (starved w \<or> (\<exists>q n z. fst (fst (SQLGetData L q n z)) = SQL_ERROR)))"
proof (cases "\<exists>q n z. fst (fst (SQLGetData L q n z)) = SQL_ERROR")
  case True
  with framedD [OF get_text_spec [OF q] run] show ?thesis by auto
next
  case False
  with get_text_complete [OF _ q] obtain q2 where "returns (odbc_get_text L q n :: ('w world_scheme, _) state) ((0, c n), q2)" by blast
  from returns_notD [OF this run] framedD [OF get_text_spec [OF q] run] show ?thesis by auto
qed

end

section \<open>Properties\<close>

text \<open>
  C17: The SQLite store is a map. The library keeps to what SQLite documents: any of its calls may fail at
  any time, a statement that fails changes nothing, and \<open>sqlite3_column_text\<close> may answer NULL for
  want of memory at any column. A session handed to create or update has times between 1970 and 9999
  and its expiry flag set just when it has an expiry time, and a query by user can bind its parameter
  if it can be prepared. Then, with any allocations failing, a call through the vtable on a table of
  readable rows has no undefined behaviour, leaves every row readable and does to the map from
  identifiers to sessions what the abstract store allows: create adds the session under a free
  identifier, update replaces all but the time of creation, a deletion removes exactly the named
  session or exactly the user's, get removes at most the named session and a query by user at most
  sessions of that user, both only ones with an expiry time, and a call that reports failure has
  changed nothing but that.
\<close>

theorem sqlite_call_refines_map:
  assumes "sqlite_engine L tbl sql_text bound progress ample"
    and "table_wf (tbl (impl w))" and "call_storable c"
    and "\<And>u. c = Get_By_User (Some u) \<Longrightarrow> query_binds L u (impl w)"
    and "run_state (store_call_run (sqlite_store_vtable L) c) w = (rc, w')"
  shows "undef w' = undef w \<and> table_wf (tbl (impl w')) \<and>
    sql_call True c rc (row_view (tbl (impl w))) (row_view (tbl (impl w')))"
  using wpD [OF sqlite_engine.call_spec [OF assms(1-4)] assms(5)] by (simp add: oframe_undef)

lemma ref_empty_wf: "table_wf (ref_table ref_empty)" "table_ok (ref_table ref_empty)"
  and ref_empty_view: "row_view (ref_table ref_empty) = Map.empty"
  by (simp_all add: table_wf_def table_ok_def ref_table_def ref_empty_def row_view_def fun_eq_iff)

lemma ref_binds: "query_binds sqlite_reference u d"
  by (simp add: query_binds_def sqlite_reference_def)

lemma demo_storable: "row_storable demo_session" "s_id demo_session = Some ''s1''"
  by (simp_all add: row_storable_def demo_session_def session_defaults_def rfc3339_end_def)

theorem sqlite_call_refines_map_witness:
  "let (rc, w) = run_state (store_call_run (sqlite_store_vtable sqlite_reference) (Create (Some demo_session)))
         (plenty ref_empty)
   in rc = 0 \<and> row_view (ref_table (impl w)) = [''s1'' \<mapsto> demo_session]"
proof -
  let ?r = "run_state (store_call_run (sqlite_store_vtable sqlite_reference) (Create (Some demo_session))) (plenty ref_empty)"
  have rc: "fst ?r = 0" by code_simp
  have "undef (snd ?r) = undef (plenty ref_empty) \<and> table_wf (ref_table (impl (snd ?r))) \<and>
      sql_call True (Create (Some demo_session)) (fst ?r) (row_view (ref_table (impl (plenty ref_empty))))
        (row_view (ref_table (impl (snd ?r))))"
    by (rule sqlite_call_refines_map [OF ref_sqlite.sqlite_engine_axioms])
       (simp_all add: ref_empty_wf demo_storable)
  with rc show ?thesis by (auto simp: demo_storable ref_empty_view case_prod_beta)
qed

text \<open>
  C19: A user's sessions. On a library that keeps to what SQLite documents and has the memory to hand out
  every column, when the query of the user can bind its parameter if it can be prepared, and whatever
  else fails: a query by user that answers 0 returns every session of the user that the table holds
  and that is not expired at the reading of the clock the query made, each of them once and no other;
  nothing but expired sessions of the user is removed, and they are kept when their deletion fails. A
  query that answers -1 returns nothing and changes nothing.
\<close>

theorem sqlite_get_by_user_exact:
  assumes "sqlite_engine L tbl sql_text bound progress True" and "table_ok (tbl (impl w))"
    and "query_binds L u (impl w)"
    and "run_state (sqlite_get_by_user_id L (Some u)) w = ((rc, out), w')"
  shows "rc = -1 \<and> out = [] \<and> tbl (impl w') = tbl (impl w) \<or>
    rc = 0 \<and> (\<exists>n. clock_reads w \<le> n \<and> n < clock_reads w' \<and>
      user_answer (tbl (impl w)) u (wall_clock w n) out (tbl (impl w')))"
  using sqlite_engine.get_by_user_exact [OF assms(1,2) _ assms(3,4)] by blast

definition sql_demo :: "ref_db sys" where
  "sql_demo = snd (run_state (sqlite_create sqlite_reference (Some demo_session)) (plenty ref_empty))"

lemma sql_demo_view: "table_ok (ref_table (impl sql_demo))"
  "row_view (ref_table (impl sql_demo)) = [''s1'' \<mapsto> demo_session]"
proof -
  have rc: "fst (run_state (sqlite_create sqlite_reference (Some demo_session)) (plenty ref_empty)) = 0" by code_simp
  have "run_state (store_call_run (sqlite_store_vtable sqlite_reference) (Create (Some demo_session))) (plenty ref_empty)
      = (0, sql_demo)"
    using rc by (simp add: sqlite_store_vtable_def sql_demo_def prod_eq_iff)
  moreover have "wp (store_call_run (sqlite_store_vtable sqlite_reference) (Create (Some demo_session)))
      (\<lambda>rc v. oframe (plenty ref_empty) v \<and> table_wf (ref_table (impl v)) \<and>
        sql_call True (Create (Some demo_session)) rc (row_view (ref_table (impl (plenty ref_empty)))) (row_view (ref_table (impl v))))
      (plenty ref_empty)"
    by (rule ref_sqlite.call_spec) (simp_all add: ref_empty_wf demo_storable)
  ultimately have "table_wf (ref_table (impl sql_demo))"
    "sql_call True (Create (Some demo_session)) 0 Map.empty (row_view (ref_table (impl sql_demo)))"
    by (auto dest!: wpD simp: ref_empty_view simp del: sql_call.simps)
  then show "table_ok (ref_table (impl sql_demo))" "row_view (ref_table (impl sql_demo)) = [''s1'' \<mapsto> demo_session]"
    by (auto simp: table_wf_def demo_storable)
qed

theorem sqlite_get_by_user_exact_witness:
  "let ((rc, out), w) = run_state (sqlite_get_by_user_id sqlite_reference (Some ''alice'')) sql_demo
   in rc = 0 \<and> set out = {s \<in> user_sessions (ref_table (impl sql_demo)) ''alice''.
        \<not> expired_at (wall_clock sql_demo 0) s} \<and> out = [demo_session]"
proof -
  let ?g = "run_state (sqlite_get_by_user_id sqlite_reference (Some ''alice'')) sql_demo"
  have "case ?g of ((rc, out), w) \<Rightarrow> rc = 0 \<and> out = [demo_session] \<and> clock_reads w = 1"
    unfolding sql_demo_def by code_simp
  then have rc: "fst ?g = (0, [demo_session])" and cr: "clock_reads (snd ?g) = 1" by (auto split: prod.splits)
  have run: "?g = ((fst (fst ?g), snd (fst ?g)), snd ?g)" by simp
  from sqlite_get_by_user_exact [OF ref_sqlite.sqlite_engine_axioms sql_demo_view(1) ref_binds run] rc cr
  show ?thesis by (auto simp: user_answer_def case_prod_beta)
qed

text \<open>
  C22: The one undefined path of a query by user. On any library that keeps to what SQLite documents,
  whichever of its calls and of the allocations fail, a query by user is undefined exactly when its
  statement can be prepared and its parameter cannot be bound, as SQLite reports when it is out of
  memory or the text is too long: only that jump to the release of the identifiers passes over the
  initialisation of their array and its length. On every other path both are initialised before they
  are read, and the loop over the rows stays within the result set.
\<close>

theorem sqlite_bind_failure_undefined:
  assumes "sqlite_engine L tbl sql_text bound progress ample"
    and "run_state (sqlite_get_by_user_id L (Some u)) w = (r, w')"
  shows "undef w' \<longleftrightarrow> undef w \<or> \<not> query_binds L u (impl w)"
proof (cases "query_binds L u (impl w)")
  case True
  with wpD [OF sqlite_engine.get_by_user_spec [OF assms(1) True] assms(2)] show ?thesis
    by (auto simp: oframe_undef)
next
  case False
  with wpD [OF sqlite_engine.get_by_user_unbound [OF assms(1) False] assms(2)] show ?thesis by simp
qed

lemma unbinding_binds: "\<not> query_binds (unbinding sqlite_reference) u d"
  by (simp add: query_binds_def unbinding_def sqlite_reference_def SQLITE_OK_def)

theorem sqlite_bind_failure_undefined_witness:
  "undef (snd (run_state (sqlite_get_by_user_id (unbinding sqlite_reference) (Some ''alice'')) (plenty ref_empty))) \<and>
   \<not> undef (snd (run_state (sqlite_get_by_user_id sqlite_reference (Some ''alice'')) (plenty ref_empty)))"
  using sqlite_bind_failure_undefined [OF ref_sqlite.unbinding_engine surjective_pairing, of "''alice''" "plenty ref_empty"]
    sqlite_bind_failure_undefined [OF ref_sqlite.sqlite_engine_axioms surjective_pairing, of "''alice''" "plenty ref_empty"]
    unbinding_binds ref_binds
  by (simp add: plenty_def)

text \<open>
  C18: The ODBC store is a map. The driver keeps to what ODBC documents: any of its calls may fail at any
  time, a statement that fails changes nothing, and the row count may fail or be -1 when the driver
  does not know it (\<open>counts\<close> is false). The table name has at most 225 characters, and a session handed
  to create or update has times between 1970 and 9999 and its expiry flag set just when it has an
  expiry time. Then, with any allocations failing, a call through the vtable of a store whose mutex is
  free, on a table of readable rows, has no undefined behaviour, leaves the mutex free again on every
  path and every row readable, and does to the map from identifiers to sessions what the abstract
  store allows; a driver that does not know its row counts can report an update that is done as failed.
\<close>

theorem odbc_call_refines_map:
  assumes "odbc_engine L tbl sql_text bound cursor tn counts"
    and "\<not> oc_mutex (impl w)" and "oc_table_name (impl w) = tn"
    and "table_wf (tbl (oc_dbc (impl w)))" and "call_storable c"
    and "run_state (store_call_run (odbc_store_vtable L) c) w = (rc, w')"
  shows "undef w' = undef w \<and> \<not> oc_mutex (impl w') \<and> oc_table_name (impl w') = tn \<and>
    table_wf (tbl (oc_dbc (impl w'))) \<and>
    sql_call counts c rc (row_view (tbl (oc_dbc (impl w)))) (row_view (tbl (oc_dbc (impl w'))))"
  by (rule odbc_engine.call_exact [OF assms])

definition odbc_demo :: "string \<Rightarrow> ref_db opendbsc_odbc_ctx" where
  "odbc_demo tn = \<lparr>oc_dbc = ref_empty, oc_mutex = False, oc_table_name = tn\<rparr>"

text \<open>A table with one row, and an update of it on a driver that does not know its row counts.\<close>

definition odbc_stored :: "ref_db opendbsc_odbc_ctx" where
  "odbc_stored = (odbc_demo ''sessions'')
     \<lparr>oc_dbc := \<lparr>rd_table = DAList.update ''s1'' (row_of_session demo_session) DAList.empty, rd_changes = 1\<rparr>\<rparr>"

lemma odbc_stored_view: "table_wf (ref_table (oc_dbc odbc_stored)) \<and>
    row_view (ref_table (oc_dbc odbc_stored)) = [''s1'' \<mapsto> demo_session]"
proof -
  have T: "ref_table (oc_dbc odbc_stored) = (ref_table ref_empty)(''s1'' \<mapsto> row_of_session demo_session)"
    by (simp add: odbc_stored_def ref_table_def ref_empty_def lookup_upd)
  have "effect Insert (insert_params demo_session) (ref_table ref_empty) = Some (ref_table (oc_dbc odbc_stored), 1)"
  proof -
    have "format_rfc3339_utc (s_created_at demo_session) 32 \<noteq> None" by code_simp
    then show ?thesis unfolding T
      by (auto simp: effect_def insert_effect_def insert_params_def row_of_session_def demo_session_def
          session_defaults_def opendbsc_session_state_str_def ref_table_def ref_empty_def)
  qed
  from insert_wf [OF ref_empty_wf(1) demo_storable(2,1) this] show ?thesis by (simp add: ref_empty_view)
qed

definition demo_bound :: OpenDBSC_Session where
  "demo_bound = demo_session\<lparr>s_state := BOUND\<rparr>"

definition odbc_uncounted :: "int \<times> ref_db opendbsc_odbc_ctx sys" where
  "odbc_uncounted = run_state (store_call_run (odbc_store_vtable (uncounting (odbc_reference ''sessions'')))
     (Update (Some demo_bound))) (plenty odbc_stored)"

lemma odbc_uncounted_rc: "fst odbc_uncounted = -1"
  by code_simp

lemma odbc_uncounted_row:
  "map_option (\<lambda>r. r ! 2) (ref_table (oc_dbc (impl (snd odbc_uncounted))) ''s1'') = Some (Some ''bound'')"
  by code_simp

theorem odbc_call_refines_map_witness:
  "fst odbc_uncounted = -1 \<and> row_view (ref_table (oc_dbc (impl (snd odbc_uncounted)))) = [''s1'' \<mapsto> demo_bound] \<and>
   \<not> oc_mutex (impl (snd odbc_uncounted))"
proof -
  let ?V = "row_view (ref_table (oc_dbc (impl (snd odbc_uncounted))))"
  have "run_state (store_call_run (odbc_store_vtable (uncounting (odbc_reference ''sessions''))) (Update (Some demo_bound)))
      (plenty odbc_stored) = (-1, snd odbc_uncounted)"
    using odbc_uncounted_rc by (simp add: odbc_uncounted_def prod_eq_iff)
  from odbc_call_refines_map [OF ref_odbc.uncounting_engine _ _ _ _ this] odbc_stored_view
  have u: "\<not> oc_mutex (impl (snd odbc_uncounted))"
    and "?V = [''s1'' \<mapsto> demo_session] \<or> ?V = [''s1'' \<mapsto> demo_bound\<lparr>s_created_at := s_created_at demo_session\<rparr>]"
    by (auto simp: odbc_stored_def odbc_demo_def demo_bound_def demo_session_def session_defaults_def
        row_storable_def rfc3339_end_def)
  moreover have "?V \<noteq> [''s1'' \<mapsto> demo_session]"
  proof
    assume v: "?V = [''s1'' \<mapsto> demo_session]"
    obtain row where row: "ref_table (oc_dbc (impl (snd odbc_uncounted))) ''s1'' = Some row" "row ! 2 = Some ''bound''"
      using odbc_uncounted_row by auto
    from fun_cong [OF v, of "''s1''"] row have "session_of_row row = Some demo_session" by (simp add: row_view_def)
    with row(2) have "s_state demo_session = BOUND"
      by (auto simp: session_of_row_def bind_eq_Some_conv state_of_text_def OPENDBSC_STATE_ACTIVE_STR_def
          OPENDBSC_STATE_BOUND_STR_def split: if_splits option.splits dest!: arg_cong [where f = s_state])
    then show False by (simp add: demo_session_def session_defaults_def)
  qed
  ultimately show ?thesis using odbc_uncounted_rc by (auto simp: demo_bound_def)
qed

text \<open>
  C20: Columns of any length are read completely. On a fetched row, the loop over the chunks of 512 bytes
  ends within the bound and never copies more than the driver has delivered; it answers 0 with exactly
  the column's text, or NULL for a NULL, and -1 only when an allocation or the driver fails.
\<close>

theorem odbc_get_text_exact:
  assumes "odbc_engine L tbl sql_text bound cursor tn counts"
    and "cursor q = Cursor T (Some c) rows" and "1 \<le> n" and "n \<le> 8"
    and "run_state (odbc_get_text L q n) w = (((rc, out), q'), w')"
  shows "undef w' = undef w \<and> (rc = 0 \<and> out = c n \<or> rc = -1 \<and> out = None \<and>
    (starved w \<or> (\<exists>q n z. fst (fst (SQLGetData L q n z)) = SQL_ERROR)))"
  using odbc_engine.get_text_exact [OF assms] by (auto simp: frame_undef)

definition long_handle :: ref_handle where
  "long_handle = \<lparr>rh_sql = [], rh_params = (\<lambda>_. None),
     rh_rows = Ref_Open DAList.empty (Some (\<lambda>n. if n = 4 then Some (replicate 512 CHR ''k'') else None)) [], rh_count = 0\<rparr>"

theorem odbc_get_text_exact_witness:
  "fst (fst (run_state (odbc_get_text (odbc_reference ''sessions'') long_handle 4) (plenty ())))
     = (0, Some (replicate 512 CHR ''k''))"
proof -
  let ?r = "run_state (odbc_get_text (odbc_reference ''sessions'') long_handle 4) (plenty ())"
  have q: "ref_position long_handle = Cursor (DAList.lookup DAList.empty) (Some (\<lambda>n. if n = 4 then Some (replicate 512 CHR ''k'') else None)) []"
    by (simp add: ref_position_def long_handle_def)
  have rc: "fst (fst (fst ?r)) = 0" by code_simp
  have "run_state (odbc_get_text (odbc_reference ''sessions'') long_handle 4) (plenty ()) =
      (((fst (fst (fst ?r)), snd (fst (fst ?r))), snd (fst ?r)), snd ?r)" by simp
  from odbc_get_text_exact [OF ref_odbc.odbc_engine_axioms q _ _ this] rc show ?thesis by (simp add: prod_eq_iff)
qed

text \<open>
  C21: Opening an ODBC store. Whatever the configuration, a store that the factory returns has the
  configured table name, or the default one, which is a non-empty sequence of ASCII letters, digits and
  underscores: no quote, blank or semicolon of a configuration gets into a statement. Its length is not
  limited. The mutex of the store is free and its operations are those of this file. Nothing undefined
  happens on any path.
\<close>

theorem odbc_factory_safe:
  assumes "run_state (opendbsc_odbc_store_create L mutex_ok (Some cfg)) w = (r, w')"
  shows "undef w' = undef w \<and> (\<forall>c st. r = Some (c, st) \<longrightarrow>
    oc_table_name c = config_table cfg \<and> oc_table_name c \<noteq> [] \<and> (\<forall>ch \<in> set (oc_table_name c). identifier_char ch) \<and>
    \<not> oc_mutex c \<and> st = odbc_store_vtable L)"
  using framedD [OF framed_store_create assms] by (auto simp: valid_identifier_iff frame_undef)

theorem odbc_factory_safe_witness:
  "let cfg = \<lparr>od_connection_string = Some ''DSN=test'', od_table_name = Some ''dbsc_sessions'',
         od_auto_create_table = 1, od_login_timeout_seconds = 0\<rparr>;
       r = fst (run_state (opendbsc_odbc_store_create (odbc_reference ''dbsc_sessions'') True (Some cfg)) (plenty ()))
   in r \<noteq> None \<and> oc_table_name (fst (the r)) = ''dbsc_sessions'' \<and>
     fst (run_state (opendbsc_odbc_store_create (odbc_reference ''x'') True
       (Some (cfg\<lparr>od_table_name := Some ''x; DROP TABLE users''\<rparr>))) (plenty ())) = None"
proof -
  let ?cfg = "\<lparr>od_connection_string = Some ''DSN=test'', od_table_name = Some ''dbsc_sessions'',
         od_auto_create_table = 1, od_login_timeout_seconds = 0\<rparr>"
  let ?r = "run_state (opendbsc_odbc_store_create (odbc_reference ''dbsc_sessions'') True (Some ?cfg)) (plenty ())"
  let ?bad = "?cfg\<lparr>od_table_name := Some ''x; DROP TABLE users''\<rparr>"
  have some: "fst ?r \<noteq> None" by code_simp
  then obtain c st where r: "fst ?r = Some (c, st)" by fastforce
  have "oc_table_name c = config_table ?cfg"
    using odbc_factory_safe [of "odbc_reference ''dbsc_sessions''" True ?cfg "plenty ()", OF surjective_pairing] r by blast
  moreover have "fst (run_state (opendbsc_odbc_store_create (odbc_reference ''x'') True (Some ?bad)) (plenty ())) = None"
    by code_simp
  ultimately show ?thesis using some by (simp add: r config_table_def)
qed

end
