(* ===== verification/Sql_Manager.thy ===== *)
theory Sql_Manager
  imports Manager_Properties Sql_Properties
begin

text \<open>
  The manager over the two SQL stores. Both are flaky stores in the sense of \<open>Manager_Spec\<close>: any call
  of the library may fail at any time. They hold the times between 1970 and the year 9999. Under
  these terms they satisfy \<open>manager_store\<close>, so what is proved of the manager's requests and runs
  holds over any engine that keeps to the laws of \<open>sqlite_ample\<close>, where a stored column can always be
  handed out, or of \<open>odbc_counting\<close>, where the driver knows how many rows an update has changed.
\<close>

section \<open>The stores as stores of the manager\<close>

definition row_time :: "int \<Rightarrow> bool" where
  "row_time t \<longleftrightarrow> 0 \<le> t \<and> t < rfc3339_end"

lemma row_time_storable:
  "row_time (s_created_at s) \<Longrightarrow> row_time (s_expires_at s) \<Longrightarrow>
   s_has_expires s = (s_expires_at s \<noteq> 0) \<Longrightarrow> row_storable s"
  and row_storable_time: "row_storable s \<Longrightarrow> row_time (s_created_at s)"
  and row_time_zero: "row_time 0"
  by (auto simp: row_time_def row_storable_def rfc3339_end_def)

text \<open>A table of sessions the stores can have written.\<close>

definition rows_storable :: "table \<Rightarrow> bool" where
  "rows_storable T \<longleftrightarrow> table_ok T \<and> (\<forall>i s. row_view T i = Some s \<longrightarrow> row_storable s)"

lemma rows_storable_empty: "row_view T = Map.empty \<Longrightarrow> table_ok T \<Longrightarrow> rows_storable T"
  by (simp add: rows_storable_def)

abbreviation sqlite_view :: "('d \<Rightarrow> table) \<Rightarrow> 'd \<Rightarrow> string \<Rightarrow> OpenDBSC_Session option" where
  "sqlite_view tbl d \<equiv> row_view (tbl d)"

abbreviation sqlite_inv :: "('d \<Rightarrow> table) \<Rightarrow> 'd \<Rightarrow> bool" where
  "sqlite_inv tbl d \<equiv> rows_storable (tbl d)"

abbreviation odbc_view :: "('d \<Rightarrow> table) \<Rightarrow> 'd opendbsc_odbc_ctx \<Rightarrow> string \<Rightarrow> OpenDBSC_Session option" where
  "odbc_view tbl c \<equiv> row_view (tbl (oc_dbc c))"

definition odbc_inv :: "('d \<Rightarrow> table) \<Rightarrow> string \<Rightarrow> 'd opendbsc_odbc_ctx \<Rightarrow> bool" where
  "odbc_inv tbl tn c \<longleftrightarrow> \<not> oc_mutex c \<and> oc_table_name c = tn \<and> rows_storable (tbl (oc_dbc c))"

sublocale sqlite_ample \<subseteq> mgr: manager_store "sqlite_store_vtable L" "sqlite_view tbl" "sqlite_inv tbl"
  row_storable True row_time
proof -
  have eq: "sqlite_inv tbl = (\<lambda>d. table_ok (tbl d) \<and> (\<forall>i s. row_view (tbl d) i = Some s \<longrightarrow> row_storable s))"
    by (simp add: rows_storable_def fun_eq_iff)
  have "session_store (sqlite_store_vtable L) (sqlite_view tbl) (sqlite_inv tbl) row_storable"
    unfolding eq by (rule client.storable_contract)
  then show "manager_store (sqlite_store_vtable L) (sqlite_view tbl) (sqlite_inv tbl) row_storable True row_time"
    by (rule manager_store.intro, unfold_locales)
       (auto simp: excused_def sqlite_store_vtable_def sqlite_null_calls rows_storable_def
          intro: row_time_storable row_storable_time row_time_zero)
qed

sublocale odbc_counting \<subseteq> mgr: manager_store "odbc_store_vtable L" "odbc_view tbl" "odbc_inv tbl tn"
  row_storable True row_time
proof -
  have eq: "odbc_inv tbl tn = (\<lambda>c. inv c \<and> (\<forall>i s. view c i = Some s \<longrightarrow> row_storable s))"
    and view: "odbc_view tbl = view"
    by (auto simp: odbc_inv_def rows_storable_def inv_def view_def fun_eq_iff)
  have "session_store (odbc_store_vtable L) (odbc_view tbl) (odbc_inv tbl tn) row_storable"
    unfolding eq view by (rule client.storable_contract)
  then show "manager_store (odbc_store_vtable L) (odbc_view tbl) (odbc_inv tbl tn) row_storable True row_time"
    by (rule manager_store.intro, unfold_locales)
       (auto simp: excused_def odbc_store_vtable_def odbc_null_calls rows_storable_def odbc_inv_def
          intro: row_time_storable row_storable_time row_time_zero)
qed

context sqlite_ample
begin

lemmas manager_request = mgr.call_run
  and manager_run = mgr.sound_run_inv
  and manager_replay = mgr.replay_refused

end

context odbc_counting
begin

lemmas manager_request = mgr.call_run
  and manager_run = mgr.sound_run_inv
  and manager_replay = mgr.replay_refused

end

section \<open>A scenario\<close>

text \<open>A login, a registration, and the registration sent a second time, over the store \<open>st\<close>.\<close>

definition demo_manager_on :: "'s OpenDBSC_Store \<Rightarrow> 's OpenDBSC_Manager" where
  "demo_manager_on st = \<lparr>mgr_cfg = \<lparr>cfg_store = Some st, cfg_cookie_name = Some ''sid'',
     cfg_cookie_path = Some ''/'', cfg_cookie_domain = None, cfg_secure = 1, cfg_same_site = Some ''Lax'',
     cfg_cookie_ttl = 60, cfg_session_ttl = 600, cfg_authorization = None, cfg_on_event = True\<rparr>\<rparr>"

definition demo_start_on :: "'s \<Rightarrow> 's sys" where
  "demo_start_on x = (plenty x)\<lparr>entropy := \<lambda>n. Some (\<lambda>_. of_nat n), wall_clock := \<lambda>_. 1000\<rparr>"

type_synonym 's outcome = "(int \<times> OpenDBSC_ManagerResponse) \<times> 's sys"

definition demo_call_on :: "'s OpenDBSC_Store \<Rightarrow> mgr_call \<Rightarrow> 's sys \<Rightarrow> 's outcome" where
  "demo_call_on st c w = run_state (mgr_call_run demo_ext (demo_manager_on st) c) w"

definition demo_login_on :: "'s OpenDBSC_Store \<Rightarrow> 's \<Rightarrow> 's outcome" where
  "demo_login_on st x = demo_call_on st (Login ''alice'' None) (demo_start_on x)"

definition demo_register_on :: "'s OpenDBSC_Store \<Rightarrow> 's \<Rightarrow> 's outcome" where
  "demo_register_on st x = demo_call_on st demo_register_call (snd (demo_login_on st x))"

definition demo_replay_on :: "'s OpenDBSC_Store \<Rightarrow> 's \<Rightarrow> 's outcome" where
  "demo_replay_on st x = demo_call_on st demo_register_call (snd (demo_register_on st x))"

definition outcome_summary :: "'s outcome \<Rightarrow> int \<times> int \<times> nat" where
  "outcome_summary x = (fst (fst x), rs_status (snd (fst x)), entropy_reads (snd x))"

lemma demo_manages: "manages st (demo_manager_on st)"
  by (simp add: manages_def mgr_ok_def demo_manager_on_def)

lemma demo_start_on_sel: "impl (demo_start_on x) = x" "events (demo_start_on x) = []"
  "\<not> starved (demo_start_on x)" "entropy (demo_start_on x) = (\<lambda>n. Some (\<lambda>_. of_nat n))"
  "clock_fits row_time (ttl_of (demo_manager_on st)) (demo_start_on x)"
  by (simp_all add: demo_start_on_def plenty_def starved_def clock_fits_def row_time_def rfc3339_end_def demo_manager_on_def)

lemma sound_run_call:
  "sound_run st view ok fits E mg w0 w \<Longrightarrow> sound_run st view ok fits E mg w0 (snd (run_state (mgr_call_run E mg c) w))"
  unfolding sound_run_def by (metis mgr_runs.call prod.collapse)

text \<open>From an empty table the scenario is a run of the machine.\<close>

lemma demo_sound:
  assumes "ok x" and "view x = Map.empty"
  shows "sound_run st view ok row_time demo_ext (demo_manager_on st) (demo_start_on x) (snd (demo_login_on st x))"
proof -
  have "sound_run st view ok row_time demo_ext (demo_manager_on st) (demo_start_on x) (demo_start_on x)"
    using assms by (simp add: sound_run_def demo_manages demo_uuid_text demo_start_on_sel blank_def mgr_runs.refl)
  then show ?thesis unfolding demo_login_on_def demo_call_on_def by (rule sound_run_call)
qed

lemma ref_rows_storable: "rows_storable (ref_table ref_empty)"
  by (rule rows_storable_empty [OF ref_empty_view ref_empty_wf(2)])

definition sqlite_observed :: "(int \<times> int \<times> nat) \<times> nat" where
  "sqlite_observed = (let b = demo_register_on (sqlite_store_vtable sqlite_reference) ref_empty
     in (outcome_summary b, entropy_reads (snd (demo_call_on (sqlite_store_vtable sqlite_reference) demo_register_call (snd b)))))"

lemma sqlite_demo: "sqlite_observed = ((0, 200, 3), 3)"
  by code_simp

definition odbc_empty :: "ref_db opendbsc_odbc_ctx" where
  "odbc_empty = \<lparr>oc_dbc = ref_empty, oc_mutex = False, oc_table_name = ''sessions''\<rparr>"

lemma odbc_demo:
  "outcome_summary (demo_login_on (odbc_store_vtable (odbc_reference ''sessions'')) odbc_empty) = (0, 200, 2)"
  by code_simp

section \<open>Properties\<close>

text \<open>
  C39: Over SQLite a proof is accepted once. The library keeps to what SQLite documents and any of its
  calls may fail at any time, but it has the memory to hand out a stored column; in the program itself
  no allocation fails, the UUID library writes 36 characters, the manager is configured on this store,
  and the clock, also with the lifetime of a session added, stays between 1970 and 9999. In a run of
  the manager from an empty table and log in which the challenges drawn are distinct: once a
  registration or a refresh has been answered with 200, no later registration or refresh with the same
  proof is, whatever requests come in between and whichever statements fail.
\<close>

theorem sqlite_manager_no_replay:
  assumes "sqlite_ample L tbl sql_text bound progress"
    and "sound_run (sqlite_store_vtable L) (sqlite_view tbl) (sqlite_inv tbl) row_time E mg w0 w"
    and "distinct_draws w0 w3"
    and "run_state (mgr_call_run E mg c) w = ((rc, r), w1)" and "header_of c = Some h" and "rs_status r = 200"
    and "mgr_runs E mg w1 w2"
    and "run_state (mgr_call_run E mg c') w2 = ((rc', r'), w3)" and "header_of c' = Some h"
  shows "rs_status r' \<noteq> 200"
  by (rule sqlite_ample.manager_replay [OF assms])

theorem sqlite_manager_no_replay_witness:
  "rs_status (snd (fst (demo_register_on (sqlite_store_vtable sqlite_reference) ref_empty))) = 200 \<and>
   rs_status (snd (fst (demo_replay_on (sqlite_store_vtable sqlite_reference) ref_empty))) \<noteq> 200"
proof -
  let ?st = "sqlite_store_vtable sqlite_reference"
  have sound: "sound_run ?st (sqlite_view ref_table) (sqlite_inv ref_table) row_time demo_ext (demo_manager_on ?st)
      (demo_start_on ref_empty) (snd (demo_login_on ?st ref_empty))"
    by (rule demo_sound [where ok = "sqlite_inv ref_table" and view = "sqlite_view ref_table",
          OF ref_rows_storable ref_empty_view])
  obtain rc r w1 where b: "demo_register_on ?st ref_empty = ((rc, r), w1)" by (metis prod.exhaust)
  obtain rc' r' w3 where f: "demo_replay_on ?st ref_empty = ((rc', r'), w3)" by (metis prod.exhaust)
  have r: "rs_status r = 200" using sqlite_demo b by (simp add: sqlite_observed_def outcome_summary_def)
  have "entropy_reads w3 = 3"
    using sqlite_demo f by (simp add: sqlite_observed_def demo_replay_on_def)
  then have draws: "distinct_draws (demo_start_on ref_empty) w3"
    by (intro counted_draws) (simp_all add: demo_start_on_sel)
  have "rs_status r' \<noteq> 200"
  proof (rule sqlite_manager_no_replay [OF ref_sqlite.sqlite_ample_axioms sound draws _ _ r mgr_runs.refl])
    show "run_state (mgr_call_run demo_ext (demo_manager_on ?st) demo_register_call) (snd (demo_login_on ?st ref_empty))
        = ((rc, r), w1)"
      using b by (simp add: demo_register_on_def demo_call_on_def)
    show "run_state (mgr_call_run demo_ext (demo_manager_on ?st) demo_register_call) w1 = ((rc', r'), w3)"
      using b f by (simp add: demo_replay_on_def demo_call_on_def)
  qed (simp_all add: demo_register_call_def)
  with b f r show ?thesis by simp
qed

text \<open>
  C40: The manager over ODBC. The driver keeps to what ODBC documents and any of its calls may fail at any
  time, but it knows how many rows an update has changed; allocations may fail. The manager is
  configured on this store, the UUID library writes 36 characters, the clock, also with the lifetime of
  a session added, stays between 1970 and 9999, the mutex is free and the stored sessions are ones the
  store can have written, each with a challenge. Then every request to the manager has no undefined behaviour, releases the
  store's mutex, leaves rows the store can read back, and does to the sessions and the event log what
  the manager's specification says, where a failure of the driver counts as a failed allocation and
  costs at most the session of the request.
\<close>

theorem odbc_manager_refines:
  assumes "odbc_counting L tbl sql_text bound cursor tn"
    and "manages (odbc_store_vtable L) mg" and "uuid_text E" and "clock_fits row_time (ttl_of mg) w"
    and "odbc_inv tbl tn (impl w)" and "challenged_in (odbc_view tbl) w"
    and "run_state (mgr_call_run E mg c) w = ((rc, r), w')"
  shows "undef w' = undef w \<and> odbc_inv tbl tn (impl w') \<and>
    call_step True E mg w w' c (row_view (tbl (oc_dbc (impl w))), events w) rc r
      (row_view (tbl (oc_dbc (impl w'))), events w')"
  using odbc_counting.manager_request [OF assms(1,4,5,2,3,6,7)] by (simp add: kept_by_def)

theorem odbc_manager_refines_witness:
  "let w = snd (demo_login_on (odbc_store_vtable (odbc_reference ''sessions'')) odbc_empty)
   in undef w = undef (demo_start_on odbc_empty) \<and> (\<exists>i s. row_view (ref_table (oc_dbc (impl w))) = [i \<mapsto> s] \<and>
        s_user_id s = Some ''alice'' \<and> s_state s = ACTIVE)"
proof -
  let ?st = "odbc_store_vtable (odbc_reference ''sessions'')" and ?w = "demo_start_on odbc_empty"
  obtain rc r w' where l: "demo_login_on ?st odbc_empty = ((rc, r), w')" by (metis prod.exhaust)
  have rc: "rc = 0" using odbc_demo l by (simp add: outcome_summary_def)
  have inv: "odbc_inv ref_table ''sessions'' odbc_empty" and empty: "odbc_view ref_table odbc_empty = Map.empty"
    using ref_rows_storable ref_empty_view by (simp_all add: odbc_inv_def odbc_empty_def)
  have "undef w' = undef ?w \<and> odbc_inv ref_table ''sessions'' (impl w') \<and>
    call_step True demo_ext (demo_manager_on ?st) ?w w' (Login ''alice'' None)
      (row_view (ref_table (oc_dbc (impl ?w))), events ?w) rc r (row_view (ref_table (oc_dbc (impl w'))), events w')"
    by (rule odbc_manager_refines [OF ref_odbc.odbc_counting_axioms demo_manages demo_uuid_text])
       (use l inv empty in \<open>simp_all add: demo_start_on_sel challenged_in_def demo_login_on_def demo_call_on_def\<close>)
  then have u: "undef w' = undef ?w" and step: "initiate_step True demo_ext (demo_manager_on ?st) ?w w' ''alice''
      (Map.empty, []) rc r (odbc_view ref_table (impl w'), events w')"
    using empty by (simp_all add: demo_start_on_sel)
  from step rc obtain i s where "odbc_view ref_table (impl w') = [i \<mapsto> s]" "s_user_id s = Some ''alice''" "s_state s = ACTIVE"
    by cases (auto simp: login_of_def demo_start_on_sel)
  with l u show ?thesis by (auto simp: Let_def)
qed

end
