(* ===== verification/Interleaving.thy ===== *)
theory Interleaving
  imports Manager_Properties
begin

text \<open>
  What the store's mutex does not cover. A call of the store is atomic, a request to the manager is
  not: it looks a session up and updates it in two calls. Another thread's request between the two
  is modelled as an update that runs it first. The properties of \<open>Manager_Properties\<close> are about
  requests that run one after the other, as the event loop of the HTTP wrapper runs them; this
  theory evaluates why they need that.
\<close>

text \<open>The store as a thread sees it that is interrupted by \<open>other\<close> on its way into an update.\<close>

definition interrupted :: "('s sys, 'a) state \<Rightarrow> 's OpenDBSC_Store \<Rightarrow> 's OpenDBSC_Store" where
  "interrupted other st = st\<lparr>st_update := (\<lambda>session. do { _ \<leftarrow> other; st_update st session })\<rparr>"

definition on_store :: "'s OpenDBSC_Store \<Rightarrow> 's OpenDBSC_Manager \<Rightarrow> 's OpenDBSC_Manager" where
  "on_store st m = m\<lparr>mgr_cfg := (mgr_cfg m)\<lparr>cfg_store := Some st\<rparr>\<rparr>"

text \<open>The request \<open>c\<close>, interrupted by the request \<open>c'\<close> between its look-up and its update.\<close>

definition interleaved :: "mgr_call \<Rightarrow> mgr_call \<Rightarrow> msys \<Rightarrow> answered" where
  "interleaved c c' w = run_state (mgr_call_run demo_ext (on_store
     (interrupted (mgr_call_run demo_ext demo_manager c') memory_store_vtable) demo_manager) c) w"

text \<open>The types of the events a request has reported since \<open>w\<close>.\<close>

definition reported :: "msys \<Rightarrow> answered \<Rightarrow> int \<times> string list" where
  "reported w x = (rs_status (snd (fst x)), map ev_type (drop (length (events w)) (events (snd x))))"

text \<open>
  Two refreshes with the same proof: one after the other, the second is refused; interleaved, both
  are granted. A close between look-up and update is not undone over the in-memory store: the
  update finds no session.
\<close>

definition race :: "(int \<times> string list) list" where
  "race = (let w = snd demo_register; f = demo_call demo_refresh_call w
     in [reported w f, reported (snd f) (demo_call demo_refresh_call (snd f)),
         reported w (interleaved demo_refresh_call demo_refresh_call w),
         reported w (interleaved demo_refresh_call (Close (Some demo_id)) w)])"

lemma race_outcome:
  "race = [(200, [''REFRESH'']), (403, []), (200, [''REFRESH'', ''REFRESH'']), (0, [''CLOSE''])]"
  by code_simp

end
