(* ===== verification/Http_Wrapper.thy ===== *)
theory Http_Wrapper
  imports Manager
begin

text \<open>
  The HTTP wrapper: \<^verbatim>\<open>include/wrapper/http.h\<close> and \<^verbatim>\<open>src/wrapper/http.c\<close>. The mongoose library is
  not part of the repository. What the wrapper reads of it is an argument: the fields of a message
  and the answer of its header lookup, the contents of a file, whether an address can be listened
  on, and the poll that calls the handler. What the wrapper asks of it for a connection is the
  handler's result, an \<open>mg_action\<close> with the arguments of the call.

  The application's route is a function over a state of its own, which stands for what
  \<^verbatim>\<open>route_userdata\<close> and the application's globals hold.
\<close>

section \<open>Data\<close>

text \<open>A \<^verbatim>\<open>struct mg_str\<close>: \<open>None\<close> when its buffer is NULL, otherwise the characters of its length.\<close>

type_synonym mg_str = "string option"

record mg_http_message =
  hm_method :: mg_str
  hm_uri :: mg_str
  hm_body :: mg_str
  mg_http_get_header :: "string \<Rightarrow> mg_str option"

datatype mg_event = MG_EV_ACCEPT | MG_EV_HTTP_MSG mg_http_message | MG_EV_OTHER

datatype mg_action =
  mg_http_reply int string string
| mg_http_serve_dir string
| mg_tls_init string string

type_synonym ('s, 'a) OpenDBSC_HTTPRoute =
  "string \<Rightarrow> string \<Rightarrow> string option \<Rightarrow> nat \<Rightarrow> 's OpenDBSC_Manager \<Rightarrow> OpenDBSC_ManagerResponse \<Rightarrow> 'a \<Rightarrow>
     ('s sys, (int \<times> OpenDBSC_ManagerResponse) \<times> 'a) state"

record ('s, 'a) OpenDBSC_HTTPServerConfig =
  hc_manager :: "'s OpenDBSC_Manager option"
  hc_listen_addr :: "string option"
  hc_cert_path :: "string option"
  hc_key_path :: "string option"
  hc_static_root :: "string option"
  hc_route :: "('s, 'a) OpenDBSC_HTTPRoute option"

record ('s, 'a) OpenDBSC_HTTPServer =
  hs_manager :: "'s OpenDBSC_Manager"
  hs_route :: "('s, 'a) OpenDBSC_HTTPRoute option"
  hs_static_root :: "string option"
  hs_running :: bool
  hs_tls_cert :: "string option"
  hs_tls_key :: "string option"

section \<open>Strings\<close>

abbreviation crlf :: string where
  "crlf \<equiv> [CHR 0x0D, CHR 0x0A]"

text \<open>The copy is read as a C string, so it ends at the first NUL of the buffer.\<close>

definition mg_str_dup :: "mg_str option \<Rightarrow> ('a world_scheme, string option) state" where
  "mg_str_dup str =
     (case str of Some (Some s) \<Rightarrow> if s = [] then ret None else malloc_str (cstr s)
      | _ \<Rightarrow> ret None)"

definition strip_quotes :: "string option \<Rightarrow> ('a world_scheme, string option) state" where
  "strip_quotes s =
     (case s of None \<Rightarrow> ret None
      | Some s \<Rightarrow>
          if length s \<ge> 2 \<and> hd s = dq \<and> last s = dq then malloc_str (butlast (tl s))
          else strdup s)"

section \<open>Cookies\<close>

definition is_blank :: "char \<Rightarrow> bool" where
  "is_blank c \<longleftrightarrow> c = CHR '' '' \<or> c = CHR 0x09"

lemma dropWhile_Cons_length: "dropWhile P p = e # q \<Longrightarrow> length q < length p"
  using length_dropWhile_le [of P p] by simp

text \<open>
  The scan over the rest \<open>p\<close> of the header's value; the result is the text of the value found. A
  part without an equals sign ends the scan.
\<close>

function cookie_scan :: "string \<Rightarrow> string \<Rightarrow> string option" where
  "cookie_scan name p =
     (let p = dropWhile is_blank p;
          key = takeWhile (\<lambda>c. c \<noteq> CHR ''='' \<and> c \<noteq> CHR '';'') p
      in case dropWhile (\<lambda>c. c \<noteq> CHR ''='' \<and> c \<noteq> CHR '';'') p of [] \<Rightarrow> None
         | e # q \<Rightarrow>
             if e \<noteq> CHR ''='' then None
             else if key = name then Some (takeWhile (\<lambda>c. c \<noteq> CHR '';'') q)
             else (case dropWhile (\<lambda>c. c \<noteq> CHR '';'') q of [] \<Rightarrow> None
                   | _ # r \<Rightarrow> cookie_scan name r))"
  by pat_completeness auto

termination
proof (relation "measure (\<lambda>(name, p). length p)")
  fix name p q r :: string and p' key :: string and e c :: char
  assume "p' = dropWhile is_blank p"
    and "dropWhile (\<lambda>c. c \<noteq> CHR ''='' \<and> c \<noteq> CHR '';'') p' = e # q"
    and "dropWhile (\<lambda>c. c \<noteq> CHR '';'') q = c # r"
  then show "((name, r), name, p) \<in> measure (\<lambda>(name, p). length p)"
    using length_dropWhile_le [of is_blank p] by (auto dest!: dropWhile_Cons_length)
qed simp

declare cookie_scan.simps [simp del]

definition opendbsc_http_get_cookie ::
  "mg_http_message \<Rightarrow> string option \<Rightarrow> ('a world_scheme, string option) state" where
  "opendbsc_http_get_cookie hm name =
     (case (mg_http_get_header hm ''Cookie'', name) of
        (Some cookie, Some n) \<Rightarrow>
          (case cookie_scan n (str_of cookie) of None \<Rightarrow> ret None
           | Some v \<Rightarrow> malloc_str (cstr v))
      | _ \<Rightarrow> ret None)"

section \<open>Responses\<close>

definition server_error :: mg_action where
  "server_error = mg_http_reply 500 (''Content-Type: text/plain'' @ crlf) ''Internal Server Error''"

text \<open>
  One header line, when the response has it. The buffer is its size and the text it holds; it grows
  to twice the size needed. \<open>None\<close> when the reallocation fails.
\<close>

definition append_header :: "string \<Rightarrow> string option \<Rightarrow> nat \<times> string \<Rightarrow>
    ('a world_scheme, (nat \<times> string) option) state" where
  "append_header name v buf =
     (case (v, buf) of
        (None, _) \<Rightarrow> ret (Some buf)
      | (Some v, (headers_size, headers)) \<Rightarrow> do {
          let need = length headers + length v + 64;
          ok \<leftarrow> (if need > headers_size then alloc else ret True);
          if \<not> ok then ret None
          else do {
            let headers_size = (if need > headers_size then need * 2 else headers_size);
            headers \<leftarrow> buf_append headers_size headers (name @ '': '');
            headers \<leftarrow> buf_append headers_size headers v;
            headers \<leftarrow> buf_append headers_size headers crlf;
            ret (Some (headers_size, headers)) } })"

text \<open>The reply with the finished header lines.\<close>

definition reply_with :: "string \<Rightarrow> OpenDBSC_ManagerResponse \<Rightarrow> ('a world_scheme, mg_action) state" where
  "reply_with headers resp = do {
     let content_type = ''Content-Type: application/json'' @ crlf;
     let final_size = length headers + length content_type + 1;
     ok \<leftarrow> alloc;
     if \<not> ok then ret server_error
     else do {
       final_headers \<leftarrow> buf_append final_size [] headers;
       final_headers \<leftarrow> buf_append final_size final_headers content_type;
       ret (mg_http_reply (rs_status resp) final_headers (str_of (rs_body resp))) } }"

definition send_response :: "OpenDBSC_ManagerResponse \<Rightarrow> ('a world_scheme, mg_action) state" where
  "send_response resp = do {
     ok \<leftarrow> alloc;
     if \<not> ok then ret server_error
     else do {
       buf \<leftarrow> append_header ''Set-Cookie'' (rs_set_cookie resp) (256, []);
       case buf of None \<Rightarrow> ret server_error
       | Some buf \<Rightarrow> do {
         buf \<leftarrow> append_header ''Secure-Session-Registration'' (rs_registration resp) buf;
         case buf of None \<Rightarrow> ret server_error
         | Some buf \<Rightarrow> do {
           buf \<leftarrow> append_header ''Secure-Session-Challenge'' (rs_challenge resp) buf;
           case buf of None \<Rightarrow> ret server_error
           | Some (_, headers) \<Rightarrow> reply_with headers resp } } } }"

section \<open>Requests\<close>

text \<open>One event per entry of the header, when the manager has a callback.\<close>

fun report_skipped :: "'s OpenDBSC_Manager \<Rightarrow> OpenDBSC_SkippedEntry list \<Rightarrow> ('s sys, unit) state" where
  "report_skipped m [] = ret ()"
| "report_skipped m (e # es) = do {
     _ \<leftarrow> (if cfg_on_event (mgr_cfg m)
      then log_event \<lparr>ev_type = ''SESSION_SKIPPED'', ev_user = None,
             ev_session = sk_session_id e, ev_detail = sk_reason e\<rparr>
      else ret ());
     report_skipped m es }"

definition handle_session_skipped :: "'s OpenDBSC_Manager \<Rightarrow> mg_http_message \<Rightarrow> ('s sys, unit) state" where
  "handle_session_skipped m hm = do {
     v \<leftarrow> mg_str_dup (mg_http_get_header hm ''Secure-Session-Skipped'');
     if v = None then ret ()
     else do {
       (rc, entries) \<leftarrow> opendbsc_parse_session_skipped v;
       if rc \<noteq> 0 then ret () else report_skipped m entries } }"

text \<open>A header's value without its quotes.\<close>

definition unquoted_header :: "mg_http_message \<Rightarrow> string \<Rightarrow> ('a world_scheme, string option) state" where
  "unquoted_header hm name = do {
     raw \<leftarrow> mg_str_dup (mg_http_get_header hm name);
     strip_quotes raw }"

definition handle_register :: "('j, 'b, 'k) externals \<Rightarrow> 's OpenDBSC_Manager \<Rightarrow> mg_http_message \<Rightarrow>
    OpenDBSC_ManagerResponse \<Rightarrow> ('s sys, mg_action) state" where
  "handle_register E m hm resp = do {
     cookie \<leftarrow> opendbsc_http_get_cookie hm (cfg_cookie_name (mgr_cfg m));
     proof' \<leftarrow> unquoted_header hm ''Secure-Session-Response'';
     (rc, resp) \<leftarrow> opendbsc_manager_register E (Some m) cookie proof' resp;
     send_response resp }"

definition handle_refresh :: "('j, 'b, 'k) externals \<Rightarrow> 's OpenDBSC_Manager \<Rightarrow> mg_http_message \<Rightarrow>
    OpenDBSC_ManagerResponse \<Rightarrow> ('s sys, mg_action) state" where
  "handle_refresh E m hm resp = do {
     session_id \<leftarrow> unquoted_header hm ''Sec-Secure-Session-Id'';
     session_id \<leftarrow> (if session_id = None
        then opendbsc_http_get_cookie hm (cfg_cookie_name (mgr_cfg m)) else ret session_id);
     proof' \<leftarrow> unquoted_header hm ''Secure-Session-Response'';
     (rc, resp) \<leftarrow> opendbsc_manager_refresh E (Some m) session_id proof' resp;
     send_response resp }"

definition me_text :: "string \<Rightarrow> int \<Rightarrow> string" where
  "me_text user now = CHR ''{'' # quoted ''user'' @ '':'' @ quoted user @ '','' @ quoted ''time'' @ '':'' @
     quoted (print_int now) @ ''}''"

definition handle_me :: "'s OpenDBSC_Manager \<Rightarrow> mg_http_message \<Rightarrow>
    OpenDBSC_ManagerResponse \<Rightarrow> ('s sys, mg_action) state" where
  "handle_me m hm resp = do {
     cookie \<leftarrow> opendbsc_http_get_cookie hm (cfg_cookie_name (mgr_cfg m));
     (rc, session) \<leftarrow> (if cookie = None then ret (-1, None)
                      else opendbsc_manager_get_session (Some m) cookie);
     resp \<leftarrow> (if rc = 0 then
        (case session of None \<Rightarrow> ub resp
         | Some s \<Rightarrow> do {
             user \<leftarrow> str_arg (s_user_id s);
             now \<leftarrow> time_now;
             let buf = take 511 (me_text user now);
             body \<leftarrow> strdup buf;
             _ \<leftarrow> with_store m () (\<lambda>st. st_free_sessions st [s]);
             ret (resp\<lparr>rs_status := 200, rs_body := body\<rparr>) })
      else do {
        body \<leftarrow> strdup (CHR ''{'' # quoted ''error'' @ '':'' @ quoted ''unauthorized'' @ ''}'');
        ret (resp\<lparr>rs_status := 401, rs_body := body\<rparr>) });
     send_response resp }"

text \<open>The endpoints of the wrapper, after the application's route has declined.\<close>

definition default_endpoints :: "('j, 'b, 'k) externals \<Rightarrow> 's OpenDBSC_Manager \<Rightarrow> string option \<Rightarrow>
    mg_http_message \<Rightarrow> string \<Rightarrow> string \<Rightarrow> OpenDBSC_ManagerResponse \<Rightarrow> ('s sys, mg_action) state" where
  "default_endpoints E m static_root hm method uri resp =
     (if method = ''POST'' \<and> uri = ''/dbsc/register'' then handle_register E m hm resp
      else if method = ''POST'' \<and> uri = ''/dbsc/refresh'' then handle_refresh E m hm resp
      else if method = ''GET'' \<and> uri = ''/api/me'' then handle_me m hm resp
      else case static_root of
          Some dir \<Rightarrow> ret (mg_http_serve_dir dir)
        | None \<Rightarrow> ret (mg_http_reply 404 (''Content-Type: text/plain'' @ crlf) ''Not Found''))"

text \<open>A message with a method and a path: the application's route handles it first.\<close>

definition route_message :: "('j, 'b, 'k) externals \<Rightarrow> ('s, 'a) OpenDBSC_HTTPServer \<Rightarrow> mg_http_message \<Rightarrow>
    string \<Rightarrow> string \<Rightarrow> string option \<Rightarrow> 'a \<Rightarrow> ('s sys, mg_action \<times> 'a) state" where
  "route_message E server hm method uri body app = do {
     let resp = the (opendbsc_manager_response_init (Some empty_response));
     ((rc, resp), app) \<leftarrow> (case hs_route server of None \<Rightarrow> ret ((-1, resp), app)
       | Some route \<Rightarrow> route method uri body (length (str_of (hm_body hm))) (hs_manager server) resp app);
     act \<leftarrow> (if rc = 0 then send_response resp
             else default_endpoints E (hs_manager server) (hs_static_root server) hm method uri resp);
     ret (act, app) }"

definition handle_http :: "('j, 'b, 'k) externals \<Rightarrow> ('s, 'a) OpenDBSC_HTTPServer \<Rightarrow> mg_http_message \<Rightarrow> 'a \<Rightarrow>
    ('s sys, mg_action \<times> 'a) state" where
  "handle_http E server hm app = do {
     _ \<leftarrow> handle_session_skipped (hs_manager server) hm;
     uri \<leftarrow> mg_str_dup (Some (hm_uri hm));
     method \<leftarrow> mg_str_dup (Some (hm_method hm));
     body \<leftarrow> mg_str_dup (Some (hm_body hm));
     case (uri, method) of
       (Some u, Some mt) \<Rightarrow> route_message E server hm mt u body app
     | _ \<Rightarrow> ret (server_error, app) }"

definition dbsc_event_handler :: "('j, 'b, 'k) externals \<Rightarrow> ('s, 'a) OpenDBSC_HTTPServer option \<Rightarrow> mg_event \<Rightarrow> 'a \<Rightarrow>
    ('s sys, mg_action option \<times> 'a) state" where
  "dbsc_event_handler E server ev app =
     (case server of None \<Rightarrow> ret (None, app)
      | Some srv \<Rightarrow>
          (case ev of
             MG_EV_ACCEPT \<Rightarrow>
               (case (hs_tls_cert srv, hs_tls_key srv) of
                  (Some cert, Some key) \<Rightarrow> ret (Some (mg_tls_init cert key), app)
                | _ \<Rightarrow> ret (None, app))
           | MG_EV_HTTP_MSG hm \<Rightarrow> do {
               (act, app) \<leftarrow> handle_http E srv hm app; ret (Some act, app) }
           | MG_EV_OTHER \<Rightarrow> ret (None, app)))"

section \<open>The server's life\<close>

text \<open>What the environment answers: whether an address can be listened on, and the contents of a file.\<close>

record mongoose =
  mg_http_listen :: "string \<Rightarrow> bool"
  mg_file_read :: "string \<Rightarrow> mg_str"

definition load_tls :: "mg_str \<Rightarrow> mg_str \<Rightarrow> ('s, 'a) OpenDBSC_HTTPServer \<Rightarrow>
    ('w world_scheme, ('s, 'a) OpenDBSC_HTTPServer) state" where
  "load_tls cert_data key_data server =
     (case (cert_data, key_data) of
        (Some c, Some k) \<Rightarrow> do {
          cert \<leftarrow> malloc_str (cstr c);
          key \<leftarrow> malloc_str (cstr k);
          if cert \<noteq> None \<and> key \<noteq> None then ret (server\<lparr>hs_tls_cert := cert, hs_tls_key := key\<rparr>)
          else ret (server\<lparr>hs_tls_cert := None, hs_tls_key := None\<rparr>) }
      | _ \<Rightarrow> ret server)"

definition opendbsc_http_server_start :: "mongoose \<Rightarrow> ('s, 'a) OpenDBSC_HTTPServerConfig option \<Rightarrow>
    ('w world_scheme, ('s, 'a) OpenDBSC_HTTPServer option) state" where
  "opendbsc_http_server_start G config =
     (case config of None \<Rightarrow> ret None
      | Some cfg \<Rightarrow>
          (case (hc_manager cfg, hc_listen_addr cfg) of
             (Some m, Some addr) \<Rightarrow> do {
               ok \<leftarrow> alloc;
               if \<not> ok then ret None
               else do {
                 let server = \<lparr>hs_manager = m, hs_route = hc_route cfg,
                   hs_static_root = hc_static_root cfg, hs_running = True,
                   hs_tls_cert = None, hs_tls_key = None\<rparr>;
                 if \<not> mg_http_listen G addr then ret None
                 else (case (hc_cert_path cfg, hc_key_path cfg) of
                     (Some cp, Some kp) \<Rightarrow> do {
                       server \<leftarrow> load_tls (mg_file_read G cp) (mg_file_read G kp) server;
                       ret (Some server) }
                   | _ \<Rightarrow> ret (Some server)) } }
           | _ \<Rightarrow> ret None))"

text \<open>
  The event loop may run forever: \<open>None\<close> is a loop that does not return. A poll hands the pending
  events to the handler; it and a signal in between may change the server and the rest of the state.
\<close>

partial_function (option) server_loop ::
  "(('s, 'a) OpenDBSC_HTTPServer \<times> 'x \<Rightarrow> ('s, 'a) OpenDBSC_HTTPServer \<times> 'x) \<Rightarrow>
     ('s, 'a) OpenDBSC_HTTPServer \<times> 'x \<Rightarrow> (('s, 'a) OpenDBSC_HTTPServer \<times> 'x) option" where
  "server_loop poll st = (if hs_running (fst st) then server_loop poll (poll st) else Some st)"

definition opendbsc_http_server_run ::
  "(('s, 'a) OpenDBSC_HTTPServer \<times> 'x \<Rightarrow> ('s, 'a) OpenDBSC_HTTPServer \<times> 'x) \<Rightarrow>
     ('s, 'a) OpenDBSC_HTTPServer option \<Rightarrow> 'x \<Rightarrow> (('s, 'a) OpenDBSC_HTTPServer option \<times> 'x) option" where
  "opendbsc_http_server_run poll server x =
     (case server of None \<Rightarrow> Some (None, x)
      | Some srv \<Rightarrow> map_option (\<lambda>(srv, x). (Some srv, x)) (server_loop poll (srv, x)))"

definition opendbsc_http_server_request_stop ::
  "('s, 'a) OpenDBSC_HTTPServer option \<Rightarrow> ('s, 'a) OpenDBSC_HTTPServer option" where
  "opendbsc_http_server_request_stop server =
     map_option (\<lambda>srv. srv\<lparr>hs_running := False\<rparr>) server"

text \<open>Stopping releases the server: nothing is left of it.\<close>

definition opendbsc_http_server_stop ::
  "('s, 'a) OpenDBSC_HTTPServer option \<Rightarrow> ('s, 'a) OpenDBSC_HTTPServer option" where
  "opendbsc_http_server_stop server = None"

text \<open>A started server runs, serves the configured manager and has both TLS texts or none.\<close>

lemma framed_load_tls:
  "(hs_tls_cert srv = None) = (hs_tls_key srv = None) \<Longrightarrow>
   framed (load_tls c k srv) (\<lambda>srv'. srv' = srv\<lparr>hs_tls_cert := hs_tls_cert srv', hs_tls_key := hs_tls_key srv'\<rparr> \<and>
     (hs_tls_cert srv' = None) = (hs_tls_key srv' = None))"
  unfolding load_tls_def
  by (auto split: option.split intro!: framed_return framed_bind [OF framed_malloc_str])

lemma http_server_start_runs:
  "framed (opendbsc_http_server_start G (Some cfg)) (\<lambda>r. \<forall>srv. r = Some srv \<longrightarrow>
     hs_running srv \<and> hc_manager cfg = Some (hs_manager srv) \<and> hs_route srv = hc_route cfg \<and>
     hs_static_root srv = hc_static_root cfg \<and> (hs_tls_cert srv = None) = (hs_tls_key srv = None))"
  unfolding opendbsc_http_server_start_def option.case
  by (auto split: option.split simp: Let_def
      intro!: framed_return framed_bind [OF framed_alloc] framed_bind [OF framed_load_tls])

text \<open>The loop returns as soon as one of its polls leaves the flag cleared.\<close>

lemma server_loop_returns:
  assumes "\<not> hs_running (fst ((poll ^^ n) st))"
  shows "\<exists>k \<le> n. server_loop poll st = Some ((poll ^^ k) st) \<and>
    \<not> hs_running (fst ((poll ^^ k) st)) \<and> (\<forall>j < k. hs_running (fst ((poll ^^ j) st)))"
  using assms
proof (induction n arbitrary: st)
  case 0
  then show ?case by (subst server_loop.simps) simp
next
  case (Suc n)
  show ?case
  proof (cases "hs_running (fst st)")
    case True
    from Suc.IH [of "poll st"] Suc.prems obtain k where k: "k \<le> n"
      "server_loop poll (poll st) = Some ((poll ^^ k) (poll st))"
      "\<not> hs_running (fst ((poll ^^ k) (poll st)))" "\<forall>j < k. hs_running (fst ((poll ^^ j) (poll st)))"
      by (auto simp: funpow_swap1)
    have "hs_running (fst ((poll ^^ j) st))" if "j < Suc k" for j
      using that k(4) True by (cases j) (auto simp: funpow_swap1)
    then show ?thesis
      using k(1-3) True by (intro exI [of _ "Suc k"]) (subst server_loop.simps, auto simp: funpow_swap1)
  next
    case False
    then show ?thesis by (intro exI [of _ 0]) (subst server_loop.simps, simp)
  qed
qed

text \<open>It returns only so.\<close>

lemma server_loop_stopped:
  fixes poll :: "('s, 'a) OpenDBSC_HTTPServer \<times> 'x \<Rightarrow> ('s, 'a) OpenDBSC_HTTPServer \<times> 'x"
  assumes "server_loop poll st = Some y"
  shows "\<exists>k. \<not> hs_running (fst ((poll ^^ k) st))"
proof (rule server_loop.raw_induct [where P = "\<lambda>poll st y. \<exists>k. \<not> hs_running (fst ((poll ^^ k) st))", OF _ assms])
  fix loop and poll :: "('s, 'a) OpenDBSC_HTTPServer \<times> 'x \<Rightarrow> ('s, 'a) OpenDBSC_HTTPServer \<times> 'x" and st y
  assume IH: "\<And>poll st y. loop poll st = Some y \<Longrightarrow> \<exists>k. \<not> hs_running (fst ((poll ^^ k) st))"
    and run: "(if hs_running (fst st) then loop poll (poll st) else Some st) = Some y"
  show "\<exists>k. \<not> hs_running (fst ((poll ^^ k) st))"
  proof (cases "hs_running (fst st)")
    case True
    with run have "loop poll (poll st) = Some y" by simp
    from IH [OF this] obtain k where k: "\<not> hs_running (fst ((poll ^^ k) (poll st)))" by (elim exE)
    then show ?thesis by (intro exI [of _ "Suc k"]) (simp add: funpow_swap1)
  next
    case False
    then show ?thesis by (intro exI [of _ 0]) simp
  qed
qed

section \<open>What the helpers compute\<close>

text \<open>
  The value of a header, of a quoted header and of a cookie of a message, as the handler sees them
  when memory is available.
\<close>

definition text_of :: "mg_str option \<Rightarrow> string option" where
  "text_of str = (case str of Some (Some s) \<Rightarrow> if s = [] then None else Some (cstr s) | _ \<Rightarrow> None)"

definition without_quotes :: "string \<Rightarrow> string" where
  "without_quotes s =
     (if length s \<ge> 2 \<and> hd s = dq \<and> last s = dq then butlast (tl s) else s)"

definition header_text :: "mg_http_message \<Rightarrow> string \<Rightarrow> string option" where
  "header_text hm name = map_option without_quotes (text_of (mg_http_get_header hm name))"

definition cookie_of :: "mg_http_message \<Rightarrow> string option \<Rightarrow> string option" where
  "cookie_of hm name =
     (case (mg_http_get_header hm ''Cookie'', name) of
        (Some cookie, Some n) \<Rightarrow> map_option cstr (cookie_scan n (str_of cookie))
      | _ \<Rightarrow> None)"

lemma attempts_str_dup: "attempts (mg_str_dup str) (text_of str) (\<lambda>x. x = None)"
  by (auto simp: mg_str_dup_def text_of_def attempts_return attempts_malloc_str split: option.split)

lemma attempts_strip_quotes: "attempts (strip_quotes s) (map_option without_quotes s) (\<lambda>x. x = None)"
  by (cases s) (simp_all add: strip_quotes_def without_quotes_def attempts_malloc_str attempts_return)

lemma strip_quotes_NULL: "strip_quotes None = ret None"
  by (simp add: strip_quotes_def)

lemma attempts_unquoted_header: "attempts (unquoted_header hm name) (header_text hm name) (\<lambda>x. x = None)"
  unfolding unquoted_header_def
  by (rule attempts_bind [OF attempts_str_dup])
     (simp_all add: strip_quotes_NULL framed_return header_text_def attempts_strip_quotes)

lemma attempts_get_cookie: "attempts (opendbsc_http_get_cookie hm name) (cookie_of hm name) (\<lambda>x. x = None)"
  by (auto simp: opendbsc_http_get_cookie_def cookie_of_def attempts_return attempts_malloc_str
        split: option.split)

text \<open>The reply to a response.\<close>

definition header_line :: "string \<Rightarrow> string option \<Rightarrow> string" where
  "header_line name v = (case v of None \<Rightarrow> [] | Some v \<Rightarrow> name @ '': '' @ v @ crlf)"

definition reply_of :: "OpenDBSC_ManagerResponse \<Rightarrow> mg_action" where
  "reply_of r = mg_http_reply (rs_status r)
     (header_line ''Set-Cookie'' (rs_set_cookie r) @
      header_line ''Secure-Session-Registration'' (rs_registration r) @
      header_line ''Secure-Session-Challenge'' (rs_challenge r) @
      ''Content-Type: application/json'' @ crlf) (str_of (rs_body r))"

text \<open>Every append stays inside the buffer, and only a failed reallocation stops it.\<close>

lemma attempts_append_header:
  assumes "length h < cap" and "length name < 60"
  shows "\<exists>cap' > length (h @ header_line name v).
    attempts (append_header name v (cap, h)) (Some (cap', h @ header_line name v)) (\<lambda>x. x = None)"
proof (cases v)
  case None
  with assms(1) show ?thesis
    by (intro exI [of _ cap]) (simp add: append_header_def header_line_def attempts_return)
next
  case (Some t)
  let ?need = "length h + length t + 64"
  let ?cap = "if ?need > cap then ?need * 2 else cap"
  have fits: "length h + length t + length name + 4 < ?cap" using assms(2) by auto
  have "attempts (if ?need > cap then alloc else ret True) True Not"
    by (simp add: attempts_alloc attempts_return)
  then have "attempts (append_header name (Some t) (cap, h)) (Some (?cap, h @ header_line name (Some t))) (\<lambda>x. x = None)"
    unfolding append_header_def prod.case option.case Let_def
    by (rule attempts_bind) (use fits in \<open>simp_all add: framed_return buf_append_fits header_line_def attempts_return del: if_split_asm\<close>)
  with fits Some show ?thesis by (intro exI [of _ ?cap]) (simp add: header_line_def)
qed

lemma attempts_reply_with:
  "attempts (reply_with h r) (mg_http_reply (rs_status r)
     (h @ ''Content-Type: application/json'' @ crlf) (str_of (rs_body r))) (\<lambda>x. x = server_error)"
  unfolding reply_with_def Let_def
  by (rule attempts_bind [OF attempts_alloc]) (simp_all add: framed_return buf_append_fits attempts_return)

lemma attempts_send_response: 
  "attempts (send_response r :: ('a world_scheme, mg_action) state) (reply_of r) (\<lambda>a. a = server_error)"
proof -
  obtain c1 where c1: "length (header_line ''Set-Cookie'' (rs_set_cookie r)) < c1"
    "attempts (append_header ''Set-Cookie'' (rs_set_cookie r) (256, []) :: ('a world_scheme, (nat \<times> string) option) state)
       (Some (c1, header_line ''Set-Cookie'' (rs_set_cookie r))) (\<lambda>x. x = None)"
    using attempts_append_header [of "[]" 256 "''Set-Cookie''" "rs_set_cookie r"] by auto
  obtain c2 where c2: "length (header_line ''Set-Cookie'' (rs_set_cookie r) @
      header_line ''Secure-Session-Registration'' (rs_registration r)) < c2"
    "attempts (append_header ''Secure-Session-Registration'' (rs_registration r)
        (c1, header_line ''Set-Cookie'' (rs_set_cookie r)) :: ('a world_scheme, (nat \<times> string) option) state)
       (Some (c2, header_line ''Set-Cookie'' (rs_set_cookie r) @
          header_line ''Secure-Session-Registration'' (rs_registration r))) (\<lambda>x. x = None)"
    using attempts_append_header [OF c1(1), of "''Secure-Session-Registration''" "rs_registration r"] by auto
  obtain c3 where c3: "attempts (append_header ''Secure-Session-Challenge'' (rs_challenge r)
        (c2, header_line ''Set-Cookie'' (rs_set_cookie r) @ header_line ''Secure-Session-Registration'' (rs_registration r)) :: ('a world_scheme, (nat \<times> string) option) state)
       (Some (c3, header_line ''Set-Cookie'' (rs_set_cookie r) @
          header_line ''Secure-Session-Registration'' (rs_registration r) @
          header_line ''Secure-Session-Challenge'' (rs_challenge r))) (\<lambda>x. x = None)"
    using attempts_append_header [OF c2(1), of "''Secure-Session-Challenge''" "rs_challenge r"] by auto
  show ?thesis
    unfolding send_response_def
    apply (rule attempts_bind [OF attempts_alloc], simp add: framed_return)
    apply (simp only: not_True_eq_False if_False)
    apply (rule attempts_bind [OF c1(2)], simp add: framed_return)
    apply (simp only: option.case)
    apply (rule attempts_bind [OF c2(2)], simp add: framed_return)
    apply (simp only: option.case)
    apply (rule attempts_bind [OF c3], simp add: framed_return)
    apply (simp only: option.case prod.case reply_of_def)
    using attempts_reply_with [of "header_line ''Set-Cookie'' (rs_set_cookie r) @
        header_line ''Secure-Session-Registration'' (rs_registration r) @
        header_line ''Secure-Session-Challenge'' (rs_challenge r)" r] apply (simp only: append_assoc)
    done
qed

section \<open>The cookie header\<close>

text \<open>The header a browser sends for a list of cookies.\<close>

fun cookies_text :: "(string \<times> string) list \<Rightarrow> string" where
  "cookies_text [] = []"
| "cookies_text [(k, v)] = k @ CHR ''='' # v"
| "cookies_text ((k, v) # c # cs) = k @ CHR ''='' # v @ CHR '';'' # CHR '' '' # cookies_text (c # cs)"

definition cookie_ok :: "string \<times> string \<Rightarrow> bool" where
  "cookie_ok = (\<lambda>(k, v). (\<forall>c \<in> set k. \<not> is_blank c \<and> c \<noteq> CHR ''='' \<and> c \<noteq> CHR '';'') \<and>
     (\<forall>c \<in> set v. c \<noteq> CHR '';'' \<and> c \<noteq> CHR 0x00))"

lemma cookie_scan_blank: "cookie_scan name (CHR '' '' # p) = cookie_scan name p"
  by (subst (1 2) cookie_scan.simps) (simp add: is_blank_def)

text \<open>One turn of the scan over a well-formed cookie.\<close>

lemma cookie_scan_turn:
  assumes "cookie_ok (k, v)" and "rest = [] \<or> hd rest = CHR '';''"
  shows "cookie_scan name (k @ CHR ''='' # v @ rest) =
    (if k = name then Some v else case rest of [] \<Rightarrow> None | _ # r \<Rightarrow> cookie_scan name r)"
proof -
  let ?sep = "\<lambda>c. c \<noteq> CHR ''='' \<and> c \<noteq> CHR '';''"
  let ?p = "k @ CHR ''='' # v @ rest"
  have ks: "\<forall>c \<in> set k. ?sep c" and kb: "\<forall>c \<in> set k. \<not> is_blank c" and vs: "\<forall>c \<in> set v. c \<noteq> CHR '';''"
    using assms(1) by (auto simp: cookie_ok_def)
  have b: "dropWhile is_blank ?p = ?p" using kb by (cases k) (simp_all add: is_blank_def)
  have k: "takeWhile ?sep ?p = k" "dropWhile ?sep ?p = CHR ''='' # v @ rest"
    using takeWhile_append_stop [OF ks, of "CHR ''=''"] dropWhile_append_stop [OF ks, of "CHR ''=''"] by simp_all
  have v: "takeWhile (\<lambda>c. c \<noteq> CHR '';'') (v @ rest) = v" "dropWhile (\<lambda>c. c \<noteq> CHR '';'') (v @ rest) = rest"
    using assms(2) vs by (cases rest; simp add: takeWhile_append2 dropWhile_append2)+
  show ?thesis
    by (subst cookie_scan.simps) (simp only: Let_def b k v list.case if_True refl, simp)
qed

lemma cookie_scan_cookies:
  "\<forall>c \<in> set cs. cookie_ok c \<Longrightarrow> cookie_scan name (cookies_text cs) = map_of cs name"
proof (induction cs rule: cookies_text.induct)
  case 1
  then show ?case by (subst cookie_scan.simps) simp
next
  case (2 k v)
  then have "cookie_ok (k, v)" by simp
  from cookie_scan_turn [OF this, of "[]" name] show ?case by simp
next
  case (3 k v c cs)
  then have ok: "cookie_ok (k, v)" and IH: "cookie_scan name (cookies_text (c # cs)) = map_of (c # cs) name"
    by simp_all
  have "cookie_scan name (cookies_text ((k, v) # c # cs)) =
      (if k = name then Some v else cookie_scan name (CHR '' '' # cookies_text (c # cs)))"
    unfolding cookies_text.simps(3) by (subst cookie_scan_turn [OF ok]) simp_all
  then show ?case unfolding cookie_scan_blank IH by simp
qed

text \<open>
  The cookie parser finds what a browser sends. For every list of cookies with names and values
  free of separators, the parser applied to the header \<open>k=v; k=v; ...\<close> returns the value of the
  first cookie with the asked name and NULL when there is none, for any failing allocation except
  that of the copy, and without undefined behaviour.
\<close>

theorem http_cookie_roundtrip:
  assumes "\<And>c. c \<in> set cs \<Longrightarrow> cookie_ok c"
    and "mg_http_get_header hm ''Cookie'' = Some (Some (cookies_text cs))"
    and "run_state (opendbsc_http_get_cookie hm (Some name)) w = (r, w')"
  shows "undef w' = undef w \<and> (r = map_of cs name \<or> r = None \<and> starved w)"
proof -
  have "map_option cstr (map_of cs name) = map_of cs name"
  proof (cases "map_of cs name")
    case (Some v)
    then have "cookie_ok (name, v)" using assms(1) by (blast dest: map_of_SomeD)
    then have "CHR 0x00 \<notin> set v" unfolding cookie_ok_def prod.case by blast
    with Some show ?thesis by simp
  qed simp
  then have "cookie_of hm (Some name) = map_of cs name"
    using assms(1,2) by (simp add: cookie_of_def cookie_scan_cookies)
  with attemptsD [OF attempts_get_cookie assms(3)] show ?thesis by (auto simp: frame_undef)
qed

theorem http_cookie_roundtrip_witness:
  "let hm = \<lparr>hm_method = None, hm_uri = None, hm_body = None,
             mg_http_get_header = [''Cookie'' \<mapsto> Some ''a=1; sid=u7; b=x=y'']\<rparr>
   in fst (run_state (opendbsc_http_get_cookie hm (Some ''sid'')) demo_world) = Some ''u7''"
proof -
  let ?cs = "[(''a'', ''1''), (''sid'', ''u7''), (''b'', ''x=y'')]"
  let ?hm = "\<lparr>hm_method = None, hm_uri = None, hm_body = None,
             mg_http_get_header = [''Cookie'' \<mapsto> Some ''a=1; sid=u7; b=x=y'']\<rparr>"
  have ok: "cookie_ok c" if "c \<in> set ?cs" for c
    using that by (auto simp: cookie_ok_def is_blank_def)
  have "mg_http_get_header ?hm ''Cookie'' = Some (Some (cookies_text ?cs))" by simp
  from http_cookie_roundtrip [OF ok this prod.collapse [symmetric], of "''sid''" demo_world]
  show ?thesis by simp
qed

text \<open>A part without an equals sign hides the cookies behind it.\<close>

lemma cookie_scan_flag: "cookie_scan ''sid'' ''flag; sid=u7'' = None"
  by code_simp

end
