(* ===== verification/Example_Server.thy ===== *)
theory Example_Server
  imports Http_Wrapper
begin

text \<open>
  The example application \<^verbatim>\<open>examples/server.c\<close>: its user table, its ring of events, its form parser,
  its routes and the choice of a store. Its globals \<open>event_log\<close> and \<open>event_count\<close> are a record that
  goes through the operations. The callback \<^verbatim>\<open>add_event\<close> that the manager calls is applied to the
  events the manager reported; it is the last thing a login does, so applying it when the login has
  returned reads the same clock. What is printed to the console is left out.
\<close>

section \<open>Data\<close>

definition users :: "(string \<times> string) list" where
  "users = [(''alice'', ''password123''), (''bob'', ''hunter2'')]"

record Event =
  e_time :: string
  e_type :: string
  e_user :: string
  e_session :: string
  e_detail :: string

definition MAX_EVENTS :: nat where
  "MAX_EVENTS = 100"

record app_state =
  event_log :: "Event list"
  event_count :: nat

definition initial_app :: app_state where
  "initial_app = \<lparr>event_log = replicate MAX_EVENTS
     \<lparr>e_time = [], e_type = [], e_user = [], e_session = [], e_detail = []\<rparr>, event_count = 0\<rparr>"

fun find_user :: "(string \<times> string) list \<Rightarrow> string \<Rightarrow> string \<Rightarrow> int" where
  "find_user [] username password = 0"
| "find_user ((u, p) # us) username password =
     (if u = username \<and> p = password then 1 else find_user us username password)"

definition validate_login :: "string option \<Rightarrow> string option \<Rightarrow> int" where
  "validate_login username password =
     (case (username, password) of
        (Some u, Some p) \<Rightarrow> find_user users u p
      | _ \<Rightarrow> 0)"

section \<open>The event log\<close>

text \<open>
  \<^verbatim>\<open>localtime_r\<close> and \<^verbatim>\<open>strftime\<close> with \<^verbatim>\<open>%H:%M:%S\<close>; the offset of the local time zone at a time is the
  environment's.
\<close>

definition local_hms :: "(int \<Rightarrow> int) \<Rightarrow> int \<Rightarrow> string" where
  "local_hms tz t =
     (let s = (t + tz t) mod 86400
      in two_digits (s div 3600) @ '':'' @ two_digits (s mod 3600 div 60) @ '':'' @ two_digits (s mod 60))"

text \<open>\<^verbatim>\<open>strncpy\<close> into a field of \<open>n\<close> bytes whose last byte is then set to NUL.\<close>

definition copy_field :: "nat \<Rightarrow> string option \<Rightarrow> string" where
  "copy_field n s = take (n - 1) (str_of s)"

definition add_event :: "(int \<Rightarrow> int) \<Rightarrow> string option \<Rightarrow> string option \<Rightarrow> string option \<Rightarrow> string option \<Rightarrow>
    app_state \<Rightarrow> ('a world_scheme, app_state) state" where
  "add_event tz type user session_id detail app = do {
     now \<leftarrow> time_now;
     let e = \<lparr>e_time = take 15 (local_hms tz now), e_type = copy_field 32 type, e_user = copy_field 64 user,
              e_session = copy_field 64 session_id, e_detail = copy_field 256 detail\<rparr>;
     ret (app\<lparr>event_log := (event_log app)[event_count app mod MAX_EVENTS := e],
              event_count := (if event_count app < MAX_EVENTS then event_count app + 1 else event_count app)\<rparr>) }"

fun deliver :: "(int \<Rightarrow> int) \<Rightarrow> event list \<Rightarrow> app_state \<Rightarrow> ('a world_scheme, app_state) state" where
  "deliver tz [] app = ret app"
| "deliver tz (e # es) app = do {
     app \<leftarrow> add_event tz (Some (ev_type e)) (ev_user e) (ev_session e) (ev_detail e) app;
     deliver tz es app }"

section \<open>Forms\<close>

lemma form_rest_length: "(if b then dropWhile P q else q) = c # r \<Longrightarrow> length r < length q"
  by (cases b) (auto dest: dropWhile_Cons_length)

text \<open>The scan over the rest \<open>p\<close> of a body for the value of a name, as it stands, without URL decoding.\<close>

function form_scan :: "string \<Rightarrow> string \<Rightarrow> string option" where
  "form_scan name p =
     (if p = [] then None
      else let key = takeWhile (\<lambda>c. c \<noteq> CHR ''='' \<and> c \<noteq> CHR ''&'') p;
               q = dropWhile (\<lambda>c. c \<noteq> CHR ''='' \<and> c \<noteq> CHR ''&'') p
           in if q \<noteq> [] \<and> hd q = CHR ''='' \<and> key = name
              then Some (takeWhile (\<lambda>c. c \<noteq> CHR ''&'') (tl q))
              else (case (if q \<noteq> [] \<and> hd q = CHR ''='' then dropWhile (\<lambda>c. c \<noteq> CHR ''&'') q else q) of
                      [] \<Rightarrow> None
                    | _ # r \<Rightarrow> form_scan name r))"
  by pat_completeness auto

termination
proof (relation "measure (\<lambda>(name, p). length p)")
  fix name p q r :: string and key :: string and c :: char
  assume q: "q = dropWhile (\<lambda>c. c \<noteq> CHR ''='' \<and> c \<noteq> CHR ''&'') p"
    and "(if q \<noteq> [] \<and> hd q = CHR ''='' then dropWhile (\<lambda>c. c \<noteq> CHR ''&'') q else q) = c # r"
  from this(2) have "length r < length q" by (rule form_rest_length)
  also have "\<dots> \<le> length p" unfolding q by (rule length_dropWhile_le)
  finally show "((name, r), name, p) \<in> measure (\<lambda>(name, p). length p)" by simp
qed simp

declare form_scan.simps [simp del]

definition get_form_value :: "string option \<Rightarrow> string \<Rightarrow> ('a world_scheme, string option) state" where
  "get_form_value body name =
     (case body of None \<Rightarrow> ret None
      | Some b \<Rightarrow> (case form_scan name b of None \<Rightarrow> ret None | Some v \<Rightarrow> malloc_str v))"

section \<open>Routes\<close>

text \<open>\<^verbatim>\<open>{"key":"text"}\<close>\<close>

definition json_pair :: "string \<Rightarrow> string \<Rightarrow> string" where
  "json_pair key v = CHR ''{'' # quoted key @ '':'' @ quoted v @ ''}''"

text \<open>The answer to a login the manager has served.\<close>

definition login_body :: "int \<Rightarrow> OpenDBSC_Session option \<Rightarrow> OpenDBSC_ManagerResponse \<Rightarrow> app_state \<Rightarrow>
    ('a world_scheme, (int \<times> OpenDBSC_ManagerResponse) \<times> app_state) state" where
  "login_body rc session resp app =
     (if rc \<noteq> 0 then do {
        text \<leftarrow> strdup (json_pair ''error'' ''failed to initiate session'');
        ret ((0, resp\<lparr>rs_status := 500, rs_body := text\<rparr>), app) }
      else do {
        sid \<leftarrow> str_arg (case session of None \<Rightarrow> None | Some s \<Rightarrow> s_id s);
        text \<leftarrow> strdup (take 511 (CHR ''{'' # quoted ''message'' @ '':'' @ quoted ''login successful'' @ '','' @
            quoted ''session_id'' @ '':'' @ quoted sid @ ''}''));
        ret ((0, resp\<lparr>rs_body := text\<rparr>), app) })"

definition admit_login :: "('j, 'b, 'k) externals \<Rightarrow> (int \<Rightarrow> int) \<Rightarrow> string option \<Rightarrow> 's OpenDBSC_Manager \<Rightarrow>
    OpenDBSC_ManagerResponse \<Rightarrow> app_state \<Rightarrow> ('s sys, (int \<times> OpenDBSC_ManagerResponse) \<times> app_state) state" where
  "admit_login E tz username mgr resp app = do {
     before \<leftarrow> State (\<lambda>w. (events w, w));
     (rc, session, resp) \<leftarrow> opendbsc_manager_initiate E (Some mgr) username
        (opendbsc_session_init (Some session_defaults)) resp;
     after \<leftarrow> State (\<lambda>w. (events w, w));
     app \<leftarrow> deliver tz (drop (length before) after) app;
     login_body rc session resp app }"

definition route_login :: "('j, 'b, 'k) externals \<Rightarrow> (int \<Rightarrow> int) \<Rightarrow> string option \<Rightarrow> 's OpenDBSC_Manager \<Rightarrow>
    OpenDBSC_ManagerResponse \<Rightarrow> app_state \<Rightarrow> ('s sys, (int \<times> OpenDBSC_ManagerResponse) \<times> app_state) state" where
  "route_login E tz body mgr resp app = do {
     username \<leftarrow> get_form_value body ''username'';
     password \<leftarrow> get_form_value body ''password'';
     if username = None \<or> password = None \<or> validate_login username password = 0 then do {
       app \<leftarrow> add_event tz (Some ''LOGIN_FAIL'') (Some (str_of username)) (Some []) (Some ''invalid credentials'') app;
       text \<leftarrow> strdup (json_pair ''error'' ''invalid credentials'');
       ret ((0, resp\<lparr>rs_status := 401, rs_body := text\<rparr>), app) }
     else admit_login E tz username mgr resp app }"

definition event_json :: "Event \<Rightarrow> string" where
  "event_json e = CHR ''{'' # quoted ''time'' @ '':'' @ quoted (e_time e) @ '','' @ quoted ''type'' @ '':'' @
     quoted (e_type e) @ '','' @ quoted ''user'' @ '':'' @ quoted (e_user e) @ '','' @ quoted ''session'' @ '':'' @
     quoted (e_session e) @ '','' @ quoted ''detail'' @ '':'' @ quoted (e_detail e) @ ''}''"

fun events_size :: "Event list \<Rightarrow> nat \<Rightarrow> nat" where
  "events_size [] size' = size'"
| "events_size (e # es) size' = events_size es (size' + (length (e_time e) + length (e_type e) +
     length (e_user e) + length (e_session e) + length (e_detail e) + 128))"

fun events_fill :: "nat \<Rightarrow> nat \<Rightarrow> Event list \<Rightarrow> string \<Rightarrow> ('a world_scheme, string) state" where
  "events_fill cap i [] w = ret w"
| "events_fill cap i (e # es) w = do {
     w \<leftarrow> buf_append_if cap (i > 0) w '','';
     w \<leftarrow> buf_append cap w (event_json e);
     events_fill cap (i + 1) es w }"

definition route_events :: "OpenDBSC_ManagerResponse \<Rightarrow> app_state \<Rightarrow>
    ('a world_scheme, (int \<times> OpenDBSC_ManagerResponse) \<times> app_state) state" where
  "route_events resp app = do {
     let count = (if event_count app < MAX_EVENTS then event_count app else MAX_EVENTS);
     let total' = event_count app;
     let shown = take count (event_log app);
     let size' = events_size shown 128;
     ok \<leftarrow> alloc;
     if \<not> ok then do {
       text \<leftarrow> strdup (json_pair ''error'' ''out of memory'');
       ret ((0, resp\<lparr>rs_status := 500, rs_body := text\<rparr>), app) }
     else do {
       w \<leftarrow> buf_append size' [] (CHR ''{'' # quoted ''total'' @ '':'' @ print_nat total' @ '','' @
              quoted ''events'' @ '':['');
       w \<leftarrow> events_fill size' 0 shown w;
       w \<leftarrow> buf_append size' w '']}'';
       ret ((0, resp\<lparr>rs_status := 200, rs_body := Some w\<rparr>), app) } }"

definition route_status :: "OpenDBSC_ManagerResponse \<Rightarrow> app_state \<Rightarrow>
    ('a world_scheme, (int \<times> OpenDBSC_ManagerResponse) \<times> app_state) state" where
  "route_status resp app = do {
     text \<leftarrow> strdup (CHR ''{'' # quoted ''service'' @ '':'' @ quoted ''opendbsc'' @ '','' @ quoted ''mode'' @ '':'' @
        quoted ''mongoose'' @ '','' @ quoted ''status'' @ '':'' @ quoted ''running'' @ ''}'');
     ret ((0, resp\<lparr>rs_status := 200, rs_body := text\<rparr>), app) }"

definition app_route :: "('j, 'b, 'k) externals \<Rightarrow> (int \<Rightarrow> int) \<Rightarrow> ('s, app_state) OpenDBSC_HTTPRoute" where
  "app_route E tz method uri body body_len mgr resp app =
     (if method = ''POST'' \<and> uri = ''/login'' then route_login E tz body mgr resp app
      else if method = ''GET'' \<and> uri = ''/api/events'' then route_events resp app
      else if method = ''GET'' \<and> uri = ''/api/status'' then route_status resp app
      else ret ((-1, resp), app))"

section \<open>Start\<close>

text \<open>
  The store a command line asks for; \<open>have_odbc\<close> says whether the program was built with ODBC, \<open>env\<close> is
  the value of \<^verbatim>\<open>DBSC_ODBC_CONN\<close>.
\<close>

datatype store_choice = Memory_Store | Sqlite_Store string | Redis_Store | Odbc_Store string | No_Store

definition create_store :: "bool \<Rightarrow> string option \<Rightarrow> string option \<Rightarrow> string option \<Rightarrow> store_choice" where
  "create_store have_odbc env type odbc_conn =
     (case type of None \<Rightarrow> Memory_Store
      | Some t \<Rightarrow>
          if t = ''memory'' then Memory_Store
          else if t = ''sqlite'' then Sqlite_Store ''dbsc_sessions.db''
          else if t = ''redis'' then Redis_Store
          else if t = ''odbc'' then
            (if have_odbc then
               (case (if odbc_conn = None then env else odbc_conn) of
                  None \<Rightarrow> No_Store | Some c \<Rightarrow> Odbc_Store c)
             else No_Store)
          else No_Store)"

definition example_config :: "'s OpenDBSC_Store \<Rightarrow> 's OpenDBSC_ManagerConfig" where
  "example_config st = \<lparr>cfg_store = Some st, cfg_cookie_name = Some ''session_id'', cfg_cookie_path = Some ''/'',
     cfg_cookie_domain = None, cfg_secure = 1, cfg_same_site = Some ''None'', cfg_cookie_ttl = 600,
     cfg_session_ttl = 0, cfg_authorization = None, cfg_on_event = True\<rparr>"

definition example_server_config :: "('j, 'b, 'k) externals \<Rightarrow> (int \<Rightarrow> int) \<Rightarrow> 's OpenDBSC_Manager \<Rightarrow>
    ('s, app_state) OpenDBSC_HTTPServerConfig" where
  "example_server_config E tz mgr = \<lparr>hc_manager = Some mgr, hc_listen_addr = Some ''https://0.0.0.0:8447'',
     hc_cert_path = Some ''cert/cert.pem'', hc_key_path = Some ''cert/key.pem'',
     hc_static_root = Some ''examples/static'', hc_route = Some (app_route E tz)\<rparr>"

definition signal_handler :: "('s, 'a) OpenDBSC_HTTPServer option \<Rightarrow> ('s, 'a) OpenDBSC_HTTPServer option" where
  "signal_handler g_server = opendbsc_http_server_request_stop g_server"

end
