(* ===== verification/Http_Machine.thy ===== *)
theory Http_Machine
  imports Http_Wrapper Manager_Machine
begin

text \<open>
  The HTTP wrapper over the manager with the in-memory store: every message is answered as its
  specification \<open>http_step\<close> says, and every sequence of events is a run of the manager, so what
  holds of every run of the manager holds of every served sequence of messages.
\<close>

section \<open>Endpoints as requests to the manager\<close>

text \<open>What a stored session needs for the endpoints: a challenge and a user.\<close>

definition complete_sessions :: "msys \<Rightarrow> bool" where
  "complete_sessions w \<longleftrightarrow>
     (\<forall>i s. mem_view (impl w) i = Some s \<longrightarrow> s_challenge s \<noteq> None \<and> s_user_id s \<noteq> None)"

lemma complete_challenged: "complete_sessions w \<Longrightarrow> challenged w"
  by (auto simp: complete_sessions_def challenged_def)

lemma ledger_ok_complete: "ledger_ok mg w0 w (ledger_of w) \<Longrightarrow> complete_sessions w"
  by (fastforce simp: complete_sessions_def session_ok_def)

text \<open>A state the server is in between two events.\<close>

definition serving :: "msys \<Rightarrow> bool" where
  "serving w \<longleftrightarrow> mem_wf (impl w) \<and> complete_sessions w \<and> \<not> starved w"

lemma serving_frame: "serving w \<Longrightarrow> frame w w' \<Longrightarrow> serving w'"
  using frame_impl [of w w'] by (simp add: serving_def complete_sessions_def frame_starved)

lemma serving_events: "serving w \<Longrightarrow> serving (w\<lparr>events := evs\<rparr>)"
  by (simp add: serving_def complete_sessions_def starved_def)

lemma wp_available:
  assumes "attempts m r bad" and "\<not> starved w" and "\<And>w'. frame w w' \<Longrightarrow> Q r w'"
  shows "wp m Q w"
  by (rule wp_attempts [OF assms(1)]) (use assms(2,3) in auto)

text \<open>The manager clears the response it is given.\<close>

lemma register_any_response:
  "opendbsc_manager_register E (Some mg) ck hdr resp = opendbsc_manager_register E (Some mg) ck hdr empty_response"
  and refresh_any_response:
  "opendbsc_manager_refresh E (Some mg) ck hdr resp = opendbsc_manager_refresh E (Some mg) ck hdr empty_response"
  by (simp_all add: opendbsc_manager_register_def opendbsc_manager_refresh_def opendbsc_manager_response_init_def)

definition session_id_of :: "memory_manager \<Rightarrow> mg_http_message \<Rightarrow> string option" where
  "session_id_of mg hm = (case header_text hm ''Sec-Secure-Session-Id'' of
      None \<Rightarrow> cookie_of hm (cfg_cookie_name (mgr_cfg mg)) | Some i \<Rightarrow> Some i)"

text \<open>
  \<open>calls E mg c w r w'\<close>: between computations that touch neither the sessions nor the log, the
  manager serves the request \<open>c\<close> with the response \<open>r\<close>.
\<close>

definition calls :: "('j, 'b, 'k) externals \<Rightarrow> memory_manager \<Rightarrow> mgr_call \<Rightarrow> msys \<Rightarrow>
    OpenDBSC_ManagerResponse \<Rightarrow> msys \<Rightarrow> bool" where
  "calls E mg c w r w' \<longleftrightarrow>
     (\<exists>u v rc. frame w u \<and> run_state (mgr_call_run E mg c) u = ((rc, r), v) \<and> frame v w')"

lemma calls_runs: "calls E mg c w r w' \<Longrightarrow> mgr_runs E mg w w'"
  unfolding calls_def
  by (elim exE conjE) (erule (1) mgr_runs.quiet [OF mgr_runs.call [OF mgr_runs.quiet [OF mgr_runs.refl]]])

lemma call_kept:
  assumes mg: "memory_manager mg" and w: "serving w" and run: "run_state (mgr_call_run E mg c) w = ((rc, r), w')"
    and c: "\<And>user out. c \<noteq> Login user out"
  shows "kept w w'"
proof -
  from w have s: "mem_wf (impl w)" "challenged w" by (auto simp: serving_def complete_challenged)
  show ?thesis
  proof (cases c)
    case (Register ck hdr)
    with run show ?thesis by (auto dest: mem_register_run [OF s(1) mg s(2)])
  next
    case (Refresh ck hdr)
    with run show ?thesis by (auto dest: mem_refresh_run [OF s(1) mg s(2)])
  next
    case (Close ck)
    with run show ?thesis by (auto dest: mem_close_run [OF s(1) mg])
  next
    case (Fetch ck)
    with run show ?thesis by (auto simp: run_state_bind dest!: mem_fetch_run [OF s(1) mg] split: prod.splits)
  qed (use c in simp)
qed

lemma wp_send:
  assumes "\<not> starved v" and "\<And>w'. frame v w' \<Longrightarrow> Q (reply_of r) w'"
  shows "wp (send_response r) Q v"
  using assms by (intro wp_available [OF attempts_send_response]) auto

lemma kept_around: "frame w u \<Longrightarrow> mem_wf (impl w) \<Longrightarrow> kept u v \<Longrightarrow> frame v w' \<Longrightarrow> kept w w'"
  using mem_kept_frame [of w u] mem_kept_frame [of v w'] by (simp add: kept_def)

text \<open>A request to the manager, answered with its response.\<close>

lemma wp_call_send:
  assumes mg: "memory_manager mg" and w: "serving w" and u: "frame w u" and c: "\<And>user out. c \<noteq> Login user out"
    and M: "M = mgr_call_run E mg c"
    and Q: "\<And>r w'. calls E mg c w r w' \<Longrightarrow> kept w w' \<Longrightarrow> Q (reply_of r) w'"
  shows "wp (M \<bind> (\<lambda>(rc, resp). send_response resp)) Q u"
proof -
  obtain rc r v where run: "run_state M u = ((rc, r), v)" by (metis prod.exhaust)
  have k: "kept u v" using call_kept [OF mg serving_frame [OF w u] _ c] run M by blast
  have "wp (send_response r) Q v"
  proof (rule wp_send)
    show "\<not> starved v" using mem_kept_starved [OF k] frame_starved [OF u] w by (simp add: serving_def)
    fix w' assume f: "frame v w'"
    have "calls E mg c w r w'" using run M u f by (auto simp: calls_def)
    moreover have "kept w w'" using kept_around [OF u _ k f] w by (simp add: serving_def)
    ultimately show "Q (reply_of r) w'" by (rule Q)
  qed
  with run show ?thesis by (simp add: wp_def run_state_bind)
qed

lemma wp_handle_register:
  assumes mg: "memory_manager mg" and w: "serving w" and u: "frame w u"
    and Q: "\<And>r w'. calls E mg (Register (cookie_of hm (cfg_cookie_name (mgr_cfg mg)))
          (header_text hm ''Secure-Session-Response'')) w r w' \<Longrightarrow> kept w w' \<Longrightarrow> Q (reply_of r) w'"
  shows "wp (handle_register E mg hm resp) Q u"
proof -
  have st: "\<not> starved v" if "frame w v" for v using w that by (simp add: serving_def frame_starved)
  show ?thesis
    unfolding handle_register_def
    apply (rule wp_bindI, rule wp_available [OF attempts_get_cookie st [OF u]])
    apply (rule wp_bindI, rule wp_available [OF attempts_unquoted_header st [OF frame_trans [OF u]]], assumption)
    apply (rule wp_call_send [OF mg w, where c = "Register (cookie_of hm (cfg_cookie_name (mgr_cfg mg)))
        (header_text hm ''Secure-Session-Response'')"])
    apply (rule frame_trans [OF frame_trans [OF u]], assumption, assumption)
    apply (simp_all add: register_any_response [of E mg _ _ resp])
    apply (rule Q, assumption+)
    done
qed

lemma wp_handle_refresh:
  assumes mg: "memory_manager mg" and w: "serving w" and u: "frame w u"
    and Q: "\<And>r w'. calls E mg (Refresh (session_id_of mg hm)
          (header_text hm ''Secure-Session-Response'')) w r w' \<Longrightarrow> kept w w' \<Longrightarrow> Q (reply_of r) w'"
  shows "wp (handle_refresh E mg hm resp) Q u"
proof -
  have st: "\<not> starved v" if "frame w v" for v using w that by (simp add: serving_def frame_starved)
  have id: "wp (if header_text hm ''Sec-Secure-Session-Id'' = None
        then opendbsc_http_get_cookie hm (cfg_cookie_name (mgr_cfg mg))
        else ret (header_text hm ''Sec-Secure-Session-Id'')) P v"
    if "\<And>v'. frame w v' \<Longrightarrow> P (session_id_of mg hm) v'" and "frame w v" for P v
  proof (cases "header_text hm ''Sec-Secure-Session-Id''")
    case None
    then have "session_id_of mg hm = cookie_of hm (cfg_cookie_name (mgr_cfg mg))" by (simp add: session_id_of_def)
    then show ?thesis
      using that None by (simp, intro wp_available [OF attempts_get_cookie st]) (auto intro: frame_trans)
  next
    case (Some i)
    then show ?thesis using that by (simp add: session_id_of_def wp_return)
  qed
  show ?thesis
    unfolding handle_refresh_def
    apply (rule wp_bindI, rule wp_available [OF attempts_unquoted_header st [OF u]])
    apply (rule wp_bindI, rule id)
    apply (rule wp_bindI, rule wp_available [OF attempts_unquoted_header st], assumption)
    apply (rule wp_call_send [OF mg w, where c = "Refresh (session_id_of mg hm)
        (header_text hm ''Secure-Session-Response'')"])
    apply (rule frame_trans, assumption, assumption)
    apply (simp_all add: refresh_any_response [of E mg _ _ resp])
    apply (rule Q, assumption+)
    apply (rule frame_trans [OF u], assumption)
    done
qed

text \<open>The answer to \<^verbatim>\<open>GET /api/me\<close>: the session the cookie names is fetched, and its user reported.\<close>

definition me_body :: "OpenDBSC_Session option \<Rightarrow> int \<Rightarrow> string" where
  "me_body out now = (case out of
      Some s \<Rightarrow> take 511 (me_text (str_of (s_user_id s)) now)
    | None \<Rightarrow> CHR ''{'' # quoted ''error'' @ '':'' @ quoted ''unauthorized'' @ ''}'')"

definition answers_me :: "memory_manager \<Rightarrow> string option \<Rightarrow> OpenDBSC_ManagerResponse \<Rightarrow> msys \<Rightarrow>
    mg_action \<Rightarrow> msys \<Rightarrow> bool" where
  "answers_me mg ck resp w act w' \<longleftrightarrow>
     (\<exists>u v rc out now. frame w u \<and> run_state (opendbsc_manager_get_session (Some mg) ck) u = ((rc, out), v) \<and>
        frame v w' \<and> act = reply_of (resp\<lparr>rs_status := (if out = None then 401 else 200),
                                      rs_body := Some (me_body out now)\<rparr>))"

lemma get_session_NULL: "opendbsc_manager_get_session (Some mg) None = ret (-1, None)"
  by (simp add: opendbsc_manager_get_session_def)

lemma answers_me_runs: "answers_me mg ck resp w act w' \<Longrightarrow> mgr_runs E mg w w'"
proof -
  assume "answers_me mg ck resp w act w'"
  then obtain u v rc out where "frame w u" "frame v w'"
    and "run_state (opendbsc_manager_get_session (Some mg) ck) u = ((rc, out), v)"
    by (auto simp: answers_me_def)
  moreover from this(3) have "run_state (mgr_call_run E mg (Fetch ck)) u = ((rc, empty_response), v)"
    by (simp add: run_state_bind)
  ultimately show ?thesis
    by (blast intro: mgr_runs.quiet [OF mgr_runs.call [OF mgr_runs.quiet [OF mgr_runs.refl]]])
qed

text \<open>The part after the fetch.\<close>

definition me_answer :: "memory_manager \<Rightarrow> OpenDBSC_ManagerResponse \<Rightarrow> int \<times> OpenDBSC_Session option \<Rightarrow>
    (msys, mg_action) state" where
  "me_answer m resp = (\<lambda>(rc, session). do {
     resp \<leftarrow> (if rc = 0 then
        (case session of None \<Rightarrow> ub resp
         | Some s \<Rightarrow> do {
             user \<leftarrow> str_arg (s_user_id s);
             now \<leftarrow> time_now;
             let buf = take 511 (me_text user now);
             body \<leftarrow> strdup buf;
             _ \<leftarrow> with_store m () (\<lambda>st. st_free_sessions st [s]);
             ret (resp\<lparr>rs_status := 200, rs_body := body\<rparr>) })
      else do {
        body \<leftarrow> strdup (CHR ''{'' # quoted ''error'' @ '':'' @ quoted ''unauthorized'' @ ''}'');
        ret (resp\<lparr>rs_status := 401, rs_body := body\<rparr>) });
     send_response resp })"

lemma wp_me_answer:
  assumes mg: "memory_manager mg" and st: "\<not> starved v"
    and out: "rc = 0 \<and> (\<exists>s. out = Some s \<and> s_user_id s \<noteq> None) \<or> rc = -1 \<and> out = None"
    and Q: "\<And>now w'. frame v w' \<Longrightarrow> Q (reply_of (resp\<lparr>rs_status := (if out = None then 401 else 200),
              rs_body := Some (me_body out now)\<rparr>)) w'"
  shows "wp (me_answer mg resp (rc, out)) Q v"
proof -
  have st': "\<not> starved u" if "frame v u" for u using st frame_starved [OF that] by simp
  have store: "with_store mg () (\<lambda>st. st_free_sessions st [s]) = ret ()" for s
    using mg by (simp add: manages_def with_store_def memory_store_vtable_def
        opendbsc_memory_store_free_sessions_impl_def)
  from out show ?thesis
  proof (elim disjE conjE exE)
    fix s assume a: "rc = 0" "out = Some s" "s_user_id s \<noteq> None"
    then obtain user where user: "s_user_id s = Some user" by auto
    let ?v = "v\<lparr>clock_reads := Suc (clock_reads v)\<rparr>"
    have tick: "frame v ?v" by simp
    show ?thesis
      unfolding me_answer_def prod.case a(1,2) option.case user str_arg_Some store Let_def
      apply (simp add: wps)
      apply (rule wp_available [OF attempts_malloc_str], use st' [OF tick] in simp)
      apply (rule wp_send [OF st' [OF frame_trans [OF tick]]], assumption)
      using Q [OF frame_trans [OF tick frame_trans], of _ _ "wall_clock v (clock_reads v)"] a(2) user
      apply (simp add: me_body_def)
      done
  next
    assume a: "rc = -1" "out = None"
    show ?thesis
      unfolding me_answer_def prod.case a
      apply (simp add: wps)
      apply (rule wp_available [OF attempts_malloc_str st])
      apply (rule wp_send [OF st'], assumption)
      using Q [OF frame_trans] a(2) apply (simp add: me_body_def)
      done
  qed
qed

lemma wp_handle_me:
  assumes mg: "memory_manager mg" and w: "serving w" and u: "frame w u"
    and Q: "\<And>act w'. answers_me mg (cookie_of hm (cfg_cookie_name (mgr_cfg mg))) resp w act w' \<Longrightarrow>
          kept w w' \<Longrightarrow> Q act w'"
  shows "wp (handle_me mg hm resp) Q u"
proof -
  let ?ck = "cookie_of hm (cfg_cookie_name (mgr_cfg mg))"
  have st: "\<not> starved u" using w u by (simp add: serving_def frame_starved)
  have fold: "handle_me mg hm resp = do {
     cookie \<leftarrow> opendbsc_http_get_cookie hm (cfg_cookie_name (mgr_cfg mg));
     x \<leftarrow> opendbsc_manager_get_session (Some mg) cookie;
     me_answer mg resp x }"
    unfolding handle_me_def me_answer_def
    by (intro arg_cong [where f = "State_Monad.bind (opendbsc_http_get_cookie hm (cfg_cookie_name (mgr_cfg mg)))"] ext)
       (auto simp: get_session_NULL case_prod_beta')
  show ?thesis
    unfolding fold
  proof (rule wp_bindI, rule wp_available [OF attempts_get_cookie st], rule wp_bindI)
    fix u' assume u': "frame u u'"
    note wu = frame_trans [OF u u']
    note sv = serving_frame [OF w wu]
    then have wf: "mem_wf (impl u')" by (simp add: serving_def)
    obtain rc out v where run: "run_state (opendbsc_manager_get_session (Some mg) ?ck) u' = ((rc, out), v)"
      by (metis prod.exhaust)
    from mem_fetch_run [OF wf mg run] have k: "kept u' v"
      and f: "fetch_step False u' v ?ck (ledger_of u') rc out (ledger_of v)" by auto
    have out: "rc = 0 \<and> (\<exists>s. out = Some s \<and> s_user_id s \<noteq> None) \<or> rc = -1 \<and> out = None"
      using f sv by cases (auto simp: serving_def complete_sessions_def)
    have "wp (me_answer mg resp (rc, out)) Q v"
    proof (rule wp_me_answer [OF mg _ out])
      show "\<not> starved v" using mem_kept_starved [OF k] sv by (simp add: serving_def)
      fix now w' assume vw: "frame v w'"
      have "answers_me mg ?ck resp w (reply_of (resp\<lparr>rs_status := (if out = None then 401 else 200),
              rs_body := Some (me_body out now)\<rparr>)) w'"
        unfolding answers_me_def using wu run vw by blast
      moreover have "kept w w'" using kept_around [OF wu _ k vw] w by (simp add: serving_def)
      ultimately show "Q (reply_of (resp\<lparr>rs_status := (if out = None then 401 else 200),
              rs_body := Some (me_body out now)\<rparr>)) w'" by (rule Q)
    qed
    with run show "wp (opendbsc_manager_get_session (Some mg) ?ck) (\<lambda>x. wp (me_answer mg resp x) Q) u'"
      by (simp add: wp_def)
  qed
qed

section \<open>Messages\<close>

text \<open>
  What the wrapper's endpoints do with a message whose method and path are \<open>mt\<close> and \<open>uri\<close>.
\<close>

inductive endpoint_step :: "('j, 'b, 'k) externals \<Rightarrow> memory_manager \<Rightarrow> string option \<Rightarrow> mg_http_message \<Rightarrow>
    OpenDBSC_ManagerResponse \<Rightarrow> string \<Rightarrow> string \<Rightarrow> msys \<Rightarrow> mg_action \<Rightarrow> msys \<Rightarrow> bool"
  for E mg root hm resp where
  register: "calls E mg (Register (cookie_of hm (cfg_cookie_name (mgr_cfg mg)))
      (header_text hm ''Secure-Session-Response'')) w r w' \<Longrightarrow>
    endpoint_step E mg root hm resp ''POST'' ''/dbsc/register'' w (reply_of r) w'"
| refresh: "calls E mg (Refresh (session_id_of mg hm) (header_text hm ''Secure-Session-Response'')) w r w' \<Longrightarrow>
    endpoint_step E mg root hm resp ''POST'' ''/dbsc/refresh'' w (reply_of r) w'"
| me: "answers_me mg (cookie_of hm (cfg_cookie_name (mgr_cfg mg))) resp w act w' \<Longrightarrow>
    endpoint_step E mg root hm resp ''GET'' ''/api/me'' w act w'"
| other: "(mt, uri) \<notin> {(''POST'', ''/dbsc/register''), (''POST'', ''/dbsc/refresh''), (''GET'', ''/api/me'')} \<Longrightarrow>
    frame w w' \<Longrightarrow>
    act = (case root of Some dir \<Rightarrow> mg_http_serve_dir dir
           | None \<Rightarrow> mg_http_reply 404 (''Content-Type: text/plain'' @ crlf) ''Not Found'') \<Longrightarrow>
    endpoint_step E mg root hm resp mt uri w act w'"

lemma endpoint_runs: "endpoint_step E mg root hm resp mt uri w act w' \<Longrightarrow> mgr_runs E mg w w'"
  by (induction rule: endpoint_step.induct)
     (auto intro: calls_runs answers_me_runs mgr_runs.quiet [OF mgr_runs.refl])

lemma wp_default_endpoints:
  assumes mg: "memory_manager mg" and w: "serving w" and u: "frame w u"
    and Q: "\<And>act w'. endpoint_step E mg root hm resp mt uri w act w' \<Longrightarrow> kept w w' \<Longrightarrow> Q act w'"
  shows "wp (default_endpoints E mg root hm mt uri resp) Q u"
proof -
  have wf: "mem_wf (impl w)" using w by (simp add: serving_def)
  consider (register) "mt = ''POST''" "uri = ''/dbsc/register''"
    | (refresh) "mt = ''POST''" "uri = ''/dbsc/refresh''"
    | (me) "mt = ''GET''" "uri = ''/api/me''"
    | (other) "(mt, uri) \<notin> {(''POST'', ''/dbsc/register''), (''POST'', ''/dbsc/refresh''), (''GET'', ''/api/me'')}"
    by auto
  then show ?thesis
  proof cases
    case register
    show ?thesis unfolding default_endpoints_def
      using register by (simp, intro wp_handle_register [OF mg w u] Q) (auto intro: endpoint_step.register)
  next
    case refresh
    show ?thesis unfolding default_endpoints_def
      using refresh by (simp, intro wp_handle_refresh [OF mg w u] Q) (auto intro: endpoint_step.refresh)
  next
    case me
    show ?thesis unfolding default_endpoints_def
      using me by (simp, intro wp_handle_me [OF mg w u] Q) (auto intro: endpoint_step.me)
  next
    case other
    have "kept w u" using mem_kept_frame [OF u wf] by simp
    then have "Q (case root of Some dir \<Rightarrow> mg_http_serve_dir dir
        | None \<Rightarrow> mg_http_reply 404 (''Content-Type: text/plain'' @ crlf) ''Not Found'') u"
      by (intro Q endpoint_step.other other u HOL.refl)
    then show ?thesis
      using other by (auto simp: default_endpoints_def wp_return split: option.split)
  qed
qed

text \<open>The report of the skipped sessions a message names.\<close>

definition skipped_event :: "OpenDBSC_SkippedEntry \<Rightarrow> event" where
  "skipped_event e = \<lparr>ev_type = ''SESSION_SKIPPED'', ev_user = None,
     ev_session = sk_session_id e, ev_detail = sk_reason e\<rparr>"

text \<open>The sessions the header of a message names: none when there is no header or it cannot be read.\<close>

definition skipped_of :: "mg_http_message \<Rightarrow> OpenDBSC_SkippedEntry list" where
  "skipped_of hm = (case text_of (mg_http_get_header hm ''Secure-Session-Skipped'') of None \<Rightarrow> []
     | Some h \<Rightarrow> (case skipped_read h of None \<Rightarrow> [] | Some es \<Rightarrow> es))"

definition reported :: "memory_manager \<Rightarrow> mg_http_message \<Rightarrow> msys \<Rightarrow> msys \<Rightarrow> bool" where
  "reported mg hm w u \<longleftrightarrow> (\<exists>v. frame w v \<and>
     u = v\<lparr>events := events v @ (if cfg_on_event (mgr_cfg mg) then map skipped_event (skipped_of hm) else [])\<rparr>)"

lemma run_report_skipped:
  "run_state (report_skipped m es) w =
     ((), w\<lparr>events := events w @ (if cfg_on_event (mgr_cfg m) then map skipped_event es else [])\<rparr>)"
  by (induction es arbitrary: w) (simp_all add: skipped_event_def run_state_bind)

lemma reported_none: "frame w u \<Longrightarrow> skipped_of hm = [] \<Longrightarrow> reported mg hm w u"
  unfolding reported_def by (intro exI [of _ u]) simp

lemma wp_handle_skipped:
  assumes st: "\<not> starved w" and Q: "\<And>u. reported mg hm w u \<Longrightarrow> Q () u"
  shows "wp (handle_session_skipped mg hm) Q w"
  unfolding handle_session_skipped_def
proof (rule wp_bindI, rule wp_available [OF attempts_str_dup st])
  fix v assume v: "frame w v"
  let ?h = "text_of (mg_http_get_header hm ''Secure-Session-Skipped'')"
  show "wp (if ?h = None then ret () else do {
       (rc, entries) \<leftarrow> opendbsc_parse_session_skipped ?h;
       if rc \<noteq> 0 then ret () else report_skipped mg entries }) Q v"
  proof (cases ?h)
    case None
    then show ?thesis using Q [OF reported_none [OF v]] by (simp add: wp_return skipped_of_def)
  next
    case (Some h)
    have st': "\<not> starved v" using st frame_starved [OF v] by simp
    show ?thesis
      unfolding Some option.distinct(2) [THEN eq_False [THEN iffD2]] if_False
    proof (rule wp_bindI, rule wp_available [OF attempts_read_skipped st'])
      fix u assume "frame v u"
      with v have u: "frame w u" by (rule frame_trans)
      show "wp (case case skipped_read h of None \<Rightarrow> (-1, []) | Some es \<Rightarrow> (0, es) of
          (rc, entries) \<Rightarrow> if rc \<noteq> 0 then ret () else report_skipped mg entries) Q u"
      proof (cases "skipped_read h")
        case None
        then show ?thesis using Q [OF reported_none [OF u]] Some by (simp add: wp_return skipped_of_def)
      next
        case (Some es)
        with \<open>?h = Some h\<close> have "skipped_of hm = es" by (simp add: skipped_of_def)
        with u have "reported mg hm w (u\<lparr>events := events u @ (if cfg_on_event (mgr_cfg mg) then map skipped_event es else [])\<rparr>)"
          by (auto simp: reported_def)
        with Some show ?thesis by (simp add: Q wp_def run_report_skipped del: if_split)
      qed
    qed
  qed
qed

lemma notices_run:
  "(\<forall>e \<in> set es. ev_type e = ''SESSION_SKIPPED'') \<Longrightarrow> mgr_runs E mg w v \<Longrightarrow>
   mgr_runs E mg w (v\<lparr>events := events v @ es\<rparr>)"
proof (induction es arbitrary: v)
  case (Cons e es)
  then have "mgr_runs E mg w (v\<lparr>events := events v @ [e]\<rparr>)" by (simp add: mgr_runs.notice)
  from Cons.IH [OF _ this] Cons.prems(1) show ?case by simp
qed simp

lemma reported_runs: "reported mg hm w u \<Longrightarrow> mgr_runs E mg w u"
  unfolding reported_def
  by (elim exE conjE, simp only:, rule notices_run [OF _ mgr_runs.quiet [OF mgr_runs.refl]])
     (auto simp: skipped_event_def)

lemma reported_serving:
  assumes "reported mg hm w u" and "serving w"
  shows "serving u \<and> kept w u \<and> mem_view (impl u) = mem_view (impl w)"
proof -
  from assms(1) obtain v evs where v: "frame w v" "u = v\<lparr>events := evs\<rparr>" by (auto simp: reported_def)
  from serving_frame [OF assms(2) v(1)] mem_kept_frame [OF v(1)] assms(2) v(2) show ?thesis
    by (simp add: serving_events kept_def) (simp add: serving_def)
qed

text \<open>A message from its arrival to its answer, for a server without application routes.\<close>

inductive http_step :: "('j, 'b, 'k) externals \<Rightarrow> memory_manager \<Rightarrow> string option \<Rightarrow> mg_http_message \<Rightarrow>
    msys \<Rightarrow> mg_action \<Rightarrow> msys \<Rightarrow> bool"
  for E mg root hm w where
  malformed: "text_of (Some (hm_uri hm)) = None \<or> text_of (Some (hm_method hm)) = None \<Longrightarrow>
    reported mg hm w u \<Longrightarrow> frame u w' \<Longrightarrow> http_step E mg root hm w server_error w'"
| served: "text_of (Some (hm_uri hm)) = Some uri \<Longrightarrow> text_of (Some (hm_method hm)) = Some mt \<Longrightarrow>
    reported mg hm w u \<Longrightarrow> endpoint_step E mg root hm empty_response mt uri u act w' \<Longrightarrow>
    http_step E mg root hm w act w'"

section \<open>Servers\<close>

text \<open>
  What the server relies on of the application's route: it leaves the paths of the protocol to the
  wrapper, and whatever else it does to the manager it does through the manager's operations. \<open>I\<close> is
  an invariant of the application's own state.
\<close>

definition protocol_paths :: "string set" where
  "protocol_paths = {''/dbsc/register'', ''/dbsc/refresh''}"

definition route_conforms :: "('j, 'b, 'k) externals \<Rightarrow> memory_manager \<Rightarrow>
    ('a \<Rightarrow> bool) \<Rightarrow> (OpenDBSC_MemoryStore, 'a) OpenDBSC_HTTPRoute \<Rightarrow> bool" where
  "route_conforms E mg I route \<longleftrightarrow>
     (\<forall>mt uri body n resp app w rc resp' app' w'. serving w \<longrightarrow> I app \<longrightarrow>
        run_state (route mt uri body n mg resp app) w = (((rc, resp'), app'), w') \<longrightarrow>
        mgr_runs E mg w w' \<and> kept w w' \<and> complete_sessions w' \<and> I app' \<and>
        (uri \<in> protocol_paths \<longrightarrow> rc \<noteq> 0))"

definition server_ok :: "('j, 'b, 'k) externals \<Rightarrow> ('a \<Rightarrow> bool) \<Rightarrow> (OpenDBSC_MemoryStore, 'a) OpenDBSC_HTTPServer \<Rightarrow> bool" where
  "server_ok E I srv \<longleftrightarrow> memory_manager (hs_manager srv) \<and>
     (\<forall>route. hs_route srv = Some route \<longrightarrow> route_conforms E (hs_manager srv) I route)"

text \<open>What one message does to the manager, and how it is answered when its path is the protocol's.\<close>

definition protocol_call :: "memory_manager \<Rightarrow> mg_http_message \<Rightarrow> mgr_call option" where
  "protocol_call mg hm =
     (if text_of (Some (hm_method hm)) = Some ''POST'' \<and> text_of (Some (hm_uri hm)) = Some ''/dbsc/register''
      then Some (Register (cookie_of hm (cfg_cookie_name (mgr_cfg mg))) (header_text hm ''Secure-Session-Response''))
      else if text_of (Some (hm_method hm)) = Some ''POST'' \<and> text_of (Some (hm_uri hm)) = Some ''/dbsc/refresh''
      then Some (Refresh (session_id_of mg hm) (header_text hm ''Secure-Session-Response''))
      else None)"

definition handled :: "('j, 'b, 'k) externals \<Rightarrow> memory_manager \<Rightarrow> mg_http_message \<Rightarrow> msys \<Rightarrow> mg_action \<Rightarrow> msys \<Rightarrow> bool" where
  "handled E mg hm w act w' \<longleftrightarrow> mgr_runs E mg w w' \<and> kept w w' \<and>
     (\<forall>c. protocol_call mg hm = Some c \<longrightarrow>
        (\<exists>u r. mgr_runs E mg w u \<and> calls E mg c u r w' \<and> act = reply_of r))"

lemma endpoint_protocol_call:
  assumes "endpoint_step E mg root hm resp mt uri w act w'"
    and "text_of (Some (hm_method hm)) = Some mt" and "text_of (Some (hm_uri hm)) = Some uri"
    and "protocol_call mg hm = Some c"
  shows "\<exists>r. calls E mg c w r w' \<and> act = reply_of r"
  using assms by cases (auto simp: protocol_call_def split: if_splits)

text \<open>A message after the skipped sessions were reported and its parts copied.\<close>

lemma wp_route_none:
  assumes mg: "memory_manager (hs_manager srv)" and none: "hs_route srv = None" and w: "serving w"
    and u: "reported (hs_manager srv) hm w u" and v: "frame u v"
    and t: "text_of (Some (hm_uri hm)) = Some uri" "text_of (Some (hm_method hm)) = Some mt"
    and Q: "\<And>act w'. handled E (hs_manager srv) hm w act w' \<Longrightarrow>
      http_step E (hs_manager srv) (hs_static_root srv) hm w act w' \<Longrightarrow> Q (act, app) w'"
  shows "wp (route_message E srv hm mt uri body app) Q v"
proof -
  let ?mg = "hs_manager srv"
  note su = reported_serving [OF u w]
  have "wp (default_endpoints E ?mg (hs_static_root srv) hm mt uri empty_response) (\<lambda>act w'. Q (act, app) w') v"
  proof (rule wp_default_endpoints [OF mg _ v])
    show "serving u" using su by blast
    fix act w'
    assume e: "endpoint_step E ?mg (hs_static_root srv) hm empty_response mt uri u act w'" and k: "kept u w'"
    have "handled E ?mg hm w act w'"
      unfolding handled_def
      using mgr_runs_trans [OF endpoint_runs [OF e] reported_runs [OF u]] kept_trans [OF _ k] su
        endpoint_protocol_call [OF e t(2,1)] reported_runs [OF u] by blast
    with http_step.served [OF t u e] show "Q (act, app) w'" by (blast intro: Q)
  qed
  with none show ?thesis
    by (simp add: route_message_def opendbsc_manager_response_init_def wps wp_return_fun)
qed

lemma handledI:
  "mgr_runs E mg w w' \<Longrightarrow> kept w w' \<Longrightarrow> protocol_call mg hm = None \<Longrightarrow> handled E mg hm w act w'"
  by (simp add: handled_def)

lemma wp_route_some:
  assumes mg: "memory_manager (hs_manager srv)" and some: "hs_route srv = Some route"
    and conf: "route_conforms E (hs_manager srv) I route" and app: "I app" and w: "serving w"
    and u: "reported (hs_manager srv) hm w u" and v: "frame u v"
    and t: "text_of (Some (hm_uri hm)) = Some uri" "text_of (Some (hm_method hm)) = Some mt"
    and Q: "\<And>act app' w'. handled E (hs_manager srv) hm w act w' \<Longrightarrow> I app' \<Longrightarrow> Q (act, app') w'"
  shows "wp (route_message E srv hm mt uri body app) Q v"
proof -
  let ?mg = "hs_manager srv"
  note su = reported_serving [OF u w]
  note sv = serving_frame [OF conjunct1 [OF su] v]
  obtain rc resp app1 v1 where run: "run_state (route mt uri body
      (length (str_of (hm_body hm))) ?mg empty_response app) v = (((rc, resp), app1), v1)"
    by (metis prod.exhaust)
  with conf sv app have c: "mgr_runs E ?mg v v1" "kept v v1" "complete_sessions v1" "uri \<in> protocol_paths \<longrightarrow> rc \<noteq> 0"
    "I app1"
    unfolding route_conforms_def by blast+
  have s1: "serving v1" using c(2,3) sv mem_kept_starved [OF c(2)] by (simp add: serving_def kept_def)
  have r1: "mgr_runs E ?mg w v1"
    by (rule mgr_runs_trans [OF c(1) mgr_runs.quiet [OF reported_runs [OF u] v]])
  have k1: "kept w v1"
    using kept_trans [of mem_wf w u v1] kept_trans [OF conjunct1 [OF mem_kept_frame [OF v]] c(2)] su by (simp add: serving_def)
  have proto: "protocol_call ?mg hm = None" if "uri \<notin> protocol_paths"
    using that t by (auto simp: protocol_call_def protocol_paths_def)
  have "wp (if rc = 0 then send_response resp
       else default_endpoints E ?mg (hs_static_root srv) hm mt uri resp) (\<lambda>act w'. Q (act, app1) w') v1"
  proof (cases "rc = 0")
    case True
    have "handled E ?mg hm w act w'" if "frame v1 w'" for act w'
      using mgr_runs.quiet [OF r1 that] kept_trans [OF k1 conjunct1 [OF mem_kept_frame [OF that]]] s1 proto c(4) True
      by (intro handledI) (auto simp: serving_def)
    with True s1 c(5) show ?thesis by (auto simp: serving_def intro!: wp_send Q)
  next
    case False
    have "wp (default_endpoints E ?mg (hs_static_root srv) hm mt uri resp) (\<lambda>act w'. Q (act, app1) w') v1"
    proof (rule wp_default_endpoints [OF mg s1 frame_refl])
      fix act w'
      assume e: "endpoint_step E ?mg (hs_static_root srv) hm resp mt uri v1 act w'" and k: "kept v1 w'"
      have "handled E ?mg hm w act w'"
        unfolding handled_def
        using mgr_runs_trans [OF endpoint_runs [OF e] r1] kept_trans [OF k1 k]
          endpoint_protocol_call [OF e t(2,1)] r1 by blast
      then show "Q (act, app1) w'" using c(5) by (rule Q)
    qed
    with False show ?thesis by simp
  qed
  with some run show ?thesis
    by (simp add: route_message_def opendbsc_manager_response_init_def wp_bind wp_return_fun)
       (auto simp: wp_def run_state_bind split: prod.splits if_splits)
qed

lemma wp_handle_http:
  assumes ok: "server_ok E I srv" and app: "I app" and w: "serving w"
    and Q: "\<And>act app' w'. handled E (hs_manager srv) hm w act w' \<Longrightarrow> I app' \<Longrightarrow>
      (hs_route srv = None \<longrightarrow> app' = app \<and> http_step E (hs_manager srv) (hs_static_root srv) hm w act w') \<Longrightarrow>
      Q (act, app') w'"
  shows "wp (handle_http E srv hm app) Q w"
proof -
  let ?mg = "hs_manager srv"
  have mg: "memory_manager ?mg" using ok by (simp add: server_ok_def)
  have st: "\<not> starved w" using w by (simp add: serving_def)
  have step: "wp (case (text_of (Some (hm_uri hm)), text_of (Some (hm_method hm))) of
       (Some u, Some mt) \<Rightarrow> route_message E srv hm mt u (text_of (Some (hm_body hm))) app
     | _ \<Rightarrow> ret (server_error, app)) Q v"
    if u: "reported ?mg hm w u" and v: "frame u v" for u v
  proof (cases "text_of (Some (hm_uri hm)) = None \<or> text_of (Some (hm_method hm)) = None")
    case True
    note su = reported_serving [OF u w]
    have "handled E ?mg hm w server_error v"
      using True su mgr_runs.quiet [OF reported_runs [OF u] v] kept_trans [of mem_wf w u v] mem_kept_frame [OF v]
      by (intro handledI) (auto simp: protocol_call_def serving_def)
    with http_step.malformed [OF True u v] app have "Q (server_error, app) v" by (intro Q) auto
    with True show ?thesis by (auto simp: wp_return split: option.split)
  next
    case False
    then obtain uri mt where t: "text_of (Some (hm_uri hm)) = Some uri" "text_of (Some (hm_method hm)) = Some mt"
      by auto
    have "wp (route_message E srv hm mt uri (text_of (Some (hm_body hm))) app) Q v"
    proof (cases "hs_route srv")
      case None
      show ?thesis by (rule wp_route_none [OF mg None w u v t]) (simp add: Q app)
    next
      case (Some route)
      with ok have "route_conforms E ?mg I route" by (simp add: server_ok_def)
      from wp_route_some [OF mg Some this app w u v t] show ?thesis by (simp add: Q Some)
    qed
    with t show ?thesis by simp
  qed
  show ?thesis
    unfolding handle_http_def
  proof (rule wp_bindI, rule wp_handle_skipped [OF st])
    fix u assume u: "reported ?mg hm w u"
    have st': "\<not> starved v" if "frame u v" for v
      using reported_serving [OF u w] frame_starved [OF that] by (simp add: serving_def)
    show "wp (do {
       uri \<leftarrow> mg_str_dup (Some (hm_uri hm));
       method \<leftarrow> mg_str_dup (Some (hm_method hm));
       body \<leftarrow> mg_str_dup (Some (hm_body hm));
       case (uri, method) of (Some u, Some mt) \<Rightarrow> route_message E srv hm mt u body app
       | _ \<Rightarrow> ret (server_error, app) }) Q u"
      apply (rule wp_bindI, rule wp_available [OF attempts_str_dup st' [OF frame_refl]])
      apply (rule wp_bindI, rule wp_available [OF attempts_str_dup st'], assumption)
      apply (rule wp_bindI, rule wp_available [OF attempts_str_dup st'], erule (1) frame_trans)
      apply (rule step [OF u])
      apply (erule frame_trans, erule frame_trans, assumption)
      done
  qed
qed

text \<open>The handler on any event.\<close>

lemma handler_run:
  assumes ok: "server_ok E I srv" and app: "I app" and w: "serving w"
    and run: "run_state (dbsc_event_handler E (Some srv) ev app) w = ((act, app'), w')"
  shows "mgr_runs E (hs_manager srv) w w' \<and> kept w w' \<and> I app' \<and>
    (\<forall>hm. ev = MG_EV_HTTP_MSG hm \<longrightarrow> (\<exists>a. act = Some a \<and> handled E (hs_manager srv) hm w a w' \<and>
       (hs_route srv = None \<longrightarrow> app' = app \<and> http_step E (hs_manager srv) (hs_static_root srv) hm w a w')))"
proof (cases ev)
  case (MG_EV_HTTP_MSG hm)
  obtain a app1 v where h: "run_state (handle_http E srv hm app) w = ((a, app1), v)" by (metis prod.exhaust)
  from wpD [OF wp_handle_http [OF ok app w] h, where Q = "\<lambda>(act, app') w'. handled E (hs_manager srv) hm w act w' \<and> I app' \<and>
      (hs_route srv = None \<longrightarrow> app' = app \<and> http_step E (hs_manager srv) (hs_static_root srv) hm w act w')"]
  have "handled E (hs_manager srv) hm w a v \<and> I app1 \<and>
      (hs_route srv = None \<longrightarrow> app1 = app \<and> http_step E (hs_manager srv) (hs_static_root srv) hm w a v)" by auto
  moreover from run h MG_EV_HTTP_MSG have "act = Some a" "app' = app1" "w' = v"
    by (simp_all add: dbsc_event_handler_def run_state_bind)
  ultimately show ?thesis using MG_EV_HTTP_MSG by (auto simp: handled_def)
qed (use run w app in \<open>auto simp: dbsc_event_handler_def kept_def serving_def mgr_runs.refl split: option.splits\<close>)

text \<open>
  \<open>http_runs E I srv w w'\<close>: a sequence of events of the HTTP library, and of calls the application makes
  to the manager on its own, leads from \<open>w\<close> to \<open>w'\<close>; the application may change its own state in
  between, within its invariant.
\<close>

inductive http_runs :: "('j, 'b, 'k) externals \<Rightarrow> ('a \<Rightarrow> bool) \<Rightarrow> (OpenDBSC_MemoryStore, 'a) OpenDBSC_HTTPServer \<Rightarrow>
    msys \<Rightarrow> msys \<Rightarrow> bool"
  for E I srv w where
  idle: "http_runs E I srv w w"
| event: "http_runs E I srv w w1 \<Longrightarrow> I app \<Longrightarrow>
    run_state (dbsc_event_handler E (Some srv) ev app) w1 = ((act, app'), w2) \<Longrightarrow> http_runs E I srv w w2"
| own: "http_runs E I srv w w1 \<Longrightarrow> run_state (mgr_call_run E (hs_manager srv) c) w1 = ((rc, r), w2) \<Longrightarrow>
    http_runs E I srv w w2"

text \<open>Every such sequence is a run of the manager.\<close>

lemma served_run:
  assumes "http_runs E I srv w w'" and "server_ok E I srv" and "good_run E (hs_manager srv) w0 w"
  shows "good_run E (hs_manager srv) w0 w' \<and> mgr_runs E (hs_manager srv) w w'"
  using assms
proof (induction rule: http_runs.induct)
  case idle
  then show ?case by (simp add: mgr_runs.refl)
next
  case (event w1 ev app act app' w2)
  then have good: "good_run E (hs_manager srv) w0 w1" and r: "mgr_runs E (hs_manager srv) w w1" by auto
  have "serving w1"
    using good_run_inv [OF good] ledger_ok_complete by (auto simp: serving_def)
  from handler_run [OF event.prems(1) event.hyps(2) this event.hyps(3)] have "mgr_runs E (hs_manager srv) w1 w2" by blast
  then show ?case using good r mgr_runs_trans by (auto simp: good_run_def)
next
  case (own w1 c rc r w2)
  then have good: "good_run E (hs_manager srv) w0 w1" and r: "mgr_runs E (hs_manager srv) w w1" by auto
  from own.hyps(2) have "mgr_runs E (hs_manager srv) w1 w2" by (rule mgr_runs.call [OF mgr_runs.refl])
  then show ?case using good r mgr_runs_trans by (auto simp: good_run_def)
qed

lemma good_run_serving: "good_run E mg w0 w \<Longrightarrow> serving w"
  using good_run_inv [of E mg w0 w] ledger_ok_complete by (auto simp: serving_def)

end
