(* ===== verification/Example_Properties.thy ===== *)
theory Example_Properties
  imports Example_Server Http_Machine Manager_Properties
begin

text \<open>
  The example application: its route conforms to what the HTTP wrapper relies on, its login admits
  exactly the users of its table, and its log is a ring that stops turning.
\<close>

section \<open>The application's own state\<close>

definition app_ok :: "app_state \<Rightarrow> bool" where
  "app_ok app \<longleftrightarrow> length (event_log app) = MAX_EVENTS \<and> event_count app \<le> MAX_EVENTS"

lemma framed_add_event [framed_intros]:
  "framed (add_event tz a b c d app) (\<lambda>app'. app_ok app \<longrightarrow> app_ok app')"
  unfolding add_event_def Let_def
  by (rule framed_bind [OF framed_time_now], rule framed_return) (simp add: app_ok_def)

lemma framed_deliver: "framed (deliver tz es app) (\<lambda>app'. app_ok app \<longrightarrow> app_ok app')"
proof (induction es arbitrary: app)
  case (Cons e es)
  show ?case
    by (simp, rule framed_bind [OF framed_add_event], rule framed_weaken [OF Cons.IH]) blast
qed (simp add: framed_return)

lemma attempts_form_value:
  "attempts (get_form_value body name) (Option.bind body (form_scan name)) (\<lambda>x. x = None)"
  by (auto simp: get_form_value_def attempts_return attempts_malloc_str split: option.split)

text \<open>The buffer of the event list is large enough.\<close>

lemma length_print_nat: "n < 10 ^ Suc k \<Longrightarrow> length (print_nat n) \<le> Suc k"
proof (induction k arbitrary: n)
  case 0
  then show ?case by (subst print_nat.simps) simp
next
  case (Suc k)
  then have "n div 10 < 10 ^ Suc k" by simp
  with Suc.IH [of "n div 10"] show ?case by (subst print_nat.simps) simp
qed

lemma print_nat_small: "n \<le> 100 \<Longrightarrow> length (print_nat n) \<le> 3"
  using length_print_nat [of n 2] by simp

lemma events_size_sum: "events_size es n = n + events_size es 0"
  by (induction es arbitrary: n) (simp, metis add.assoc events_size.simps(2) add_0)

lemma length_event_json:
  "length (event_json e) = length (e_time e) + length (e_type e) + length (e_user e) + length (e_session e) +
     length (e_detail e) + 56"
  by (simp add: event_json_def quoted_def)

lemma events_fill_fits:
  "length w + events_size es 0 < cap \<Longrightarrow>
   \<exists>t. (events_fill cap i es w :: ('a world_scheme, string) state) = ret t \<and> length t \<le> length w + events_size es 0"
proof (induction es arbitrary: i w)
  case (Cons e es)
  let ?w = "w @ (if i > 0 then '','' else []) @ event_json e"
  have size: "events_size (e # es) 0 = events_size es 0 + length (e_time e) + length (e_type e) +
      length (e_user e) + length (e_session e) + length (e_detail e) + 128"
    using events_size_sum [of es "length (e_time e) + length (e_type e) + length (e_user e) +
        length (e_session e) + length (e_detail e) + 128"] by simp
  have "length ?w + events_size es 0 < cap" using Cons.prems unfolding size by (simp add: length_event_json)
  from Cons.IH [OF this, of "i + 1"] obtain t where
    t: "(events_fill cap (i + 1) es ?w :: ('a world_scheme, string) state) = ret t" "length t \<le> length ?w + events_size es 0" by blast
  from t(2) have "length t \<le> length w + events_size (e # es) 0" unfolding size by (simp add: length_event_json split: if_splits)
  moreover have "(events_fill cap i (e # es) w :: ('a world_scheme, string) state) = ret t"
    using Cons.prems t(1) unfolding size
    by (cases "i > 0") (simp_all add: length_event_json buf_append_fits buf_append_if_def)
  ultimately show ?case by blast
qed auto

lemma framed_route_events:
  assumes "app_ok app"
  shows "framed (route_events resp app :: ('a world_scheme, (int \<times> OpenDBSC_ManagerResponse) \<times> app_state) state) (\<lambda>((rc, r), app'). rc = 0 \<and> app' = app \<and> rs_status r \<in> {200, 500})"
proof -
  let ?shown = "take (if event_count app < MAX_EVENTS then event_count app else MAX_EVENTS) (event_log app)"
  let ?head = "CHR ''{'' # quoted ''total'' @ '':'' @ print_nat (event_count app) @ '','' @ quoted ''events'' @ '':[''"
  let ?size = "events_size ?shown 128"
  have size: "?size = 128 + events_size ?shown 0" by (rule events_size_sum)
  have head: "length ?head < 100"
    using assms print_nat_small [of "event_count app"] by (simp add: app_ok_def MAX_EVENTS_def quoted_def)
  then have "length ?head + events_size ?shown 0 < ?size" unfolding size by linarith
  from events_fill_fits [OF this, of 0] obtain t where
    t: "(events_fill ?size 0 ?shown ?head :: ('a world_scheme, string) state) = ret t"
      "length t \<le> length ?head + events_size ?shown 0" by blast
  then have fits: "length t + length '']}'' < ?size" "length [] + length ?head < ?size"
    using head unfolding size by simp_all
  have whole: "(do { w \<leftarrow> buf_append ?size [] ?head; w \<leftarrow> events_fill ?size 0 ?shown w; w \<leftarrow> buf_append ?size w '']}'';
      ret ((0, resp\<lparr>rs_status := 200, rs_body := Some w\<rparr>), app) } :: ('a world_scheme, (int \<times> OpenDBSC_ManagerResponse) \<times> app_state) state) =
    ret ((0, resp\<lparr>rs_status := 200, rs_body := Some (t @ '']}'')\<rparr>), app)"
    by (simp only: buf_append_fits [OF fits(1)] buf_append_fits [OF fits(2)] append_Nil t(1) State_Monad.bind_left_identity)
  show ?thesis
    unfolding route_events_def Let_def whole
    by (rule framed_bind [OF framed_alloc]) (auto intro!: framed_return framed_bind [OF framed_malloc_str])
qed

lemma framed_route_status: "framed (route_status resp app) (\<lambda>((rc, r), app'). rc = 0 \<and> app' = app \<and> rs_status r = 200)"
  unfolding route_status_def by (rule framed_bind [OF framed_malloc_str]) (simp add: framed_return)

section \<open>Login\<close>

text \<open>The user a form admits: both fields are present and are a row of the user table.\<close>

definition admitted :: "string option \<Rightarrow> string option" where
  "admitted body =
     (case (Option.bind body (form_scan ''username''), Option.bind body (form_scan ''password'')) of
        (Some u, Some p) \<Rightarrow> if (u, p) \<in> set users then Some u else None
      | _ \<Rightarrow> None)"

lemma find_user_mem: "find_user us u p = (if (u, p) \<in> set us then 1 else 0)"
  by (induction us u p rule: find_user.induct) auto

lemma admitted_iff:
  "(Option.bind body (form_scan ''username'') = None \<or> Option.bind body (form_scan ''password'') = None \<or>
    validate_login (Option.bind body (form_scan ''username'')) (Option.bind body (form_scan ''password'')) = 0) =
   (admitted body = None)"
  "admitted body = Some user \<Longrightarrow> Option.bind body (form_scan ''username'') = Some user"
  by (auto simp: admitted_def validate_login_def find_user_mem split: option.splits if_splits)

lemma wp_read_events: "wp (State (\<lambda>w. (events w, w))) Q w = Q (events w) w"
  by (simp add: wp_def)

lemma initiate_any_response:
  "opendbsc_manager_initiate E (Some mg) (Some user) out resp =
   opendbsc_manager_initiate E (Some mg) (Some user) out empty_response"
  by (simp add: opendbsc_manager_initiate_def opendbsc_manager_response_init_def)

text \<open>How the response to an admitted login comes from the manager's.\<close>

definition login_reply :: "OpenDBSC_ManagerResponse \<Rightarrow> OpenDBSC_ManagerResponse \<Rightarrow> bool" where
  "login_reply r0 r \<longleftrightarrow> rs_status r0 = 200 \<and> r = r0\<lparr>rs_body := rs_body r\<rparr> \<or>
     rs_status r0 = 0 \<and> rs_status r = 500 \<and> rs_set_cookie r = rs_set_cookie r0 \<and> rs_registration r = rs_registration r0"

lemma login_leaves_complete:
  assumes "initiate_step False E mg w w' user (ledger_of w) rc r (ledger_of w')" and "serving w"
  shows "complete_sessions w' \<and> (rc = 0 \<and> rs_status r = 200 \<or> rc = -1 \<and> rs_status r = 0)"
  using assms(1)
  by cases (use assms(2) in \<open>auto simp: serving_def complete_sessions_def login_of_def invites_def\<close>)

lemma wp_admitted_login:
  assumes mg: "memory_manager mg" and uuid: "uuid_text E" and w: "serving w" and u: "frame w u"
    and Q: "\<And>r r0 app' w'. calls E mg (Login user (Some session_defaults)) w r0 w' \<Longrightarrow> kept w w' \<Longrightarrow>
        complete_sessions w' \<Longrightarrow> app_ok app \<longrightarrow> app_ok app' \<Longrightarrow> login_reply r0 r \<Longrightarrow> Q ((0, r), app') w'"
  shows "wp (admit_login E tz (Some user) mg resp app) Q u"
proof -
  have wf: "mem_wf (impl u)" and st: "\<not> starved u" and su: "serving u"
    using serving_frame [OF w u] by (simp_all add: serving_def)
  obtain rc out r0 v where run: "run_state (opendbsc_manager_initiate E (Some mg) (Some user)
      (Some session_defaults) resp) u = ((rc, out, r0), v)" by (metis prod.exhaust)
  from mem_initiate_run [OF wf mg uuid run] have k: "kept u v"
    and step: "initiate_step False E mg u v user (ledger_of u) rc r0 (ledger_of v)"
    and out: "rc = 0 \<longrightarrow> (\<exists>i s. s_id s = Some i \<and> handed_out u (Some session_defaults) s out)" by auto
  note done' = login_leaves_complete [OF step su]
  have call: "run_state (mgr_call_run E mg (Login user (Some session_defaults))) u = ((rc, r0), v)"
    using run by (simp add: run_state_bind initiate_any_response [of E mg user _ resp])
  have finish: "Q ((0, r), app') w'" if f: "frame v w'" and app': "app_ok app \<longrightarrow> app_ok app'" and r: "login_reply r0 r"
    for r app' w'
  proof (rule Q [OF _ _ _ app' r])
    show "calls E mg (Login user (Some session_defaults)) w r0 w'" using u call f by (auto simp: calls_def)
    show "kept w w'" using kept_around [OF u _ k f] w by (simp add: serving_def)
    show "complete_sessions w'" using done' frame_impl [OF f] by (simp add: complete_sessions_def)
  qed
  have "wp (login_body rc out r0 app') Q v'" if v': "frame v v'" and app': "app_ok app \<longrightarrow> app_ok app'" for v' app'
  proof (cases "rc = 0")
    case True
    with out st obtain i where i: "(case out of None \<Rightarrow> None | Some s \<Rightarrow> s_id s) = Some i"
      by (auto simp: handed_out_def)
    show ?thesis
      unfolding login_body_def i str_arg_Some
      by (simp add: True, rule wp_bindI, rule wp_framed [OF framed_malloc_str])
         (use True done' in \<open>auto simp: wp_return login_reply_def intro!: finish [OF frame_trans [OF v'] app']\<close>)
  next
    case False
    then show ?thesis
      by (simp add: login_body_def, intro wp_bindI wp_framed [OF framed_malloc_str])
         (use done' in \<open>auto simp: wp_return login_reply_def intro!: finish [OF frame_trans [OF v'] app']\<close>)
  qed
  then have rest: "wp (deliver tz es app \<bind> login_body rc out r0) Q v" for es
    by (intro wp_bindI wp_framed [OF framed_deliver]) auto
  have "wp (opendbsc_manager_initiate E (Some mg) (Some user) (Some session_defaults) resp) (\<lambda>(rc, session, resp).
      wp (State (\<lambda>w. (events w, w)) \<bind> (\<lambda>after. deliver tz (drop n after) app \<bind> login_body rc session resp)) Q) u" for n
    using run rest by (simp add: wp_def [of "opendbsc_manager_initiate E mgo usr o' resp" for mgo usr o'] wp_bind wp_read_events)
  then show ?thesis
    by (simp add: admit_login_def wp_bind wp_read_events session_init_Some case_prod_beta')
qed

lemma wp_route_login:
  assumes mg: "memory_manager mg" and uuid: "uuid_text E" and w: "serving w"
    and refuse: "\<And>r app' w'. admitted body = None \<Longrightarrow> frame w w' \<Longrightarrow> app_ok app \<longrightarrow> app_ok app' \<Longrightarrow>
        rs_status r = 401 \<Longrightarrow> Q ((0, r), app') w'"
    and admit: "\<And>user r r0 app' w'. admitted body = Some user \<Longrightarrow>
        calls E mg (Login user (Some session_defaults)) w r0 w' \<Longrightarrow> kept w w' \<Longrightarrow>
        complete_sessions w' \<Longrightarrow> app_ok app \<longrightarrow> app_ok app' \<Longrightarrow> login_reply r0 r \<Longrightarrow> Q ((0, r), app') w'"
  shows "wp (route_login E tz body mg resp app) Q w"
proof -
  have st: "\<not> starved v" if "frame w v" for v using w frame_starved [OF that] by (simp add: serving_def)
  show ?thesis
    unfolding route_login_def
  proof (rule wp_bindI, rule wp_available [OF attempts_form_value st [OF frame_refl]],
      rule wp_bindI, rule wp_available [OF attempts_form_value st], assumption)
    fix v v' assume v: "frame w v" "frame v v'"
    note wv = frame_trans [OF v]
    let ?u = "Option.bind body (form_scan ''username'')" and ?p = "Option.bind body (form_scan ''password'')"
    show "wp (if ?u = None \<or> ?p = None \<or> validate_login ?u ?p = 0 then do {
       app \<leftarrow> add_event tz (Some ''LOGIN_FAIL'') (Some (str_of ?u)) (Some []) (Some ''invalid credentials'') app;
       text \<leftarrow> strdup (json_pair ''error'' ''invalid credentials'');
       ret ((0, resp\<lparr>rs_status := 401, rs_body := text\<rparr>), app) }
     else admit_login E tz ?u mg resp app) Q v'"
    proof (cases "admitted body")
      case None
      then show ?thesis
        unfolding admitted_iff(1)
        by (simp, intro wp_bindI, intro wp_framed [OF framed_add_event], intro wp_bindI,
            intro wp_framed [OF framed_malloc_str])
           (auto simp: wp_return intro!: refuse frame_trans [OF wv] intro: frame_trans)
    next
      case (Some user)
      show ?thesis
        unfolding admitted_iff(1) using Some admitted_iff(2) [OF Some]
        by (simp, intro wp_admitted_login [OF mg uuid w wv] admit) auto
    qed
  qed
qed

text \<open>The application's route in all.\<close>

lemma app_route_run:
  assumes mg: "memory_manager mg" and uuid: "uuid_text E" and w: "serving w" and app: "app_ok app"
    and run: "run_state (app_route E tz mt uri body n mg resp app) w = (((rc, r), app'), w')"
  shows "mgr_runs E mg w w' \<and> kept w w' \<and> complete_sessions w' \<and> app_ok app' \<and> (uri \<in> protocol_paths \<longrightarrow> rc \<noteq> 0)"
proof -
  have wf: "mem_wf (impl w)" using w by (simp add: serving_def)
  have quiet: "mgr_runs E mg w v \<and> kept w v \<and> complete_sessions v" if "frame w v" for v
    using mgr_runs.quiet [OF mgr_runs.refl that] mem_kept_frame [OF that wf] serving_frame [OF w that]
    by (simp add: serving_def)
  consider (login) "mt = ''POST''" "uri = ''/login''" | (events) "mt = ''GET''" "uri = ''/api/events''"
    | (status) "mt = ''GET''" "uri = ''/api/status''"
    | (other) "\<not> (mt = ''POST'' \<and> uri = ''/login'')" "\<not> (mt = ''GET'' \<and> uri = ''/api/events'')"
        "\<not> (mt = ''GET'' \<and> uri = ''/api/status'')"
    by blast
  then show ?thesis
  proof cases
    case login
    then have run': "run_state (route_login E tz body mg resp app) w = (((rc, r), app'), w')"
      using run by (simp add: app_route_def)
    have "wp (route_login E tz body mg resp app) (\<lambda>((rc, r), app') w'.
        mgr_runs E mg w w' \<and> kept w w' \<and> complete_sessions w' \<and> app_ok app') w"
      by (rule wp_route_login [OF mg uuid w]) (use quiet app in \<open>auto intro: calls_runs\<close>)
    from wpD [OF this run'] login show ?thesis by (simp add: protocol_paths_def)
  next
    case events
    then have run': "run_state (route_events resp app) w = (((rc, r), app'), w')" using run by (simp add: app_route_def)
    from framedD [OF framed_route_events [OF app] run'] quiet events app show ?thesis by (auto simp: protocol_paths_def)
  next
    case status
    then have run': "run_state (route_status resp app) w = (((rc, r), app'), w')" using run by (simp add: app_route_def)
    from framedD [OF framed_route_status run'] quiet status app show ?thesis by (auto simp: protocol_paths_def)
  next
    case other
    have "app_route E tz mt uri body n mg resp app = ret ((-1, resp), app)"
      unfolding app_route_def by (simp only: other if_False)
    with run quiet [OF frame_refl] app show ?thesis by simp
  qed
qed

lemma app_route_conforms:
  "memory_manager mg \<Longrightarrow> uuid_text E \<Longrightarrow> route_conforms E mg app_ok (app_route E tz)"
  unfolding route_conforms_def using app_route_run [of mg E] by blast

section \<open>The ring of events\<close>

text \<open>What the slots hold after the entries \<open>xs\<close>: from the hundred and first on, only slot 0 changes.\<close>

definition blank_event :: Event where
  "blank_event = \<lparr>e_time = [], e_type = [], e_user = [], e_session = [], e_detail = []\<rparr>"

definition ring :: "Event list \<Rightarrow> Event list" where
  "ring xs = (if length xs \<le> MAX_EVENTS then xs @ replicate (MAX_EVENTS - length xs) blank_event
              else last xs # tl (take MAX_EVENTS xs))"

lemma ring_snoc:
  "(ring xs)[min (length xs) MAX_EVENTS mod MAX_EVENTS := e] = ring (xs @ [e])"
proof -
  consider "length xs < MAX_EVENTS" | "length xs = MAX_EVENTS" | "MAX_EVENTS < length xs" by linarith
  then show ?thesis
  proof cases
    case 1
    then have "replicate (MAX_EVENTS - length xs) blank_event =
        blank_event # replicate (MAX_EVENTS - Suc (length xs)) blank_event"
      by (metis Suc_diff_Suc replicate_Suc)
    with 1 show ?thesis by (simp add: ring_def list_update_append)
  next
    case 2
    then show ?thesis by (cases xs) (simp_all add: ring_def MAX_EVENTS_def)
  next
    case 3
    then show ?thesis by (simp add: ring_def)
  qed
qed

text \<open>The entry an event becomes when the callback runs at the time \<open>t\<close>.\<close>

definition entry_of :: "(int \<Rightarrow> int) \<Rightarrow> int \<Rightarrow> event \<Rightarrow> Event" where
  "entry_of tz t e = \<lparr>e_time = take 15 (local_hms tz t), e_type = copy_field 32 (Some (ev_type e)),
     e_user = copy_field 64 (ev_user e), e_session = copy_field 64 (ev_session e), e_detail = copy_field 256 (ev_detail e)\<rparr>"

definition app_of :: "Event list \<Rightarrow> app_state" where
  "app_of xs = \<lparr>event_log = ring xs, event_count = min (length xs) MAX_EVENTS\<rparr>"

lemma initial_app_of: "initial_app = app_of []"
  by (simp add: initial_app_def app_of_def ring_def blank_event_def)

text \<open>The entries of a list of events, the first at the reading \<open>k\<close> of the clock.\<close>

fun stamped :: "(int \<Rightarrow> int) \<Rightarrow> (nat \<Rightarrow> int) \<Rightarrow> nat \<Rightarrow> event list \<Rightarrow> Event list" where
  "stamped tz clock k [] = []"
| "stamped tz clock k (e # es) = entry_of tz (clock k) e # stamped tz clock (Suc k) es"

lemma length_stamped [simp]: "length (stamped tz clock k es) = length es"
  by (induction tz clock k es rule: stamped.induct) simp_all

lemma nth_stamped: "i < length es \<Longrightarrow> stamped tz clock k es ! i = entry_of tz (clock (k + i)) (es ! i)"
proof (induction es arbitrary: i k)
  case (Cons e es)
  then show ?case by (cases i) simp_all
qed simp

lemma add_event_run:
  "run_state (add_event tz (Some (ev_type e)) (ev_user e) (ev_session e) (ev_detail e) (app_of xs)) w =
     (app_of (xs @ [entry_of tz (wall_clock w (clock_reads w)) e]), w\<lparr>clock_reads := Suc (clock_reads w)\<rparr>)"
  by (simp add: add_event_def app_of_def run_state_bind ring_snoc [symmetric] entry_of_def min_def)

lemma deliver_run:
  "run_state (deliver tz es (app_of xs)) w =
     (app_of (xs @ stamped tz (wall_clock w) (clock_reads w) es), w\<lparr>clock_reads := clock_reads w + length es\<rparr>)"
proof (induction es arbitrary: xs w)
  case (Cons e es)
  show ?case
    unfolding deliver.simps run_state_bind add_event_run prod.case Cons.IH by simp
qed simp

section \<open>The properties\<close>

text \<open>
  C37: The example's login admits exactly its users. With memory available, a POST to \<^verbatim>\<open>/login\<close> whose
  form has both fields and whose user and password are a row of the user table is one login of that
  user with the manager, answered with the manager's cookie and registration header and status 200,
  or with 500 when the manager reports failure; every other form is answered with 401 and starts
  nothing: the sessions and the manager's event log stay as they are.
\<close>

theorem example_login_exact:
  assumes "memory_manager mg" and "uuid_text E" and "serving w"
    and "run_state (app_route E tz ''POST'' ''/login'' body n mg resp app) w = (((rc, r), app'), w')"
  shows "rc = 0 \<and> undef w' = undef w \<and>
    (case admitted body of
       None \<Rightarrow> rs_status r = 401 \<and> mem_view (impl w') = mem_view (impl w) \<and> events w' = events w
     | Some user \<Rightarrow> \<exists>r0. calls E mg (Login user (Some session_defaults)) w r0 w' \<and> login_reply r0 r)"
proof -
  have wf: "mem_wf (impl w)" using assms(3) by (simp add: serving_def)
  from assms(4) have run: "run_state (route_login E tz body mg resp app) w = (((rc, r), app'), w')"
    by (simp add: app_route_def)
  let ?Q = "\<lambda>((rc, r), app') w'. rc = 0 \<and> undef w' = undef w \<and>
    (case admitted body of
       None \<Rightarrow> rs_status r = 401 \<and> mem_view (impl w') = mem_view (impl w) \<and> events w' = events w
     | Some user \<Rightarrow> \<exists>r0. calls E mg (Login user (Some session_defaults)) w r0 w' \<and> login_reply r0 r)"
  have "wp (route_login E tz body mg resp app) ?Q w"
  proof (rule wp_route_login [OF assms(1-3)], goal_cases)
    case (1 r app' w')
    with mem_kept_frame [OF 1(2) wf] show ?case by (simp add: kept_def)
  next
    case (2 user r r0 app' w')
    then show ?case by (auto simp: kept_def)
  qed
  from wpD [OF this run] show ?thesis by simp
qed

theorem example_login_exact_witness:
  "\<exists>r0. calls demo_ext demo_manager (Login ''bob'' (Some session_defaults)) demo_start r0
      (snd (run_state (app_route demo_ext (\<lambda>_. 0) ''POST'' ''/login'' (Some ''password=hunter2&username=bob'') 29
         demo_manager empty_response initial_app) demo_start))"
proof -
  let ?b = "Some ''password=hunter2&username=bob''"
  obtain rc r app' w' where run: "run_state (app_route demo_ext (\<lambda>_. 0) ''POST'' ''/login'' ?b 29
      demo_manager empty_response initial_app) demo_start = (((rc, r), app'), w')" by (metis prod.exhaust)
  have adm: "admitted ?b = Some ''bob''" by code_simp
  from example_login_exact [OF demo_memory_manager demo_uuid_text good_run_serving [OF demo_good_start] run] adm run
  show ?thesis by auto
qed

text \<open>
  The example application is a conforming client of the wrapper. For any message its route does
  to the manager nothing but what the manager's operations do, keeps the store well formed and the
  sessions complete, has no undefined behaviour (the buffer of the event list is always large enough),
  keeps its own log within its bounds, and leaves the two paths of the protocol to the wrapper; so a
  server with this route is one of those \<open>http_server_invariant\<close> and \<open>http_no_replay\<close> speak of.
\<close>

theorem example_route_conforms:
  assumes "memory_manager mg" and "uuid_text E"
  shows "route_conforms E mg app_ok (app_route E tz)"
  by (rule app_route_conforms [OF assms])

theorem example_route_conforms_witness:
  "server_ok demo_ext app_ok \<lparr>hs_manager = demo_manager, hs_route = Some (app_route demo_ext (\<lambda>_. 3600)),
     hs_static_root = Some ''examples/static'', hs_running = True, hs_tls_cert = None, hs_tls_key = None\<rparr>"
  using example_route_conforms [OF demo_memory_manager demo_uuid_text] by (simp add: server_ok_def demo_memory_manager)

text \<open>
  What the event log holds. After any sequence of callbacks from the start, the count is the
  number of events but at most 100, the slots hold the first hundred entries in order, each with its
  fields cut to their sizes and the time of its callback, except that from the hundred and first event
  on slot 0 holds the latest entry: no other slot ever changes again.
\<close>

theorem event_log_window:
  assumes "run_state (deliver tz es initial_app) w = (app, w')"
  shows "\<exists>logged. logged = stamped tz (wall_clock w) (clock_reads w) es \<and>
    event_count app = min (length es) MAX_EVENTS \<and>
    event_log app = (if length es \<le> MAX_EVENTS
      then logged @ replicate (MAX_EVENTS - length es) blank_event
      else last logged # tl (take MAX_EVENTS logged))"
proof -
  from assms have "app = app_of (stamped tz (wall_clock w) (clock_reads w) es)"
    unfolding initial_app_of deliver_run by simp
  then show ?thesis by (simp add: app_of_def ring_def)
qed

theorem event_log_window_witness:
  "let e = \<lparr>ev_type = ''LOGIN'', ev_user = Some ''bob'', ev_session = None, ev_detail = None\<rparr>;
       app = fst (run_state (deliver (\<lambda>_. 0) (replicate 103 e) initial_app) demo_world)
   in event_count app = 100 \<and> e_time (event_log app ! 0) = ''00:03:22'' \<and> e_time (event_log app ! 99) = ''00:03:19''"
proof -
  let ?e = "\<lparr>ev_type = ''LOGIN'', ev_user = Some ''bob'', ev_session = None, ev_detail = None\<rparr>"
  let ?r = "run_state (deliver (\<lambda>_. 0) (replicate 103 ?e) initial_app) demo_world"
  let ?l = "stamped (\<lambda>_. 0) (wall_clock demo_world) (clock_reads demo_world) (replicate 103 ?e)"
  from event_log_window [OF prod.collapse [symmetric], where tz = "\<lambda>_. 0" and es = "replicate 103 ?e" and w = demo_world]
  have log: "event_count (fst ?r) = 100" "event_log (fst ?r) = last ?l # tl (take MAX_EVENTS ?l)"
    by (simp_all only: length_replicate ex_simps simp_thms) (simp_all add: MAX_EVENTS_def)
  have "length ?l = 103" by simp
  then have "?l \<noteq> []" by force
  then have "last ?l = ?l ! 102" by (simp add: last_conv_nth)
  then have "last ?l = entry_of (\<lambda>_. 0) 202 ?e" "?l ! 99 = entry_of (\<lambda>_. 0) 199 ?e"
    by (simp_all add: nth_stamped demo_world_def)
  moreover have "tl (take MAX_EVENTS ?l) ! 98 = ?l ! 99" by (simp add: MAX_EVENTS_def nth_tl)
  moreover have "e_time (entry_of (\<lambda>_. 0) 202 ?e) = ''00:03:22''" "e_time (entry_of (\<lambda>_. 0) 199 ?e) = ''00:03:19''"
    by code_simp+
  ultimately show ?thesis unfolding Let_def log by simp
qed

end
