(* ===== verification/Http_Properties.thy ===== *)
theory Http_Properties
  imports Http_Machine Manager_Properties
begin

text \<open>
  The properties of the HTTP wrapper over the manager and the in-memory store, with a served
  scenario in which their hypotheses hold.
\<close>

section \<open>A served scenario\<close>

definition demo_server :: "(OpenDBSC_MemoryStore, unit) OpenDBSC_HTTPServer" where
  "demo_server = \<lparr>hs_manager = demo_manager, hs_route = None, hs_static_root = None, hs_running = True,
     hs_tls_cert = None, hs_tls_key = None\<rparr>"

definition demo_register_message :: mg_http_message where
  "demo_register_message = \<lparr>hm_method = Some ''POST'', hm_uri = Some ''/dbsc/register'', hm_body = Some [],
     mg_http_get_header = map_of
       [(''Cookie'', Some (''lang=en; sid='' @ demo_id)),
        (''Secure-Session-Response'', Some (dq # ''Ug.MQ.AQI'' @ [dq])),
        (''Secure-Session-Skipped'', Some (''unreachable;session_identifier='' @ dq # ''old'' @ [dq]))]\<rparr>"

type_synonym served = "(mg_action option \<times> unit) \<times> msys"

definition serve :: "mg_http_message \<Rightarrow> msys \<Rightarrow> served" where
  "serve hm w = run_state (dbsc_event_handler demo_ext (Some demo_server) (MG_EV_HTTP_MSG hm) ()) w"

definition http_trace :: "served \<times> served" where
  "http_trace =
     (let l = demo_call (Login ''alice'' None) demo_start; b = serve demo_register_message (snd l)
      in (b, serve demo_register_message (snd b)))"

definition http_first :: served where
  "http_first = fst http_trace"

definition http_again :: served where
  "http_again = snd http_trace"

lemma http_runs_demo:
  "http_first = serve demo_register_message (snd demo_login)"
  "http_again = serve demo_register_message (snd http_first)"
  by (simp_all add: http_first_def http_again_def http_trace_def demo_runs(1) Let_def)

definition reply_status :: "served \<Rightarrow> int option" where
  "reply_status x = (case fst (fst x) of Some (mg_http_reply st h b) \<Rightarrow> Some st | _ \<Rightarrow> None)"

lemma http_observed:
  "(case http_trace of (b, a) \<Rightarrow> (reply_status b, reply_status a, entropy_reads (snd a),
      map ev_type (events (snd a)), map_option s_state (mem_view (impl (snd b)) demo_id))) =
   (Some 200, Some 400, 3, [''LOGIN'', ''SESSION_SKIPPED'', ''REGISTER'', ''SESSION_SKIPPED''], Some BOUND)"
  by code_simp

lemma http_values:
  "reply_status http_first = Some 200" "reply_status http_again = Some 400"
  "entropy_reads (snd http_again) = 3" "map_option s_state (mem_view (impl (snd http_first)) demo_id) = Some BOUND"
proof -
  obtain b a where t: "http_trace = (b, a)" by (rule prod.exhaust)
  show "reply_status http_first = Some 200" "reply_status http_again = Some 400"
    "entropy_reads (snd http_again) = 3" "map_option s_state (mem_view (impl (snd http_first)) demo_id) = Some BOUND"
    using http_observed unfolding http_first_def http_again_def t prod.case fst_conv snd_conv prod.inject by blast+
qed

lemma demo_server_ok: "server_ok demo_ext (\<lambda>_. True) demo_server"
  by (simp add: server_ok_def demo_server_def demo_memory_manager)

lemma demo_server_sel: "hs_manager demo_server = demo_manager" "hs_route demo_server = None"
  by (simp_all add: demo_server_def)

lemma demo_protocol_call:
  "protocol_call demo_manager demo_register_message = Some (Register (Some demo_id) (Some ''Ug.MQ.AQI''))"
  by code_simp

lemma demo_served_login: "http_runs demo_ext (\<lambda>_. True) demo_server demo_start (snd demo_login)"
  using demo_runs(1) demo_server_sel(1) http_runs.own [OF http_runs.idle, where E = demo_ext and I = "\<lambda>_. True" and srv = demo_server and w = demo_start]
  unfolding demo_call_def by (metis prod.collapse)

lemma replied: "reply_status x = Some st \<Longrightarrow> \<exists>h b a w. x = ((Some (mg_http_reply st h b), a), w)"
  by (cases x rule: prod.exhaust) (auto simp: reply_status_def split: option.splits mg_action.splits)

section \<open>Messages\<close>

text \<open>
  C35: Every message is served as specified. For any message of the HTTP library, with memory
  available and the sessions complete, the handler of a server without application routes answers
  exactly once and without undefined behaviour. It first reports exactly the skipped sessions that the
  message's header names, in their order, and none when the header is missing or malformed; it then hands
  the cookie and the unquoted proof of \<^verbatim>\<open>/dbsc/register\<close>, and the session identifier (or else the
  cookie) and the proof of \<^verbatim>\<open>/dbsc/refresh\<close>, to the manager and replies with the status, headers and
  body of its response; \<^verbatim>\<open>/api/me\<close> reports the session the cookie names, every other path is a
  static file or 404, and a message without a method or path is 500.
\<close>

theorem http_message_refines:
  assumes "server_ok E I srv" and "hs_route srv = None" and "I app" and "serving w"
    and "run_state (dbsc_event_handler E (Some srv) (MG_EV_HTTP_MSG hm) app) w = ((act, app'), w')"
  shows "undef w' = undef w \<and> mem_wf (impl w') \<and> app' = app \<and>
    (\<exists>a. act = Some a \<and> http_step E (hs_manager srv) (hs_static_root srv) hm w a w')"
  using handler_run [OF assms(1,3,4,5)] assms(2) by (auto simp: kept_def)

theorem http_message_refines_witness:
  "\<exists>a w'. run_state (dbsc_event_handler demo_ext (Some demo_server) (MG_EV_HTTP_MSG demo_register_message) ())
      (snd demo_login) = ((Some a, ()), w') \<and>
     http_step demo_ext demo_manager None demo_register_message (snd demo_login) a w'"
proof -
  obtain act w' where run: "run_state (dbsc_event_handler demo_ext (Some demo_server)
      (MG_EV_HTTP_MSG demo_register_message) ()) (snd demo_login) = ((act, ()), w')"
    by (metis prod.exhaust unit.exhaust)
  from http_message_refines [OF demo_server_ok demo_server_sel(2) TrueI good_run_serving [OF demo_good(1)] run] run
  show ?thesis by (auto simp: demo_server_def)
qed

section \<open>Runs of a server\<close>

text \<open>
  C36: A server keeps its sessions in order. Whatever messages and other events arrive, in any order,
  and whatever requests the application makes to the manager in between, through a conforming route
  or on its own, from an empty store and log, with memory available and a UUID library that writes 36
  characters, nothing undefined happens, the store stays well formed, every session has its identifier,
  a user and a challenge drawn during the run, no ACTIVE session has a key, and the event log, when the
  callback is set, is a faithful account.
\<close>

theorem http_server_invariant:
  assumes "server_ok E I srv" and "uuid_text E" and "fresh_start w0" and "\<not> starved w0"
    and "http_runs E I srv w0 w"
  shows "undef w = undef w0 \<and> mem_wf (impl w) \<and>
    (\<forall>i s. mem_view (impl w) i = Some s \<longrightarrow> session_ok w0 w i s) \<and>
    (cfg_on_event (mgr_cfg (hs_manager srv)) \<longrightarrow> log_ok (events w))"
proof -
  have "good_run E (hs_manager srv) w0 w0"
    using assms(1-4) by (simp add: good_run_def server_ok_def mgr_runs.refl)
  from good_run_inv [OF conjunct1 [OF served_run [OF assms(5,1) this]]] show ?thesis by (simp add: kept_def)
qed

theorem http_server_invariant_witness:
  "\<exists>s. mem_view (impl (snd http_first)) demo_id = Some s \<and> s_state s = BOUND \<and> s_user_id s \<noteq> None \<and>
     log_ok (events (snd http_first))"
proof -
  have "http_runs demo_ext (\<lambda>_. True) demo_server demo_start (snd http_first)"
    using http_runs.event [OF demo_served_login TrueI, of "MG_EV_HTTP_MSG demo_register_message" "()"] http_runs_demo(1)
    unfolding serve_def by (metis prod.collapse)
  from http_server_invariant [OF demo_server_ok demo_uuid_text demo_fresh_start demo_plenty this] http_values(4)
  show ?thesis by (auto simp: session_ok_def demo_server_sel demo_manager_def)
qed

text \<open>
  C34: No replay over HTTP. For a server whose routes conform, from an empty store and log, with memory
  available throughout and a UUID library that writes 36 characters: if the draws of the entropy source
  differ, then once a message to \<^verbatim>\<open>/dbsc/register\<close> or \<^verbatim>\<open>/dbsc/refresh\<close> has been answered with 200, no
  later message to either path that carries the same proof header is, whatever cookie it has and however
  many messages, events and requests of the application come in between.
\<close>

theorem http_no_replay:
  assumes ok: "server_ok E I srv" "uuid_text E" "fresh_start w0" "\<not> starved w0"
    and apps: "I app" "I app'" and before: "http_runs E I srv w0 w" and draws: "distinct_draws w0 w3"
    and first: "run_state (dbsc_event_handler E (Some srv) (MG_EV_HTTP_MSG hm) app) w =
        ((Some (mg_http_reply 200 hs b), app1), w1)"
      "protocol_call (hs_manager srv) hm = Some c" "header_of c = Some h"
    and between: "http_runs E I srv w1 w2"
    and second: "run_state (dbsc_event_handler E (Some srv) (MG_EV_HTTP_MSG hm') app') w2 =
        ((Some (mg_http_reply st hs' b'), app2), w3)"
      "protocol_call (hs_manager srv) hm' = Some c'" "header_of c' = Some h"
  shows "st \<noteq> 200"
proof -
  let ?mg = "hs_manager srv"
  have "good_run E ?mg w0 w0" using ok by (simp add: good_run_def server_ok_def mgr_runs.refl)
  from conjunct1 [OF served_run [OF before ok(1) this]] have g: "good_run E ?mg w0 w" .
  from handler_run [OF ok(1) apps(1) good_run_serving [OF g] first(1)] first(2) obtain u r where
    u: "mgr_runs E ?mg w u" "calls E ?mg c u r w1" "mg_http_reply 200 hs b = reply_of r" by (auto simp: handled_def)
  then obtain a v rc where a: "frame u a" "run_state (mgr_call_run E ?mg c) a = ((rc, r), v)" "frame v w1"
    and r: "rs_status r = 200" by (auto simp: calls_def reply_of_def)
  have ga: "good_run E ?mg w0 a"
    using g mgr_runs_trans [OF mgr_runs.quiet [OF u(1) a(1)]] by (simp add: good_run_def)
  have "good_run E ?mg w0 w1"
    using ga mgr_runs.quiet [OF mgr_runs.call [OF _ a(2)] a(3)] by (auto simp: good_run_def)
  from served_run [OF between ok(1) this] have g2: "good_run E ?mg w0 w2" and m: "mgr_runs E ?mg w1 w2" by auto
  from handler_run [OF ok(1) apps(2) good_run_serving [OF g2] second(1)] second(2) obtain u' r' where
    u': "mgr_runs E ?mg w2 u'" "calls E ?mg c' u' r' w3" "mg_http_reply st hs' b' = reply_of r'"
    by (auto simp: handled_def)
  then obtain a' v' rc' where a': "frame u' a'" "run_state (mgr_call_run E ?mg c') a' = ((rc', r'), v')" "frame v' w3"
    and r': "rs_status r' = st" by (auto simp: calls_def reply_of_def)
  have mid: "mgr_runs E ?mg v a'"
    using mgr_runs_trans [OF mgr_runs.quiet [OF u'(1) a'(1)]
        mgr_runs_trans [OF m mgr_runs.quiet [OF mgr_runs.refl a(3)]]] .
  have "mgr_runs E ?mg w0 a'"
    using ga mgr_runs_trans [OF mid mgr_runs.call [OF _ a(2)]] by (auto simp: good_run_def)
  then have "good_run E ?mg w0 v'" using ga mgr_runs.call [OF _ a'(2)] by (auto simp: good_run_def)
  then have "kept v' w3" using mem_kept_frame [OF a'(3)] good_run_inv(2) by blast
  from mem_replay_refused [OF ga distinct_draws_before [OF draws this] a(2) first(3) r mid a'(2) second(3)] r'
  show ?thesis by simp
qed

theorem http_no_replay_witness:
  "reply_status http_first = Some 200 \<and> reply_status http_again = Some 400 \<and> (400::int) \<noteq> 200"
proof -
  obtain hs b w1 where one: "http_first = ((Some (mg_http_reply 200 hs b), ()), w1)"
    using replied [OF http_values(1)] by auto
  obtain hs' b' w2 where two: "http_again = ((Some (mg_http_reply 400 hs' b'), ()), w2)"
    using replied [OF http_values(2)] by auto
  have f: "run_state (dbsc_event_handler demo_ext (Some demo_server) (MG_EV_HTTP_MSG demo_register_message) ())
      (snd demo_login) = ((Some (mg_http_reply 200 hs b), ()), w1)"
    using one http_runs_demo(1) by (simp add: serve_def)
  have g: "run_state (dbsc_event_handler demo_ext (Some demo_server) (MG_EV_HTTP_MSG demo_register_message) ())
      w1 = ((Some (mg_http_reply 400 hs' b'), ()), w2)"
    using http_runs_demo(2) unfolding two one serve_def snd_conv by simp
  have draws: "distinct_draws demo_start w2" using http_values(3) unfolding two by (intro demo_draws) simp
  have c: "protocol_call (hs_manager demo_server) demo_register_message = Some (Register (Some demo_id) (Some ''Ug.MQ.AQI''))"
    "header_of (Register (Some demo_id) (Some ''Ug.MQ.AQI'')) = Some ''Ug.MQ.AQI''"
    by (simp_all add: demo_server_sel demo_protocol_call)
  from http_no_replay [OF demo_server_ok demo_uuid_text demo_fresh_start demo_plenty TrueI TrueI demo_served_login draws f c
      http_runs.idle g c] http_values(1,2)
  show ?thesis by simp
qed

end
