(* ===== verification/Session_Json.thy ===== *)
theory Session_Json
  imports Instruction
begin

text \<open>
  Sessions as JSON documents: \<^verbatim>\<open>session_to_json\<close> and \<^verbatim>\<open>session_from_json\<close> of \<^verbatim>\<open>src/store/redis.c\<close>.
  cJSON is a parameter, its reader, its writer and its numbers; the locale \<open>cjson_lib\<close> states what is
  documented of it. Numbers are C doubles, so a time is rounded when it is written and truncated when it
  is read. The lemmas: with memory a session that can be stored is read back unchanged, and the
  reading of any document is \<open>read_session\<close>.
\<close>

section \<open>Doubles\<close>

text \<open>\<open>Finite m e\<close> is the number \<open>m * 2 ^ e\<close>.\<close>

datatype double = Finite int int | Not_Finite

fun bit_length :: "nat \<Rightarrow> nat" where
  "bit_length n = (if n = 0 then 0 else Suc (bit_length (n div 2)))"

declare bit_length.simps [simp del]

definition round_half_even :: "nat \<Rightarrow> nat \<Rightarrow> nat" where
  "round_half_even m e =
     (let q = m div 2 ^ e; r = m mod 2 ^ e in
      if 2 ^ e < 2 * r \<or> 2 * r = 2 ^ e \<and> odd q then q + 1 else q)"

text \<open>\<^verbatim>\<open>(double)t\<close> rounds to the nearest number with 53 significant bits.\<close>

definition double_of_int :: "int \<Rightarrow> double" where
  "double_of_int t =
     (let m = nat \<bar>t\<bar>; e = bit_length m - 53 in Finite (sgn t * int (round_half_even m e)) (int e))"

text \<open>\<^verbatim>\<open>(time_t)d\<close> truncates, and is undefined when the result is not a \<^verbatim>\<open>time_t\<close>.\<close>

definition double_trunc :: "int \<Rightarrow> int \<Rightarrow> int" where
  "double_trunc m e = (if 0 \<le> e then m * 2 ^ nat e else sgn m * (\<bar>m\<bar> div 2 ^ nat (- e)))"

definition time_of_double :: "double \<Rightarrow> ('a world_scheme, int) state" where
  "time_of_double d =
     (case d of Not_Finite \<Rightarrow> ub 0
      | Finite m e \<Rightarrow>
          if - (2 ^ 63) \<le> double_trunc m e \<and> double_trunc m e < 2 ^ 63 then ret (double_trunc m e) else ub 0)"

section \<open>The operations\<close>

record 'j cjson =
  cj_reader :: "'j cjson_reader"
  cj_writer :: "'j cjson_writer"
  cj_num :: "double \<Rightarrow> 'j"
  cj_double :: "'j \<Rightarrow> double option"

text \<open>\<^verbatim>\<open>cJSON_Add...ToObject\<close> with the result ignored: a failed call leaves the object as it was.\<close>

definition add_item :: "'j cjson \<Rightarrow> 'j \<Rightarrow> string \<Rightarrow> 'j \<Rightarrow> ('a world_scheme, 'j) state" where
  "add_item C obj key v = do {
     r \<leftarrow> guarded (Some (cj_add (cj_writer C) obj key v));
     ret (case r of None \<Rightarrow> obj | Some obj' \<Rightarrow> obj') }"

definition add_text :: "'j cjson \<Rightarrow> 'j \<Rightarrow> string \<Rightarrow> string option \<Rightarrow> ('a world_scheme, 'j) state" where
  "add_text C obj key v =
     (case v of None \<Rightarrow> ret obj | Some s \<Rightarrow> add_item C obj key (cj_str (cj_writer C) s))"

definition add_public_key :: "'j cjson \<Rightarrow> 'j \<Rightarrow> string option \<Rightarrow> ('a world_scheme, 'j) state" where
  "add_public_key C obj public_key =
     (case public_key of None \<Rightarrow> ret obj
      | Some k \<Rightarrow> do {
          jwk \<leftarrow> guarded (cj_parse (cj_reader C) k);
          case jwk of Some j \<Rightarrow> add_item C obj ''public_key'' j
          | None \<Rightarrow> add_text C obj ''public_key'' (Some k) })"

definition session_to_json :: "'j cjson \<Rightarrow> OpenDBSC_Session \<Rightarrow> ('a world_scheme, string option) state" where
  "session_to_json C session = do {
     obj \<leftarrow> guarded (Some (cj_object (cj_writer C)));
     case obj of None \<Rightarrow> ret None
     | Some obj \<Rightarrow> do {
         obj \<leftarrow> add_text C obj ''id'' (s_id session);
         obj \<leftarrow> add_text C obj ''user_id'' (s_user_id session);
         obj \<leftarrow> add_text C obj ''state'' (opendbsc_session_state_str (Some session));
         obj \<leftarrow> add_public_key C obj (s_public_key session);
         obj \<leftarrow> add_text C obj ''algorithm'' (s_algorithm session);
         obj \<leftarrow> add_text C obj ''challenge'' (s_challenge session);
         obj \<leftarrow> (if s_has_expires session
                then add_item C obj ''expires_at'' (cj_num C (double_of_int (s_expires_at session)))
                else ret obj);
         obj \<leftarrow> add_item C obj ''created_at'' (cj_num C (double_of_int (s_created_at session)));
         guarded (Some (cj_format (cj_writer C) obj)) } }"

text \<open>
  \<^verbatim>\<open>if (cJSON_IsString(x)) setter(session, x->valuestring)\<close>, with the setter's result ignored; the item
  is looked up under its key.
\<close>

definition read_text :: "'j cjson \<Rightarrow> 'j \<Rightarrow> string \<Rightarrow>
    (OpenDBSC_Session option \<Rightarrow> string option \<Rightarrow> ('a world_scheme, int \<times> OpenDBSC_Session option) state) \<Rightarrow>
    OpenDBSC_Session option \<Rightarrow> ('a world_scheme, OpenDBSC_Session option) state" where
  "read_text C obj key setter p =
     (case Option.bind (cj_get (cj_reader C) obj key) (cj_string (cj_reader C)) of
        None \<Rightarrow> ret p
      | Some v \<Rightarrow> do { (rc, p) \<leftarrow> setter p (Some v); ret p })"

definition read_public_key :: "'j cjson \<Rightarrow> 'j \<Rightarrow> OpenDBSC_Session option \<Rightarrow>
    ('a world_scheme, OpenDBSC_Session option) state" where
  "read_public_key C obj p =
     (case cj_get (cj_reader C) obj ''public_key'' of
        None \<Rightarrow> ret p
      | Some item \<Rightarrow>
          if cj_is_object (cj_reader C) item then do {
            jwk \<leftarrow> guarded (Some (cj_print (cj_reader C) item));
            (rc, p) \<leftarrow> opendbsc_session_set_public_key p jwk;
            ret p }
          else read_text C obj ''public_key'' opendbsc_session_set_public_key p)"

definition read_time :: "'j cjson \<Rightarrow> 'j \<Rightarrow> string \<Rightarrow>
    (OpenDBSC_Session option \<Rightarrow> int \<Rightarrow> OpenDBSC_Session option) \<Rightarrow>
    OpenDBSC_Session option \<Rightarrow> ('a world_scheme, OpenDBSC_Session option) state" where
  "read_time C obj key setter p =
     (case Option.bind (cj_get (cj_reader C) obj key) (cj_double C) of
        None \<Rightarrow> ret p
      | Some d \<Rightarrow> do { t \<leftarrow> time_of_double d; ret (setter p t) })"

definition session_from_json :: "'j cjson \<Rightarrow> string \<Rightarrow> OpenDBSC_Session option \<Rightarrow>
    ('a world_scheme, int \<times> OpenDBSC_Session option) state" where
  "session_from_json C json session = do {
     obj \<leftarrow> guarded (cj_parse (cj_reader C) json);
     case obj of None \<Rightarrow> ret (-1, session)
     | Some obj \<Rightarrow> do {
         let p = opendbsc_session_init session;
         p \<leftarrow> read_text C obj ''id'' opendbsc_session_set_id p;
         p \<leftarrow> read_text C obj ''user_id'' opendbsc_session_set_user_id p;
         p \<leftarrow> read_text C obj ''state'' (\<lambda>p v. ret (opendbsc_session_set_state_str p v)) p;
         p \<leftarrow> read_public_key C obj p;
         p \<leftarrow> read_text C obj ''algorithm'' opendbsc_session_set_algorithm p;
         p \<leftarrow> read_text C obj ''challenge'' opendbsc_session_set_challenge p;
         p \<leftarrow> read_time C obj ''expires_at'' opendbsc_session_set_expires_at p;
         p \<leftarrow> read_time C obj ''created_at'' opendbsc_session_set_created_at p;
         ret (0, p) } }"

section \<open>Times as doubles\<close>

lemma bit_length_le: "n < 2 ^ k \<Longrightarrow> bit_length n \<le> k"
proof (induction k arbitrary: n)
  case (Suc k)
  then have "n div 2 < 2 ^ k" by (simp add: less_mult_imp_div_less mult.commute)
  from Suc.IH [OF this] show ?case by (subst bit_length.simps) simp
qed (simp add: bit_length.simps)

lemma double_of_small: "\<bar>t\<bar> < 2 ^ 53 \<Longrightarrow> double_of_int t = Finite t 0"
proof -
  assume t: "\<bar>t\<bar> < 2 ^ 53"
  have "nat \<bar>t\<bar> < 2 ^ 53" using t by (simp add: nat_less_iff)
  then have "bit_length (nat \<bar>t\<bar>) - 53 = 0" using bit_length_le by simp
  then show ?thesis by (simp add: double_of_int_def Let_def round_half_even_def sgn_if)
qed

lemma time_of_small: "\<bar>t\<bar> < 2 ^ 53 \<Longrightarrow> time_of_double (double_of_int t) = ret t"
  by (auto simp: double_of_small time_of_double_def double_trunc_def)

section \<open>What a document says\<close>

definition field_text :: "'j cjson \<Rightarrow> 'j \<Rightarrow> string \<Rightarrow> string option" where
  "field_text C obj key = Option.bind (cj_get (cj_reader C) obj key) (cj_string (cj_reader C))"

definition field_time :: "'j cjson \<Rightarrow> 'j \<Rightarrow> string \<Rightarrow> int option" where
  "field_time C obj key =
     (case Option.bind (cj_get (cj_reader C) obj key) (cj_double C) of
        Some (Finite m e) \<Rightarrow> Some (double_trunc m e) | _ \<Rightarrow> None)"

definition read_session :: "'j cjson \<Rightarrow> 'j \<Rightarrow> OpenDBSC_Session" where
  "read_session C obj =
     \<lparr>s_id = field_text C obj ''id'', s_user_id = field_text C obj ''user_id'',
      s_state = (if field_text C obj ''state'' = Some OPENDBSC_STATE_BOUND_STR then BOUND else ACTIVE),
      s_public_key = (case cj_get (cj_reader C) obj ''public_key'' of None \<Rightarrow> None
        | Some item \<Rightarrow> if cj_is_object (cj_reader C) item then Some (cj_print (cj_reader C) item)
                       else cj_string (cj_reader C) item),
      s_algorithm = field_text C obj ''algorithm'', s_challenge = field_text C obj ''challenge'',
      s_expires_at = (case field_time C obj ''expires_at'' of None \<Rightarrow> 0 | Some t \<Rightarrow> t),
      s_has_expires = (case field_time C obj ''expires_at'' of None \<Rightarrow> False | Some t \<Rightarrow> t \<noteq> 0),
      s_created_at = (case field_time C obj ''created_at'' of None \<Rightarrow> 0 | Some t \<Rightarrow> t)\<rparr>"

text \<open>The numbers of the document are times.\<close>

definition times_fit :: "'j cjson \<Rightarrow> 'j \<Rightarrow> bool" where
  "times_fit C obj \<longleftrightarrow> (\<forall>key \<in> {''expires_at'', ''created_at''}.
     case Option.bind (cj_get (cj_reader C) obj key) (cj_double C) of
       None \<Rightarrow> True | Some Not_Finite \<Rightarrow> False
     | Some (Finite m e) \<Rightarrow> - (2 ^ 63) \<le> double_trunc m e \<and> double_trunc m e < 2 ^ 63)"

lemma returns_read_text:
  assumes "field_text C obj key = None \<Longrightarrow> r = s"
    and "\<And>v. field_text C obj key = Some v \<Longrightarrow> returns (setter (Some s) (Some v)) (rc, Some r)"
  shows "returns (read_text C obj key setter (Some s)) (Some r)"
proof (cases "field_text C obj key")
  case None
  with assms(1) show ?thesis by (simp add: read_text_def field_text_def returns_return)
next
  case (Some v)
  then have e: "read_text C obj key setter (Some s) = do { (rc, p) \<leftarrow> setter (Some s) (Some v); ret p }"
    by (simp add: read_text_def field_text_def)
  show ?thesis
    unfolding e by (rule returns_bind [OF assms(2) [OF Some]]) (simp add: returns_return)
qed

lemma returns_read_text_fields:
  "s_id s = None \<Longrightarrow>
   returns (read_text C obj ''id'' opendbsc_session_set_id (Some s)) (Some (s\<lparr>s_id := field_text C obj ''id''\<rparr>))"
  "s_user_id s = None \<Longrightarrow>
   returns (read_text C obj ''user_id'' opendbsc_session_set_user_id (Some s))
     (Some (s\<lparr>s_user_id := field_text C obj ''user_id''\<rparr>))"
  "s_algorithm s = None \<Longrightarrow>
   returns (read_text C obj ''algorithm'' opendbsc_session_set_algorithm (Some s))
     (Some (s\<lparr>s_algorithm := field_text C obj ''algorithm''\<rparr>))"
  "s_challenge s = None \<Longrightarrow>
   returns (read_text C obj ''challenge'' opendbsc_session_set_challenge (Some s))
     (Some (s\<lparr>s_challenge := field_text C obj ''challenge''\<rparr>))"
  by (rule returns_read_text [where rc = 0], simp, simp add: returns_session_setters)+

lemma returns_read_state:
  assumes "s_state s = ACTIVE"
  shows "returns (read_text C obj ''state'' (\<lambda>p v. ret (opendbsc_session_set_state_str p v)) (Some s))
     (Some (s\<lparr>s_state := (if field_text C obj ''state'' = Some OPENDBSC_STATE_BOUND_STR then BOUND else ACTIVE)\<rparr>))"
proof (cases "field_text C obj ''state''")
  case None
  with assms show ?thesis by (intro returns_read_text [where rc = 0]) auto
next
  case (Some v)
  with assms show ?thesis
    by (intro returns_read_text [where rc = "fst (opendbsc_session_set_state_str (Some s) (Some v))"])
       (auto simp: opendbsc_session_set_state_str_def OPENDBSC_STATE_ACTIVE_STR_def OPENDBSC_STATE_BOUND_STR_def
          intro!: returns_returnI)
qed

lemma returns_read_public_key:
  assumes "s_public_key s = None"
  shows "returns (read_public_key C obj (Some s)) (Some (s\<lparr>s_public_key :=
     (case cj_get (cj_reader C) obj ''public_key'' of None \<Rightarrow> None
      | Some item \<Rightarrow> if cj_is_object (cj_reader C) item then Some (cj_print (cj_reader C) item)
                     else cj_string (cj_reader C) item)\<rparr>))"
proof (cases "cj_get (cj_reader C) obj ''public_key''")
  case None
  with assms show ?thesis by (simp add: read_public_key_def returns_returnI)
next
  case (Some item)
  show ?thesis
  proof (cases "cj_is_object (cj_reader C) item")
    case True
    then show ?thesis
      unfolding read_public_key_def Some option.case
      by (auto intro!: returns_bind [OF returns_guarded] returns_bind [OF returns_session_setters(3)] returns_returnI)
  next
    case False
    then show ?thesis
      unfolding read_public_key_def Some option.case if_not_P [OF False]
      by (intro returns_read_text [where rc = 0]) (auto simp: field_text_def Some assms intro: returns_session_setters)
  qed
qed

lemma read_time_fits:
  assumes "times_fit C obj" and "key = ''expires_at'' \<or> key = ''created_at''"
  shows "read_time C obj key setter p = ret (case field_time C obj key of None \<Rightarrow> p | Some t \<Rightarrow> setter p t)"
  using assms by (auto simp: read_time_def field_time_def times_fit_def time_of_double_def
      split: option.splits double.splits)

text \<open>With memory a document is read as \<open>read_session\<close>.\<close>

lemma returns_session_from_json:
  assumes "cj_parse (cj_reader C) text' = Some obj" and "times_fit C obj"
  shows "returns (session_from_json C text' (Some s)) (0, Some (read_session C obj))"
  unfolding session_from_json_def assms(1)
  apply (rule returns_bind [OF returns_guarded])
  apply (simp only: option.case Let_def session_init_Some)
  apply (rule returns_bind [OF returns_read_text_fields(1)], simp)
  apply (rule returns_bind [OF returns_read_text_fields(2)], simp)
  apply (rule returns_bind [OF returns_read_state], simp)
  apply (rule returns_bind [OF returns_read_public_key], simp)
  apply (rule returns_bind [OF returns_read_text_fields(3)], simp)
  apply (rule returns_bind [OF returns_read_text_fields(4)], simp)
  apply (subst read_time_fits [OF assms(2)], simp)
  apply (rule returns_bind [OF returns_return])
  apply (subst read_time_fits [OF assms(2)], simp)
  apply (rule returns_bind [OF returns_return])
  apply (rule returns_returnI)
  apply (simp add: read_session_def opendbsc_session_set_expires_at_def opendbsc_session_set_created_at_def
      split: option.split)
  done

lemma framed_session_from_json_bad:
  "cj_parse (cj_reader C) text' = None \<Longrightarrow> framed (session_from_json C text' p) (\<lambda>r. r = (-1, p))"
  unfolding session_from_json_def
  by (rule framed_bind [OF framed_guarded]) (auto intro: framed_return)

section \<open>The round trip\<close>

text \<open>
  What is documented of cJSON. An added member does not replace one of the same name, and a lookup finds
  the first. Printing and parsing give back a document that is \<open>plain\<close>: built of strings without NUL and
  numbers that 15 digits represent, which \<^verbatim>\<open>cJSON_Print\<close> writes exactly.
\<close>

locale cjson_lib =
  fixes C :: "'j cjson" and plain :: "'j \<Rightarrow> bool"
  assumes get_object: "cj_get (cj_reader C) (cj_object (cj_writer C)) key = None"
    and object: "cj_is_object (cj_reader C) (cj_object (cj_writer C))"
    and object_add: "cj_is_object (cj_reader C) obj \<Longrightarrow> cj_is_object (cj_reader C) (cj_add (cj_writer C) obj key v)"
    and get_add: "cj_is_object (cj_reader C) obj \<Longrightarrow>
      cj_get (cj_reader C) (cj_add (cj_writer C) obj key v) key' =
        (if key' = key \<and> cj_get (cj_reader C) obj key = None then Some v else cj_get (cj_reader C) obj key')"
    and string_str: "cj_string (cj_reader C) (cj_str (cj_writer C) t) = Some t"
    and str_no_object: "\<not> cj_is_object (cj_reader C) (cj_str (cj_writer C) t)"
    and double_num: "cj_double C (cj_num C d) = Some d"
    and plain_object: "plain (cj_object (cj_writer C))"
    and plain_add: "plain obj \<Longrightarrow> plain v \<Longrightarrow> CHR 0x00 \<notin> set key \<Longrightarrow> plain (cj_add (cj_writer C) obj key v)"
    and plain_str: "CHR 0x00 \<notin> set t \<Longrightarrow> plain (cj_str (cj_writer C) t)"
    and plain_num: "\<bar>n\<bar> < 10 ^ 15 \<Longrightarrow> plain (cj_num C (double_of_int n))"
    and parse_format: "plain j \<Longrightarrow> cj_parse (cj_reader C) (cj_format (cj_writer C) j) = Some j"
    and format_no_nul: "CHR 0x00 \<notin> set (cj_format (cj_writer C) j)"
    and print_format: "cj_print (cj_reader C) = cj_format (cj_writer C)"

text \<open>
  The sessions that survive: texts of C, a key that is no JSON or the printed form of a plain object,
  times of at most 15 digits, and no expiry hidden behind a cleared flag.
\<close>

definition key_storable :: "'j cjson \<Rightarrow> ('j \<Rightarrow> bool) \<Rightarrow> string \<Rightarrow> bool" where
  "key_storable C plain k \<longleftrightarrow> CHR 0x00 \<notin> set k \<and>
     (case cj_parse (cj_reader C) k of None \<Rightarrow> True
      | Some j \<Rightarrow> cj_is_object (cj_reader C) j \<and> plain j \<and> cj_print (cj_reader C) j = k)"

definition json_storable :: "'j cjson \<Rightarrow> ('j \<Rightarrow> bool) \<Rightarrow> OpenDBSC_Session \<Rightarrow> bool" where
  "json_storable C plain s \<longleftrightarrow>
     (\<forall>v \<in> {s_id s, s_user_id s, s_algorithm s, s_challenge s}. CHR 0x00 \<notin> set (str_of v)) \<and>
     (\<forall>k. s_public_key s = Some k \<longrightarrow> key_storable C plain k) \<and>
     \<bar>s_expires_at s\<bar> < 10 ^ 15 \<and> \<bar>s_created_at s\<bar> < 10 ^ 15 \<and> (s_has_expires s \<longleftrightarrow> s_expires_at s \<noteq> 0)"

definition key_item :: "'j cjson \<Rightarrow> string \<Rightarrow> 'j" where
  "key_item C k = (case cj_parse (cj_reader C) k of None \<Rightarrow> cj_str (cj_writer C) k | Some j \<Rightarrow> j)"

definition put_item :: "'j cjson \<Rightarrow> string \<Rightarrow> 'j option \<Rightarrow> 'j \<Rightarrow> 'j" where
  "put_item C key v obj = (case v of None \<Rightarrow> obj | Some x \<Rightarrow> cj_add (cj_writer C) obj key x)"

definition session_object :: "'j cjson \<Rightarrow> OpenDBSC_Session \<Rightarrow> 'j" where
  "session_object C s =
     put_item C ''created_at'' (Some (cj_num C (double_of_int (s_created_at s))))
     (put_item C ''expires_at'' (if s_has_expires s then Some (cj_num C (double_of_int (s_expires_at s))) else None)
     (put_item C ''challenge'' (map_option (cj_str (cj_writer C)) (s_challenge s))
     (put_item C ''algorithm'' (map_option (cj_str (cj_writer C)) (s_algorithm s))
     (put_item C ''public_key'' (map_option (key_item C) (s_public_key s))
     (put_item C ''state'' (map_option (cj_str (cj_writer C)) (opendbsc_session_state_str (Some s)))
     (put_item C ''user_id'' (map_option (cj_str (cj_writer C)) (s_user_id s))
     (put_item C ''id'' (map_option (cj_str (cj_writer C)) (s_id s)) (cj_object (cj_writer C)))))))))"

definition session_text :: "'j cjson \<Rightarrow> OpenDBSC_Session \<Rightarrow> string" where
  "session_text C s = cj_format (cj_writer C) (session_object C s)"

lemma returns_add_item: "returns (add_item C obj key v) (put_item C key (Some v) obj)"
  unfolding add_item_def by (rule returns_bind [OF returns_guarded]) (simp add: put_item_def returns_return)

lemma returns_add_text: "returns (add_text C obj key v) (put_item C key (map_option (cj_str (cj_writer C)) v) obj)"
  by (cases v) (simp_all add: add_text_def returns_add_item, simp add: put_item_def returns_return)

lemma returns_add_public_key:
  "returns (add_public_key C obj k) (put_item C ''public_key'' (map_option (key_item C) k) obj)"
proof (cases k)
  case None
  then show ?thesis by (simp add: add_public_key_def put_item_def returns_return)
next
  case (Some t)
  have "returns (case cj_parse (cj_reader C) t of Some j \<Rightarrow> add_item C obj ''public_key'' j
      | None \<Rightarrow> add_text C obj ''public_key'' (Some t)) (put_item C ''public_key'' (Some (key_item C t)) obj)"
    using returns_add_text [of C obj "''public_key''" "Some t"]
    by (cases "cj_parse (cj_reader C) t") (auto simp: key_item_def returns_add_item)
  with Some show ?thesis
    unfolding add_public_key_def by (auto intro: returns_bind [OF returns_guarded])
qed

lemma returns_session_to_json: "returns (session_to_json C s) (Some (session_text C s))"
proof -
  have e: "returns (if s_has_expires s then add_item C obj ''expires_at'' (cj_num C (double_of_int (s_expires_at s)))
      else ret obj) (put_item C ''expires_at''
        (if s_has_expires s then Some (cj_num C (double_of_int (s_expires_at s))) else None) obj)" for obj
    using returns_add_item by (auto simp: put_item_def [of C _ None] intro: returns_return)
  show ?thesis
    unfolding session_to_json_def session_text_def session_object_def
    apply (rule returns_bind [OF returns_guarded], simp only: option.case)
    apply (rule returns_bind [OF returns_add_text])+
    apply (rule returns_bind [OF returns_add_public_key])
    apply (rule returns_bind [OF returns_add_text])+
    apply (rule returns_bind [OF e], rule returns_bind [OF returns_add_item], rule returns_guarded)
    done
qed

context cjson_lib
begin

lemma object_put: "cj_is_object (cj_reader C) obj \<Longrightarrow> cj_is_object (cj_reader C) (put_item C key v obj)"
  by (simp add: put_item_def object_add split: option.split)

lemma get_put:
  "cj_is_object (cj_reader C) obj \<Longrightarrow> cj_get (cj_reader C) (put_item C key v obj) key' =
     (if key' = key \<and> cj_get (cj_reader C) obj key = None \<and> v \<noteq> None then v else cj_get (cj_reader C) obj key')"
  by (auto simp: put_item_def get_add split: option.split)

lemma plain_put:
  "plain obj \<Longrightarrow> CHR 0x00 \<notin> set key \<Longrightarrow> (\<And>x. v = Some x \<Longrightarrow> plain x) \<Longrightarrow> plain (put_item C key v obj)"
  by (simp add: put_item_def plain_add split: option.split)

lemma object_not_string: "cj_is_object (cj_reader C) (cj_str (cj_writer C) t) = False"
  by (simp add: str_no_object)

lemma plain_key: "key_storable C plain k \<Longrightarrow> plain (key_item C k)"
  by (auto simp: key_storable_def key_item_def plain_str split: option.splits)

lemma plain_session: "json_storable C plain s \<Longrightarrow> plain (session_object C s)"
  unfolding session_object_def
  by (intro plain_put plain_object)
     (auto simp: json_storable_def opendbsc_session_state_str_def OPENDBSC_STATE_ACTIVE_STR_def
        OPENDBSC_STATE_BOUND_STR_def intro: plain_str plain_num plain_key
        split: if_splits OpenDBSC_SessionState.splits)

lemma session_gets:
  "cj_get (cj_reader C) (session_object C s) ''id'' = map_option (cj_str (cj_writer C)) (s_id s)"
  "cj_get (cj_reader C) (session_object C s) ''user_id'' = map_option (cj_str (cj_writer C)) (s_user_id s)"
  "cj_get (cj_reader C) (session_object C s) ''state'' =
     map_option (cj_str (cj_writer C)) (opendbsc_session_state_str (Some s))"
  "cj_get (cj_reader C) (session_object C s) ''public_key'' = map_option (key_item C) (s_public_key s)"
  "cj_get (cj_reader C) (session_object C s) ''algorithm'' = map_option (cj_str (cj_writer C)) (s_algorithm s)"
  "cj_get (cj_reader C) (session_object C s) ''challenge'' = map_option (cj_str (cj_writer C)) (s_challenge s)"
  "cj_get (cj_reader C) (session_object C s) ''expires_at'' =
     (if s_has_expires s then Some (cj_num C (double_of_int (s_expires_at s))) else None)"
  "cj_get (cj_reader C) (session_object C s) ''created_at'' = Some (cj_num C (double_of_int (s_created_at s)))"
  unfolding session_object_def by (simp_all add: get_put object_put object get_object)

lemma fits_session: "json_storable C plain s \<Longrightarrow> times_fit C (session_object C s)"
  by (auto simp: times_fit_def session_gets double_num json_storable_def double_of_small double_trunc_def)

lemma field_time_num: "\<bar>t\<bar> < 10 ^ 15 \<Longrightarrow> cj_get (cj_reader C) obj key = Some (cj_num C (double_of_int t)) \<Longrightarrow>
    field_time C obj key = Some t"
  by (simp add: field_time_def double_num double_of_small double_trunc_def)

lemma field_text_str: "cj_get (cj_reader C) obj key = map_option (cj_str (cj_writer C)) v \<Longrightarrow> field_text C obj key = v"
  by (cases v) (simp_all add: field_text_def string_str)

lemma read_session_object: "json_storable C plain s \<Longrightarrow> read_session C (session_object C s) = s"
proof -
  assume s: "json_storable C plain s"
  then have t: "\<bar>s_expires_at s\<bar> < 10 ^ 15" "\<bar>s_created_at s\<bar> < 10 ^ 15" "s_has_expires s \<longleftrightarrow> s_expires_at s \<noteq> 0"
    by (simp_all add: json_storable_def)
  have e: "field_time C (session_object C s) ''expires_at'' = (if s_has_expires s then Some (s_expires_at s) else None)"
    using t(1) by (simp add: field_time_def session_gets(7) double_num double_of_small double_trunc_def)
  have "(case cj_get (cj_reader C) (session_object C s) ''public_key'' of None \<Rightarrow> None
        | Some item \<Rightarrow> if cj_is_object (cj_reader C) item then Some (cj_print (cj_reader C) item)
                       else cj_string (cj_reader C) item) = s_public_key s"
    using s by (auto simp: session_gets key_item_def json_storable_def key_storable_def string_str object_not_string
        split: option.splits)
  moreover have "(if field_text C (session_object C s) ''state'' = Some OPENDBSC_STATE_BOUND_STR then BOUND else ACTIVE) = s_state s"
    by (simp add: field_text_str [OF session_gets(3)] opendbsc_session_state_str_def OPENDBSC_STATE_ACTIVE_STR_def
        OPENDBSC_STATE_BOUND_STR_def split: OpenDBSC_SessionState.split)
  ultimately show ?thesis
    unfolding read_session_def
    using t(3) by (simp add: e field_text_str [OF session_gets(1)] field_text_str [OF session_gets(2)]
        field_text_str [OF session_gets(5)] field_text_str [OF session_gets(6)]
        field_time_num [OF t(2) session_gets(8)])
qed

lemma parse_session: "json_storable C plain s \<Longrightarrow> cj_parse (cj_reader C) (session_text C s) = Some (session_object C s)"
  by (simp add: session_text_def parse_format plain_session)

text \<open>With memory a stored session is read back unchanged.\<close>

lemma returns_session_back:
  "json_storable C plain s \<Longrightarrow> returns (session_from_json C (session_text C s) (Some p)) (0, Some s)"
  using returns_session_from_json [OF parse_session fits_session] by (simp add: read_session_object)

lemma session_text_no_nul: "cstr (session_text C s) = session_text C s"
  by (simp add: session_text_def format_no_nul)

lemma session_text_inject:
  "json_storable C plain s \<Longrightarrow> json_storable C plain s' \<Longrightarrow> session_text C s = session_text C s' \<Longrightarrow> s = s'"
  by (metis parse_session read_session_object option.inject)

end

end
