(* ===== verification/Redis_Store.thy ===== *)
theory Redis_Store
  imports Session_Json Store
begin

text \<open>
  The Redis store, \<^verbatim>\<open>src/store/redis.c\<close>. The hiredis library and the server behind it are a parameter:
  a function from the arguments of a command and the state of the connection to a reply, NULL when there
  is none. \<^verbatim>\<open>redis_get\<close> and \<^verbatim>\<open>redis_delete\<close> call each other, so the model counts the nested calls of
  \<^verbatim>\<open>redis_get\<close> the C stack has room for; a call beyond them overflows the stack, which is undefined.

  The locale \<open>redis_server\<close> states what Redis documents of a server that answers, which may drop a
  key with a time to live at any moment. The specifications say what each operation does to the map of
  sessions and to the index of the users.
\<close>

section \<open>The library\<close>

datatype redisReply = REDIS_REPLY_STRING string | REDIS_REPLY_ARRAY "redisReply list"
  | REDIS_REPLY_INTEGER int | REDIS_REPLY_NIL | REDIS_REPLY_STATUS string | REDIS_REPLY_ERROR string

text \<open>\<open>redisConnect\<close> answers NULL or the error flag of the context and the context.\<close>

record 'd hiredis =
  redisConnect :: "string \<Rightarrow> int \<Rightarrow> (bool \<times> 'd) option"
  redisCommand :: "string list \<Rightarrow> 'd \<Rightarrow> redisReply option \<times> 'd"
  redisFree :: "'d \<Rightarrow> unit \<times> 'd"

section \<open>Operations\<close>

definition OPENDBSC_REDIS_DEFAULT_HOST :: string where
  "OPENDBSC_REDIS_DEFAULT_HOST = ''127.0.0.1''"

definition OPENDBSC_REDIS_DEFAULT_PORT :: int where
  "OPENDBSC_REDIS_DEFAULT_PORT = 6379"

definition OPENDBSC_REDIS_DEFAULT_PREFIX :: string where
  "OPENDBSC_REDIS_DEFAULT_PREFIX = ''dbsc''"

record 'd OpenDBSC_RedisCtx =
  rx_ctx :: 'd
  rx_prefix :: string

record OpenDBSC_RedisConfig =
  rd_host :: "string option"
  rd_port :: int
  rd_prefix :: "string option"

definition send_command :: "'d hiredis \<Rightarrow> string list \<Rightarrow> ('d OpenDBSC_RedisCtx sys, redisReply option) state" where
  "send_command R argv =
     on_impl (\<lambda>x. case redisCommand R argv (rx_ctx x) of (r, d) \<Rightarrow> (r, x\<lparr>rx_ctx := d\<rparr>))"

definition redis_session_key :: "string \<Rightarrow> ('d OpenDBSC_RedisCtx sys, string option) state" where
  "redis_session_key sid = do { rctx \<leftarrow> get_impl; malloc_str (rx_prefix rctx @ '':session:'' @ sid) }"

definition redis_user_key :: "string option \<Rightarrow> ('d OpenDBSC_RedisCtx sys, string option) state" where
  "redis_user_key user_id = do {
     rctx \<leftarrow> get_impl;
     u \<leftarrow> str_arg user_id;
     malloc_str (rx_prefix rctx @ '':user:'' @ u) }"

definition redis_is_expired :: "OpenDBSC_Session option \<Rightarrow> ('a world_scheme, bool) state" where
  "redis_is_expired session =
     (case session of None \<Rightarrow> ret False
      | Some s \<Rightarrow> if \<not> s_has_expires s then ret False
                  else do { now \<leftarrow> time_now; ret (s_expires_at s < now) })"

definition reply_failed :: "redisReply option \<Rightarrow> bool" where
  "reply_failed reply = (case reply of None \<Rightarrow> True | Some (REDIS_REPLY_ERROR e) \<Rightarrow> True | _ \<Rightarrow> False)"

definition redis_set :: "'d hiredis \<Rightarrow> OpenDBSC_Session \<Rightarrow> string \<Rightarrow> string \<Rightarrow>
    ('d OpenDBSC_RedisCtx sys, redisReply option) state" where
  "redis_set R s json skey =
     (if s_has_expires s then do {
        now \<leftarrow> time_now;
        let ttl = s_expires_at s - now;
        let ttl = (if ttl \<le> 0 then 1 else ttl);
        send_command R [''SET'', skey, json, ''EX'', print_int ttl] }
      else send_command R [''SET'', skey, json])"

text \<open>The two commands of a creation.\<close>

definition redis_file :: "'d hiredis \<Rightarrow> OpenDBSC_Session \<Rightarrow> string \<Rightarrow> string \<Rightarrow> string \<Rightarrow> string \<Rightarrow>
    ('d OpenDBSC_RedisCtx sys, int) state" where
  "redis_file R s i json skey ukey = do {
     reply \<leftarrow> redis_set R s json skey;
     if reply_failed reply then ret (-1)
     else do {
       reply \<leftarrow> send_command R [''SADD'', ukey, i];
       ret (if reply_failed reply then -1 else 0) } }"

definition redis_create :: "'d hiredis \<Rightarrow> 'j cjson \<Rightarrow> OpenDBSC_Session option \<Rightarrow>
    ('d OpenDBSC_RedisCtx sys, int) state" where
  "redis_create R C session =
     (case session of None \<Rightarrow> ret (-1)
      | Some s \<Rightarrow> (case s_id s of None \<Rightarrow> ret (-1)
        | Some i \<Rightarrow> do {
            json \<leftarrow> session_to_json C s;
            case json of None \<Rightarrow> ret (-1)
            | Some json \<Rightarrow> do {
                skey \<leftarrow> redis_session_key i;
                ukey \<leftarrow> redis_user_key (s_user_id s);
                case (skey, ukey) of (Some skey, Some ukey) \<Rightarrow> redis_file R s i json skey ukey
                | _ \<Rightarrow> ret (-1) } }))"

text \<open>The deletion, over the lookup it calls.\<close>

definition redis_delete :: "'d hiredis \<Rightarrow>
    (string option \<Rightarrow> ('d OpenDBSC_RedisCtx sys, int \<times> OpenDBSC_Session option) state) \<Rightarrow>
    string option \<Rightarrow> ('d OpenDBSC_RedisCtx sys, int) state" where
  "redis_delete R get sid =
     (case sid of None \<Rightarrow> ret (-1)
      | Some i \<Rightarrow> do {
          (rc, session) \<leftarrow> get (Some i);
          ukey \<leftarrow> (if rc = 0
                   then (case session of None \<Rightarrow> ub None | Some s \<Rightarrow> redis_user_key (s_user_id s))
                   else ret None);
          skey \<leftarrow> redis_session_key i;
          case skey of None \<Rightarrow> ret (-1)
          | Some skey \<Rightarrow> do {
              _ \<leftarrow> send_command R [''DEL'', skey];
              case ukey of None \<Rightarrow> ret 0
              | Some ukey \<Rightarrow> do { _ \<leftarrow> send_command R [''SREM'', ukey, i]; ret 0 } } })"

text \<open>What a lookup does with the reply, over the deletion of an expired session.\<close>

definition redis_accept :: "'j cjson \<Rightarrow> ('d OpenDBSC_RedisCtx sys, int) state \<Rightarrow> redisReply option \<Rightarrow>
    ('d OpenDBSC_RedisCtx sys, int \<times> OpenDBSC_Session option) state" where
  "redis_accept C delete reply =
     (case reply of
        Some (REDIS_REPLY_STRING str) \<Rightarrow> do {
          ok \<leftarrow> alloc;
          if \<not> ok then ret (-1, None)
          else do {
            (rc, session) \<leftarrow> session_from_json C (cstr str) (Some session_defaults);
            if rc \<noteq> 0 then ret (-1, None)
            else do {
              expired \<leftarrow> redis_is_expired session;
              if expired then do { _ \<leftarrow> delete; ret (-1, None) }
              else ret (0, session) } } }
      | _ \<Rightarrow> ret (-1, None))"

text \<open>\<open>depth\<close> is the number of nested calls the stack has room for.\<close>

primrec redis_get :: "'d hiredis \<Rightarrow> 'j cjson \<Rightarrow> nat \<Rightarrow> string option \<Rightarrow>
    ('d OpenDBSC_RedisCtx sys, int \<times> OpenDBSC_Session option) state" where
  "redis_get R C 0 = (\<lambda>sid. ub (-1, None))"
| "redis_get R C (Suc depth) = (\<lambda>sid.
     case sid of None \<Rightarrow> ret (-1, None)
     | Some i \<Rightarrow> do {
         skey \<leftarrow> redis_session_key i;
         case skey of None \<Rightarrow> ret (-1, None)
         | Some skey \<Rightarrow> do {
             reply \<leftarrow> send_command R [''GET'', skey];
             redis_accept C (redis_delete R (redis_get R C depth) (Some i)) reply } })"

definition redis_update :: "'d hiredis \<Rightarrow> 'j cjson \<Rightarrow> nat \<Rightarrow> OpenDBSC_Session option \<Rightarrow>
    ('d OpenDBSC_RedisCtx sys, int) state" where
  "redis_update R C depth session =
     (case session of None \<Rightarrow> ret (-1)
      | Some s \<Rightarrow>
          if s_id s = None then ret (-1)
          else do {
            (rc, existing) \<leftarrow> redis_get R C depth (s_id s);
            if rc \<noteq> 0 then ret (-1) else redis_create R C session })"

text \<open>
  The loop over the members of a user's set; \<open>None\<close> when an allocation fails. The other kinds of elements
  are skipped, as are the identifiers without a session.
\<close>

fun redis_members :: "'d hiredis \<Rightarrow> 'j cjson \<Rightarrow> nat \<Rightarrow> redisReply list \<Rightarrow> OpenDBSC_Session list \<Rightarrow>
    ('d OpenDBSC_RedisCtx sys, OpenDBSC_Session list option) state" where
  "redis_members R C depth [] sessions = ret (Some sessions)"
| "redis_members R C depth (REDIS_REPLY_STRING str # es) sessions = do {
     (rc, session) \<leftarrow> redis_get R C depth (Some (cstr str));
     if rc \<noteq> 0 then redis_members R C depth es sessions
     else do {
       ok \<leftarrow> alloc;
       if \<not> ok then ret None
       else (case session of None \<Rightarrow> ub None
         | Some s \<Rightarrow> redis_members R C depth es (sessions @ [s])) } }"
| "redis_members R C depth (_ # es) sessions = redis_members R C depth es sessions"

definition redis_get_by_user_id :: "'d hiredis \<Rightarrow> 'j cjson \<Rightarrow> nat \<Rightarrow> string option \<Rightarrow>
    ('d OpenDBSC_RedisCtx sys, int \<times> OpenDBSC_Session list) state" where
  "redis_get_by_user_id R C depth user_id =
     (case user_id of None \<Rightarrow> ret (-1, [])
      | Some u \<Rightarrow> do {
          ukey \<leftarrow> redis_user_key (Some u);
          case ukey of None \<Rightarrow> ret (-1, [])
          | Some ukey \<Rightarrow> do {
              reply \<leftarrow> send_command R [''SMEMBERS'', ukey];
              case reply of
                Some REDIS_REPLY_NIL \<Rightarrow> ret (0, [])
              | Some (REDIS_REPLY_ARRAY elements) \<Rightarrow> do {
                  sessions \<leftarrow> redis_members R C depth elements [];
                  case sessions of None \<Rightarrow> ret (-1, []) | Some xs \<Rightarrow> ret (0, xs) }
              | _ \<Rightarrow> ret (-1, []) } })"

fun redis_delete_all :: "'d hiredis \<Rightarrow> 'j cjson \<Rightarrow> nat \<Rightarrow> OpenDBSC_Session list \<Rightarrow>
    ('d OpenDBSC_RedisCtx sys, unit) state" where
  "redis_delete_all R C depth [] = ret ()"
| "redis_delete_all R C depth (s # ss) = do {
     _ \<leftarrow> redis_delete R (redis_get R C depth) (s_id s);
     redis_delete_all R C depth ss }"

definition redis_delete_by_user_id :: "'d hiredis \<Rightarrow> 'j cjson \<Rightarrow> nat \<Rightarrow> string option \<Rightarrow>
    ('d OpenDBSC_RedisCtx sys, int) state" where
  "redis_delete_by_user_id R C depth user_id =
     (case user_id of None \<Rightarrow> ret (-1)
      | Some u \<Rightarrow> do {
          (rc, sessions) \<leftarrow> redis_get_by_user_id R C depth (Some u);
          if rc \<noteq> 0 then ret (-1)
          else do {
            redis_delete_all R C depth sessions;
            ukey \<leftarrow> redis_user_key (Some u);
            case ukey of None \<Rightarrow> ret 0
            | Some ukey \<Rightarrow> do { _ \<leftarrow> send_command R [''DEL'', ukey]; ret 0 } } })"

definition redis_free_sessions :: "OpenDBSC_Session list \<Rightarrow> ('d OpenDBSC_RedisCtx sys, unit) state" where
  "redis_free_sessions sessions = ret ()"

definition redis_destroy :: "'d hiredis \<Rightarrow> ('d OpenDBSC_RedisCtx sys, unit) state" where
  "redis_destroy R =
     on_impl (\<lambda>x. case redisFree R (rx_ctx x) of (r, d) \<Rightarrow> (r, x\<lparr>rx_ctx := d\<rparr>))"

definition redis_store_vtable :: "'d hiredis \<Rightarrow> 'j cjson \<Rightarrow> nat \<Rightarrow> 'd OpenDBSC_RedisCtx OpenDBSC_Store" where
  "redis_store_vtable R C depth = \<lparr>st_create = redis_create R C, st_get = redis_get R C depth,
     st_update = redis_update R C depth, st_delete = redis_delete R (redis_get R C depth),
     st_get_by_user_id = redis_get_by_user_id R C depth,
     st_delete_by_user_id = redis_delete_by_user_id R C depth,
     st_free_sessions = redis_free_sessions, st_destroy = redis_destroy R\<rparr>"

text \<open>The contexts released on the failing paths are not looked at again.\<close>

definition opendbsc_redis_store_create :: "'d hiredis \<Rightarrow> 'j cjson \<Rightarrow> nat \<Rightarrow> OpenDBSC_RedisConfig option \<Rightarrow>
    ('a world_scheme, ('d OpenDBSC_RedisCtx \<times> 'd OpenDBSC_RedisCtx OpenDBSC_Store) option) state" where
  "opendbsc_redis_store_create R C depth config =
     (let host = (case Option.bind config rd_host of None \<Rightarrow> OPENDBSC_REDIS_DEFAULT_HOST | Some h \<Rightarrow> h);
          port = (case config of None \<Rightarrow> OPENDBSC_REDIS_DEFAULT_PORT
                  | Some c \<Rightarrow> if rd_port c \<noteq> 0 then rd_port c else OPENDBSC_REDIS_DEFAULT_PORT);
          prefix = (case Option.bind config rd_prefix of None \<Rightarrow> OPENDBSC_REDIS_DEFAULT_PREFIX | Some p \<Rightarrow> p)
      in case redisConnect R host port of
           None \<Rightarrow> ret None
         | Some (err, ctx) \<Rightarrow>
             if err then ret None
             else do {
               ok \<leftarrow> alloc;
               if \<not> ok then ret None
               else do {
                 copy \<leftarrow> strdup prefix;
                 case copy of None \<Rightarrow> ret None
                 | Some p \<Rightarrow> do {
                     ok \<leftarrow> alloc;
                     if \<not> ok then ret None
                     else ret (Some (\<lparr>rx_ctx = ctx, rx_prefix = p\<rparr>, redis_store_vtable R C depth)) } } })"

section \<open>The abstract state\<close>

text \<open>
  \<open>strs\<close> and \<open>sets\<close> are the string keys and the set keys of a server. The sessions are the documents under
  the session keys; the index gives the members of a user's set.
\<close>

definition session_key :: "'d OpenDBSC_RedisCtx \<Rightarrow> string \<Rightarrow> string" where
  "session_key x i = rx_prefix x @ '':session:'' @ i"

definition user_key :: "'d OpenDBSC_RedisCtx \<Rightarrow> string \<Rightarrow> string" where
  "user_key x u = rx_prefix x @ '':user:'' @ u"

definition redis_view :: "'j cjson \<Rightarrow> ('d \<Rightarrow> string \<Rightarrow> string option) \<Rightarrow> 'd OpenDBSC_RedisCtx \<Rightarrow>
    string \<Rightarrow> OpenDBSC_Session option" where
  "redis_view C strs x i =
     (case strs (rx_ctx x) (session_key x i) of None \<Rightarrow> None
      | Some t \<Rightarrow> map_option (read_session C) (cj_parse (cj_reader C) t))"

definition redis_index :: "('d \<Rightarrow> string \<Rightarrow> string set) \<Rightarrow> 'd OpenDBSC_RedisCtx \<Rightarrow> string \<Rightarrow> string set" where
  "redis_index sets x u = sets (rx_ctx x) (user_key x u)"

text \<open>\<open>fades m m'\<close>: some sessions with an expiry are gone.\<close>

definition fades :: "(string \<Rightarrow> OpenDBSC_Session option) \<Rightarrow> (string \<Rightarrow> OpenDBSC_Session option) \<Rightarrow> bool" where
  "fades m m' \<longleftrightarrow> (\<forall>i. m' i = m i \<or> m' i = None \<and> (\<exists>s. m i = Some s \<and> s_has_expires s))"

lemma fades_refl [simp, intro!]: "fades m m"
  by (simp add: fades_def)

lemma fades_trans [trans]: "fades m m' \<Longrightarrow> fades m' m'' \<Longrightarrow> fades m m''"
  unfolding fades_def by (metis option.distinct(1))

lemma fades_upd: "fades m m' \<Longrightarrow> fades (m(i := x)) (m'(i := x))"
  by (simp add: fades_def)

lemma fades_Some: "fades m m' \<Longrightarrow> m' i = Some s \<Longrightarrow> m i = Some s"
  unfolding fades_def by (metis option.distinct(1))

lemma fades_None: "fades m m' \<Longrightarrow> m i = None \<Longrightarrow> m' i = None"
  unfolding fades_def by (metis option.distinct(1))

lemma key_inject [simp]:
  "session_key x i = session_key x j \<longleftrightarrow> i = j" "user_key x u = user_key x v \<longleftrightarrow> u = v"
  "session_key x i \<noteq> user_key x u" "user_key x u \<noteq> session_key x i"
  by (simp_all add: session_key_def user_key_def)

lemma ctx_sel: "rx_ctx (x\<lparr>rx_ctx := d\<rparr>) = d" "rx_prefix (x\<lparr>rx_ctx := d\<rparr>) = rx_prefix x"
  by simp_all

lemma key_ctx [simp]: "session_key (x\<lparr>rx_ctx := d\<rparr>) = session_key x" "user_key (x\<lparr>rx_ctx := d\<rparr>) = user_key x"
  by (simp_all add: session_key_def user_key_def fun_eq_iff)

text \<open>
  A session in the store can be read back, is filed under its identifier and, unless the identifier is
  in \<open>E\<close>, listed in the set of its user; a key with a time to live holds a session with an expiry.
\<close>

definition redis_wf_but :: "'j cjson \<Rightarrow> ('j \<Rightarrow> bool) \<Rightarrow> ('d \<Rightarrow> string \<Rightarrow> string option) \<Rightarrow>
    ('d \<Rightarrow> string \<Rightarrow> string set) \<Rightarrow> ('d \<Rightarrow> string set) \<Rightarrow> string set \<Rightarrow> 'd OpenDBSC_RedisCtx \<Rightarrow> bool" where
  "redis_wf_but C plain strs sets volatile E x \<longleftrightarrow>
     (\<forall>i t. strs (rx_ctx x) (session_key x i) = Some t \<longrightarrow>
        (\<exists>s u. t = session_text C s \<and> json_storable C plain s \<and> s_id s = Some i \<and> s_user_id s = Some u \<and>
           (i \<in> redis_index sets x u \<or> i \<in> E) \<and>
           (session_key x i \<in> volatile (rx_ctx x) \<longrightarrow> s_has_expires s))) \<and>
     (\<forall>i. sets (rx_ctx x) (session_key x i) = {}) \<and>
     (\<forall>u. strs (rx_ctx x) (user_key x u) = None) \<and>
     (\<forall>u. \<forall>m \<in> redis_index sets x u. CHR 0x00 \<notin> set m)"

abbreviation redis_wf :: "'j cjson \<Rightarrow> ('j \<Rightarrow> bool) \<Rightarrow> ('d \<Rightarrow> string \<Rightarrow> string option) \<Rightarrow>
    ('d \<Rightarrow> string \<Rightarrow> string set) \<Rightarrow> ('d \<Rightarrow> string set) \<Rightarrow> 'd OpenDBSC_RedisCtx \<Rightarrow> bool" where
  "redis_wf C plain strs sets volatile \<equiv> redis_wf_but C plain strs sets volatile {}"

text \<open>
  \<open>timely m w\<close>: the clock, from now on, reads no negative time and no session of \<open>m\<close> past its expiry.
\<close>

definition timely :: "(string \<Rightarrow> OpenDBSC_Session option) \<Rightarrow> 'a world_scheme \<Rightarrow> bool" where
  "timely m w \<longleftrightarrow> (\<forall>n \<ge> clock_reads w. 0 \<le> wall_clock w n \<and>
     (\<forall>i s. m i = Some s \<longrightarrow> s_has_expires s \<longrightarrow> wall_clock w n \<le> s_expires_at s))"

lemma timely_mono: "timely m w \<Longrightarrow> fades m m' \<Longrightarrow> oframe w v \<Longrightarrow> timely m' v"
  by (auto simp: timely_def oframe_def dest: fades_Some intro: order_trans)

text \<open>The user's set without an identifier that has been found to be his.\<close>

definition unlist :: "OpenDBSC_Session option \<Rightarrow> string \<Rightarrow> (string \<Rightarrow> string set) \<Rightarrow> string \<Rightarrow> string set" where
  "unlist p i ix = (case Option.bind p s_user_id of None \<Rightarrow> ix | Some u \<Rightarrow> ix(u := ix u - {i}))"

text \<open>
  \<open>listed m m' X out\<close>: \<open>out\<close> holds the sessions of \<open>X\<close>, each once, that the store held throughout, from
  \<open>m\<close> to \<open>m'\<close>, and only sessions it held at the start.
\<close>

definition listed :: "(string \<Rightarrow> OpenDBSC_Session option) \<Rightarrow> (string \<Rightarrow> OpenDBSC_Session option) \<Rightarrow> string set \<Rightarrow>
    OpenDBSC_Session list \<Rightarrow> bool" where
  "listed m m' X out \<longleftrightarrow> (\<forall>s \<in> set out. \<exists>i \<in> X. s_id s = Some i \<and> m i = Some s) \<and>
     (\<forall>i \<in> X. \<forall>s. m' i = Some s \<longrightarrow> s \<in> set out) \<and> distinct (map s_id out)"

lemma listed_mono: "fades m0 m \<Longrightarrow> listed m m' X out \<Longrightarrow> listed m0 m' X out"
  unfolding listed_def by (blast dest: fades_Some)

lemma listed_skip: "listed m m' X out \<Longrightarrow> m' i = None \<Longrightarrow> listed m m' (insert i X) out"
  by (auto simp: listed_def)

lemma listed_add:
  "listed m m' X out \<Longrightarrow> s_id s = Some i \<Longrightarrow> m i = Some s \<Longrightarrow> i \<notin> X \<Longrightarrow> fades m m' \<Longrightarrow>
   listed m m' (insert i X) (s # out)"
  by (auto simp: listed_def dest: fades_Some)

text \<open>What is left of the index when the identifiers of \<open>X\<close> are deleted one by one.\<close>

definition thinned :: "string set \<Rightarrow> (string \<Rightarrow> string set) \<Rightarrow> (string \<Rightarrow> string set) \<Rightarrow> bool" where
  "thinned X ix ix' \<longleftrightarrow> (\<forall>u. ix u - X \<subseteq> ix' u \<and> ix' u \<subseteq> ix u)"

lemma thinned_unlist: "i \<in> X \<Longrightarrow> thinned X ix (unlist p i ix)"
  by (auto simp: thinned_def unlist_def split: option.split)

lemma thinned_trans: "thinned X ix ix1 \<Longrightarrow> thinned Y ix1 ix2 \<Longrightarrow> X \<subseteq> Z \<Longrightarrow> Y \<subseteq> Z \<Longrightarrow> thinned Z ix ix2"
  unfolding thinned_def by blast

definition without :: "string set \<Rightarrow> (string \<Rightarrow> OpenDBSC_Session option) \<Rightarrow> string \<Rightarrow> OpenDBSC_Session option" where
  "without X m i = (if i \<in> X then None else m i)"

section \<open>What Redis documents\<close>

text \<open>
  A command changes the keys it names; of the others, those with a time to live may disappear.
\<close>

definition settled :: "('d \<Rightarrow> string \<Rightarrow> string option) \<Rightarrow> ('d \<Rightarrow> string \<Rightarrow> string set) \<Rightarrow> ('d \<Rightarrow> string set) \<Rightarrow>
    string set \<Rightarrow> 'd \<Rightarrow> 'd \<Rightarrow> bool" where
  "settled strs sets volatile K d d' \<longleftrightarrow> (\<forall>k. k \<notin> K \<longrightarrow> sets d' k = sets d k \<and>
     (strs d' k = strs d k \<or> strs d' k = None \<and> k \<in> volatile d) \<and> (k \<in> volatile d' \<longrightarrow> k \<in> volatile d))"

locale redis_server = cjson_lib +
  fixes R :: "'d hiredis"
    and strs :: "'d \<Rightarrow> string \<Rightarrow> string option"
    and sets :: "'d \<Rightarrow> string \<Rightarrow> string set"
    and volatile :: "'d \<Rightarrow> string set"
  assumes set_plain:
      "redisCommand R [''SET'', k, v] d = (r, d') \<Longrightarrow>
       settled strs sets volatile {k} d d' \<and> (\<exists>t. r = Some (REDIS_REPLY_STATUS t)) \<and>
       strs d' k = Some v \<and> sets d' k = {} \<and> k \<notin> volatile d'"
    and set_expiring:
      "0 < n \<Longrightarrow> n < 10 ^ 15 \<Longrightarrow> redisCommand R [''SET'', k, v, ''EX'', print_int n] d = (r, d') \<Longrightarrow>
       settled strs sets volatile {k} d d' \<and> (\<exists>t. r = Some (REDIS_REPLY_STATUS t)) \<and>
       strs d' k = Some v \<and> sets d' k = {}"
    and get:
      "sets d k = {} \<Longrightarrow> redisCommand R [''GET'', k] d = (r, d') \<Longrightarrow>
       settled strs sets volatile {} d d' \<and>
       r = Some (case strs d' k of None \<Rightarrow> REDIS_REPLY_NIL | Some v \<Rightarrow> REDIS_REPLY_STRING v)"
    and del:
      "redisCommand R [''DEL'', k] d = (r, d') \<Longrightarrow>
       settled strs sets volatile {k} d d' \<and> strs d' k = None \<and> sets d' k = {}"
    and sadd:
      "strs d k = None \<Longrightarrow> redisCommand R [''SADD'', k, m] d = (r, d') \<Longrightarrow>
       settled strs sets volatile {k} d d' \<and> (\<exists>n. r = Some (REDIS_REPLY_INTEGER n)) \<and>
       strs d' k = None \<and> sets d' k = insert m (sets d k)"
    and srem:
      "strs d k = None \<Longrightarrow> redisCommand R [''SREM'', k, m] d = (r, d') \<Longrightarrow>
       settled strs sets volatile {k} d d' \<and> strs d' k = None \<and> sets d' k = sets d k - {m}"
    and smembers:
      "strs d k = None \<Longrightarrow> redisCommand R [''SMEMBERS'', k] d = (r, d') \<Longrightarrow>
       settled strs sets volatile {} d d' \<and>
       (\<exists>ms. r = Some (REDIS_REPLY_ARRAY (map REDIS_REPLY_STRING ms)) \<and> distinct ms \<and> set ms = sets d k)"
begin

abbreviation view :: "'d OpenDBSC_RedisCtx sys \<Rightarrow> string \<Rightarrow> OpenDBSC_Session option" where
  "view w \<equiv> redis_view C strs (impl w)"

abbreviation index :: "'d OpenDBSC_RedisCtx sys \<Rightarrow> string \<Rightarrow> string set" where
  "index w \<equiv> redis_index sets (impl w)"

abbreviation wf_but :: "string set \<Rightarrow> 'd OpenDBSC_RedisCtx sys \<Rightarrow> bool" where
  "wf_but E w \<equiv> redis_wf_but C plain strs sets volatile E (impl w)"

lemma wf_view:
  assumes "redis_wf_but C plain strs sets volatile E x"
  shows "redis_view C strs x i = Some s \<longleftrightarrow>
    strs (rx_ctx x) (session_key x i) = Some (session_text C s) \<and> json_storable C plain s"
proof -
  have "\<exists>s'. strs (rx_ctx x) (session_key x i) = Some (session_text C s') \<and> json_storable C plain s' \<and>
      redis_view C strs x i = Some s'" if "strs (rx_ctx x) (session_key x i) \<noteq> None"
    using assms that unfolding redis_wf_but_def redis_view_def
    by (fastforce simp: parse_session read_session_object)
  then show ?thesis
    by (cases "strs (rx_ctx x) (session_key x i)")
       (force simp: redis_view_def parse_session read_session_object dest: session_text_inject)+
qed

lemma wf_view_None:
  assumes "redis_wf_but C plain strs sets volatile E x"
  shows "redis_view C strs x i = None \<longleftrightarrow> strs (rx_ctx x) (session_key x i) = None"
proof (cases "strs (rx_ctx x) (session_key x i)")
  case (Some t)
  with assms obtain s where "t = session_text C s" "json_storable C plain s"
    unfolding redis_wf_but_def by blast
  with Some show ?thesis by (simp add: redis_view_def parse_session)
qed (simp add: redis_view_def)

lemma wf_session:
  assumes "redis_wf_but C plain strs sets volatile E x" and "redis_view C strs x i = Some s"
  shows "json_storable C plain s" "s_id s = Some i" "CHR 0x00 \<notin> set i"
    "\<exists>u. s_user_id s = Some u \<and> (i \<in> redis_index sets x u \<or> i \<in> E)"
    "session_key x i \<in> volatile (rx_ctx x) \<Longrightarrow> s_has_expires s"
proof -
  from assms have t: "strs (rx_ctx x) (session_key x i) = Some (session_text C s)" and s: "json_storable C plain s"
    by (simp_all add: wf_view)
  with assms(1) obtain s' u where s': "session_text C s = session_text C s'" "json_storable C plain s'"
      "s_id s' = Some i" "s_user_id s' = Some u" "i \<in> redis_index sets x u \<or> i \<in> E"
      "session_key x i \<in> volatile (rx_ctx x) \<longrightarrow> s_has_expires s'"
    unfolding redis_wf_but_def by blast
  from session_text_inject [OF s s'(2,1)] s s' show "json_storable C plain s" "s_id s = Some i"
    "CHR 0x00 \<notin> set i" "\<exists>u. s_user_id s = Some u \<and> (i \<in> redis_index sets x u \<or> i \<in> E)"
    "session_key x i \<in> volatile (rx_ctx x) \<Longrightarrow> s_has_expires s"
    by (auto simp: json_storable_def)
qed

text \<open>A command that leaves the keys of the store alone.\<close>

lemma settled_wf:
  assumes wf: "redis_wf_but C plain strs sets volatile E x"
    and st: "settled strs sets volatile K (rx_ctx x) d"
    and sess: "\<And>i. session_key x i \<in> K \<Longrightarrow> sets d (session_key x i) = {} \<and> (strs d (session_key x i) = None \<or>
       (\<exists>s u. strs d (session_key x i) = Some (session_text C s) \<and> json_storable C plain s \<and> s_id s = Some i \<and>
         s_user_id s = Some u \<and> i \<in> E' \<and> (session_key x i \<in> volatile d \<longrightarrow> s_has_expires s)))"
    and user: "\<And>u. user_key x u \<in> K \<Longrightarrow> strs d (user_key x u) = None \<and>
       (\<forall>m \<in> sets d (user_key x u). CHR 0x00 \<notin> set m) \<and> redis_index sets x u \<subseteq> sets d (user_key x u) \<union> E'"
    and E: "\<And>i s. i \<in> E \<Longrightarrow> i \<notin> E' \<Longrightarrow> strs d (session_key x i) = Some (session_text C s) \<Longrightarrow>
       json_storable C plain s \<Longrightarrow> \<exists>u. s_user_id s = Some u \<and> i \<in> sets d (user_key x u)"
  shows "redis_wf_but C plain strs sets volatile E' (x\<lparr>rx_ctx := d\<rparr>)"
  unfolding redis_wf_but_def redis_index_def ctx_sel key_ctx
proof (intro conjI allI impI ballI)
  fix i t
  assume t: "strs d (session_key x i) = Some t"
  show "\<exists>s u. t = session_text C s \<and> json_storable C plain s \<and> s_id s = Some i \<and> s_user_id s = Some u \<and>
      (i \<in> sets d (user_key x u) \<or> i \<in> E') \<and> (session_key x i \<in> volatile d \<longrightarrow> s_has_expires s)"
  proof (cases "session_key x i \<in> K")
    case True
    with sess [OF True] t show ?thesis by auto
  next
    case False
    with st t have old: "strs (rx_ctx x) (session_key x i) = Some t"
      and vol: "session_key x i \<in> volatile d \<longrightarrow> session_key x i \<in> volatile (rx_ctx x)"
      by (auto simp: settled_def)
    with wf obtain s u where s: "t = session_text C s" "json_storable C plain s" "s_id s = Some i"
        "s_user_id s = Some u" "i \<in> redis_index sets x u \<or> i \<in> E"
        "session_key x i \<in> volatile (rx_ctx x) \<longrightarrow> s_has_expires s"
      unfolding redis_wf_but_def by blast
    have "i \<in> sets d (user_key x u) \<or> i \<in> E'"
    proof (cases "i \<in> E")
      case True
      with E [OF True _ _ s(2)] t s(1,4) show ?thesis by auto
    next
      case False
      with s(5) have "i \<in> redis_index sets x u" by simp
      with user [of u] st show ?thesis
        by (cases "user_key x u \<in> K") (auto simp: settled_def redis_index_def)
    qed
    with s vol show ?thesis by blast
  qed
next
  fix i
  show "sets d (session_key x i) = {}"
    using wf st sess [of i] by (cases "session_key x i \<in> K") (auto simp: settled_def redis_wf_but_def)
next
  fix u
  show "strs d (user_key x u) = None"
    using wf st user [of u] by (cases "user_key x u \<in> K") (auto simp: settled_def redis_wf_but_def)
next
  fix u m
  assume "m \<in> sets d (user_key x u)"
  then show "CHR 0x00 \<notin> set m"
    using wf st user [of u] by (cases "user_key x u \<in> K") (auto simp: settled_def redis_wf_but_def redis_index_def)
qed

lemma settled_index:
  "settled strs sets volatile K (rx_ctx x) d \<Longrightarrow> user_key x u \<notin> K \<Longrightarrow>
   redis_index sets (x\<lparr>rx_ctx := d\<rparr>) u = redis_index sets x u"
  by (simp add: settled_def redis_index_def)

lemma settled_view:
  assumes wf: "redis_wf_but C plain strs sets volatile E x" and st: "settled strs sets volatile K (rx_ctx x) d"
    and J: "\<And>i. session_key x i \<in> K \<Longrightarrow> i \<in> J"
  shows "fades (\<lambda>i. if i \<in> J then redis_view C strs (x\<lparr>rx_ctx := d\<rparr>) i else redis_view C strs x i)
     (redis_view C strs (x\<lparr>rx_ctx := d\<rparr>))"
  unfolding fades_def
proof
  fix i
  let ?n = "redis_view C strs (x\<lparr>rx_ctx := d\<rparr>) i" and ?o = "redis_view C strs x i"
  show "?n = (if i \<in> J then ?n else ?o) \<or>
      ?n = None \<and> (\<exists>s. (if i \<in> J then ?n else ?o) = Some s \<and> s_has_expires s)"
  proof (cases "i \<in> J")
    case False
    with J st have "strs d (session_key x i) = strs (rx_ctx x) (session_key x i) \<or>
        strs d (session_key x i) = None \<and> session_key x i \<in> volatile (rx_ctx x)"
      by (auto simp: settled_def)
    then have "?n = ?o \<or> ?n = None \<and> (\<exists>s. ?o = Some s \<and> s_has_expires s)"
    proof
      assume gone: "strs d (session_key x i) = None \<and> session_key x i \<in> volatile (rx_ctx x)"
      then have "?n = None" by (simp add: redis_view_def)
      then show ?thesis using wf_session(5) [OF wf, of i] gone by (cases ?o) auto
    qed (simp add: redis_view_def)
    with False show ?thesis by simp
  qed simp
qed

lemma wf_but_drop:
  "redis_wf_but C plain strs sets volatile E x \<Longrightarrow> (\<And>i. i \<in> E \<Longrightarrow> redis_view C strs x i = None) \<Longrightarrow>
   redis_wf C plain strs sets volatile x"
proof -
  assume wf: "redis_wf_but C plain strs sets volatile E x" and none: "\<And>i. i \<in> E \<Longrightarrow> redis_view C strs x i = None"
  show ?thesis
    unfolding redis_wf_but_def
  proof (intro conjI allI impI ballI)
    fix i t
    assume t: "strs (rx_ctx x) (session_key x i) = Some t"
    then have "i \<notin> E" using none [of i] wf_view_None [OF wf, of i] by auto
    with wf t show "\<exists>s u. t = session_text C s \<and> json_storable C plain s \<and> s_id s = Some i \<and> s_user_id s = Some u \<and>
        (i \<in> redis_index sets x u \<or> i \<in> {}) \<and> (session_key x i \<in> volatile (rx_ctx x) \<longrightarrow> s_has_expires s)"
      unfolding redis_wf_but_def by blast
  qed (use wf in \<open>auto simp: redis_wf_but_def\<close>)
qed

section \<open>Commands\<close>

definition linked :: "'d OpenDBSC_RedisCtx sys \<Rightarrow> 'd OpenDBSC_RedisCtx sys \<Rightarrow> bool" where
  "linked w v \<longleftrightarrow> oframe w v \<and> rx_prefix (impl v) = rx_prefix (impl w)"

lemma linked_refl [simp, intro!]: "linked w w"
  by (simp add: linked_def)

lemma linked_trans [trans]: "linked u v \<Longrightarrow> linked v w \<Longrightarrow> linked u w"
  by (auto simp: linked_def intro: oframe_trans)

lemma linked_frame: "frame w v \<Longrightarrow> linked w v"
  using frame_impl [of w v] by (simp add: linked_def frame_oframe)

lemma linked_keys: "linked w v \<Longrightarrow> session_key (impl v) = session_key (impl w) \<and> user_key (impl v) = user_key (impl w)"
  by (simp add: linked_def session_key_def user_key_def fun_eq_iff)

lemma wp_redis_send:
  assumes "\<And>r d. redisCommand R argv (rx_ctx (impl v)) = (r, d) \<Longrightarrow> Q r (v\<lparr>impl := (impl v)\<lparr>rx_ctx := d\<rparr>\<rparr>)"
  shows "wp (send_command R argv) Q v"
  using assms by (auto simp: send_command_def wp_on_impl split: prod.split)

lemma linked_send [simp]: "linked v (v\<lparr>impl := (impl v)\<lparr>rx_ctx := d\<rparr>\<rparr>)"
  by (simp add: linked_def)

text \<open>What a command may have done to the store: \<open>m\<close> and \<open>ix\<close> are the sessions and the index it aims at.\<close>

definition after :: "'d OpenDBSC_RedisCtx sys \<Rightarrow> (string \<Rightarrow> OpenDBSC_Session option) \<Rightarrow> (string \<Rightarrow> string set) \<Rightarrow>
    'd OpenDBSC_RedisCtx sys \<Rightarrow> bool" where
  "after w m ix v \<longleftrightarrow> linked w v \<and> wf_but {} v \<and> index v = ix \<and> fades m (view v)"

lemma wp_GET:
  assumes wf: "wf_but {} v"
    and Q: "\<And>v'. after v (view v) (index v) v' \<Longrightarrow> Q (Some (case view v' i of None \<Rightarrow> REDIS_REPLY_NIL
        | Some s \<Rightarrow> REDIS_REPLY_STRING (session_text C s))) v'"
  shows "wp (send_command R [''GET'', session_key (impl v) i]) Q v"
proof (rule wp_redis_send)
  fix r d
  let ?x = "(impl v)\<lparr>rx_ctx := d\<rparr>"
  assume run: "redisCommand R [''GET'', session_key (impl v) i] (rx_ctx (impl v)) = (r, d)"
  have "sets (rx_ctx (impl v)) (session_key (impl v) i) = {}" using wf by (simp add: redis_wf_but_def)
  from get [OF this run] have st: "settled strs sets volatile {} (rx_ctx (impl v)) d"
    and r: "r = Some (case strs d (session_key (impl v) i) of None \<Rightarrow> REDIS_REPLY_NIL | Some v \<Rightarrow> REDIS_REPLY_STRING v)"
    by simp_all
  have wf': "redis_wf C plain strs sets volatile ?x" by (rule settled_wf [OF wf st]) simp_all
  have "redis_index sets ?x = redis_index sets (impl v)" using settled_index [OF st] by (simp add: fun_eq_iff)
  moreover have "fades (redis_view C strs (impl v)) (redis_view C strs ?x)"
    using settled_view [OF wf st, of "{}"] by simp
  ultimately have "after v (view v) (index v) (v\<lparr>impl := ?x\<rparr>)" using wf' by (simp add: after_def)
  moreover have "r = Some (case redis_view C strs ?x i of None \<Rightarrow> REDIS_REPLY_NIL
        | Some s \<Rightarrow> REDIS_REPLY_STRING (session_text C s))"
    using wf_view [OF wf', of i "the (redis_view C strs ?x i)"] wf_view_None [OF wf', of i]
    by (cases "redis_view C strs ?x i") (auto simp: r)
  ultimately show "Q r (v\<lparr>impl := ?x\<rparr>)" using Q [of "v\<lparr>impl := ?x\<rparr>"] by simp
qed

lemma wp_SET:
  assumes wf: "wf_but {} v" and s: "s_id s = Some i" "s_user_id s = Some u" "json_storable C plain s"
    and argv: "argv = [''SET'', session_key (impl v) i, session_text C s] \<and> \<not> s_has_expires s \<or>
      (\<exists>n. argv = [''SET'', session_key (impl v) i, session_text C s, ''EX'', print_int n] \<and>
        0 < n \<and> n < 10 ^ 15 \<and> s_has_expires s)"
    and Q: "\<And>t v'. linked v v' \<Longrightarrow> wf_but {i} v' \<Longrightarrow> index v' = index v \<Longrightarrow> fades ((view v)(i \<mapsto> s)) (view v') \<Longrightarrow>
      view v' i = Some s \<Longrightarrow> Q (Some (REDIS_REPLY_STATUS t)) v'"
  shows "wp (send_command R argv) Q v"
proof (rule wp_redis_send)
  fix r d
  let ?k = "session_key (impl v) i" and ?x = "(impl v)\<lparr>rx_ctx := d\<rparr>"
  assume run: "redisCommand R argv (rx_ctx (impl v)) = (r, d)"
  have "settled strs sets volatile {?k} (rx_ctx (impl v)) d \<and> (\<exists>t. r = Some (REDIS_REPLY_STATUS t)) \<and>
      strs d ?k = Some (session_text C s) \<and> sets d ?k = {} \<and> (?k \<in> volatile d \<longrightarrow> s_has_expires s)"
    using argv
  proof
    assume "argv = [''SET'', ?k, session_text C s] \<and> \<not> s_has_expires s"
    with set_plain [of ?k "session_text C s" "rx_ctx (impl v)" r d] run show ?thesis by simp
  next
    assume "\<exists>n. argv = [''SET'', ?k, session_text C s, ''EX'', print_int n] \<and> 0 < n \<and> n < 10 ^ 15 \<and> s_has_expires s"
    then obtain n where "argv = [''SET'', ?k, session_text C s, ''EX'', print_int n]" "0 < n" "n < 10 ^ 15"
      "s_has_expires s" by blast
    with set_expiring [of n ?k "session_text C s" "rx_ctx (impl v)" r d] run show ?thesis by simp
  qed
  then obtain t where st: "settled strs sets volatile {?k} (rx_ctx (impl v)) d" and r: "r = Some (REDIS_REPLY_STATUS t)"
    and d: "strs d ?k = Some (session_text C s)" "sets d ?k = {}" "?k \<in> volatile d \<longrightarrow> s_has_expires s" by blast
  have wf': "redis_wf_but C plain strs sets volatile {i} ?x"
    by (rule settled_wf [OF wf st]) (use s d in auto)
  have i: "redis_view C strs ?x i = Some s" using wf_view [OF wf', of i s] d(1) s(3) by simp
  have "fades ((view v)(i \<mapsto> s)) (redis_view C strs ?x)"
    using settled_view [OF wf st, of "{i}"] i by (simp add: fun_upd_def cong: if_cong)
  moreover have "redis_index sets ?x = index v" using settled_index [OF st] by (simp add: fun_eq_iff)
  ultimately show "Q r (v\<lparr>impl := ?x\<rparr>)" using Q [of "v\<lparr>impl := ?x\<rparr>"] wf' i by (simp add: r)
qed

lemma wp_SADD:
  assumes wf: "wf_but {i} v" and i: "CHR 0x00 \<notin> set i"
    and u: "\<And>s. view v i = Some s \<Longrightarrow> s_user_id s = Some u"
    and Q: "\<And>n v'. after v (view v) ((index v)(u := insert i (index v u))) v' \<Longrightarrow> Q (Some (REDIS_REPLY_INTEGER n)) v'"
  shows "wp (send_command R [''SADD'', user_key (impl v) u, i]) Q v"
proof (rule wp_redis_send)
  fix r d
  let ?k = "user_key (impl v) u" and ?x = "(impl v)\<lparr>rx_ctx := d\<rparr>"
  assume run: "redisCommand R [''SADD'', ?k, i] (rx_ctx (impl v)) = (r, d)"
  have "strs (rx_ctx (impl v)) ?k = None" using wf by (simp add: redis_wf_but_def)
  from sadd [OF this run] obtain n where st: "settled strs sets volatile {?k} (rx_ctx (impl v)) d"
    and r: "r = Some (REDIS_REPLY_INTEGER n)"
    and d: "strs d ?k = None" "sets d ?k = insert i (sets (rx_ctx (impl v)) ?k)" by blast
  have nul: "\<forall>m \<in> redis_index sets (impl v) u. CHR 0x00 \<notin> set m" using wf by (simp add: redis_wf_but_def)
  have view': "strs d (session_key (impl v) i) = Some (session_text C s) \<Longrightarrow> json_storable C plain s \<Longrightarrow> view v i = Some s" for s
    using st [unfolded settled_def, rule_format, of "session_key (impl v) i"] wf_view [OF wf, of i s] by auto
  have wf': "redis_wf C plain strs sets volatile ?x"
    by (rule settled_wf [OF wf st]) (use d i nul view' u in \<open>auto simp: redis_index_def\<close>)
  have "redis_index sets ?x = (index v)(u := insert i (index v u))"
    using settled_index [OF st] d(2) by (auto simp: fun_eq_iff redis_index_def [of _ _ u])
  moreover have "fades (view v) (redis_view C strs ?x)" using settled_view [OF wf st, of "{}"] by simp
  ultimately show "Q r (v\<lparr>impl := ?x\<rparr>)" using Q [of "v\<lparr>impl := ?x\<rparr>"] wf' by (simp add: r after_def)
qed

lemma wp_DEL_session:
  assumes wf: "wf_but {} v" and Q: "\<And>r v'. after v ((view v)(i := None)) (index v) v' \<Longrightarrow> Q r v'"
  shows "wp (send_command R [''DEL'', session_key (impl v) i]) Q v"
proof (rule wp_redis_send)
  fix r d
  let ?k = "session_key (impl v) i" and ?x = "(impl v)\<lparr>rx_ctx := d\<rparr>"
  assume run: "redisCommand R [''DEL'', ?k] (rx_ctx (impl v)) = (r, d)"
  from del [OF this] have st: "settled strs sets volatile {?k} (rx_ctx (impl v)) d"
    and d: "strs d ?k = None" "sets d ?k = {}" by blast+
  have wf': "redis_wf C plain strs sets volatile ?x" by (rule settled_wf [OF wf st]) (use d in auto)
  have "redis_view C strs ?x i = None" using d(1) by (simp add: redis_view_def)
  then have "fades ((view v)(i := None)) (redis_view C strs ?x)"
    using settled_view [OF wf st, of "{i}"] by (simp add: fun_upd_def cong: if_cong)
  moreover have "redis_index sets ?x = index v" using settled_index [OF st] by (simp add: fun_eq_iff)
  ultimately show "Q r (v\<lparr>impl := ?x\<rparr>)" using Q [of "v\<lparr>impl := ?x\<rparr>"] wf' by (simp add: after_def)
qed

text \<open>Taking members out of a user's set keeps the store well formed when they have no session.\<close>

lemma shrink_user:
  assumes wf: "wf_but {} v" and st: "settled strs sets volatile {user_key (impl v) u} (rx_ctx (impl v)) d"
    and d: "strs d (user_key (impl v) u) = None" "sets d (user_key (impl v) u) = index v u - X"
    and X: "\<And>i. i \<in> X \<Longrightarrow> view v i = None"
  shows "after v (view v) ((index v)(u := index v u - X)) (v\<lparr>impl := (impl v)\<lparr>rx_ctx := d\<rparr>\<rparr>)"
proof -
  let ?x = "(impl v)\<lparr>rx_ctx := d\<rparr>"
  have nul: "\<forall>m \<in> redis_index sets (impl v) u. CHR 0x00 \<notin> set m" using wf by (simp add: redis_wf_but_def)
  have fades: "fades (view v) (redis_view C strs ?x)" using settled_view [OF wf st, of "{}"] by simp
  have "redis_wf_but C plain strs sets volatile X ?x"
    by (rule settled_wf [OF wf st]) (use d nul in auto)
  then have "redis_wf C plain strs sets volatile ?x"
    by (rule wf_but_drop) (use X fades in \<open>auto dest: fades_None\<close>)
  moreover have "redis_index sets ?x = (index v)(u := index v u - X)"
    using settled_index [OF st] d(2) by (auto simp: fun_eq_iff redis_index_def [of _ ?x u])
  ultimately show ?thesis using fades by (simp add: after_def)
qed

lemma wp_SREM:
  assumes wf: "wf_but {} v" and i: "view v i = None"
    and Q: "\<And>r v'. after v (view v) ((index v)(u := index v u - {i})) v' \<Longrightarrow> Q r v'"
  shows "wp (send_command R [''SREM'', user_key (impl v) u, i]) Q v"
proof (rule wp_redis_send)
  fix r d
  assume run: "redisCommand R [''SREM'', user_key (impl v) u, i] (rx_ctx (impl v)) = (r, d)"
  have "strs (rx_ctx (impl v)) (user_key (impl v) u) = None" using wf by (simp add: redis_wf_but_def)
  from srem [OF this run] i show "Q r (v\<lparr>impl := (impl v)\<lparr>rx_ctx := d\<rparr>\<rparr>)"
    by (intro Q shrink_user [OF wf]) (auto simp: redis_index_def)
qed

lemma wp_DEL_user:
  assumes wf: "wf_but {} v" and none: "\<And>i. i \<in> index v u \<Longrightarrow> view v i = None"
    and Q: "\<And>r v'. after v (view v) ((index v)(u := {})) v' \<Longrightarrow> Q r v'"
  shows "wp (send_command R [''DEL'', user_key (impl v) u]) Q v"
proof (rule wp_redis_send)
  fix r d
  assume "redisCommand R [''DEL'', user_key (impl v) u] (rx_ctx (impl v)) = (r, d)"
  from del [OF this] none show "Q r (v\<lparr>impl := (impl v)\<lparr>rx_ctx := d\<rparr>\<rparr>)"
    using shrink_user [OF wf, of u d "index v u"] by (intro Q) auto
qed

lemma wp_SMEMBERS:
  assumes wf: "wf_but {} v"
    and Q: "\<And>ms v'. after v (view v) (index v) v' \<Longrightarrow> distinct ms \<Longrightarrow> set ms = index v u \<Longrightarrow>
      Q (Some (REDIS_REPLY_ARRAY (map REDIS_REPLY_STRING ms))) v'"
  shows "wp (send_command R [''SMEMBERS'', user_key (impl v) u]) Q v"
proof (rule wp_redis_send)
  fix r d
  let ?x = "(impl v)\<lparr>rx_ctx := d\<rparr>"
  assume run: "redisCommand R [''SMEMBERS'', user_key (impl v) u] (rx_ctx (impl v)) = (r, d)"
  have "strs (rx_ctx (impl v)) (user_key (impl v) u) = None" using wf by (simp add: redis_wf_but_def)
  from smembers [OF this run] obtain ms where st: "settled strs sets volatile {} (rx_ctx (impl v)) d"
    and r: "r = Some (REDIS_REPLY_ARRAY (map REDIS_REPLY_STRING ms))"
    and ms: "distinct ms" "set ms = index v u" by (auto simp: redis_index_def)
  have wf': "redis_wf C plain strs sets volatile ?x" by (rule settled_wf [OF wf st]) simp_all
  have "redis_index sets ?x = index v" using settled_index [OF st] by (simp add: fun_eq_iff)
  moreover have "fades (view v) (redis_view C strs ?x)" using settled_view [OF wf st, of "{}"] by simp
  ultimately show "Q r (v\<lparr>impl := ?x\<rparr>)" using wf' ms by (auto simp: r after_def intro!: Q)
qed

section \<open>The operations against a server that answers\<close>

lemma after_start: "wf_but {} w \<Longrightarrow> after w (view w) (index w) w"
  by (simp add: after_def)

lemma after_frame: "after w m ix v \<Longrightarrow> frame v v' \<Longrightarrow> after w m ix v'"
  using frame_impl [of v v'] by (auto simp: after_def intro: linked_trans linked_frame)

lemma after_trans: "after w m ix v \<Longrightarrow> after v m' ix' v' \<Longrightarrow> fades m'' m' \<Longrightarrow> after w m'' ix' v'"
  by (auto simp: after_def intro: linked_trans fades_trans)

lemma after_fades: "after w m ix v \<Longrightarrow> fades m (view v)"
  and after_wf: "after w m ix v \<Longrightarrow> wf_but {} v"
  and after_index: "after w m ix v \<Longrightarrow> index v = ix"
  and after_oframe: "after w m ix v \<Longrightarrow> oframe w v"
  by (simp_all add: after_def linked_def)

lemma after_view: "after w m ix v \<Longrightarrow> after w (view v) ix v"
  by (simp add: after_def)

lemma after_starved: "after w m ix v \<Longrightarrow> starved v = starved w"
  by (rule oframe_starved [OF after_oframe])

lemma after_timely: "after w m ix v \<Longrightarrow> timely m w \<Longrightarrow> timely (view v) v"
  by (rule timely_mono) (auto dest: after_fades after_oframe)

lemma wp_session_key:
  assumes "\<not> starved v" and "\<And>v'. frame v v' \<Longrightarrow> Q (Some (session_key (impl v) i)) v'"
  shows "wp (redis_session_key i) Q v"
  unfolding redis_session_key_def
  by (rule wp_bindI, simp add: wp_get_impl, rule wp_returns [OF returns_malloc_str assms(1)])
     (use assms(2) in \<open>simp add: session_key_def\<close>)

lemma wp_user_key:
  assumes "\<not> starved v" and "\<And>v'. frame v v' \<Longrightarrow> Q (Some (user_key (impl v) u)) v'"
  shows "wp (redis_user_key (Some u)) Q v"
  unfolding redis_user_key_def str_arg_Some
  by (rule wp_bindI, simp add: wp_get_impl wp_bind wp_return, rule wp_returns [OF returns_malloc_str assms(1)])
     (use assms(2) in \<open>simp add: user_key_def\<close>)

lemma wp_live:
  assumes "s_has_expires s \<Longrightarrow> wall_clock v (clock_reads v) \<le> s_expires_at s"
    and "\<And>v'. frame v v' \<Longrightarrow> Q False v'"
  shows "wp (redis_is_expired (Some s)) Q v"
  using assms by (auto simp: redis_is_expired_def wps)

lemma accept_spec:
  assumes at: "after w m ix v" and mem: "\<not> starved w" and live: "timely m w"
    and Q: "\<And>v'. frame v v' \<Longrightarrow> Q (case view v i of None \<Rightarrow> (-1, None) | Some s \<Rightarrow> (0, Some s)) v'"
  shows "wp (redis_accept C delete (Some (case view v i of None \<Rightarrow> REDIS_REPLY_NIL
     | Some s \<Rightarrow> REDIS_REPLY_STRING (session_text C s)))) Q v"
proof (cases "view v i")
  case None
  with Q [OF frame_refl] show ?thesis by (simp add: redis_accept_def wp_return)
next
  case (Some s)
  note s = wf_session [OF after_wf [OF at] Some]
  let ?v = "v\<lparr>mallocs := Suc (mallocs v)\<rparr>"
  have mem: "\<not> starved v" using after_starved [OF at] mem by simp
  then have ok: "mem_ok v (mallocs v)" and mem': "\<not> starved ?v" by (auto simp: starved_def)
  have "wp (redis_is_expired (Some s)) (\<lambda>e. wp (if e then do { _ \<leftarrow> delete; ret (-1, None) } else ret (0, Some s)) Q) v'"
    if v': "frame ?v v'" for v'
  proof (rule wp_live)
    have "frame v v'" using v' by (simp add: frame_def)
    from after_timely [OF after_frame [OF at this] live] frame_impl [OF this] Some
    show "s_has_expires s \<Longrightarrow> wall_clock v' (clock_reads v') \<le> s_expires_at s" by (auto simp: timely_def)
    fix v2
    assume "frame v' v2"
    with \<open>frame v v'\<close> have "frame v v2" by (rule frame_trans)
    from Q [OF this] Some show "wp (if False then do { _ \<leftarrow> delete; ret (-1, None) } else ret (0, Some s)) Q v2"
      by (simp add: wp_return)
  qed
  then have "wp (session_from_json C (session_text C s) (Some session_defaults))
      (\<lambda>r. wp (case r of (rc, p) \<Rightarrow> if rc \<noteq> 0 then ret (-1, None) else do {
         expired \<leftarrow> redis_is_expired p;
         if expired then do { _ \<leftarrow> delete; ret (-1, None) } else ret (0, p) }) Q) ?v"
    by (intro wp_returns [OF returns_session_back [OF s(1)] mem']) (simp add: wp_bind)
  with Some ok show ?thesis
    by (simp add: redis_accept_def wp_bind wp_alloc session_text_no_nul)
qed

lemma get_spec:
  assumes at: "after w m ix v" and mem: "\<not> starved w" and live: "timely m w"
    and Q: "\<And>v'. after w m ix v' \<Longrightarrow> fades (view v) (view v') \<Longrightarrow>
      Q (case view v' i of None \<Rightarrow> (-1, None) | Some s \<Rightarrow> (0, Some s)) v'"
  shows "wp (redis_get R C (Suc n) (Some i)) Q v"
proof -
  have "wp (send_command R [''GET'', session_key (impl v) i])
      (\<lambda>r. wp (redis_accept C (redis_delete R (redis_get R C n) (Some i)) r) Q) v1" if v1: "frame v v1" for v1
    unfolding frame_impl [OF v1, symmetric]
  proof (rule wp_GET [OF after_wf [OF after_frame [OF at v1]]])
    fix v2
    assume v2: "after v1 (view v1) (index v1) v2"
    have at2: "after w m ix v2" and f: "fades (view v) (view v2)"
      using after_trans [OF after_frame [OF at v1] v2] after_fades [OF v2] after_index [OF after_frame [OF at v1]]
        after_fades [OF after_frame [OF at v1]] frame_impl [OF v1] by auto
    show "wp (redis_accept C (redis_delete R (redis_get R C n) (Some i)) (Some (case view v2 i of None \<Rightarrow> REDIS_REPLY_NIL
        | Some s \<Rightarrow> REDIS_REPLY_STRING (session_text C s)))) Q v2"
    proof (rule accept_spec [OF at2 mem live])
      fix v3
      assume v3: "frame v2 v3"
      show "Q (case view v2 i of None \<Rightarrow> (-1, None) | Some s \<Rightarrow> (0, Some s)) v3"
        using Q [OF after_frame [OF at2 v3]] f frame_impl [OF v3] by simp
    qed
  qed
  then show ?thesis
    using after_starved [OF at] mem by (auto simp: wp_bind intro!: wp_session_key)
qed

lemma set_spec:
  assumes at: "after w m ix v" and live: "timely m' w"
    and s: "s_id s = Some i" "s_user_id s = Some u" "json_storable C plain s"
    and Q: "\<And>t v'. linked w v' \<Longrightarrow> wf_but {i} v' \<Longrightarrow> index v' = ix \<Longrightarrow>
      fades (m(i \<mapsto> s)) (view v') \<Longrightarrow> view v' i = Some s \<Longrightarrow> Q (Some (REDIS_REPLY_STATUS t)) v'"
  shows "wp (redis_set R s (session_text C s) (session_key (impl v) i)) Q v"
proof -
  have sent: "wp (send_command R argv) Q v1"
    if at1: "after w m ix v1" and "argv = [''SET'', session_key (impl v1) i, session_text C s] \<and> \<not> s_has_expires s \<or>
      (\<exists>n. argv = [''SET'', session_key (impl v1) i, session_text C s, ''EX'', print_int n] \<and>
        0 < n \<and> n < 10 ^ 15 \<and> s_has_expires s)" for argv v1
    by (rule wp_SET [OF after_wf [OF at1] s that(2)])
       (use after_index [OF at1] fades_upd [OF after_fades [OF at1], of i "Some s"] at1
        in \<open>auto simp: after_def intro!: Q intro: fades_trans linked_trans\<close>)
  show ?thesis
  proof (cases "s_has_expires s")
    case True
    let ?n = "wall_clock v (clock_reads v)" and ?v = "v\<lparr>clock_reads := Suc (clock_reads v)\<rparr>"
    have n: "0 \<le> ?n" using live after_oframe [OF at] by (auto simp: timely_def oframe_def)
    have e: "s_expires_at s < 10 ^ 15" using s(3) unfolding json_storable_def by linarith
    have "wp (send_command R [''SET'', session_key (impl ?v) i, session_text C s, ''EX'',
        print_int (if s_expires_at s - ?n \<le> 0 then 1 else s_expires_at s - ?n)]) Q ?v"
      by (rule sent [OF after_frame [OF at]]) (use n e True in auto)
    with True show ?thesis by (simp add: redis_set_def wp_bind wp_time_now Let_def cong: if_cong)
  next
    case False
    with sent [OF at] show ?thesis by (simp add: redis_set_def)
  qed
qed

lemma file_spec:
  assumes at: "after w m ix v" and live: "timely m' w"
    and s: "s_id s = Some i" "s_user_id s = Some u" "json_storable C plain s"
    and Q: "\<And>v'. after w (m(i \<mapsto> s)) (ix(u := insert i (ix u))) v' \<Longrightarrow> Q 0 v'"
  shows "wp (redis_file R s i (session_text C s) (session_key (impl v) i) (user_key (impl v) u)) Q v"
  unfolding redis_file_def
proof (rule wp_bindI, rule set_spec [OF at live s])
  fix t v1
  assume v1: "linked w v1" "wf_but {i} v1" "index v1 = ix" "fades (m(i \<mapsto> s)) (view v1)" "view v1 i = Some s"
  have k: "user_key (impl v) u = user_key (impl v1) u"
    using linked_keys [OF v1(1)] at linked_keys [of w v] by (simp add: after_def)
  have i: "CHR 0x00 \<notin> set i" using s by (auto simp: json_storable_def)
  have "wp (send_command R [''SADD'', user_key (impl v1) u, i]) (\<lambda>r. Q (if reply_failed r then -1 else 0)) v1"
  proof (rule wp_SADD [OF v1(2) i])
    fix n v'
    assume "after v1 (view v1) ((index v1)(u := insert i (index v1 u))) v'"
    then have "after w (m(i \<mapsto> s)) (ix(u := insert i (ix u))) v'"
      using v1 by (auto simp: after_def intro: linked_trans fades_trans)
    from Q [OF this] show "Q (if reply_failed (Some (REDIS_REPLY_INTEGER n)) then -1 else 0) v'"
      by (simp add: reply_failed_def)
  qed (use v1(5) s(2) in auto)
  then show "wp (if reply_failed (Some (REDIS_REPLY_STATUS t)) then ret (-1) else do {
      reply \<leftarrow> send_command R [''SADD'', user_key (impl v) u, i];
      ret (if reply_failed reply then -1 else 0) }) Q v1"
    unfolding k by (simp add: reply_failed_def wp_bind wp_return_fun)
qed

lemma create_spec:
  assumes at: "after w m ix v" and mem: "\<not> starved w" and live: "timely m' w"
    and s: "s_id s = Some i" "s_user_id s = Some u" "json_storable C plain s"
    and Q: "\<And>v'. after w (m(i \<mapsto> s)) (ix(u := insert i (ix u))) v' \<Longrightarrow> Q 0 v'"
  shows "wp (redis_create R C (Some s)) Q v"
proof -
  have "wp (redis_file R s i (session_text C s) (session_key (impl v1) i) (user_key (impl v2) u)) Q v3"
    if "frame v v1" "frame v1 v2" "frame v2 v3" for v1 v2 v3
  proof -
    have i: "impl v1 = impl v3" "impl v2 = impl v3" using that(2,3) [THEN frame_impl] by simp_all
    show ?thesis
      unfolding i
      by (rule file_spec [OF after_frame [OF at frame_trans [OF that(1) frame_trans [OF that(2,3)]]] live s], erule Q)
  qed
  moreover have "\<not> starved v" using after_starved [OF at] mem by simp
  ultimately show ?thesis
    unfolding redis_create_def option.case s(1,2)
    by (auto simp: wp_bind frame_starved intro!: wp_returns [OF returns_session_to_json] wp_session_key wp_user_key)
qed

lemma update_spec:
  assumes at: "after w m ix v" and mem: "\<not> starved w" and live: "timely m w"
    and s: "s_id s = Some i" "s_user_id s = Some u" "json_storable C plain s"
    and absent: "\<And>v'. after w m ix v' \<Longrightarrow> view v' i = None \<Longrightarrow> Q (-1) v'"
    and present: "\<And>v'. m i \<noteq> None \<Longrightarrow> after w (m(i \<mapsto> s)) (ix(u := insert i (ix u))) v' \<Longrightarrow> Q 0 v'"
  shows "wp (redis_update R C (Suc n) (Some s)) Q v"
  unfolding redis_update_def option.case s(1)
proof (simp del: redis_get.simps, rule wp_bindI, rule get_spec [OF at mem live])
  fix v1
  assume v1: "after w m ix v1"
  show "wp (case (case view v1 i of None \<Rightarrow> (-1 :: int, None) | Some s \<Rightarrow> (0, Some s)) of
      (rc, existing) \<Rightarrow> if rc \<noteq> 0 then ret (-1) else redis_create R C (Some s)) Q v1"
  proof (cases "view v1 i")
    case None
    with absent [OF v1] show ?thesis by (simp add: wp_return)
  next
    case (Some s0)
    with after_fades [OF v1] have "m i \<noteq> None" by (auto dest: fades_Some)
    with create_spec [OF v1 mem live s, of Q] present Some show ?thesis by simp
  qed
qed

lemma delete_keys_spec:
  assumes at: "after w m ix v" and mem: "\<not> starved w"
    and user: "\<And>s. view v i = Some s \<Longrightarrow> s_user_id s = Some u"
    and Q: "\<And>v'. after w (m(i := None)) (if found then ix(u := ix u - {i}) else ix) v' \<Longrightarrow> Q 0 v'"
  shows "wp (do {
      skey \<leftarrow> redis_session_key i;
      case skey of None \<Rightarrow> ret (-1)
      | Some skey \<Rightarrow> do {
          _ \<leftarrow> send_command R [''DEL'', skey];
          case (if found then Some (user_key (impl v) u) else None) of None \<Rightarrow> ret 0
          | Some ukey \<Rightarrow> do { _ \<leftarrow> send_command R [''SREM'', ukey, i]; ret 0 } } }) Q v"
proof -
  have "wp (send_command R [''DEL'', session_key (impl v) i]) (\<lambda>_. wp
      (case (if found then Some (user_key (impl v) u) else None) of None \<Rightarrow> ret 0
       | Some ukey \<Rightarrow> do { _ \<leftarrow> send_command R [''SREM'', ukey, i]; ret 0 }) Q) v1" if v1: "frame v v1" for v1
    unfolding frame_impl [OF v1, symmetric]
  proof (rule wp_DEL_session [OF after_wf [OF after_frame [OF at v1]]])
    fix v2
    assume v2: "after v1 ((view v1)(i := None)) (index v1) v2"
    have at2: "after w (m(i := None)) ix v2"
      using after_trans [OF after_frame [OF at v1] v2, of "m(i := None)"] after_index [OF after_frame [OF at v1]]
        fades_upd [OF after_fades [OF after_frame [OF at v1]]] by simp
    have gone: "view v2 i = None" using after_fades [OF at2] by (auto dest: fades_None)
    have k: "user_key (impl v1) u = user_key (impl v2) u" using v2 linked_keys [of v1 v2] by (simp add: after_def)
    show "wp (case (if found then Some (user_key (impl v1) u) else None) of None \<Rightarrow> ret 0
       | Some ukey \<Rightarrow> do { _ \<leftarrow> send_command R [''SREM'', ukey, i]; ret 0 }) Q v2"
    proof (cases found)
      case True
      have "wp (send_command R [''SREM'', user_key (impl v2) u, i]) (\<lambda>_. Q 0) v2"
        by (rule wp_SREM [OF after_wf [OF at2] gone])
           (use after_trans [OF at2] after_index [OF at2] after_fades [OF at2] True in \<open>auto intro!: Q\<close>)
      with True show ?thesis by (simp add: k wp_bind wp_return_fun)
    next
      case False
      with Q [of v2] at2 show ?thesis by (simp add: wp_return)
    qed
  qed
  then show ?thesis
    using after_starved [OF at] mem by (auto simp: wp_bind intro!: wp_session_key)
qed

lemma delete_spec:
  assumes at: "after w m ix v" and mem: "\<not> starved w" and live: "timely m w"
    and Q: "\<And>m1 v'. fades m m1 \<Longrightarrow> after w (m1(i := None)) (unlist (m1 i) i ix) v' \<Longrightarrow> Q 0 v'"
  shows "wp (redis_delete R (redis_get R C (Suc n)) (Some i)) Q v"
  unfolding redis_delete_def option.case
proof (rule wp_bindI, rule get_spec [OF at mem live])
  fix v1
  assume v1: "after w m ix v1"
  note at1 = after_view [OF v1] and f = after_fades [OF v1]
  let ?K = "\<lambda>ukey. do {
      skey \<leftarrow> redis_session_key i;
      case skey of None \<Rightarrow> ret (-1)
      | Some skey \<Rightarrow> do {
          _ \<leftarrow> send_command R [''DEL'', skey];
          case ukey of None \<Rightarrow> ret 0
          | Some ukey \<Rightarrow> do { _ \<leftarrow> send_command R [''SREM'', ukey, i]; ret 0 } } }"
  show "wp (case (case view v1 i of None \<Rightarrow> (-1 :: int, None) | Some s \<Rightarrow> (0, Some s)) of (rc, session) \<Rightarrow> do {
          ukey \<leftarrow> (if rc = 0 then (case session of None \<Rightarrow> ub None | Some s \<Rightarrow> redis_user_key (s_user_id s)) else ret None);
          ?K ukey }) Q v1"
  proof (cases "view v1 i")
    case None
    have "wp (?K (if False then Some (user_key (impl v1) undefined) else None)) Q v1"
      by (rule delete_keys_spec [OF at1 mem]) (use None Q [OF f] in \<open>simp_all add: unlist_def\<close>)
    with None show ?thesis by (simp add: wp_bind wp_return cong: option.case_cong)
  next
    case (Some s)
    from wf_session(4) [OF after_wf [OF v1] Some] obtain u where u: "s_user_id s = Some u" by blast
    have "wp (?K (Some (user_key (impl v1) u))) Q v2" if v2: "frame v1 v2" for v2
    proof -
      have i: "impl v2 = impl v1" by (rule frame_impl [OF v2])
      have "wp (?K (if True then Some (user_key (impl v2) u) else None)) Q v2"
        by (rule delete_keys_spec [OF after_frame [OF at1 v2] mem])
           (use Some u i Q [OF f] in \<open>simp_all add: unlist_def\<close>)
      then show ?thesis unfolding i if_True .
    qed
    then have "wp (redis_user_key (Some u)) (\<lambda>k. wp (?K k) Q) v1"
      using after_starved [OF v1] mem by (intro wp_user_key) auto
    with Some u show ?thesis by (simp add: wp_bind)
  qed
qed

lemma members_spec:
  assumes mem: "\<not> starved w" and live: "timely m w"
  shows "after w m ix v \<Longrightarrow> distinct ms \<Longrightarrow> (\<And>i. i \<in> set ms \<Longrightarrow> CHR 0x00 \<notin> set i) \<Longrightarrow>
    (\<And>out v'. after w m ix v' \<Longrightarrow> fades (view v) (view v') \<Longrightarrow> listed (view v) (view v') (set ms) out \<Longrightarrow>
      Q (Some (acc @ out)) v') \<Longrightarrow>
    wp (redis_members R C (Suc n) (map REDIS_REPLY_STRING ms) acc) Q v"
proof (induction ms arbitrary: v acc)
  case Nil
  from Nil(4) [of v "[]"] Nil(1) show ?case by (simp add: wp_return listed_def)
next
  case (Cons i ms)
  have i: "cstr i = i" using Cons.prems(3) [of i] by simp
  show ?case
    unfolding list.map redis_members.simps i
  proof (rule wp_bindI, rule get_spec [OF Cons.prems(1) mem live])
    fix v1
    assume v1: "after w m ix v1" and f1: "fades (view v) (view v1)"
    have rest: "wp (redis_members R C (Suc n) (map REDIS_REPLY_STRING ms) acc') Q v2"
      if v2: "frame v1 v2" and acc': "acc' = acc @ (case view v1 i of None \<Rightarrow> [] | Some s \<Rightarrow> [s])" for v2 acc'
    proof (rule Cons.IH [OF after_frame [OF v1 v2]])
      fix out v'
      assume v': "after w m ix v'" and f': "fades (view v2) (view v')"
        and out: "listed (view v2) (view v') (set ms) out"
      have i2: "impl v2 = impl v1" by (rule frame_impl [OF v2])
      have "listed (view v) (view v') (set (i # ms)) ((case view v1 i of None \<Rightarrow> [] | Some s \<Rightarrow> [s]) @ out)"
      proof (cases "view v1 i")
        case None
        with listed_skip [OF listed_mono [OF f1, of "view v'" "set ms" out], of i] out fades_None [OF f'] show ?thesis
          by (simp add: i2)
      next
        case (Some s)
        from wf_session(2) [OF after_wf [OF v1] Some] listed_add [of "view v1" "view v'" "set ms" out s i]
        have "listed (view v1) (view v') (set (i # ms)) (s # out)"
          using out f' Cons.prems(2) Some by (simp add: i2)
        from listed_mono [OF f1 this] Some show ?thesis by simp
      qed
      from Cons.prems(4) [OF v' fades_trans [OF f1] this] f' show "Q (Some (acc' @ out)) v'"
        by (simp add: acc' i2)
    qed (use Cons.prems in auto)
    show "wp (case (case view v1 i of None \<Rightarrow> (-1 :: int, None) | Some s \<Rightarrow> (0, Some s)) of (rc, session) \<Rightarrow>
        if rc \<noteq> 0 then redis_members R C (Suc n) (map REDIS_REPLY_STRING ms) acc
        else do {
          ok \<leftarrow> alloc;
          if \<not> ok then ret None
          else (case session of None \<Rightarrow> ub None
            | Some s \<Rightarrow> redis_members R C (Suc n) (map REDIS_REPLY_STRING ms) (acc @ [s])) }) Q v1"
    proof (cases "view v1 i")
      case None
      with rest [OF frame_refl, of acc] show ?thesis by simp
    next
      case (Some s)
      have ok: "mem_ok v1 (mallocs v1)" using after_starved [OF v1] mem by (auto simp: starved_def)
      have "frame v1 (v1\<lparr>mallocs := Suc (mallocs v1)\<rparr>)" by simp
      with rest [OF this, of "acc @ [s]"] Some ok show ?thesis by (simp add: wp_bind wp_alloc)
    qed
  qed
qed

lemma get_by_user_spec:
  assumes at: "after w m ix v" and mem: "\<not> starved w" and live: "timely m w"
    and Q: "\<And>out v'. after w m ix v' \<Longrightarrow> listed m (view v') (ix u) out \<Longrightarrow> Q (0, out) v'"
  shows "wp (redis_get_by_user_id R C (Suc n) (Some u)) Q v"
proof -
  have "wp (send_command R [''SMEMBERS'', user_key (impl v) u]) (\<lambda>r. wp (case r of
        Some REDIS_REPLY_NIL \<Rightarrow> ret (0, [])
      | Some (REDIS_REPLY_ARRAY elements) \<Rightarrow> do {
          sessions \<leftarrow> redis_members R C (Suc n) elements [];
          case sessions of None \<Rightarrow> ret (-1, []) | Some xs \<Rightarrow> ret (0, xs) }
      | _ \<Rightarrow> ret (-1, [])) Q) v1" if v1: "frame v v1" for v1
    unfolding frame_impl [OF v1, symmetric]
  proof (rule wp_SMEMBERS [OF after_wf [OF after_frame [OF at v1]]])
    fix ms v2
    assume v2: "after v1 (view v1) (index v1) v2" and ms: "distinct ms" "set ms = index v1 u"
    note at1 = after_frame [OF at v1]
    have at2: "after w m ix v2" using after_trans [OF at1 v2 after_fades [OF at1]] after_index [OF at1] by simp
    have nul: "\<And>i. i \<in> set ms \<Longrightarrow> CHR 0x00 \<notin> set i"
      using after_wf [OF at1] ms(2) unfolding redis_wf_but_def by blast
    have "wp (redis_members R C (Suc n) (map REDIS_REPLY_STRING ms) [])
        (\<lambda>r. wp (case r of None \<Rightarrow> ret (-1, []) | Some xs \<Rightarrow> ret (0, xs)) Q) v2"
    proof (rule members_spec [OF mem live at2 ms(1) nul], assumption)
      fix out v'
      assume v': "after w m ix v'" and out: "listed (view v2) (view v') (set ms) out"
      have "listed m (view v') (ix u) out"
        using listed_mono [OF after_fades [OF at2] out] ms(2) after_index [OF at1] by simp
      from Q [OF v' this] show "wp (case Some ([] @ out) of None \<Rightarrow> ret (-1, []) | Some xs \<Rightarrow> ret (0, xs)) Q v'"
        by (simp add: wp_return)
    qed
    then show "wp (case Some (REDIS_REPLY_ARRAY (map REDIS_REPLY_STRING ms)) of
        Some REDIS_REPLY_NIL \<Rightarrow> ret (0, [])
      | Some (REDIS_REPLY_ARRAY elements) \<Rightarrow> do {
          sessions \<leftarrow> redis_members R C (Suc n) elements [];
          case sessions of None \<Rightarrow> ret (-1, []) | Some xs \<Rightarrow> ret (0, xs) }
      | _ \<Rightarrow> ret (-1, [])) Q v2" by (simp add: wp_bind)
  qed
  then show ?thesis
    unfolding redis_get_by_user_id_def option.case
    using after_starved [OF at] mem by (auto simp: wp_bind intro!: wp_user_key)
qed

lemma delete_all_spec:
  assumes mem: "\<not> starved w"
  shows "after w m ix v \<Longrightarrow> timely m w \<Longrightarrow> map s_id ss = map Some is \<Longrightarrow>
    (\<And>ix' v'. after w (without (set is) m) ix' v' \<Longrightarrow> thinned (set is) ix ix' \<Longrightarrow> Q () v') \<Longrightarrow>
    wp (redis_delete_all R C (Suc n) ss) Q v"
proof (induction ss arbitrary: "is" m ix v)
  case Nil
  from Nil.prems(4) [of ix v] Nil.prems(1,3) show ?case
    by (simp add: wp_return without_def thinned_def)
next
  case (Cons s ss)
  then obtain i js where js: "is = i # js" "s_id s = Some i" "map s_id ss = map Some js" by (cases "is") auto
  show ?case
    unfolding redis_delete_all.simps js(2)
  proof (rule wp_bindI, rule delete_spec [OF Cons.prems(1) mem Cons.prems(2)])
    fix m1 v1
    assume m1: "fades m m1" and v1: "after w (m1(i := None)) (unlist (m1 i) i ix) v1"
    have live: "timely (m1(i := None)) w"
      using timely_mono [OF Cons.prems(2) m1 oframe_refl] by (auto simp: timely_def)
    show "wp (redis_delete_all R C (Suc n) ss) Q v1"
    proof (rule Cons.IH [OF v1 live js(3)])
      fix ix' v'
      assume v': "after w (without (set js) (m1(i := None))) ix' v'" and t: "thinned (set js) (unlist (m1 i) i ix) ix'"
      have "fades (without (set is) m) (without (set js) (m1(i := None)))"
        using m1 by (auto simp: js(1) without_def fades_def)
      then have "after w (without (set is) m) ix' v'" using v' by (auto simp: after_def intro: fades_trans)
      moreover have "thinned (set is) ix ix'"
        by (rule thinned_trans [OF thinned_unlist [of i "{i}"] t]) (auto simp: js(1))
      ultimately show "Q () v'" by (rule Cons.prems(4))
    qed
  qed
qed

lemma delete_by_user_spec:
  assumes at: "after w m ix v" and mem: "\<not> starved w" and live: "timely m w"
    and Q: "\<And>ix' v'. after w (without (ix u) m) ix' v' \<Longrightarrow> ix' u = {} \<Longrightarrow> thinned (ix u) ix ix' \<Longrightarrow> Q 0 v'"
  shows "wp (redis_delete_by_user_id R C (Suc n) (Some u)) Q v"
  unfolding redis_delete_by_user_id_def option.case
proof (rule wp_bindI, rule get_by_user_spec [OF at mem live])
  fix out v1
  assume v1: "after w m ix v1" and out: "listed m (view v1) (ix u) out"
  obtain js where js: "map s_id out = map Some js" "set js \<subseteq> ix u"
  proof
    show "map s_id out = map Some (map (the \<circ> s_id) out)" using out by (auto simp: listed_def)
    show "set (map (the \<circ> s_id) out) \<subseteq> ix u" using out by (auto simp: listed_def)
  qed
  have found: "i \<in> set js" if "i \<in> ix u" "view v1 i = Some s" for i s
  proof -
    have "s \<in> set out" using out that by (simp add: listed_def)
    then have "s_id s \<in> set (map Some js)" unfolding js(1) [symmetric] by simp
    with wf_session(2) [OF after_wf [OF v1] that(2)] show ?thesis by auto
  qed
  have live1: "timely (view v1) w" using live after_fades [OF v1] oframe_refl by (rule timely_mono)
  have "wp (redis_delete_all R C (Suc n) out) (\<lambda>_. wp (do {
      ukey \<leftarrow> redis_user_key (Some u);
      case ukey of None \<Rightarrow> ret 0 | Some ukey \<Rightarrow> do { _ \<leftarrow> send_command R [''DEL'', ukey]; ret 0 } }) Q) v1"
  proof (rule delete_all_spec [OF mem after_view [OF v1] live1 js(1)])
    fix ix2 v2
    assume v2: "after w (without (set js) (view v1)) ix2 v2" and t: "thinned (set js) ix ix2"
    have sub: "ix2 u \<subseteq> ix u" using t by (simp add: thinned_def)
    have gone: "without (set js) (view v1) i = None" if "i \<in> ix u" for i
      using found [OF that] by (cases "view v1 i") (auto simp: without_def)
    have f: "fades (without (ix u) m) (without (set js) (view v1))"
      using after_fades [OF v1] gone js(2) by (auto simp: fades_def without_def)
    have "wp (send_command R [''DEL'', user_key (impl v3) u]) (\<lambda>_. Q 0) v3" if v3: "frame v2 v3" for v3
    proof (rule wp_DEL_user)
      note at3 = after_frame [OF v2 v3]
      show "wf_but {} v3" by (rule after_wf [OF at3])
      show "view v3 i = None" if "i \<in> index v3 u" for i
        using that after_index [OF at3] sub gone [of i] fades_None [OF after_fades [OF at3]] by auto
      fix v'
      assume v': "after v3 (view v3) ((index v3)(u := {})) v'"
      have "after w (without (ix u) m) (ix2(u := {})) v'"
        using after_trans [OF at3 v' fades_trans [OF f after_fades [OF at3]]] after_index [OF at3] by simp
      moreover have "thinned (ix u) ix (ix2(u := {}))" using t js(2) by (auto simp: thinned_def)
      ultimately show "Q 0 v'" by (intro Q) auto
    qed
    then show "wp (do {
      ukey \<leftarrow> redis_user_key (Some u);
      case ukey of None \<Rightarrow> ret 0 | Some ukey \<Rightarrow> do { _ \<leftarrow> send_command R [''DEL'', ukey]; ret 0 } }) Q v2"
      using after_starved [OF v2] mem frame_impl by (fastforce simp: wp_bind wp_return_fun intro!: wp_user_key)
  qed
  then show "wp (case (0 :: int, out) of (rc, sessions) \<Rightarrow> if rc \<noteq> 0 then ret (-1) else do {
      redis_delete_all R C (Suc n) sessions;
      ukey \<leftarrow> redis_user_key (Some u);
      case ukey of None \<Rightarrow> ret 0 | Some ukey \<Rightarrow> do { _ \<leftarrow> send_command R [''DEL'', ukey]; ret 0 } }) Q v1"
    by (simp add: wp_bind)
qed

end

end
