(* ===== verification/Example_Main.thy ===== *)
theory Example_Main
  imports Example_Properties Http_Properties Sqlite_Store Odbc_Store Redis_Store
begin

text \<open>
  The program \<^verbatim>\<open>main\<close> of \<^verbatim>\<open>examples/server.c\<close>: it opens the store its arguments name, initialises the
  manager and the HTTP server, runs the event loop until a signal clears the server's flag, and
  destroys the store. The environment is the sequence of its polls: the events the HTTP library
  delivers in each, and whether a signal came. A run has the type of the store's implementation, so
  the opener of one kind of store answers NULL to the other choices.
\<close>

section \<open>Opening a store\<close>

definition install :: "('s sys, ('s \<times> 's OpenDBSC_Store) option) state \<Rightarrow>
    ('s sys, 's OpenDBSC_Store option) state" where
  "install factory = do {
     r \<leftarrow> factory;
     case r of None \<Rightarrow> ret None | Some (x, st) \<Rightarrow> do { put_impl x; ret (Some st) } }"

definition open_memory :: "bool \<Rightarrow> store_choice \<Rightarrow>
    (OpenDBSC_MemoryStore sys, OpenDBSC_MemoryStore OpenDBSC_Store option) state" where
  "open_memory mutex_ok choice =
     (case choice of Memory_Store \<Rightarrow> install (opendbsc_memory_store_create mutex_ok) | _ \<Rightarrow> ret None)"

definition open_sqlite :: "('d, 'q) sqlite3 \<Rightarrow> store_choice \<Rightarrow> ('d sys, 'd OpenDBSC_Store option) state" where
  "open_sqlite L choice =
     (case choice of Sqlite_Store path \<Rightarrow> install (opendbsc_sqlite_store_create L (Some path)) | _ \<Rightarrow> ret None)"

definition open_redis :: "'d hiredis \<Rightarrow> 'j cjson \<Rightarrow> nat \<Rightarrow> store_choice \<Rightarrow>
    ('d OpenDBSC_RedisCtx sys, 'd OpenDBSC_RedisCtx OpenDBSC_Store option) state" where
  "open_redis R C depth choice =
     (case choice of Redis_Store \<Rightarrow> install (opendbsc_redis_store_create R C depth None) | _ \<Rightarrow> ret None)"

definition open_odbc :: "('d, 'q) odbc \<Rightarrow> bool \<Rightarrow> store_choice \<Rightarrow>
    ('d opendbsc_odbc_ctx sys, 'd opendbsc_odbc_ctx OpenDBSC_Store option) state" where
  "open_odbc L mutex_ok choice =
     (case choice of
        Odbc_Store conn \<Rightarrow> install (opendbsc_odbc_store_create L mutex_ok (Some
          \<lparr>od_connection_string = Some conn, od_table_name = None, od_auto_create_table = 1,
           od_login_timeout_seconds = 0\<rparr>))
      | _ \<Rightarrow> ret None)"

section \<open>Serving\<close>

text \<open>
  One event of the HTTP library. The manager's callback is \<open>add_event\<close>: it gets each event the
  handler reports. The skipped sessions are reported before the application's route reads or writes
  the ring, so \<open>with_callback\<close> hands them over there; the login route hands over the LOGIN
  event itself, and what the manager reports after the route has declined is handed over when the
  handler is done, before the clock is read again. The number beside the application's state counts
  the events that have been handed over.
\<close>

definition with_callback :: "(int \<Rightarrow> int) \<Rightarrow> ('s, app_state) OpenDBSC_HTTPRoute \<Rightarrow>
    ('s, app_state \<times> nat) OpenDBSC_HTTPRoute" where
  "with_callback tz route mt uri body n mgr resp st = do {
     reported \<leftarrow> State (\<lambda>w. (events w, w));
     app \<leftarrow> deliver tz (drop (snd st) reported) (fst st);
     (r, app) \<leftarrow> route mt uri body n mgr resp app;
     reported \<leftarrow> State (\<lambda>w. (events w, w));
     ret (r, app, length reported) }"

definition callback_server :: "(int \<Rightarrow> int) \<Rightarrow> ('s, app_state) OpenDBSC_HTTPServer \<Rightarrow>
    ('s, app_state \<times> nat) OpenDBSC_HTTPServer" where
  "callback_server tz srv = \<lparr>hs_manager = hs_manager srv, hs_route = map_option (with_callback tz) (hs_route srv),
     hs_static_root = hs_static_root srv, hs_running = hs_running srv,
     hs_tls_cert = hs_tls_cert srv, hs_tls_key = hs_tls_key srv\<rparr>"

definition serve_event :: "('j, 'b, 'k) externals \<Rightarrow> (int \<Rightarrow> int) \<Rightarrow> ('s, app_state) OpenDBSC_HTTPServer \<Rightarrow>
    mg_event \<Rightarrow> app_state \<Rightarrow> ('s sys, app_state) state" where
  "serve_event E tz srv ev app = do {
     before \<leftarrow> State (\<lambda>w. (events w, w));
     (act, app, n) \<leftarrow> dbsc_event_handler E (Some (callback_server tz srv)) ev (app, length before);
     after \<leftarrow> State (\<lambda>w. (events w, w));
     deliver tz (drop n after) app }"

fun serve_events :: "('j, 'b, 'k) externals \<Rightarrow> (int \<Rightarrow> int) \<Rightarrow> ('s, app_state) OpenDBSC_HTTPServer \<Rightarrow>
    mg_event list \<Rightarrow> app_state \<Rightarrow> ('s sys, app_state) state" where
  "serve_events E tz srv [] app = ret app"
| "serve_events E tz srv (ev # evs) app = do {
     app \<leftarrow> serve_event E tz srv ev app;
     serve_events E tz srv evs app }"

text \<open>The events of a poll and whether a signal came in it, for every poll.\<close>

type_synonym arrivals = "nat \<Rightarrow> mg_event list \<times> bool"

definition main_poll :: "('j, 'b, 'k) externals \<Rightarrow> (int \<Rightarrow> int) \<Rightarrow> arrivals \<Rightarrow>
    ('s, app_state) OpenDBSC_HTTPServer \<times> nat \<times> app_state \<times> 's sys \<Rightarrow>
    ('s, app_state) OpenDBSC_HTTPServer \<times> nat \<times> app_state \<times> 's sys" where
  "main_poll E tz arrivals st =
     (case st of (srv, n, app, w) \<Rightarrow>
        (case run_state (serve_events E tz srv (fst (arrivals n)) app) w of (app, w) \<Rightarrow>
           (if snd (arrivals n) then the (signal_handler (Some srv)) else srv, Suc n, app, w)))"

section \<open>The program\<close>

definition destroy_and_exit :: "int \<Rightarrow> 's OpenDBSC_Store \<Rightarrow> 's sys \<Rightarrow> int \<times> 's sys" where
  "destroy_and_exit code st w = (code, snd (run_state (st_destroy st) w))"

text \<open>The part after the store has been opened; \<^verbatim>\<open>mgr\<close> is not initialised before. \<open>None\<close> is a run that does
  not end.\<close>

definition main_serve :: "('j, 'b, 'k) externals \<Rightarrow> (int \<Rightarrow> int) \<Rightarrow> mongoose \<Rightarrow> arrivals \<Rightarrow>
    's OpenDBSC_Store \<Rightarrow> 's OpenDBSC_Manager \<Rightarrow> 's sys \<Rightarrow> (int \<times> 's sys) option" where
  "main_serve E tz G arrivals st mgr w =
     (case run_state (opendbsc_manager_init (Some mgr) (Some (example_config st))) w of ((rc, mgr), w) \<Rightarrow>
        if rc \<noteq> 0 then Some (destroy_and_exit 1 st w)
        else (case run_state (opendbsc_http_server_start G (Some (example_server_config E tz (the mgr)))) w of
            (None, w) \<Rightarrow> Some (destroy_and_exit 1 st w)
          | (Some srv, w) \<Rightarrow>
              map_option (\<lambda>(g_server, n, app, w). destroy_and_exit 0 st w)
                (opendbsc_http_server_run (main_poll E tz arrivals) (Some srv) (0, initial_app, w))))"

definition example_main :: "(store_choice \<Rightarrow> ('s sys, 's OpenDBSC_Store option) state) \<Rightarrow> bool \<Rightarrow> string option \<Rightarrow>
    ('j, 'b, 'k) externals \<Rightarrow> (int \<Rightarrow> int) \<Rightarrow> mongoose \<Rightarrow> arrivals \<Rightarrow> 's OpenDBSC_Manager \<Rightarrow> string list \<Rightarrow>
    's sys \<Rightarrow> (int \<times> 's sys) option" where
  "example_main open_store have_odbc env E tz G arrivals mgr args w =
     (let store_type = (case args of [] \<Rightarrow> ''memory'' | a # _ \<Rightarrow> a);
          odbc_conn = (case args of _ # b # _ \<Rightarrow> Some b | _ \<Rightarrow> None)
      in case run_state (open_store (create_store have_odbc env (Some store_type) odbc_conn)) w of
           (None, w) \<Rightarrow> Some (1, w)
         | (Some st, w) \<Rightarrow> main_serve E tz G arrivals st mgr w)"

section \<open>With the in-memory store\<close>

lemma wp_open_memory:
  assumes st: "\<not> starved w"
    and ok: "\<And>v. mutex_ok \<Longrightarrow> frame w v \<Longrightarrow> Q (Some memory_store_vtable) (v\<lparr>impl := fresh_memory_store\<rparr>)"
    and no: "\<And>v. \<not> mutex_ok \<Longrightarrow> frame w v \<Longrightarrow> Q None v"
  shows "wp (open_memory mutex_ok Memory_Store) Q w"
proof -
  have f: "framed (opendbsc_memory_store_create mutex_ok :: (OpenDBSC_MemoryStore sys, _) state) (\<lambda>_. True)"
    unfolding opendbsc_memory_store_create_def
    by (intro framed_bind [OF framed_alloc]) (auto intro!: framed_return framed_bind [OF framed_alloc])
  have r: "returns (opendbsc_memory_store_create mutex_ok :: (OpenDBSC_MemoryStore sys, _) state)
      (if mutex_ok then Some (fresh_memory_store, memory_store_vtable) else None)"
    unfolding opendbsc_memory_store_create_def fresh_memory_store_def
    by (cases mutex_ok) (auto intro!: returns_returnI returns_bind [OF returns_alloc])
  show ?thesis
    unfolding open_memory_def install_def store_choice.case
    by (rule wp_bindI, rule wp_framed_avail [OF f r]) (use st ok no in \<open>auto simp: wps split: if_splits\<close>)
qed

text \<open>With memory available the manager is configured as the program asks.\<close>

lemma wp_main_manager:
  assumes st: "\<not> starved w"
    and Q: "\<And>mg v. frame w v \<Longrightarrow> memory_manager mg \<Longrightarrow> cfg_on_event (mgr_cfg mg) \<Longrightarrow> Q (0, Some mg) v"
  shows "wp (opendbsc_manager_init (Some m) (Some (example_config memory_store_vtable))) Q w"
proof -
  have st': "\<not> starved v" if "frame w v" for v using st frame_starved [OF that] by simp
  have copy: "wp (copy_string s) P v" if "frame w v" "\<And>v'. frame w v' \<Longrightarrow> P s v'" for s P and v :: msys
    by (rule wp_available [OF attempts_copy_string st' [OF that(1)]]) (use that frame_trans in blast)
  show ?thesis
    unfolding opendbsc_manager_init_def prod.case option.case
    by (simp add: example_config_def or_default_def, (rule wp_bindI, rule copy, (rule frame_refl | assumption))+)
       (auto simp: wp_return manages_def mgr_ok_def intro!: Q)
qed

lemma wp_main_server:
  assumes st: "\<not> starved w"
    and ok: "\<And>srv v. mg_http_listen G ''https://0.0.0.0:8447'' \<Longrightarrow> frame w v \<Longrightarrow> hs_running srv \<Longrightarrow>
      hs_manager srv = mg \<Longrightarrow> hs_route srv = Some (app_route E tz) \<Longrightarrow> Q (Some srv) v"
    and no: "\<And>v. \<not> mg_http_listen G ''https://0.0.0.0:8447'' \<Longrightarrow> frame w v \<Longrightarrow> Q None v"
  shows "wp (opendbsc_http_server_start G (Some (example_server_config E tz mg))) Q w"
proof -
  let ?run = "opendbsc_http_server_start G (Some (example_server_config E tz mg))"
  have shape: "wp ?run (\<lambda>r v. frame w v \<and> (\<forall>srv. r = Some srv \<longrightarrow>
     hs_running srv \<and> hc_manager (example_server_config E tz mg) = Some (hs_manager srv) \<and>
     hs_route srv = hc_route (example_server_config E tz mg))) w"
    by (rule wp_framed [OF http_server_start_runs]) auto
  have listens: "wp ?run (\<lambda>r v. (r \<noteq> None) = mg_http_listen G ''https://0.0.0.0:8447'') w"
    unfolding opendbsc_http_server_start_def example_server_config_def option.case OpenDBSC_HTTPServerConfig.simps prod.case
    apply (rule wp_bindI, rule wp_available [OF attempts_alloc st])
    apply (cases "mg_http_listen G ''https://0.0.0.0:8447''")
     apply (simp_all add: Let_def wp_return)
    apply (rule wp_bindI, rule wp_framed [OF framed_load_tls])
     apply (simp_all add: wp_return)
    done
  show ?thesis
    by (rule wp_mono [OF wp_conj [OF shape listens]])
       (use ok no in \<open>auto simp: example_server_config_def split: option.splits\<close>)
qed

section \<open>The event loop\<close>

text \<open>What holds between two polls, since \<open>w0\<close>, for a server of the example.\<close>

definition example_server :: "('j, 'b, 'k) externals \<Rightarrow> (int \<Rightarrow> int) \<Rightarrow> memory_manager \<Rightarrow>
    (OpenDBSC_MemoryStore, app_state) OpenDBSC_HTTPServer \<Rightarrow> bool" where
  "example_server E tz mg srv \<longleftrightarrow> hs_manager srv = mg \<and> hs_route srv = Some (app_route E tz)"

lemma example_server_ok: "example_server E tz mg srv \<Longrightarrow> memory_manager mg \<Longrightarrow> uuid_text E \<Longrightarrow> server_ok E app_ok srv"
  by (simp add: example_server_def server_ok_def app_route_conforms)

lemma with_callback_conforms:
  assumes "route_conforms E mg app_ok route"
  shows "route_conforms E mg (\<lambda>st. app_ok (fst st)) (with_callback tz route)"
  unfolding route_conforms_def
proof (intro allI impI)
  fix mt uri body n resp st w rc resp' st' w'
  assume w: "serving w" and st: "app_ok (fst st)"
    and run: "run_state (with_callback tz route mt uri body n mg resp st) w = (((rc, resp'), st'), w')"
  obtain app v where d: "run_state (deliver tz (drop (snd st) (events w)) (fst st)) w = (app, v)" by (metis prod.exhaust)
  from framedD [OF framed_deliver d] st have v: "frame w v" "app_ok app" by simp_all
  obtain r app' u where route: "run_state (route mt uri body n mg resp app) v = ((r, app'), u)" by (metis prod.exhaust)
  with run d have eq: "r = (rc, resp')" "st' = (app', length (events u))" "w' = u"
    by (auto simp: with_callback_def run_state_bind)
  note route = route [unfolded eq(1) eq(3) [symmetric]]
  have c: "mgr_runs E mg v w' \<and> kept v w' \<and> complete_sessions w' \<and> app_ok app' \<and> (uri \<in> protocol_paths \<longrightarrow> rc \<noteq> 0)"
    using assms serving_frame [OF w v(1)] v(2) route unfolding route_conforms_def by blast
  then have "mgr_runs E mg w w'" by (blast intro: mgr_runs_trans mgr_runs.quiet [OF mgr_runs.refl v(1)])
  moreover have "kept w w'" using kept_trans [of mem_wf w v w'] c mem_kept_frame [OF v(1)] w by (simp add: serving_def)
  ultimately show "mgr_runs E mg w w' \<and> kept w w' \<and> complete_sessions w' \<and> app_ok (fst st') \<and>
      (uri \<in> protocol_paths \<longrightarrow> rc \<noteq> 0)" using c by (simp add: eq(2))
qed

lemma callback_server_ok:
  "server_ok E app_ok srv \<Longrightarrow> server_ok E (\<lambda>st. app_ok (fst st)) (callback_server tz srv)"
  by (auto simp: server_ok_def callback_server_def intro: with_callback_conforms)

lemma serve_event_run:
  assumes srv: "example_server E tz mg srv" and good: "good_run E mg w0 w" and app: "app_ok app"
    and run: "run_state (serve_event E tz srv ev app) w = (app', w')"
  shows "good_run E mg w0 w' \<and> app_ok app'"
proof -
  have "server_ok E app_ok srv" using example_server_ok [OF srv] good by (simp add: good_run_def)
  then have ok: "server_ok E (\<lambda>st. app_ok (fst st)) (callback_server tz srv)" by (rule callback_server_ok)
  obtain act app1 n v where h: "run_state (dbsc_event_handler E (Some (callback_server tz srv)) ev (app, length (events w))) w
      = ((act, app1, n), v)" by (metis prod.exhaust)
  from handler_run [OF ok _ good_run_serving [OF good] h] srv app
  have v: "mgr_runs E mg w v" "app_ok app1" by (simp_all add: example_server_def callback_server_def)
  have d: "run_state (deliver tz (drop n (events v)) app1) v = (app', w')"
    using run h by (simp add: serve_event_def run_state_bind)
  from framedD [OF framed_deliver d] have f: "frame v w'" and "app_ok app'" using v(2) by simp_all
  moreover have "mgr_runs E mg w0 w'"
    using mgr_runs_trans [OF mgr_runs.quiet [OF v(1) f]] good by (simp add: good_run_def)
  ultimately show ?thesis using good by (simp add: good_run_def)
qed

lemma serve_events_run:
  assumes "example_server E tz mg srv"
  shows "good_run E mg w0 w \<Longrightarrow> app_ok app \<Longrightarrow> run_state (serve_events E tz srv evs app) w = (app', w') \<Longrightarrow>
    good_run E mg w0 w' \<and> app_ok app'"
proof (induction evs arbitrary: app w)
  case (Cons ev evs)
  obtain app1 v where e: "run_state (serve_event E tz srv ev app) w = (app1, v)" by (metis prod.exhaust)
  with Cons.prems(3) have "run_state (serve_events E tz srv evs app1) v = (app', w')" by (simp add: run_state_bind)
  with Cons.IH serve_event_run [OF assms Cons.prems(1,2) e] show ?case by blast
qed simp

lemma main_polls:
  assumes "example_server E tz mg srv" and "good_run E mg w0 w" and "app_ok app" and "hs_running srv"
  shows "\<exists>srv' app' w'. (main_poll E tz arrivals ^^ k) (srv, 0, app, w) = (srv', k, app', w') \<and>
    example_server E tz mg srv' \<and> good_run E mg w0 w' \<and> app_ok app' \<and>
    hs_running srv' = (\<forall>j < k. \<not> snd (arrivals j))"
proof (induction k)
  case 0
  with assms show ?case by simp
next
  case (Suc k)
  then obtain srv' app' w' where st: "(main_poll E tz arrivals ^^ k) (srv, 0, app, w) = (srv', k, app', w')"
    and inv: "example_server E tz mg srv'" "good_run E mg w0 w'" "app_ok app'"
      "hs_running srv' = (\<forall>j < k. \<not> snd (arrivals j))" by blast
  obtain app1 w1 where run: "run_state (serve_events E tz srv' (fst (arrivals k)) app') w' = (app1, w1)"
    by (metis prod.exhaust)
  let ?srv = "if snd (arrivals k) then srv'\<lparr>hs_running := False\<rparr> else srv'"
  have "main_poll E tz arrivals (srv', k, app', w') = (?srv, Suc k, app1, w1)"
    using run by (simp add: main_poll_def signal_handler_def opendbsc_http_server_request_stop_def)
  with st have "(main_poll E tz arrivals ^^ Suc k) (srv, 0, app, w) = (?srv, Suc k, app1, w1)" by simp
  moreover have "example_server E tz mg ?srv" using inv(1) by (simp add: example_server_def)
  moreover have "hs_running ?srv = (\<forall>j < Suc k. \<not> snd (arrivals j))" using inv(4) by (auto simp: less_Suc_eq)
  ultimately show ?case using serve_events_run [OF inv(1-3) run] by blast
qed

lemma main_loop:
  assumes "example_server E tz mg srv" and "good_run E mg w0 w" and "app_ok app" and "hs_running srv"
  shows "(\<forall>n. \<not> snd (arrivals n)) \<Longrightarrow>
      opendbsc_http_server_run (main_poll E tz arrivals) (Some srv) (0, app, w) = None"
    and "snd (arrivals n) \<Longrightarrow> \<exists>srv' k app' w'.
      opendbsc_http_server_run (main_poll E tz arrivals) (Some srv) (0, app, w) = Some (Some srv', k, app', w') \<and>
      good_run E mg w0 w'"
proof -
  note polls = main_polls [OF assms, where arrivals = arrivals]
  show "opendbsc_http_server_run (main_poll E tz arrivals) (Some srv) (0, app, w) = None"
    if none: "\<forall>n. \<not> snd (arrivals n)"
  proof (cases "server_loop (main_poll E tz arrivals) (srv, 0, app, w)")
    case (Some y)
    from server_loop_stopped [OF this] obtain k where
      "\<not> hs_running (fst ((main_poll E tz arrivals ^^ k) (srv, 0, app, w)))" by blast
    with polls [of k] none show ?thesis by auto
  qed (simp add: opendbsc_http_server_run_def)
  show "\<exists>srv' k app' w'.
      opendbsc_http_server_run (main_poll E tz arrivals) (Some srv) (0, app, w) = Some (Some srv', k, app', w') \<and>
      good_run E mg w0 w'" if stop: "snd (arrivals n)"
  proof -
    have "\<not> hs_running (fst ((main_poll E tz arrivals ^^ Suc n) (srv, 0, app, w)))"
      using polls [of "Suc n"] stop by auto
    from server_loop_returns [OF this] obtain k where
      "server_loop (main_poll E tz arrivals) (srv, 0, app, w) = Some ((main_poll E tz arrivals ^^ k) (srv, 0, app, w))"
      by blast
    with polls [of k] show ?thesis by (auto simp: opendbsc_http_server_run_def)
  qed
qed

section \<open>The program over the in-memory store\<close>

lemma fresh_memory_start: "events w = [] \<Longrightarrow> fresh_start (w\<lparr>impl := fresh_memory_store\<rparr>)"
  using demo_fresh_start by (simp add: fresh_start_def demo_start_def plenty_def)

lemma app_ok_initial: "app_ok initial_app"
  by (simp add: app_ok_def initial_app_def)

lemma destroyed:
  assumes "mem_wf (impl w)"
  shows "\<exists>w'. destroy_and_exit code memory_store_vtable w = (code, w') \<and> undef w' = undef w \<and>
    events w' = events w \<and> impl w' = fresh_memory_store"
  using wpD [OF destroy_spec [OF assms] prod.collapse [symmetric]]
  by (simp add: destroy_and_exit_def memory_store_vtable_def oframe_undef oframe_events fresh_memory_store_def)

text \<open>What a run of the program comes to, \<open>w\<close> being the world it starts in.\<close>

definition main_outcome :: "bool \<Rightarrow> arrivals \<Rightarrow> msys \<Rightarrow> (int \<times> msys) option \<Rightarrow> bool" where
  "main_outcome listens arrivals w r \<longleftrightarrow>
     (if \<not> listens then \<exists>w'. r = Some (1, w') \<and> undef w' = undef w \<and> impl w' = fresh_memory_store
      else if \<exists>n. snd (arrivals n)
      then \<exists>w'. r = Some (0, w') \<and> undef w' = undef w \<and> impl w' = fresh_memory_store \<and> log_ok (events w')
      else r = None)"

lemma main_outcome_undef: "main_outcome listens arrivals v r \<Longrightarrow> undef v = undef w \<Longrightarrow> main_outcome listens arrivals w r"
  by (simp add: main_outcome_def cong: if_cong)

lemma main_serve_outcome:
  assumes uuid: "uuid_text E" and st: "\<not> starved w" and start: "fresh_start w"
  shows "main_outcome (mg_http_listen G ''https://0.0.0.0:8447'') arrivals w
    (main_serve E tz G arrivals memory_store_vtable mgr w)"
proof -
  obtain rc m v where init: "run_state (opendbsc_manager_init (Some mgr) (Some (example_config memory_store_vtable))) w
      = ((rc, m), v)" by (metis prod.exhaust)
  have "wp (opendbsc_manager_init (Some mgr) (Some (example_config memory_store_vtable))) (\<lambda>(rc, m) v. frame w v \<and>
      rc = 0 \<and> (\<exists>mg. m = Some mg \<and> memory_manager mg \<and> cfg_on_event (mgr_cfg mg))) w"
    by (rule wp_main_manager [OF st]) simp
  from wpD [OF this init] obtain mg where v: "frame w v" "rc = 0" "m = Some mg" "memory_manager mg"
    "cfg_on_event (mgr_cfg mg)" by auto
  have stv: "\<not> starved v" using st frame_starved [OF v(1)] by simp
  obtain s u where srv: "run_state (opendbsc_http_server_start G (Some (example_server_config E tz mg))) v = (s, u)"
    by (metis prod.exhaust)
  have "wp (opendbsc_http_server_start G (Some (example_server_config E tz mg))) (\<lambda>s u. frame v u \<and>
      (if mg_http_listen G ''https://0.0.0.0:8447''
       then \<exists>srv. s = Some srv \<and> hs_running srv \<and> example_server E tz mg srv else s = None)) v"
    by (rule wp_main_server [OF stv]) (simp_all add: example_server_def)
  from wpD [OF this srv] have u: "frame v u" and s: "if mg_http_listen G ''https://0.0.0.0:8447''
      then \<exists>srv. s = Some srv \<and> hs_running srv \<and> example_server E tz mg srv else s = None" by auto
  have good: "good_run E mg w u"
    using uuid st start v(4) mgr_runs.quiet [OF mgr_runs.refl frame_trans [OF v(1) u]] by (simp add: good_run_def)
  have done': "\<exists>w'. destroy_and_exit code memory_store_vtable x = (code, w') \<and> undef w' = undef w \<and>
      impl w' = fresh_memory_store \<and> log_ok (events w')" if g: "good_run E mg w x" for code x
    using destroyed [OF good_run_inv(2) [OF g], of code] good_run_inv(1,3) [OF g] v(5) by (auto simp: kept_def)
  show ?thesis
  proof (cases "mg_http_listen G ''https://0.0.0.0:8447''")
    case False
    with s done' [OF good, of 1] show ?thesis
      by (auto simp: main_outcome_def main_serve_def init v(2,3) srv)
  next
    case True
    with s obtain server where server: "s = Some server" "hs_running server" "example_server E tz mg server" by auto
    note loop = main_loop [OF server(3) good app_ok_initial server(2), where arrivals = arrivals]
    show ?thesis
    proof (cases "\<exists>n. snd (arrivals n)")
      case stop: True
      then obtain n srv' k app' w' where
        "opendbsc_http_server_run (main_poll E tz arrivals) (Some server) (0, initial_app, u) = Some (Some srv', k, app', w')"
        "good_run E mg w w'" using loop(2) by blast
      with done' [of w' 0] True stop show ?thesis
        by (auto simp: main_outcome_def main_serve_def init v(2,3) srv server(1))
    next
      case False
      with loop(1) True show ?thesis
        by (simp add: main_outcome_def main_serve_def init v(2,3) srv server(1))
    qed
  qed
qed

text \<open>
  C38: The program ends as it should. Started for the in-memory store with memory available, whatever
  events the HTTP library delivers: when the mutex cannot be initialised or the address cannot be
  listened on, the program exits with 1; otherwise it runs until a signal arrives and then, and only
  then, exits with 0. On every path that has opened the store the store is destroyed, nothing
  undefined happens, and the events reported on the way are a faithful account.
\<close>

theorem example_main_exits:
  assumes "uuid_text E" and "\<not> starved w" and "events w = []" and "args = [] \<or> hd args = ''memory''"
  shows "if mutex_ok
    then main_outcome (mg_http_listen G ''https://0.0.0.0:8447'') arrivals w
      (example_main (open_memory mutex_ok) have_odbc env E tz G arrivals mgr args w)
    else \<exists>w'. example_main (open_memory mutex_ok) have_odbc env E tz G arrivals mgr args w = Some (1, w') \<and>
      undef w' = undef w"
proof -
  have choice: "create_store have_odbc env (Some (case args of [] \<Rightarrow> ''memory'' | a # _ \<Rightarrow> a)) c = Memory_Store" for c
    using assms(4) by (cases args) (auto simp: create_store_def)
  obtain st v where run: "run_state (open_memory mutex_ok Memory_Store) w = (st, v)" by (metis prod.exhaust)
  have "wp (open_memory mutex_ok Memory_Store) (\<lambda>st v. if mutex_ok
      then st = Some memory_store_vtable \<and> (\<exists>u. frame w u \<and> v = u\<lparr>impl := fresh_memory_store\<rparr>)
      else st = None \<and> frame w v) w"
    by (rule wp_open_memory [OF assms(2)]) auto
  from wpD [OF this run] have v: "if mutex_ok
      then st = Some memory_store_vtable \<and> (\<exists>u. frame w u \<and> v = u\<lparr>impl := fresh_memory_store\<rparr>)
      else st = None \<and> frame w v" .
  show ?thesis
  proof (cases mutex_ok)
    case True
    with v obtain u where u: "st = Some memory_store_vtable" "frame w u" "v = u\<lparr>impl := fresh_memory_store\<rparr>" by auto
    have "events u = []" using frame_events [OF u(2)] assms(3) by simp
    then have "fresh_start v" unfolding u(3) by (rule fresh_memory_start)
    moreover have "\<not> starved v" "undef v = undef w"
      using frame_starved [OF u(2)] assms(2) u(2) by (simp_all add: u(3) starved_def frame_def)
    ultimately have "main_outcome (mg_http_listen G ''https://0.0.0.0:8447'') arrivals w
        (main_serve E tz G arrivals memory_store_vtable mgr v)"
      using main_serve_outcome [OF assms(1), of v G arrivals tz mgr] by (auto intro: main_outcome_undef)
    with True u(1) run show ?thesis by (simp add: example_main_def choice Let_def)
  next
    case False
    with v run show ?thesis by (simp add: example_main_def choice Let_def frame_def)
  qed
qed

text \<open>A run in which a login arrives first and a signal in the third poll.\<close>

definition demo_arrivals :: arrivals where
  "demo_arrivals n = (if n = 0 then [MG_EV_ACCEPT, MG_EV_HTTP_MSG \<lparr>hm_method = Some ''POST'', hm_uri = Some ''/login'',
     hm_body = Some ''username=bob&password=hunter2'', mg_http_get_header = (\<lambda>_. None)\<rparr>] else [], n = 2)"

definition demo_mongoose :: mongoose where
  "demo_mongoose = \<lparr>mg_http_listen = (\<lambda>addr. addr = ''https://0.0.0.0:8447''), mg_file_read = (\<lambda>_. None)\<rparr>"

theorem example_main_exits_witness:
  "\<exists>w'. example_main (open_memory True) False None demo_ext (\<lambda>_. 0) demo_mongoose demo_arrivals demo_manager []
      demo_start = Some (0, w') \<and> impl w' = fresh_memory_store"
proof -
  have "events demo_start = []" using demo_fresh_start by (simp add: fresh_start_def)
  from example_main_exits [OF demo_uuid_text demo_plenty this, of "[]" True demo_mongoose demo_arrivals False None "\<lambda>_. 0" demo_manager]
  show ?thesis by (auto simp: main_outcome_def demo_mongoose_def demo_arrivals_def)
qed

end
