(* ===== verification/Redis_Reference.thy ===== *)
theory Redis_Reference
  imports Redis_Store
begin

text \<open>
  A JSON library and a key-value server to run the Redis store on. Documents are written in a prefix code
  instead of the JSON syntax, which the laws do not depend on; the server keeps string keys and set keys
  and never drops one. They interpret \<open>cjson_lib\<close> and \<open>redis_server\<close>, so that the laws are consistent
  and the theorems of the store hold of runs that can be evaluated.
\<close>

section \<open>Documents\<close>

datatype ref_json = Ref_Str string | Ref_Num double | Ref_Obj ref_members
  and ref_members = No_More | Member string ref_json ref_members

fun member :: "ref_members \<Rightarrow> string \<Rightarrow> ref_json option" where
  "member No_More key = None"
| "member (Member k v ms) key = (if k = key then Some v else member ms key)"

fun append_member :: "ref_members \<Rightarrow> string \<Rightarrow> ref_json \<Rightarrow> ref_members" where
  "append_member No_More k v = Member k v No_More"
| "append_member (Member k' v' ms) k v = Member k' v' (append_member ms k v)"

lemma member_append:
  "member (append_member ms k v) key = (if key = k \<and> member ms k = None then Some v else member ms key)"
  by (induction ms k v rule: append_member.induct) auto

section \<open>The code\<close>

fun enc_str :: "string \<Rightarrow> string" where
  "enc_str [] = '';''"
| "enc_str (c # s) = CHR ''.'' # c # enc_str s"

fun bits :: "nat \<Rightarrow> string" where
  "bits n = (if n = 0 then '';'' else (if odd n then CHR ''1'' else CHR ''0'') # bits (n div 2))"

declare bits.simps [simp del]

definition enc_int :: "int \<Rightarrow> string" where
  "enc_int i = (if i < 0 then CHR ''-'' else CHR ''+'') # bits (nat \<bar>i\<bar>)"

fun enc_double :: "double \<Rightarrow> string" where
  "enc_double Not_Finite = ''x''"
| "enc_double (Finite m e) = ''n'' @ enc_int m @ enc_int e"

fun enc :: "ref_json \<Rightarrow> string" and enc_members :: "ref_members \<Rightarrow> string" where
  "enc (Ref_Str s) = CHR ''s'' # enc_str s"
| "enc (Ref_Num d) = enc_double d"
| "enc (Ref_Obj ms) = CHR ''o'' # enc_members ms"
| "enc_members No_More = ''e''"
| "enc_members (Member k v ms) = CHR ''k'' # enc_str k @ enc v @ enc_members ms"

fun dec_str :: "string \<Rightarrow> (string \<times> string) option" where
  "dec_str [] = None"
| "dec_str [a] = (if a = CHR '';'' then Some ([], []) else None)"
| "dec_str (a # c # r) =
     (if a = CHR '';'' then Some ([], c # r)
      else if a = CHR ''.'' then map_option (\<lambda>(s, t). (c # s, t)) (dec_str r) else None)"

fun dec_bits :: "string \<Rightarrow> (nat \<times> string) option" where
  "dec_bits [] = None"
| "dec_bits (a # r) =
     (if a = CHR '';'' then Some (0, r)
      else map_option (\<lambda>(n, t). ((if a = CHR ''1'' then 1 else 0) + 2 * n, t)) (dec_bits r))"

definition dec_int :: "string \<Rightarrow> (int \<times> string) option" where
  "dec_int s = (case s of [] \<Rightarrow> None
     | a # r \<Rightarrow> map_option (\<lambda>(n, t). (if a = CHR ''-'' then - int n else int n, t)) (dec_bits r))"

definition dec_double :: "string \<Rightarrow> (double \<times> string) option" where
  "dec_double r = (case dec_int r of None \<Rightarrow> None
     | Some (m, r1) \<Rightarrow> map_option (\<lambda>(e, t). (Finite m e, t)) (dec_int r1))"

fun dec :: "nat \<Rightarrow> string \<Rightarrow> (ref_json \<times> string) option" and
  dec_members :: "nat \<Rightarrow> string \<Rightarrow> (ref_members \<times> string) option" where
  "dec 0 s = None"
| "dec (Suc n) s = (case s of [] \<Rightarrow> None
     | a # r \<Rightarrow>
         if a = CHR ''s'' then map_option (\<lambda>(x, t). (Ref_Str x, t)) (dec_str r)
         else if a = CHR ''x'' then Some (Ref_Num Not_Finite, r)
         else if a = CHR ''n'' then map_option (\<lambda>(d, t). (Ref_Num d, t)) (dec_double r)
         else if a = CHR ''o'' then map_option (\<lambda>(ms, t). (Ref_Obj ms, t)) (dec_members n r)
         else None)"
| "dec_members 0 s = None"
| "dec_members (Suc n) s = (case s of [] \<Rightarrow> None
     | a # r \<Rightarrow>
         if a = CHR ''e'' then Some (No_More, r)
         else if a = CHR ''k'' then
           (case dec_str r of None \<Rightarrow> None
            | Some (k, r1) \<Rightarrow> (case dec n r1 of None \<Rightarrow> None
               | Some (v, r2) \<Rightarrow> map_option (\<lambda>(ms, t). (Member k v ms, t)) (dec_members n r2)))
         else None)"

lemma dec_enc_str: "dec_str (enc_str s @ t) = Some (s, t)"
proof (induction s)
  case Nil
  then show ?case by (cases t) simp_all
qed simp

lemma dec_bits_bits: "dec_bits (bits n @ t) = Some (n, t)"
proof (induction n rule: bits.induct)
  case (1 n)
  then show ?case by (subst bits.simps) (auto elim: oddE evenE)
qed

lemma dec_enc_int: "dec_int (enc_int i @ t) = Some (i, t)"
  by (simp add: dec_int_def enc_int_def dec_bits_bits)

lemma dec_enc_double: "dec_double (enc_int m @ enc_int e @ t) = Some (Finite m e, t)"
  by (simp add: dec_double_def dec_enc_int)

lemma dec_enc:
  "length (enc j) \<le> n \<Longrightarrow> dec n (enc j @ t) = Some (j, t)"
  "length (enc_members ms) \<le> n \<Longrightarrow> dec_members n (enc_members ms @ t) = Some (ms, t)"
proof (induction j and ms arbitrary: n t and n t rule: enc_enc_members.induct)
  case (1 s)
  then show ?case by (cases n) (simp_all add: dec_enc_str)
next
  case (2 d)
  then show ?case by (cases n; cases d) (simp_all add: dec_enc_double)
next
  case (3 ms)
  then show ?case by (cases n) simp_all
next
  case 4
  then show ?case by (cases n) simp_all
next
  case (5 k v ms)
  then show ?case by (cases n) (simp_all add: dec_enc_str)
qed

fun no_nul :: "ref_json \<Rightarrow> bool" and no_nul_members :: "ref_members \<Rightarrow> bool" where
  "no_nul (Ref_Str s) = (CHR 0x00 \<notin> set s)"
| "no_nul (Ref_Num d) = True"
| "no_nul (Ref_Obj ms) = no_nul_members ms"
| "no_nul_members No_More = True"
| "no_nul_members (Member k v ms) = (CHR 0x00 \<notin> set k \<and> no_nul v \<and> no_nul_members ms)"

lemma enc_str_nul: "CHR 0x00 \<in> set (enc_str s) \<longleftrightarrow> CHR 0x00 \<in> set s"
  by (induction s) auto

lemma bits_nul: "CHR 0x00 \<notin> set (bits n)"
proof (induction n rule: bits.induct)
  case (1 n)
  then show ?case by (subst bits.simps) auto
qed

lemma enc_nul:
  "no_nul j \<Longrightarrow> CHR 0x00 \<notin> set (enc j)"
  "no_nul_members ms \<Longrightarrow> CHR 0x00 \<notin> set (enc_members ms)"
proof (induction j and ms rule: enc_enc_members.induct)
  case (2 d)
  then show ?case by (cases d) (auto simp: enc_int_def bits_nul)
qed (auto simp: enc_str_nul)

lemma no_nul_append:
  "no_nul_members ms \<Longrightarrow> CHR 0x00 \<notin> set k \<Longrightarrow> no_nul v \<Longrightarrow> no_nul_members (append_member ms k v)"
  by (induction ms k v rule: append_member.induct) auto

section \<open>As cJSON\<close>

definition ref_parse :: "string \<Rightarrow> ref_json option" where
  "ref_parse t = (case dec (length t) t of Some (j, []) \<Rightarrow> Some j | _ \<Rightarrow> None)"

definition ref_print :: "ref_json \<Rightarrow> string" where
  "ref_print j = cstr (enc j)"

definition json_reference :: "ref_json cjson" where
  "json_reference = \<lparr>
     cj_reader = \<lparr>cj_parse = ref_parse,
       cj_get = (\<lambda>j key. case j of Ref_Obj ms \<Rightarrow> member ms key | _ \<Rightarrow> None),
       cj_string = (\<lambda>j. case j of Ref_Str s \<Rightarrow> Some s | _ \<Rightarrow> None),
       cj_is_object = (\<lambda>j. case j of Ref_Obj ms \<Rightarrow> True | _ \<Rightarrow> False),
       cj_print = ref_print\<rparr>,
     cj_writer = \<lparr>cj_object = Ref_Obj No_More, cj_array = Ref_Obj No_More, cj_str = Ref_Str,
       cj_bool = (\<lambda>b. Ref_Num (Finite (if b then 1 else 0) 0)),
       cj_add = (\<lambda>j k v. case j of Ref_Obj ms \<Rightarrow> Ref_Obj (append_member ms k v) | _ \<Rightarrow> j),
       cj_push = (\<lambda>j v. j), cj_format = ref_print\<rparr>,
     cj_num = Ref_Num,
     cj_double = (\<lambda>j. case j of Ref_Num d \<Rightarrow> Some d | _ \<Rightarrow> None)\<rparr>"

lemma ref_parse_print: "no_nul j \<Longrightarrow> ref_parse (ref_print j) = Some j"
  using dec_enc(1) [of j "length (enc j)" "[]"] by (simp add: ref_parse_def ref_print_def enc_nul)

lemma ref_print_nul: "CHR 0x00 \<notin> set (ref_print j)"
  by (simp add: ref_print_def)

interpretation ref_cjson: cjson_lib json_reference no_nul
  by unfold_locales
    (auto simp: json_reference_def member_append ref_parse_print no_nul_append ref_print_nul
      split: ref_json.splits)

section \<open>As a server\<close>

record ref_server =
  rv_strs :: "string \<Rightarrow> string option"
  rv_sets :: "string \<Rightarrow> string list"

definition ref_command :: "string list \<Rightarrow> ref_server \<Rightarrow> redisReply option \<times> ref_server" where
  "ref_command argv d =
     (case argv of
        [c, k] \<Rightarrow>
          if c = ''GET'' then
            (Some (case rv_strs d k of None \<Rightarrow> REDIS_REPLY_NIL | Some v \<Rightarrow> REDIS_REPLY_STRING v), d)
          else if c = ''DEL'' then
            (Some (REDIS_REPLY_INTEGER 1),
             d\<lparr>rv_strs := (rv_strs d)(k := None), rv_sets := (rv_sets d)(k := [])\<rparr>)
          else if c = ''SMEMBERS'' then
            (Some (REDIS_REPLY_ARRAY (map REDIS_REPLY_STRING (remdups (rv_sets d k)))), d)
          else (Some (REDIS_REPLY_ERROR ''ERR''), d)
      | [c, k, v] \<Rightarrow>
          if c = ''SET'' then
            (Some (REDIS_REPLY_STATUS ''OK''),
             d\<lparr>rv_strs := (rv_strs d)(k \<mapsto> v), rv_sets := (rv_sets d)(k := [])\<rparr>)
          else if c = ''SADD'' then
            (Some (REDIS_REPLY_INTEGER 1), d\<lparr>rv_sets := (rv_sets d)(k := v # rv_sets d k)\<rparr>)
          else if c = ''SREM'' then
            (Some (REDIS_REPLY_INTEGER 1), d\<lparr>rv_sets := (rv_sets d)(k := removeAll v (rv_sets d k))\<rparr>)
          else (Some (REDIS_REPLY_ERROR ''ERR''), d)
      | [c, k, v, x, n] \<Rightarrow>
          (Some (REDIS_REPLY_STATUS ''OK''),
           d\<lparr>rv_strs := (rv_strs d)(k \<mapsto> v), rv_sets := (rv_sets d)(k := [])\<rparr>)
      | _ \<Rightarrow> (Some (REDIS_REPLY_ERROR ''ERR''), d))"

definition ref_server_empty :: ref_server where
  "ref_server_empty = \<lparr>rv_strs = (\<lambda>_. None), rv_sets = (\<lambda>_. [])\<rparr>"

definition redis_reference :: "ref_server hiredis" where
  "redis_reference = \<lparr>redisConnect = (\<lambda>host port. Some (False, ref_server_empty)),
     redisCommand = ref_command, redisFree = (\<lambda>d. ((), d))\<rparr>"

definition ref_sets :: "ref_server \<Rightarrow> string \<Rightarrow> string set" where
  "ref_sets d k = set (rv_sets d k)"

interpretation ref_redis: redis_server json_reference no_nul redis_reference rv_strs ref_sets "\<lambda>_. {}"
  by unfold_locales
    (auto simp: redis_reference_def ref_command_def ref_sets_def settled_def split: option.split)

end
