(* ===== verification/Redis_Properties.thy ===== *)
theory Redis_Properties
  imports Redis_Reference Memory_Machine
begin

text \<open>
  The properties of the Redis store, with witnesses on the reference server: while no session is past its
  expiry every call implements a step of an abstract map with an index; the queries by user are exact; a
  session is read back as it was written; and what goes wrong: the lookup of an expired session exhausts
  the stack, and a deletion reports success when the server does not answer.
\<close>

section \<open>The abstract store\<close>

text \<open>
  \<open>redis_call c rc (m, ix) (m', ix')\<close>: a call on the map \<open>m\<close> of the sessions and the index \<open>ix\<close> of the
  users may answer \<open>rc\<close> and leave \<open>m'\<close> and \<open>ix'\<close>. Meanwhile sessions with an expiry may disappear.
\<close>

fun redis_call :: "store_call \<Rightarrow> int \<Rightarrow> (string \<Rightarrow> OpenDBSC_Session option) \<times> (string \<Rightarrow> string set) \<Rightarrow>
    (string \<Rightarrow> OpenDBSC_Session option) \<times> (string \<Rightarrow> string set) \<Rightarrow> bool" where
  "redis_call (Create p) rc (m, ix) (m', ix') =
     (case Option.bind p s_id of
        None \<Rightarrow> rc = -1 \<and> m' = m \<and> ix' = ix
      | Some i \<Rightarrow> rc = 0 \<and> fades (m(i \<mapsto> the p)) m' \<and>
          (\<exists>u. s_user_id (the p) = Some u \<and> ix' = ix(u := insert i (ix u))))"
| "redis_call (Get p) rc (m, ix) (m', ix') =
     (case p of None \<Rightarrow> rc = -1 \<and> m' = m \<and> ix' = ix
      | Some i \<Rightarrow> rc = (if m' i = None then -1 else 0) \<and> fades m m' \<and> ix' = ix)"
| "redis_call (Update p) rc (m, ix) (m', ix') =
     (case Option.bind p s_id of
        None \<Rightarrow> rc = -1 \<and> m' = m \<and> ix' = ix
      | Some i \<Rightarrow>
          rc = -1 \<and> m' i = None \<and> fades m m' \<and> ix' = ix \<or>
          rc = 0 \<and> m i \<noteq> None \<and> fades (m(i \<mapsto> the p)) m' \<and>
          (\<exists>u. s_user_id (the p) = Some u \<and> ix' = ix(u := insert i (ix u))))"
| "redis_call (Delete p) rc (m, ix) (m', ix') =
     (case p of None \<Rightarrow> rc = -1 \<and> m' = m \<and> ix' = ix
      | Some i \<Rightarrow> rc = 0 \<and> (\<exists>m1. fades m m1 \<and> fades (m1(i := None)) m' \<and> ix' = unlist (m1 i) i ix))"
| "redis_call (Get_By_User p) rc (m, ix) (m', ix') =
     (case p of None \<Rightarrow> rc = -1 \<and> m' = m \<and> ix' = ix
      | Some u \<Rightarrow> rc = 0 \<and> fades m m' \<and> ix' = ix)"
| "redis_call (Delete_By_User p) rc (m, ix) (m', ix') =
     (case p of None \<Rightarrow> rc = -1 \<and> m' = m \<and> ix' = ix
      | Some u \<Rightarrow> rc = 0 \<and> fades (without (ix u) m) m' \<and> ix' u = {} \<and> thinned (ix u) ix ix')"
| "redis_call (Free_Sessions xs) rc (m, ix) (m', ix') = (rc = 0 \<and> m' = m \<and> ix' = ix)"

text \<open>The sessions a client hands to the store survive their document and have a user.\<close>

fun redis_storable :: "'j cjson \<Rightarrow> ('j \<Rightarrow> bool) \<Rightarrow> store_call \<Rightarrow> bool" where
  "redis_storable C plain (Create (Some s)) = (json_storable C plain s \<and> s_user_id s \<noteq> None)"
| "redis_storable C plain (Update (Some s)) = (json_storable C plain s \<and> s_user_id s \<noteq> None)"
| "redis_storable C plain _ = True"

lemma redis_null_calls:
  "redis_create R C None = ret (-1)" "s_id s = None \<Longrightarrow> redis_create R C (Some s) = ret (-1)"
  "redis_update R C n None = ret (-1)" "s_id s = None \<Longrightarrow> redis_update R C n (Some s) = ret (-1)"
  "redis_get R C (Suc n) None = ret (-1, None)" "redis_delete R get None = ret (-1)"
  "redis_get_by_user_id R C n None = ret (-1, [])" "redis_delete_by_user_id R C n None = ret (-1)"
  by (simp_all add: redis_create_def redis_update_def redis_delete_def redis_get_by_user_id_def
      redis_delete_by_user_id_def)

lemma vtable_redis:
  "st_create (redis_store_vtable R C n) = redis_create R C"
  "st_get (redis_store_vtable R C n) = redis_get R C n"
  "st_update (redis_store_vtable R C n) = redis_update R C n"
  "st_delete (redis_store_vtable R C n) = redis_delete R (redis_get R C n)"
  "st_get_by_user_id (redis_store_vtable R C n) = redis_get_by_user_id R C n"
  "st_delete_by_user_id (redis_store_vtable R C n) = redis_delete_by_user_id R C n"
  "st_free_sessions (redis_store_vtable R C n) = redis_free_sessions"
  by (simp_all add: redis_store_vtable_def)

context redis_server
begin

definition call_ok :: "store_call \<Rightarrow> 'd OpenDBSC_RedisCtx sys \<Rightarrow> int \<Rightarrow> 'd OpenDBSC_RedisCtx sys \<Rightarrow> bool" where
  "call_ok c w rc v \<longleftrightarrow> linked w v \<and> wf_but {} v \<and> redis_call c rc (view w, index w) (view v, index v)"

lemma call_okI: "after w m ix v \<Longrightarrow> redis_call c rc (view w, index w) (view v, ix) \<Longrightarrow> call_ok c w rc v"
  by (auto simp: call_ok_def after_def)

lemma call_ok_same: "wf_but {} w \<Longrightarrow> redis_call c rc (view w, index w) (view w, index w) \<Longrightarrow> call_ok c w rc w"
  by (simp add: call_ok_def)

lemma create_call:
  assumes wf: "wf_but {} w" and mem: "\<not> starved w" and live: "timely (view w) w"
    and c: "redis_storable C plain (Create p)"
  shows "wp (redis_create R C p) (call_ok (Create p) w) w"
proof (cases "Option.bind p s_id")
  case None
  with wf show ?thesis
    by (cases p) (auto simp: redis_null_calls wp_return intro!: call_ok_same)
next
  case (Some i)
  with c obtain s u where s: "p = Some s" "s_id s = Some i" "s_user_id s = Some u" "json_storable C plain s"
    by (cases p) auto
  show ?thesis
    unfolding s(1)
    by (rule create_spec [OF after_start [OF wf] mem live s(2-4)], rule call_okI, assumption)
       (use s in \<open>auto dest: after_fades\<close>)
qed

lemma update_call:
  assumes wf: "wf_but {} w" and mem: "\<not> starved w" and live: "timely (view w) w"
    and c: "redis_storable C plain (Update p)"
  shows "wp (redis_update R C (Suc n) p) (call_ok (Update p) w) w"
proof (cases "Option.bind p s_id")
  case None
  with wf show ?thesis
    by (cases p) (auto simp: redis_null_calls wp_return intro!: call_ok_same)
next
  case (Some i)
  with c obtain s u where s: "p = Some s" "s_id s = Some i" "s_user_id s = Some u" "json_storable C plain s"
    by (cases p) auto
  show ?thesis
    unfolding s(1)
    by (rule update_spec [OF after_start [OF wf] mem live s(2-4)]; rule call_okI, assumption)
       (use s in \<open>auto dest: after_fades\<close>)
qed

lemma read_calls:
  assumes wf: "wf_but {} w" and mem: "\<not> starved w" and live: "timely (view w) w"
  shows "wp (redis_get R C (Suc n) p) (\<lambda>r. call_ok (Get p) w (fst r)) w"
    and "wp (redis_get_by_user_id R C (Suc n) p) (\<lambda>r. call_ok (Get_By_User p) w (fst r)) w"
proof -
  show "wp (redis_get R C (Suc n) p) (\<lambda>r. call_ok (Get p) w (fst r)) w"
  proof (cases p)
    case None
    with wf show ?thesis by (auto simp: wp_return intro!: call_ok_same)
  next
    case (Some i)
    show ?thesis
      unfolding Some
      by (rule get_spec [OF after_start [OF wf] mem live])
         (auto dest: after_fades intro!: call_okI split: option.split)
  qed
  show "wp (redis_get_by_user_id R C (Suc n) p) (\<lambda>r. call_ok (Get_By_User p) w (fst r)) w"
  proof (cases p)
    case None
    with wf show ?thesis by (auto simp: redis_null_calls wp_return intro!: call_ok_same)
  next
    case (Some u)
    show ?thesis
      unfolding Some
      by (rule get_by_user_spec [OF after_start [OF wf] mem live]) (auto dest: after_fades intro!: call_okI)
  qed
qed

lemma delete_calls:
  assumes wf: "wf_but {} w" and mem: "\<not> starved w" and live: "timely (view w) w"
  shows "wp (redis_delete R (redis_get R C (Suc n)) p) (call_ok (Delete p) w) w"
    and "wp (redis_delete_by_user_id R C (Suc n) p) (call_ok (Delete_By_User p) w) w"
proof -
  show "wp (redis_delete R (redis_get R C (Suc n)) p) (call_ok (Delete p) w) w"
  proof (cases p)
    case None
    with wf show ?thesis by (auto simp: redis_null_calls wp_return intro!: call_ok_same)
  next
    case (Some i)
    show ?thesis
      unfolding Some
      by (rule delete_spec [OF after_start [OF wf] mem live], rule call_okI, assumption) (auto dest: after_fades)
  qed
  show "wp (redis_delete_by_user_id R C (Suc n) p) (call_ok (Delete_By_User p) w) w"
  proof (cases p)
    case None
    with wf show ?thesis by (auto simp: redis_null_calls wp_return intro!: call_ok_same)
  next
    case (Some u)
    show ?thesis
      unfolding Some
      by (rule delete_by_user_spec [OF after_start [OF wf] mem live], rule call_okI, assumption)
         (auto dest: after_fades)
  qed
qed

lemma call_spec:
  assumes "wf_but {} w" and "\<not> starved w" and "timely (view w) w" and "redis_storable C plain c"
  shows "wp (store_call_run (redis_store_vtable R C (Suc n)) c) (call_ok c w) w"
proof (cases c)
  case (Create p)
  with create_call [OF assms(1-3), of p] assms(4) show ?thesis by (simp add: vtable_redis)
next
  case (Get p)
  with read_calls(1) [OF assms(1-3)] show ?thesis
    by (simp add: vtable_redis wp_bind wp_return_fun case_prod_beta del: redis_get.simps)
next
  case (Update p)
  with update_call [OF assms(1-3), of p] assms(4) show ?thesis by (simp add: vtable_redis)
next
  case (Delete p)
  with delete_calls(1) [OF assms(1-3)] show ?thesis by (simp add: vtable_redis del: redis_get.simps)
next
  case (Get_By_User p)
  with read_calls(2) [OF assms(1-3)] show ?thesis
    by (simp add: vtable_redis wp_bind wp_return_fun case_prod_beta)
next
  case (Delete_By_User p)
  with delete_calls(2) [OF assms(1-3)] show ?thesis by (simp add: vtable_redis)
next
  case (Free_Sessions xs)
  with assms(1) show ?thesis
    by (auto simp: vtable_redis redis_free_sessions_def wp_bind wp_return intro!: call_ok_same)
qed

text \<open>A query by user finds every session of the user.\<close>

lemma by_user_exact:
  assumes wf: "wf_but {} w" and mem: "\<not> starved w" and live: "timely (view w) w"
    and run: "run_state (redis_get_by_user_id R C (Suc n) (Some u)) w = ((rc, out), w')"
  shows "undef w' = undef w \<and> rc = 0 \<and> listed (view w) (view w') (index w u) out \<and>
     (\<forall>i s. view w' i = Some s \<and> s_user_id s = Some u \<longrightarrow> s \<in> set out)"
proof -
  have "wp (redis_get_by_user_id R C (Suc n) (Some u))
      (\<lambda>(rc, out) v. rc = 0 \<and> after w (view w) (index w) v \<and> listed (view w) (view v) (index w u) out) w"
    by (rule get_by_user_spec [OF after_start [OF wf] mem live]) auto
  from wpD [OF this run] have r: "rc = 0" "after w (view w) (index w) w'" "listed (view w) (view w') (index w u) out"
    by simp_all
  have "s \<in> set out" if s: "view w' i = Some s" "s_user_id s = Some u" for i s
  proof -
    have "i \<in> index w u" using wf_session(4) [OF after_wf [OF r(2)] s(1)] s(2) after_index [OF r(2)] by auto
    with r(3) s(1) show ?thesis by (simp add: listed_def)
  qed
  with r oframe_undef [OF after_oframe [OF r(2)]] show ?thesis by blast
qed

text \<open>What is created is read back.\<close>

lemma create_get:
  assumes wf: "wf_but {} w" and mem: "\<not> starved w" and live: "timely (view w) w"
    and s: "s_id s = Some i" "s_user_id s \<noteq> None" "json_storable C plain s" "\<not> s_has_expires s"
    and create: "run_state (redis_create R C (Some s)) w = (rc, w1)"
    and get: "run_state (redis_get R C (Suc n) (Some i)) w1 = ((rc', out), w2)"
  shows "rc = 0 \<and> rc' = 0 \<and> out = Some s \<and> undef w2 = undef w"
proof -
  obtain u where u: "s_user_id s = Some u" using s(2) by blast
  have "wp (redis_create R C (Some s))
      (\<lambda>rc v. rc = 0 \<and> after w ((view w)(i \<mapsto> s)) ((index w)(u := insert i (index w u))) v) w"
    by (rule create_spec [OF after_start [OF wf] mem live s(1) u s(3)]) simp
  from wpD [OF this create] have rc: "rc = 0" and w1: "after w ((view w)(i \<mapsto> s)) ((index w)(u := insert i (index w u))) w1"
    by simp_all
  have live': "timely ((view w)(i \<mapsto> s)) w" using live s(4) by (auto simp: timely_def)
  have "wp (redis_get R C (Suc n) (Some i)) (\<lambda>r v. r = (0, Some s) \<and>
      after w ((view w)(i \<mapsto> s)) ((index w)(u := insert i (index w u))) v) w1"
  proof (rule get_spec [OF w1 mem live'])
    fix v'
    assume a: "after w ((view w)(i \<mapsto> s)) ((index w)(u := insert i (index w u))) v'"
    from after_fades [OF a] s(4) have "view v' i = Some s" by (auto simp: fades_def dest: spec [of _ i])
    with a show "(case view v' i of None \<Rightarrow> (-1, None) | Some s \<Rightarrow> (0, Some s)) = (0, Some s) \<and>
        after w ((view w)(i \<mapsto> s)) ((index w)(u := insert i (index w u))) v'" by simp
  qed
  from wpD [OF this get] rc show ?thesis by (auto dest: after_oframe oframe_undef)
qed

end

section \<open>The recursion on an expired session\<close>

lemma undef_stays:
  "undef v \<Longrightarrow> wp (redis_session_key i) (\<lambda>_. undef) v"
  "undef v \<Longrightarrow> wp (redis_user_key p) (\<lambda>_. undef) v"
  "undef v \<Longrightarrow> wp (send_command R argv) (\<lambda>_. undef) v"
  by (simp_all add: redis_session_key_def redis_user_key_def send_command_def malloc_str_def str_arg_def
      wps wp_get_impl wp_on_impl split: option.split prod.split)

lemma delete_undef:
  assumes "wp (get (Some i)) (\<lambda>_. undef) w"
  shows "wp (redis_delete R get (Some i)) (\<lambda>_. undef) w"
proof -
  have key: "wp (if rc = 0 then (case p of None \<Rightarrow> ub None | Some s \<Rightarrow> redis_user_key (s_user_id s)) else ret None)
      (\<lambda>_. undef) v" if "undef v" for rc :: int and p v
    using that by (auto simp: wps intro: undef_stays split: option.split)
  have rest: "wp (do {
      skey \<leftarrow> redis_session_key i;
      case skey of None \<Rightarrow> ret (-1)
      | Some skey \<Rightarrow> do {
          _ \<leftarrow> send_command R [''DEL'', skey];
          case ukey of None \<Rightarrow> ret 0
          | Some ukey \<Rightarrow> do { _ \<leftarrow> send_command R [''SREM'', ukey, i]; ret 0 } } }) (\<lambda>_. undef) v"
    if "undef v" for ukey v
    using that
    by (auto simp: wp_bind wps wp_return_fun intro!: wp_mono [OF undef_stays(1)] wp_mono [OF undef_stays(3)]
        undef_stays(3) split: option.split)
  show ?thesis
    unfolding redis_delete_def option.case
  proof (rule wp_bindI, rule wp_mono [OF assms], goal_cases)
    case (1 r v)
    show ?case
      by (cases r, simp only: prod.case, rule wp_bindI, rule wp_mono [OF key [OF 1]], erule rest)
  qed
qed

lemma impl_same: "impl v = x \<Longrightarrow> v\<lparr>impl := x\<rparr> = v" for v :: "'s sys"
  by (rule sys.equality) simp_all

lemma expired_get_undef:
  assumes doc: "cj_parse (cj_reader C) (cstr t) = Some obj" "times_fit C obj"
    and old: "s_has_expires (read_session C obj)"
  shows "\<not> starved w \<Longrightarrow> (\<And>n. clock_reads w \<le> n \<Longrightarrow> s_expires_at (read_session C obj) < wall_clock w n) \<Longrightarrow>
    redisCommand R [''GET'', session_key (impl w) i] (rx_ctx (impl w)) = (Some (REDIS_REPLY_STRING t), rx_ctx (impl w)) \<Longrightarrow>
    wp (redis_get R C depth (Some i)) (\<lambda>_. undef) w"
proof (induction depth arbitrary: w)
  case 0
  then show ?case by (simp add: wps)
next
  case (Suc depth)
  have accept: "wp (redis_accept C (redis_delete R (redis_get R C depth) (Some i)) (Some (REDIS_REPLY_STRING t)))
      (\<lambda>_. undef) w1" if w1: "frame w w1" for w1
  proof -
    let ?w = "w1\<lparr>mallocs := Suc (mallocs w1)\<rparr>"
    have mem: "\<not> starved w1" using Suc.prems(1) w1 by (simp add: frame_starved)
    then have ok: "mem_ok w1 (mallocs w1)" and mem': "\<not> starved ?w" by (auto simp: starved_def)
    have "wp (redis_is_expired (Some (read_session C obj))) (\<lambda>e. wp (if e then do {
        _ \<leftarrow> redis_delete R (redis_get R C depth) (Some i); ret (-1, None) } else ret (0, Some (read_session C obj)))
        (\<lambda>_. undef)) w2" if w2: "frame ?w w2" for w2
    proof -
      let ?v = "w2\<lparr>clock_reads := Suc (clock_reads w2)\<rparr>"
      have f: "frame w w2" using w1 w2 by (auto simp: frame_def)
      then have v: "frame w ?v" by (simp add: frame_def)
      have "s_expires_at (read_session C obj) < wall_clock w2 (clock_reads w2)"
        using Suc.prems(2) f by (simp add: frame_def)
      moreover have "wp (redis_delete R (redis_get R C depth) (Some i)) (\<lambda>_. undef) ?v"
        by (rule delete_undef, rule Suc.IH)
           (use Suc.prems v frame_impl [OF v] in \<open>auto simp: frame_starved frame_def\<close>)
      ultimately show ?thesis using old by (simp add: redis_is_expired_def wp_bind wps wp_return_fun)
    qed
    then have "wp (session_from_json C (cstr t) (Some session_defaults)) (\<lambda>r. wp (case r of (rc, p) \<Rightarrow>
        if rc \<noteq> 0 then ret (-1, None) else do {
          expired \<leftarrow> redis_is_expired p;
          if expired then do { _ \<leftarrow> redis_delete R (redis_get R C depth) (Some i); ret (-1, None) } else ret (0, p) })
        (\<lambda>_. undef)) ?w"
      by (intro wp_returns [OF returns_session_from_json [OF doc] mem']) (simp add: wp_bind)
    with ok show ?thesis by (simp add: redis_accept_def wp_bind wp_alloc)
  qed
  have "wp (send_command R [''GET'', session_key (impl w) i])
      (\<lambda>r. wp (redis_accept C (redis_delete R (redis_get R C depth) (Some i)) r) (\<lambda>_. undef)) w1"
    if w1: "frame w w1" for w1
    using Suc.prems(3) accept [OF w1] frame_impl [OF w1]
    by (simp add: send_command_def wp_on_impl impl_same)
  moreover have "wp (redis_session_key i) Q w" if "\<And>w1. frame w w1 \<Longrightarrow> Q (Some (session_key (impl w) i)) w1" for Q
    unfolding redis_session_key_def
    by (rule wp_bindI, simp add: wp_get_impl, rule wp_returns [OF returns_malloc_str Suc.prems(1)])
       (use that in \<open>simp add: session_key_def\<close>)
  ultimately show ?case by (simp add: wp_bind)
qed

section \<open>Properties\<close>

text \<open>
  C23: The Redis store is a map with an index. The server answers every command as Redis documents, the
  JSON library keeps to its documentation, no allocation fails, and no stored session is past its expiry
  at any reading of the clock. A session handed to create or update has a user, texts without NUL, a key
  that either is no JSON or is the library's own print of a JSON object, times of at most 15 digits, and
  its expiry flag set just when its expiry time is not 0. Then every call through the vtable has no
  undefined behaviour, keeps the store well formed (every session can be read back and is listed for
  its user) and does what the abstract store allows: create and update file exactly the given session
  and list it for its user, a deletion removes exactly the named session or those listed for the user,
  and nothing else changes but for expiring sessions the server drops.
\<close>

theorem redis_call_refines_map:
  assumes "redis_server C plain R strs sets volatile"
    and "redis_wf C plain strs sets volatile (impl w)" and "\<not> starved w"
    and "timely (redis_view C strs (impl w)) w" and "redis_storable C plain c"
    and "run_state (store_call_run (redis_store_vtable R C (Suc depth)) c) w = (rc, w')"
  shows "undef w' = undef w \<and> redis_wf C plain strs sets volatile (impl w') \<and>
    redis_call c rc (redis_view C strs (impl w), redis_index sets (impl w))
      (redis_view C strs (impl w'), redis_index sets (impl w'))"
  using wpD [OF redis_server.call_spec [OF assms(1-5)] assms(6)]
  by (auto simp: redis_server.call_ok_def [OF assms(1)] redis_server.linked_def [OF assms(1)] oframe_undef)

definition redis_start :: "ref_server OpenDBSC_RedisCtx" where
  "redis_start = \<lparr>rx_ctx = ref_server_empty, rx_prefix = ''dbsc''\<rparr>"

definition lasting_session :: OpenDBSC_Session where
  "lasting_session = demo_session\<lparr>s_expires_at := 0, s_has_expires := False\<rparr>"

lemma redis_start_ok: "redis_wf json_reference no_nul rv_strs ref_sets (\<lambda>_. {}) redis_start"
  "redis_view json_reference rv_strs redis_start = Map.empty" "redis_index ref_sets redis_start = (\<lambda>_. {})"
  by (simp_all add: redis_wf_but_def redis_start_def ref_server_empty_def ref_sets_def redis_index_def
      redis_view_def fun_eq_iff)

lemma plenty_timely: "timely Map.empty (plenty x)"
  by (simp add: timely_def plenty_def)

lemma lasting: "json_storable json_reference no_nul lasting_session" "s_id lasting_session = Some ''s1''"
  "s_user_id lasting_session = Some ''alice''" "\<not> s_has_expires lasting_session"
  by (simp_all add: lasting_session_def demo_session_def json_storable_def)

theorem redis_call_refines_map_witness:
  "let (rc, w) = run_state (store_call_run (redis_store_vtable redis_reference json_reference 3)
         (Create (Some lasting_session))) (plenty redis_start)
   in rc = 0 \<and> redis_view json_reference rv_strs (impl w) = [''s1'' \<mapsto> lasting_session] \<and>
      redis_index ref_sets (impl w) = (\<lambda>_. {})(''alice'' := {''s1''})"
proof -
  let ?r = "run_state (store_call_run (redis_store_vtable redis_reference json_reference (Suc 2))
      (Create (Some lasting_session))) (plenty redis_start)"
  have "redis_call (Create (Some lasting_session)) (fst ?r)
      (redis_view json_reference rv_strs (impl (plenty redis_start)), redis_index ref_sets (impl (plenty redis_start)))
      (redis_view json_reference rv_strs (impl (snd ?r)), redis_index ref_sets (impl (snd ?r)))"
    using redis_call_refines_map [OF ref_redis.redis_server_axioms, of "plenty redis_start" "Create (Some lasting_session)" 2
        "fst ?r" "snd ?r"] by (simp add: redis_start_ok plenty_timely lasting)
  then have "fst ?r = 0" "fades [''s1'' \<mapsto> lasting_session] (redis_view json_reference rv_strs (impl (snd ?r)))"
    "redis_index ref_sets (impl (snd ?r)) = (\<lambda>_. {})(''alice'' := {''s1''})"
    by (auto simp: lasting redis_start_ok)
  moreover from this(2) have "redis_view json_reference rv_strs (impl (snd ?r)) = [''s1'' \<mapsto> lasting_session]"
    using lasting(4) by (auto simp: fades_def fun_eq_iff split: if_splits)
  ultimately show ?thesis by (simp add: case_prod_beta numeral_3_eq_3 numeral_2_eq_2)
qed

text \<open>
  A user's sessions in Redis. Under the same conditions a query by user answers 0 with sessions listed
  for the user that the store held, each once; it misses none that is still there at the end, and none of
  the sessions whose user it is.
\<close>

theorem redis_get_by_user_exact:
  assumes "redis_server C plain R strs sets volatile"
    and "redis_wf C plain strs sets volatile (impl w)" and "\<not> starved w"
    and "timely (redis_view C strs (impl w)) w"
    and "run_state (redis_get_by_user_id R C (Suc depth) (Some u)) w = ((rc, out), w')"
  shows "undef w' = undef w \<and> rc = 0 \<and>
    listed (redis_view C strs (impl w)) (redis_view C strs (impl w')) (redis_index sets (impl w) u) out \<and>
    (\<forall>i s. redis_view C strs (impl w') i = Some s \<and> s_user_id s = Some u \<longrightarrow> s \<in> set out)"
  by (rule redis_server.by_user_exact [OF assms])

definition redis_demo :: "ref_server OpenDBSC_RedisCtx sys" where
  "redis_demo = snd (run_state (redis_create redis_reference json_reference (Some lasting_session)) (plenty redis_start))"

lemma redis_demo_ok: "redis_wf json_reference no_nul rv_strs ref_sets (\<lambda>_. {}) (impl redis_demo)"
  "redis_view json_reference rv_strs (impl redis_demo) = [''s1'' \<mapsto> lasting_session]" "\<not> starved redis_demo"
  "timely [''s1'' \<mapsto> lasting_session] redis_demo"
proof -
  have "wp (redis_create redis_reference json_reference (Some lasting_session))
      (\<lambda>rc v. ref_redis.after (plenty redis_start) [''s1'' \<mapsto> lasting_session] ((\<lambda>_. {})(''alice'' := {''s1''})) v) (plenty redis_start)"
    using ref_redis.create_spec [OF ref_redis.after_start _ _ lasting(2,3,1), of "plenty redis_start" Map.empty
        "\<lambda>rc v. ref_redis.after (plenty redis_start) [''s1'' \<mapsto> lasting_session] ((\<lambda>_. {})(''alice'' := {''s1''})) v"]
    by (simp add: redis_start_ok plenty_timely)
  then have a: "ref_redis.after (plenty redis_start) [''s1'' \<mapsto> lasting_session] ((\<lambda>_. {})(''alice'' := {''s1''})) redis_demo"
    by (auto simp: wp_def redis_demo_def split: prod.splits)
  show "redis_wf json_reference no_nul rv_strs ref_sets (\<lambda>_. {}) (impl redis_demo)"
    by (rule ref_redis.after_wf [OF a])
  show "redis_view json_reference rv_strs (impl redis_demo) = [''s1'' \<mapsto> lasting_session]"
    using ref_redis.after_fades [OF a] lasting(4) by (auto simp: fades_def fun_eq_iff split: if_splits)
  show "\<not> starved redis_demo" using ref_redis.after_starved [OF a] by simp
  have "timely [''s1'' \<mapsto> lasting_session] (plenty redis_start)"
    using lasting(4) by (auto simp: timely_def plenty_def)
  from timely_mono [OF this fades_refl ref_redis.after_oframe [OF a]]
  show "timely [''s1'' \<mapsto> lasting_session] redis_demo" .
qed

theorem redis_get_by_user_exact_witness:
  "let ((rc, out), w) = run_state (redis_get_by_user_id redis_reference json_reference 3 (Some ''alice'')) redis_demo
   in rc = 0 \<and> lasting_session \<in> set out \<and> distinct (map s_id out)"
proof -
  let ?r = "run_state (redis_get_by_user_id redis_reference json_reference (Suc 2) (Some ''alice'')) redis_demo"
  have run: "?r = ((fst (fst ?r), snd (fst ?r)), snd ?r)" by simp
  have kept: "redis_view json_reference rv_strs (impl (snd ?r)) ''s1'' = Some lasting_session"
    unfolding redis_demo_def by code_simp
  have live: "timely (redis_view json_reference rv_strs (impl redis_demo)) redis_demo" by (simp add: redis_demo_ok)
  from redis_get_by_user_exact [OF ref_redis.redis_server_axioms redis_demo_ok(1,3) live run] kept lasting(3)
  have "fst (fst ?r) = 0" "lasting_session \<in> set (snd (fst ?r))" "distinct (map s_id (snd (fst ?r)))"
    unfolding listed_def by blast+
  then show ?thesis by (simp add: case_prod_beta numeral_3_eq_3 numeral_2_eq_2)
qed

text \<open>
  C24: What is created is read back. On such a server and library, with memory available and no stored
  session past its expiry, a session without an expiry that has an identifier and a user, texts without
  NUL, a key that either is no JSON or is the library's own print of a JSON object, and times of at most
  15 digits is written by create and returned by the next lookup exactly as it was, through its JSON
  document. (A key that is JSON but not an object does not come back.)
\<close>

theorem redis_create_get_roundtrip:
  assumes "redis_server C plain R strs sets volatile"
    and "redis_wf C plain strs sets volatile (impl w)" and "\<not> starved w"
    and "timely (redis_view C strs (impl w)) w"
    and "s_id s = Some i" and "s_user_id s \<noteq> None" and "json_storable C plain s" and "\<not> s_has_expires s"
    and "run_state (redis_create R C (Some s)) w = (rc, w1)"
    and "run_state (redis_get R C (Suc depth) (Some i)) w1 = ((rc', out), w2)"
  shows "rc = 0 \<and> rc' = 0 \<and> out = Some s \<and> undef w2 = undef w"
  by (rule redis_server.create_get [OF assms])

theorem redis_create_get_roundtrip_witness:
  "fst (run_state (redis_get redis_reference json_reference (Suc 0) (Some ''s1'')) redis_demo) = (0, Some lasting_session)"
proof -
  let ?c = "run_state (redis_create redis_reference json_reference (Some lasting_session)) (plenty redis_start)"
  let ?g = "run_state (redis_get redis_reference json_reference (Suc 0) (Some ''s1'')) redis_demo"
  have c: "?c = (fst ?c, redis_demo)" by (simp add: redis_demo_def)
  have g: "?g = ((fst (fst ?g), snd (fst ?g)), snd ?g)" by simp
  have "fst ?c = 0 \<and> fst (fst ?g) = 0 \<and> snd (fst ?g) = Some lasting_session \<and> undef (snd ?g) = undef (plenty redis_start)"
    by (rule redis_create_get_roundtrip [OF ref_redis.redis_server_axioms _ _ _ lasting(2) _ lasting(1,4) c g])
       (simp_all add: redis_start_ok plenty_timely lasting)
  then show ?thesis by (simp add: prod_eq_iff)
qed

text \<open>
  C25: The lookup of an expired session does not end. \<^verbatim>\<open>redis_get\<close> deletes an expired session with
  \<^verbatim>\<open>redis_delete\<close>, which looks it up first. As long as the server still answers with the session, however
  many nested calls the stack has room for, the lookup needs one more: it is undefined.
\<close>

theorem redis_expired_get_overflows:
  assumes "cj_parse (cj_reader C) (cstr t) = Some obj" and "times_fit C obj"
    and "s_has_expires (read_session C obj)" and "\<not> starved w"
    and "\<And>n. clock_reads w \<le> n \<Longrightarrow> s_expires_at (read_session C obj) < wall_clock w n"
    and "redisCommand R [''GET'', session_key (impl w) i] (rx_ctx (impl w)) =
      (Some (REDIS_REPLY_STRING t), rx_ctx (impl w))"
    and "run_state (redis_get R C depth (Some i)) w = (r, w')"
  shows "undef w'"
  using wpD [OF expired_get_undef [OF assms(1-6)] assms(7)] .

definition late_session :: OpenDBSC_Session where
  "late_session = demo_session\<lparr>s_expires_at := 50\<rparr>"

lemma late: "json_storable json_reference no_nul late_session" "s_has_expires late_session" "s_expires_at late_session = 50"
  by (simp_all add: late_session_def demo_session_def json_storable_def)

definition late_start :: "ref_server OpenDBSC_RedisCtx" where
  "late_start = \<lparr>rx_ctx = ref_server_empty\<lparr>rv_strs := [''dbsc:session:s1'' \<mapsto> session_text json_reference late_session]\<rparr>,
     rx_prefix = ''dbsc''\<rparr>"

theorem redis_expired_get_overflows_witness:
  "undef (snd (run_state (redis_get redis_reference json_reference 5 (Some ''s1'')) (plenty late_start)))"
proof (rule redis_expired_get_overflows [OF _ _ _ _ _ _ surjective_pairing])
  let ?t = "session_text json_reference late_session"
  show "cj_parse (cj_reader json_reference) (cstr ?t) = Some (session_object json_reference late_session)"
    using ref_cjson.parse_session [OF late(1)] ref_cjson.session_text_no_nul by simp
  show "times_fit json_reference (session_object json_reference late_session)"
    by (rule ref_cjson.fits_session [OF late(1)])
  show "s_has_expires (read_session json_reference (session_object json_reference late_session))"
    using late by (simp add: ref_cjson.read_session_object)
  show "s_expires_at (read_session json_reference (session_object json_reference late_session)) < wall_clock (plenty late_start) n" for n
    using late by (simp add: ref_cjson.read_session_object plenty_def)
  show "redisCommand redis_reference [''GET'', session_key (impl (plenty late_start)) ''s1''] (rx_ctx (impl (plenty late_start))) =
      (Some (REDIS_REPLY_STRING ?t), rx_ctx (impl (plenty late_start)))"
    by (simp add: redis_reference_def ref_command_def late_start_def session_key_def)
qed simp

text \<open>
  A deletion does not report a failure. When the server does not answer any more, \<^verbatim>\<open>redis_delete\<close>
  changes nothing and still reports success.
\<close>

theorem redis_delete_ignores_failure:
  assumes "\<And>argv d. redisCommand R argv d = (None, d)" and "\<not> starved w"
    and "run_state (redis_delete R (redis_get R C (Suc depth)) (Some i)) w = (rc, w')"
  shows "rc = 0 \<and> impl w' = impl w \<and> undef w' = undef w"
proof -
  have mem: "mem_ok w n" for n using assms(2) by (auto simp: starved_def)
  have "wp (redis_delete R (redis_get R C (Suc depth)) (Some i))
      (\<lambda>rc v. rc = 0 \<and> impl v = impl w \<and> undef v = undef w) w"
    by (simp add: redis_delete_def redis_accept_def redis_session_key_def send_command_def malloc_str_def
        wps wp_get_impl wp_on_impl assms(1) mem)
  from wpD [OF this assms(3)] show ?thesis .
qed

theorem redis_delete_ignores_failure_witness:
  "let R = redis_reference\<lparr>redisCommand := \<lambda>argv d. (None, d)\<rparr>;
       (rc, w) = run_state (redis_delete R (redis_get R json_reference (Suc 0)) (Some ''s1'')) redis_demo
   in rc = 0 \<and> redis_view json_reference rv_strs (impl w) ''s1'' = Some lasting_session"
proof -
  let ?R = "redis_reference\<lparr>redisCommand := \<lambda>argv d. (None, d)\<rparr>"
  let ?r = "run_state (redis_delete ?R (redis_get ?R json_reference (Suc 0)) (Some ''s1'')) redis_demo"
  have "fst ?r = 0 \<and> impl (snd ?r) = impl redis_demo \<and> undef (snd ?r) = undef redis_demo"
    by (rule redis_delete_ignores_failure [of ?R, OF _ redis_demo_ok(3) surjective_pairing]) simp
  with redis_demo_ok(2) show ?thesis by (simp add: Let_def case_prod_beta del: redis_get.simps)
qed

end
