(* ===== verification/Spec2Isabelle.thy ===== *)
theory Spec2Isabelle
  imports Algo Sql_Manager Interleaving Example_Main Redis_Properties
begin

text \<open>
  OpenDBSC implements the server side of Device Bound Session Credentials: a browser binds a
  session to a key pair at login and proves possession of the private key at every refresh. This
  library models the C sources under \<^verbatim>\<open>src/\<close>, the public headers under \<^verbatim>\<open>include/\<close> and the example
  server \<^verbatim>\<open>examples/server.c\<close>.

  \<^bold>\<open>The program.\<close> The HTTP wrapper (\<^verbatim>\<open>wrapper/http.c\<close>) receives requests from the mongoose library
  and calls the session manager (\<^verbatim>\<open>manager/manager.c\<close>) for logins, registrations, refreshes,
  queries and closes. The manager verifies proofs with \<^verbatim>\<open>protocol/jwt.c\<close>, writes and reads the
  protocol's headers with \<^verbatim>\<open>protocol/header.c\<close> and its JSON with \<^verbatim>\<open>protocol/instruction.c\<close>, draws
  identifiers with \<^verbatim>\<open>session/session.c\<close>, and keeps sessions in a store behind the vtable of
  \<^verbatim>\<open>store/store.h\<close>, of which there are four: in memory, SQLite, ODBC and Redis.

  \<^bold>\<open>How C is modelled.\<close> A program is a state monad over a world (\<open>DBSC_Prelude\<close>): every allocation
  draws one answer of the allocator, every reading of a clock or of the entropy source one of
  theirs, and nothing is assumed about the answers. Undefined behaviour sets a sticky flag.
  Return codes and NULL pointers are values, so each early return is a branch. A pointer argument
  is an option; an object written through it is returned beside the code. Texts are lists of
  characters; bytes, UUID timestamps and the codec's arithmetic are words of their width; times
  are unbounded integers, with the conversions through C doubles and broken-down time written out.
  Releasing memory changes only what the code reads again.

  \<^bold>\<open>Theories and files.\<close>
  \<^item> \<open>Algo\<close>, \<open>Session\<close>: \<^verbatim>\<open>algo/algo.c\<close>, \<^verbatim>\<open>session/session.c\<close>; setters and copies are exact or report
    -1.
  \<^item> \<open>Base64url\<close>, \<open>JWT\<close>: \<^verbatim>\<open>protocol/jwt.c\<close>. The codec round trips and stays in its buffers; both entry
    points accept a token exactly when its claims are signed by the key they must be signed by.
  \<^item> \<open>Header\<close>: \<^verbatim>\<open>protocol/header.c\<close>. The two passes over a list write exactly what they counted; what
    the serializers write the parsers read back.
  \<^item> \<open>Instruction\<close>: \<^verbatim>\<open>protocol/instruction.c\<close>. The growing arrays and the JSON document.
  \<^item> \<open>Store\<close>: the vtable of \<^verbatim>\<open>store/store.h\<close> as a record over an opaque state, and its contract as the
    locales \<open>session_store\<close> and \<open>reliable_store\<close>.
  \<^item> \<open>Memory_Store\<close>, \<open>Memory_Machine\<close>: \<^verbatim>\<open>store/memory.c\<close> with its array, capacity, mutex and loops.
    It satisfies \<open>reliable_store\<close>; every reachable store is well formed, and every call is a step
    of an abstract map.
  \<^item> \<open>Rfc3339\<close>, \<open>Sql_Rows\<close>: the timestamps and the filling of a session from the eight columns of its
    row, which the two SQL stores hold with the same text, and the effect of a statement on a table.
  \<^item> \<open>Sqlite_Store\<close>, \<open>Odbc_Store\<close>: \<^verbatim>\<open>store/sqlite.c\<close> and \<^verbatim>\<open>store/odbc.c\<close>. The database libraries are
    parameters with the laws of the locales \<open>sqlite_engine\<close> and \<open>odbc_engine\<close>: any call may fail, and a
    statement that fails changes nothing. A flag \<open>ample\<close> says whether SQLite always has the memory to
    hand out a column, a flag \<open>counts\<close> whether the ODBC driver knows its row counts; with them
    (\<open>sqlite_ample\<close>, \<open>odbc_counting\<close>) the stores satisfy \<open>session_store\<close>. The uninitialised locals of
    \<^verbatim>\<open>sqlite_get_by_user_id\<close> are options, and reading one is undefined. \<open>Sql_Reference\<close> interprets the
    locales with one executable engine and with variants of it that fail; \<open>Sql_Properties\<close> has the
    properties.
  \<^item> \<open>Session_Json\<close>, \<open>Redis_Store\<close>: \<^verbatim>\<open>store/redis.c\<close>, the JSON documents and the commands. cJSON and
    the server are parameters with the laws of \<open>cjson_lib\<close> and \<open>redis_server\<close>. \<open>Redis_Reference\<close>
    interprets them; \<open>Redis_Properties\<close> has the properties. This store does not satisfy
    \<open>session_store\<close>: it reports success for deletions that were not carried out.
  \<^item> \<open>Manager\<close>: \<^verbatim>\<open>manager/manager.c\<close>. \<open>Manager_Spec\<close> specifies a request as a step on the map of the
    sessions and the event log (\<open>register_step\<close> and the others) and proves, once, for any store in
    the locale \<open>manager_store\<close>, that every handler implements its step. The locale has a flag
    \<open>flaky\<close> for stores whose calls may fail even with memory available, and a bound \<open>fits\<close> on the
    times they hold. \<open>Manager_Runs\<close> follows sequences of requests over any such store.
    \<open>Manager_Machine\<close> interprets the locale with the in-memory store, and \<open>Manager_Properties\<close> has
    the properties: signatures are required, a proof is accepted once, a bound key never changes, a
    closed session is never accepted again.
  \<^item> \<open>Interleaving\<close>: two requests of which one runs between the look-up and the update of the other,
    evaluated: the same proof is then granted twice, so the properties need requests in sequence.
  \<^item> \<open>Sql_Manager\<close>: the same machine over the two SQL stores, which are flaky and hold the times
    from 1970 to the year 9999, on an SQLite library that is \<open>ample\<close> and a driver that \<open>counts\<close>.
  \<^item> \<open>Http_Wrapper\<close>, \<open>Http_Machine\<close>, \<open>Http_Properties\<close>: \<^verbatim>\<open>wrapper/http.c\<close> as the handler of an event,
    its runs, and the properties carried from the manager to the messages a browser sends.
  \<^item> \<open>Example_Server\<close>, \<open>Example_Properties\<close>: the routes, the user table, the form parser and the event
    log of \<^verbatim>\<open>examples/server.c\<close>. \<open>Example_Main\<close>: its \<^verbatim>\<open>main\<close>, from the choice of the store to the
    exit code. What the HTTP library delivers in each poll, and when a signal comes, is a parameter;
    a run has the type of one store's implementation. The manager's callback gets the skipped
    sessions of a message before the application's route sees it, a login's event before the login
    is answered, and what a request of the wrapper reports when its message has been handled.

  \<^bold>\<open>The lemmas.\<close> \<open>wp\<close> is the weakest precondition of a program, \<open>framed\<close> says that it changes only
  draw counters, \<open>returns\<close> what it answers when no allocation fails, and \<open>attempts\<close> joins the two.
  Each component has its invariant, a specification of every operation as a \<open>wp\<close> rule, and a
  refinement of an abstract state. The property theorems are at the end of their theories, each
  with a witness that runs the model. What they say of a run of requests is said of programs with
  memory available: without it the setters whose results the manager ignores leave an old challenge,
  key or algorithm in place (\<open>bound_from\<close>, \<open>extended_from\<close>, \<open>login_of\<close>). What they say of a single
  request covers every pattern of failing allocations.

  \<^bold>\<open>Bounds and fuel.\<close> Three loops run on fuel and report undefined behaviour without it: the rows of a
  query by user (\<open>result_rows\<close> and \<open>rows_left\<close> bound the rows the engine has for a statement), the
  chunks of a column (\<open>text_left\<close> bounds the characters of a row, and every chunk takes at least
  one), and the mutual recursion of \<^verbatim>\<open>redis_get\<close> and \<^verbatim>\<open>redis_delete\<close>, whose fuel is the number of
  calls the stack has room for. The specifications show that the first two never run out, and that
  one call is enough for the third while no stored session is past its expiry; otherwise no
  number is. The loop of the HTTP server may run forever and is a partial function that has a value
  when it returns; the scans of header and form texts have a termination proof, and all other loops
  are structural.

  \<^bold>\<open>Not modelled.\<close> The third-party libraries (OpenSSL, cJSON, mongoose, uuidv7, SQLite, the ODBC driver
  manager, hiredis) are parameters: what the code relies on is a hypothesis or a law of a locale.
  Threads: the mutexes are part of the states, and every path that takes one releases it, but the
  calls do not interleave (\<open>Interleaving\<close> evaluates one interleaving of requests).
  The manager over the Redis store: its runs are not followed, since the store reports deletions
  that were not carried out. What the example server prints and the installation of its signal
  handler are left out. Out pointers are addresses of the callers' variables, so the guards
  against NULL out pointers have no counterpart.
\<close>

end
